(* ===== verification/Prelude.thy ===== *)
theory Prelude
  imports Main "HOL-Library.Word" "HOL-Library.AList"
begin

text \<open>
  The vocabulary every component shares.

  \<^item> Machine integers. A Go \<open>int32\<close> or \<open>int64\<close> is an \<open>int\<close> whose
    wrap-around is written out: \<open>i32\<close> is the conversion \<open>int32(x)\<close> and
    \<open>add32\<close>/\<open>sub32\<close> are the wrapping additions. An unsigned value is a \<open>nat\<close>.
  \<^item> Bytes are \<open>8 word\<close>; \<open>le_bytes\<close> is \<open>binary.LittleEndian.PutUint\<close>,
    \<open>hex_decode\<close> is \<open>hex.DecodeString\<close>.
  \<^item> Errors are values. \<open>Errf\<close> is a fresh \<open>fmt.Errorf\<close>, \<open>Wrapf\<close> one
    that wraps its cause with \<open>%w\<close>; the sentinels of the code are constructors of
    their own, and \<open>errors_is\<close> is \<open>errors.Is\<close>.
  \<^item> A procedure that may fail and changes state is a function from the state to an
    error or a value and the state it leaves: a Go function that returns an error keeps
    every write it made before, and so does the model.
\<close>

named_theorems go_simps
named_theorems i32_simps

subsection \<open>32-bit integers\<close>

definition max32 :: int where "max32 = 2147483647"

definition i32 :: "int \<Rightarrow> int" where
  "i32 x = (x + 2147483648) mod 4294967296 - 2147483648"

definition add32 :: "int \<Rightarrow> int \<Rightarrow> int" where "add32 a b = i32 (a + b)"

definition sub32 :: "int \<Rightarrow> int \<Rightarrow> int" where "sub32 a b = i32 (a - b)"

lemma i32_id [i32_simps]: "-2147483648 \<le> x \<Longrightarrow> x \<le> 2147483647 \<Longrightarrow> i32 x = x"
  by (simp add: i32_def)

lemma i32_range: "-2147483648 \<le> i32 x \<and> i32 x \<le> 2147483647"
  unfolding i32_def by (smt (verit) pos_mod_bound pos_mod_sign)

lemma i32_shift: "i32 (x + 4294967296 * k) = i32 x"
proof -
  have "(x + 2147483648 + 4294967296 * k) mod 4294967296 = (x + 2147483648) mod 4294967296"
    by (rule mod_mult_self2)
  then show ?thesis
    by (simp add: i32_def algebra_simps)
qed

lemma add32_id [i32_simps]:
  "-2147483648 \<le> a + b \<Longrightarrow> a + b \<le> 2147483647 \<Longrightarrow> add32 a b = a + b"
  by (simp add: add32_def i32_id)

lemma sub32_id [i32_simps]:
  "-2147483648 \<le> a - b \<Longrightarrow> a - b \<le> 2147483647 \<Longrightarrow> sub32 a b = a - b"
  by (simp add: sub32_def i32_id)

text \<open>
  A Go loop \<open>for h := a; h <= b; h++\<close> over \<open>int32\<close> is modelled by iterating over
  the list \<open>[a..b]\<close>. \<open>loop32\<close> is the loop as Go runs it, with the wrapping
  increment and a step budget: below the largest \<open>int32\<close> it visits exactly that
  list (at \<open>b = 2147483647\<close> the Go loop would not end).
\<close>

fun loop32 :: "nat \<Rightarrow> int \<Rightarrow> int \<Rightarrow> int list option" where
  "loop32 0 a b = None"
| "loop32 (Suc n) a b = (if a \<le> b then map_option ((#) a) (loop32 n (add32 a 1) b) else Some [])"

lemma loop32_upto:
  "-2147483648 \<le> a \<Longrightarrow> b < 2147483647 \<Longrightarrow> nat (b + 1 - a) < n \<Longrightarrow> loop32 n a b = Some [a..b]"
proof (induction n arbitrary: a)
  case 0
  then show ?case by simp
next
  case (Suc n)
  show ?case
  proof (cases "a \<le> b")
    case True
    with Suc.prems have "add32 a 1 = a + 1" by (intro add32_id) auto
    moreover from True Suc.prems have "loop32 n (a + 1) b = Some [a + 1..b]"
      by (intro Suc.IH) auto
    ultimately show ?thesis using True by (simp add: upto_rec1)
  qed simp
qed

subsection \<open>Bytes\<close>

type_synonym byte = "8 word"
type_synonym bytes = "byte list"

text \<open>\<open>chainhash.Hash\<close>: an array of 32 bytes.\<close>

type_synonym hash = "byte list"

definition zeroHash :: hash where "zeroHash = replicate 32 0"

fun le_bytes :: "nat \<Rightarrow> nat \<Rightarrow> bytes" where
  "le_bytes 0 n = []"
| "le_bytes (Suc k) n = of_nat (n mod 256) # le_bytes k (n div 256)"

fun le_val :: "bytes \<Rightarrow> nat" where
  "le_val [] = 0"
| "le_val (b # bs) = unat b + 256 * le_val bs"

lemma length_le_bytes [simp]: "length (le_bytes k n) = k"
  by (induction k n rule: le_bytes.induct) simp_all

lemma unat_of_nat_byte: "unat (of_nat (n mod 256) :: byte) = n mod 256"
  by (simp add: unat_of_nat take_bit_eq_mod)

lemma le_val_le_bytes [simp]: "le_val (le_bytes k n) = n mod 256 ^ k"
proof (induction k n rule: le_bytes.induct)
  case (2 k n)
  then show ?case
    by (simp add: unat_of_nat_byte mod_mult2_eq)
qed simp

lemma le_bytes_inj: "n < 256 ^ k \<Longrightarrow> m < 256 ^ k \<Longrightarrow> le_bytes k n = le_bytes k m \<Longrightarrow> n = m"
  by (metis le_val_le_bytes mod_less)

text \<open>\<open>uint32(x)\<close> of an \<open>int32\<close>.\<close>

definition u32 :: "int \<Rightarrow> nat" where "u32 x = nat (x mod 4294967296)"

lemma u32_id: "0 \<le> x \<Longrightarrow> x < 4294967296 \<Longrightarrow> u32 x = nat x"
  by (simp add: u32_def)

text \<open>\<open>hex.DecodeString\<close>: two digits of either case per byte, \<open>None\<close> on a foreign
  character or an odd length.\<close>

definition hex_digit :: "char \<Rightarrow> nat option" where
  "hex_digit c =
    (let n = (of_char c :: nat) in
     if 48 \<le> n \<and> n \<le> 57 then Some (n - 48)
     else if 97 \<le> n \<and> n \<le> 102 then Some (n - 87)
     else if 65 \<le> n \<and> n \<le> 70 then Some (n - 55)
     else None)"

fun hex_decode :: "string \<Rightarrow> bytes option" where
  "hex_decode [] = Some []"
| "hex_decode [c] = None"
| "hex_decode (c # d # cs) =
    (case (hex_digit c, hex_digit d, hex_decode cs) of
       (Some x, Some y, Some bs) \<Rightarrow> Some (of_nat (16 * x + y) # bs)
     | _ \<Rightarrow> None)"

lemma hex_decode_length: "hex_decode s = Some bs \<Longrightarrow> length s = 2 * length bs"
  by (induction s arbitrary: bs rule: hex_decode.induct) (auto split: option.splits)

subsection \<open>Errors\<close>

datatype err =
    ErrServerShutdown
  | ErrDeepReorg
  | ErrEOF
  | ErrUnexpectedEOF
  | ErrOutOfFuel
  | Errf string "int list"
  | Wrapf string "int list" err

fun errors_is :: "err \<Rightarrow> err \<Rightarrow> bool" where
  "errors_is (Wrapf m xs e) t = (Wrapf m xs e = t \<or> errors_is e t)"
| "errors_is e t = (e = t)"

lemma errors_is_refl [simp]: "errors_is e e"
  by (cases e) simp_all

subsection \<open>Procedures\<close>

type_synonym ('s, 'a) go = "'s \<Rightarrow> (err + 'a) \<times> 's"

definition goRet :: "'a \<Rightarrow> ('s, 'a) go" where "goRet a s = (Inr a, s)"

definition goFail :: "err \<Rightarrow> ('s, 'a) go" where "goFail e s = (Inl e, s)"

text \<open>\<open>x, err := m(); if err != nil { return err }; k(x)\<close>\<close>

definition goBind :: "('s, 'a) go \<Rightarrow> ('a \<Rightarrow> ('s, 'b) go) \<Rightarrow> ('s, 'b) go" where
  "goBind m k s = (case m s of (Inl e, s') \<Rightarrow> (Inl e, s') | (Inr a, s') \<Rightarrow> k a s')"

text \<open>\<open>if err := m(); err != nil { return fmt.Errorf("msg: %w", err) }\<close>\<close>

definition goWrap :: "string \<Rightarrow> int list \<Rightarrow> ('s, 'a) go \<Rightarrow> ('s, 'a) go" where
  "goWrap msg xs m s = (case m s of (Inl e, s') \<Rightarrow> (Inl (Wrapf msg xs e), s') | r \<Rightarrow> r)"

definition goLift :: "err + 'a \<Rightarrow> ('s, 'a) go" where "goLift r s = (r, s)"

definition goModify :: "('s \<Rightarrow> 's) \<Rightarrow> ('s, unit) go" where "goModify f s = (Inr (), f s)"

definition goGets :: "('s \<Rightarrow> 'a) \<Rightarrow> ('s, 'a) go" where "goGets f s = (Inr (f s), s)"

lemma goRet_simps [go_simps]:
  "goRet a s = (Inr b, s') \<longleftrightarrow> b = a \<and> s' = s" "goRet a s = (Inl e, s') \<longleftrightarrow> False"
  by (auto simp: goRet_def)

lemma goFail_simps [go_simps]:
  "goFail e s = (Inl e', s') \<longleftrightarrow> e' = e \<and> s' = s" "goFail e s = (Inr b, s') \<longleftrightarrow> False"
  by (auto simp: goFail_def)

lemma goBind_Inr [go_simps]:
  "goBind m k s = (Inr b, s'') \<longleftrightarrow> (\<exists>a s'. m s = (Inr a, s') \<and> k a s' = (Inr b, s''))"
  by (auto simp: goBind_def split: prod.splits sum.splits)

lemma goBind_Inl [go_simps]:
  "goBind m k s = (Inl e, s'') \<longleftrightarrow>
     m s = (Inl e, s'') \<or> (\<exists>a s'. m s = (Inr a, s') \<and> k a s' = (Inl e, s''))"
  by (auto simp: goBind_def split: prod.splits sum.splits)

lemma goWrap_Inr [go_simps]: "goWrap msg xs m s = (Inr a, s') \<longleftrightarrow> m s = (Inr a, s')"
  by (auto simp: goWrap_def split: prod.splits sum.splits)

lemma goWrap_Inl [go_simps]:
  "goWrap msg xs m s = (Inl e, s') \<longleftrightarrow> (\<exists>e'. e = Wrapf msg xs e' \<and> m s = (Inl e', s'))"
  by (auto simp: goWrap_def split: prod.splits sum.splits)

lemma goLift_simps [go_simps]: "goLift r s = (q, s') \<longleftrightarrow> q = r \<and> s' = s"
  by (auto simp: goLift_def)

lemma goModify_simps [go_simps]:
  "goModify f s = (Inr u, s') \<longleftrightarrow> s' = f s" "goModify f s = (Inl e, s') \<longleftrightarrow> False"
  by (auto simp: goModify_def)

lemma goGets_simps [go_simps]:
  "goGets f s = (Inr a, s') \<longleftrightarrow> a = f s \<and> s' = s" "goGets f s = (Inl e, s') \<longleftrightarrow> False"
  by (auto simp: goGets_def)

text \<open>
  A reflexive and transitive relation between the state before and the state after: a
  sequence keeps it when each part does, whatever the outcome of each part.
\<close>

definition keeps :: "('s \<Rightarrow> 's \<Rightarrow> bool) \<Rightarrow> ('s, 'a) go \<Rightarrow> bool" where
  "keeps R m \<longleftrightarrow> (\<forall>s. R s (snd (m s)))"

named_theorems keeps_intros

lemma keepsD: "keeps R m \<Longrightarrow> m s = (r, s') \<Longrightarrow> R s s'"
  by (metis keeps_def snd_conv)

lemma keepsI: "(\<And>s r s'. m s = (r, s') \<Longrightarrow> R s s') \<Longrightarrow> keeps R m"
  by (metis keeps_def prod.collapse)

lemma keeps_goRet [keeps_intros]: "reflp R \<Longrightarrow> keeps R (goRet a)"
  by (simp add: keeps_def goRet_def reflpD)

lemma keeps_goFail [keeps_intros]: "reflp R \<Longrightarrow> keeps R (goFail e)"
  by (simp add: keeps_def goFail_def reflpD)

lemma keeps_goLift [keeps_intros]: "reflp R \<Longrightarrow> keeps R (goLift x)"
  by (simp add: keeps_def goLift_def reflpD)

lemma keeps_goGets [keeps_intros]: "reflp R \<Longrightarrow> keeps R (goGets f)"
  by (simp add: keeps_def goGets_def reflpD)

lemma keeps_if: "keeps R m \<Longrightarrow> keeps R m' \<Longrightarrow> keeps R (if b then m else m')"
  by simp

lemma keeps_case_option:
  "keeps R m \<Longrightarrow> (\<And>a. keeps R (k a)) \<Longrightarrow> keeps R (case x of None \<Rightarrow> m | Some a \<Rightarrow> k a)"
  by (cases x) simp_all

lemma keeps_goWrap [keeps_intros]: "keeps R m \<Longrightarrow> keeps R (goWrap msg xs m)"
  by (auto simp: keeps_def goWrap_def split: prod.splits sum.splits) (metis snd_conv)+

lemma keeps_goBind [keeps_intros]:
  assumes "transp R" "keeps R m" "\<And>a. keeps R (k a)"
  shows "keeps R (goBind m k)"
proof (rule keepsI)
  fix s r s'
  assume run: "goBind m k s = (r, s')"
  obtain q t where m: "m s = (q, t)" by fastforce
  with assms(2) have 1: "R s t" by (auto dest: keepsD)
  show "R s s'"
  proof (cases q)
    case (Inl e)
    with m run 1 show ?thesis by (simp add: goBind_def)
  next
    case (Inr a)
    with m run have "k a t = (r, s')" by (simp add: goBind_def)
    with assms(3) have "R t s'" by (auto dest: keepsD)
    with 1 assms(1) show ?thesis by (auto dest: transpD)
  qed
qed

text \<open>A loop over a list of heights that stops at the first error.\<close>

fun goForEach :: "'x list \<Rightarrow> ('x \<Rightarrow> ('s, unit) go) \<Rightarrow> ('s, unit) go" where
  "goForEach [] f = goRet ()"
| "goForEach (x # xs) f = goBind (f x) (\<lambda>_. goForEach xs f)"

lemma keeps_goForEach [keeps_intros]:
  "reflp R \<Longrightarrow> transp R \<Longrightarrow> (\<And>x. keeps R (f x)) \<Longrightarrow> keeps R (goForEach xs f)"
  by (induction xs) (auto intro!: keeps_intros)

subsection \<open>Maps keyed by height\<close>

text \<open>\<open>for j := a; j <= b; j++ { delete(m, j) }\<close>\<close>

definition deleteRange :: "int \<Rightarrow> int \<Rightarrow> (int \<rightharpoonup> 'v) \<Rightarrow> (int \<rightharpoonup> 'v)" where
  "deleteRange a b m = fold (\<lambda>j m. m(j := None)) [a..b] m"

lemma fold_delete: "fold (\<lambda>j m. m(j := None)) js m k = (if k \<in> set js then None else m k)"
  by (induction js arbitrary: m) auto

lemma deleteRange_apply: "deleteRange a b m k = (if a \<le> k \<and> k \<le> b then None else m k)"
  by (simp add: deleteRange_def fold_delete)

lemma dom_deleteRange: "dom (deleteRange a b m) = dom m - {a..b}"
  by (auto simp: deleteRange_apply dom_def)

text \<open>Collecting the entries of a list of heights, or the first height that is missing.\<close>

fun collect :: "(int \<rightharpoonup> 'v) \<Rightarrow> int list \<Rightarrow> int + 'v list" where
  "collect m [] = Inr []"
| "collect m (j # js) =
    (case m j of None \<Rightarrow> Inl j
     | Some v \<Rightarrow> (case collect m js of Inl i \<Rightarrow> Inl i | Inr vs \<Rightarrow> Inr (v # vs)))"

lemma collect_Inr: "collect m js = Inr vs \<longleftrightarrow> map m js = map Some vs"
proof (induction js arbitrary: vs)
  case (Cons j js)
  show ?case
    by (cases vs) (auto simp: Cons.IH [symmetric] split: option.splits sum.splits)
qed auto

lemma collect_total: "set js \<subseteq> dom m \<longleftrightarrow> (\<exists>vs. collect m js = Inr vs)"
  by (induction js) (auto split: option.splits sum.splits)

end
