(* ===== verification/FileNames.thy ===== *)
theory FileNames
  imports Prelude "HOL-Library.Char_ord" "HOL-Library.List_Lexorder"
begin

text \<open>
  The names of the sealed files and the way a restart reads them back: the constants and
  \<open>listFiles\<close>/\<open>lastFile\<close> of \<open>cfilter-files.go\<close>, with the parts of
  \<open>fmt\<close>, \<open>filepath\<close>, \<open>regexp\<close> and \<open>sort\<close> they use. The disk is an
  association list from path to contents. A base directory is a cleaned path, so that
  \<open>filepath.Join\<close> is concatenation with a slash.

  The lemmas show that the name of a range determines the range, that names sort like
  heights while heights have at most seven digits, and that \<open>lastFile\<close> reads the
  greatest end height back.
\<close>

type_synonym disk = "(string \<times> bytes) list"

definition DefaultHeadersPerFile :: int where "DefaultHeadersPerFile = 100000"
definition DefaultFiltersPerFile :: int where "DefaultFiltersPerFile = 2000"
definition DefaultRegtestHeadersPerFile :: int where "DefaultRegtestHeadersPerFile = 2000"
definition DefaultRegtestFiltersPerFile :: int where "DefaultRegtestFiltersPerFile = 2000"

definition HeaderFileDir :: string where "HeaderFileDir = ''headers''"
definition FilterFileDir :: string where "FilterFileDir = ''filters''"
definition HeaderFileSuffix :: string where "HeaderFileSuffix = ''.header''"
definition FilterFileSuffix :: string where "FilterFileSuffix = ''.cfilter''"
definition FilterHeaderFileSuffix :: string where "FilterHeaderFileSuffix = ''.cfheader''"

definition joinPath :: "string \<Rightarrow> string \<Rightarrow> string" where
  "joinPath a b = a @ ''/'' @ b"

subsection \<open>Decimal numbers\<close>

definition digitChar :: "nat \<Rightarrow> char" where "digitChar n = char_of (48 + n)"

definition isDigit :: "char \<Rightarrow> bool" where
  "isDigit c \<longleftrightarrow> 48 \<le> (of_char c :: nat) \<and> (of_char c :: nat) \<le> 57"

fun decimal :: "nat \<Rightarrow> string" where
  "decimal n = (if n < 10 then [digitChar n] else decimal (n div 10) @ [digitChar (n mod 10)])"

declare decimal.simps [simp del]

definition zeroPad :: "nat \<Rightarrow> string \<Rightarrow> string" where
  "zeroPad k s = replicate (k - length s) (CHR ''0'') @ s"

text \<open>The verb \<open>%07d\<close>: at least seven characters, zeros after the sign.\<close>

definition fmt07d :: "int \<Rightarrow> string" where
  "fmt07d n = (if n < 0 then CHR ''-'' # zeroPad 6 (decimal (nat (- n)))
               else zeroPad 7 (decimal (nat n)))"

fun decVal :: "nat \<Rightarrow> string \<Rightarrow> nat" where
  "decVal acc [] = acc"
| "decVal acc (c # cs) = decVal (10 * acc + (of_char c - 48)) cs"

text \<open>\<open>strconv.ParseInt(s, 10, 32)\<close> on a non-empty string of digits.\<close>

definition parseInt32 :: "string \<Rightarrow> err + int" where
  "parseInt32 s = (if int (decVal 0 s) \<le> max32 then Inr (int (decVal 0 s))
                   else Inl (Errf ''value out of range'' []))"

text \<open>The patterns \<open>%s/block-%07d-%07d\<close> with one of the suffixes.\<close>

definition blockFileName :: "string \<Rightarrow> string \<Rightarrow> int \<Rightarrow> int \<Rightarrow> string" where
  "blockFileName suffix dir a b = dir @ ''/block-'' @ fmt07d a @ ''-'' @ fmt07d b @ suffix"

subsection \<open>Listing a directory\<close>

text \<open>\<open>filepath.Glob(dir + "/*" + suffix)\<close> for a directory without glob characters.\<close>

definition globMatch :: "string \<Rightarrow> string \<Rightarrow> string \<Rightarrow> bool" where
  "globMatch dir suffix f \<longleftrightarrow>
     (let base = drop (length dir + 1) f in
      take (length dir + 1) f = dir @ ''/'' \<and> length suffix \<le> length base \<and>
      drop (length base - length suffix) base = suffix \<and> CHR ''/'' \<notin> set base)"

definition listFiles :: "disk \<Rightarrow> string \<Rightarrow> string \<Rightarrow> string list" where
  "listFiles d fileDir searchPattern = sort (filter (globMatch fileDir searchPattern) (map fst d))"

text \<open>
  The expressions \<open>block-[0-9]{7}-([0-9]{7})\.suffix\<close>: the submatch of a match at
  the head of the string, and of the leftmost match anywhere in it.
\<close>

definition matchAt :: "string \<Rightarrow> string \<Rightarrow> string option" where
  "matchAt suffix s =
     (if take 6 s = ''block-'' \<and>
         length (take 7 (drop 6 s)) = 7 \<and> list_all isDigit (take 7 (drop 6 s)) \<and>
         take 1 (drop 13 s) = ''-'' \<and>
         length (take 7 (drop 14 s)) = 7 \<and> list_all isDigit (take 7 (drop 14 s)) \<and>
         take (length suffix) (drop 21 s) = suffix
      then Some (take 7 (drop 14 s)) else None)"

fun findSubmatch :: "string \<Rightarrow> string \<Rightarrow> string option" where
  "findSubmatch suffix [] = matchAt suffix []"
| "findSubmatch suffix (c # cs) =
     (case matchAt suffix (c # cs) of Some g \<Rightarrow> Some g | None \<Rightarrow> findSubmatch suffix cs)"

definition lastFile :: "disk \<Rightarrow> string \<Rightarrow> string \<Rightarrow> string \<Rightarrow> err + int" where
  "lastFile d fileDir searchPattern extractSuffix =
     (let files = listFiles d fileDir searchPattern in
      if files = [] then Inr 0
      else case findSubmatch extractSuffix (last files) of
             None \<Rightarrow> Inl (Errf ''error extracting number from file'' [])
           | Some g \<Rightarrow> (case parseInt32 g of
                 Inl e \<Rightarrow> Inl (Wrapf ''error parsing number'' [] e)
               | Inr n \<Rightarrow> Inr n))"

subsection \<open>Decimal printing and reading\<close>

lemma of_char_digitChar [simp]: "d < 10 \<Longrightarrow> (of_char (digitChar d) :: nat) = 48 + d"
  by (simp add: digitChar_def)

lemma isDigit_digitChar [simp]: "d < 10 \<Longrightarrow> isDigit (digitChar d)"
  by (simp add: isDigit_def)

lemma isDigit_0 [simp]: "isDigit (CHR ''0'')"
  by (simp add: isDigit_def)

lemma not_isDigit [simp]: "\<not> isDigit (CHR ''-'')" "\<not> isDigit (CHR ''.'')" "\<not> isDigit (CHR ''/'')"
  by (simp_all add: isDigit_def)

lemma decVal_append: "decVal acc (xs @ ys) = decVal (decVal acc xs) ys"
  by (induction xs arbitrary: acc) simp_all

lemma decVal_zeros [simp]: "decVal 0 (replicate k (CHR ''0'') @ s) = decVal 0 s"
  by (induction k) simp_all

lemma decVal_decimal [simp]: "decVal 0 (decimal n) = n"
proof (induction n rule: decimal.induct)
  case (1 n)
  show ?case
  proof (cases "n < 10")
    case True
    then show ?thesis by (simp add: decimal.simps [of n])
  next
    case False
    with 1 have "decVal 0 (decimal (n div 10)) = n div 10" by simp
    with False show ?thesis by (simp add: decimal.simps [of n] decVal_append)
  qed
qed

lemma digits_decimal [simp]: "list_all isDigit (decimal n)"
proof (induction n rule: decimal.induct)
  case (1 n)
  then show ?case by (cases "n < 10") (simp_all add: decimal.simps [of n])
qed

lemma length_decimal: "n < 10 ^ Suc k \<Longrightarrow> length (decimal n) \<le> Suc k"
proof (induction k arbitrary: n)
  case 0
  then show ?case by (simp add: decimal.simps [of n])
next
  case (Suc k)
  show ?case
  proof (cases "n < 10")
    case False
    from Suc.prems have "n div 10 < 10 ^ Suc k" by (simp add: less_mult_imp_div_less mult.commute)
    with Suc.IH have "length (decimal (n div 10)) \<le> Suc k" by blast
    with False show ?thesis by (simp add: decimal.simps [of n])
  qed (simp add: decimal.simps [of n])
qed

lemma digits_zeroPad [simp]: "list_all isDigit (zeroPad k s) = list_all isDigit s"
  by (induction k) (auto simp: zeroPad_def list_all_iff)

lemma digits_fmt07d [simp]: "0 \<le> n \<Longrightarrow> list_all isDigit (fmt07d n)"
  by (simp add: fmt07d_def)

lemma decVal_fmt07d [simp]: "0 \<le> n \<Longrightarrow> decVal 0 (fmt07d n) = nat n"
  by (simp add: fmt07d_def zeroPad_def)

lemma length_fmt07d: "0 \<le> n \<Longrightarrow> n < 10000000 \<Longrightarrow> length (fmt07d n) = 7"
  using length_decimal [of "nat n" 6] by (simp add: fmt07d_def zeroPad_def)

lemma fmt07d_inj: "0 \<le> n \<Longrightarrow> 0 \<le> m \<Longrightarrow> fmt07d n = fmt07d m \<Longrightarrow> n = m"
  by (metis decVal_fmt07d eq_nat_nat_iff)

subsection \<open>Names determine ranges\<close>

definition okSuffix :: "string \<Rightarrow> bool" where
  "okSuffix s \<longleftrightarrow> s \<noteq> [] \<and> hd s = CHR ''.'' \<and> CHR ''/'' \<notin> set s \<and> CHR ''.'' \<notin> set (tl s)"

lemma okSuffix_known [simp]:
  "okSuffix HeaderFileSuffix" "okSuffix FilterFileSuffix" "okSuffix FilterHeaderFileSuffix"
  by (simp_all add: okSuffix_def HeaderFileSuffix_def FilterFileSuffix_def FilterHeaderFileSuffix_def)

lemma digits_split:
  assumes "list_all isDigit xs" "list_all isDigit ys" "xs @ us = ys @ vs"
    and "us \<noteq> [] \<Longrightarrow> \<not> isDigit (hd us)" "vs \<noteq> [] \<Longrightarrow> \<not> isDigit (hd vs)"
  shows "xs = ys \<and> us = vs"
proof -
  have tw: "takeWhile isDigit (xs @ us) = xs" if "list_all isDigit xs"
    "us \<noteq> [] \<Longrightarrow> \<not> isDigit (hd us)" for xs us
    using that by (cases us) (auto simp: list_all_iff takeWhile_append2)
  have "xs = ys" using tw [of xs us] tw [of ys vs] assms by simp
  with assms(3) show ?thesis by simp
qed

lemma no_slash_fmt07d: "0 \<le> n \<Longrightarrow> CHR ''/'' \<notin> set (fmt07d n)"
  using digits_fmt07d [of n] by (auto simp: list_all_iff)

lemma dir_split:
  assumes "xs @ ''/'' @ us = ys @ ''/'' @ vs" "CHR ''/'' \<notin> set us" "CHR ''/'' \<notin> set vs"
  shows "xs = ys \<and> us = vs"
proof -
  have tw: "takeWhile (\<lambda>c. c \<noteq> CHR ''/'') (rev us @ CHR ''/'' # rev xs) = rev us"
    if "CHR ''/'' \<notin> set us" for xs us :: string
  proof -
    have "takeWhile (\<lambda>c. c \<noteq> CHR ''/'') (rev us @ CHR ''/'' # rev xs)
        = rev us @ takeWhile (\<lambda>c. c \<noteq> CHR ''/'') (CHR ''/'' # rev xs)"
      using that by (intro takeWhile_append2) auto
    then show ?thesis by simp
  qed
  from assms(1) have "rev us @ CHR ''/'' # rev xs = rev vs @ CHR ''/'' # rev ys"
    by (metis append_Cons append_Nil append_assoc rev.simps(2) rev_append)
  with tw [OF assms(2)] tw [OF assms(3)] have "us = vs" by (metis rev_swap)
  with assms(1) show ?thesis by simp
qed

lemma blockFileName_inj:
  assumes "0 \<le> a" "0 \<le> b" "0 \<le> a'" "0 \<le> b'" "okSuffix s" "okSuffix s'"
    and eq: "blockFileName s dir a b = blockFileName s' dir' a' b'"
  shows "dir = dir' \<and> a = a' \<and> b = b' \<and> s = s'"
proof -
  have "dir @ ''/'' @ (''block-'' @ fmt07d a @ ''-'' @ fmt07d b @ s)
      = dir' @ ''/'' @ (''block-'' @ fmt07d a' @ ''-'' @ fmt07d b' @ s')"
    using eq by (simp add: blockFileName_def)
  then have 1: "dir = dir' \<and> ''block-'' @ fmt07d a @ ''-'' @ fmt07d b @ s
      = ''block-'' @ fmt07d a' @ ''-'' @ fmt07d b' @ s'"
    by (rule dir_split) (use assms in \<open>auto simp: no_slash_fmt07d okSuffix_def\<close>)
  then have "fmt07d a @ ''-'' @ fmt07d b @ s = fmt07d a' @ ''-'' @ fmt07d b' @ s'" by simp
  with assms have 2: "fmt07d a = fmt07d a' \<and> ''-'' @ fmt07d b @ s = ''-'' @ fmt07d b' @ s'"
    by (intro digits_split) simp_all
  then have "fmt07d b @ s = fmt07d b' @ s'" by simp
  with assms have "fmt07d b = fmt07d b' \<and> s = s'"
    by (intro digits_split) (auto simp: okSuffix_def)
  with 1 2 assms show ?thesis by (auto dest: fmt07d_inj)
qed

text \<open>As a rewrite rule: distinct ranges, directories or suffixes are distinct names.\<close>

lemma blockFileName_eq_iff:
  assumes "0 \<le> a" "0 \<le> b" "0 \<le> a'" "0 \<le> b'" "okSuffix s" "okSuffix s'"
  shows "blockFileName s dir a b = blockFileName s' dir' a' b' \<longleftrightarrow>
         dir = dir' \<and> a = a' \<and> b = b' \<and> s = s'"
  using blockFileName_inj [OF assms] by auto

text \<open>The end height and the suffix are determined whatever the start is.\<close>

lemma takeWhile_split: "(\<forall>c\<in>set xs. P c) \<Longrightarrow> \<not> P d \<Longrightarrow> takeWhile P (xs @ d # ys) = xs"
  by (induction xs) simp_all

lemma blockFileName_end:
  assumes "0 \<le> b" "0 \<le> b'" "okSuffix s" "okSuffix s'" "blockFileName s dir a b = blockFileName s' dir' a' b'"
  shows "b = b' \<and> s = s'"
proof -
  have name: "takeWhile (\<lambda>c. c \<noteq> CHR ''.'') (rev (blockFileName s dir a b)) = rev (tl s) \<and>
      takeWhile isDigit (drop (Suc (length (tl s))) (rev (blockFileName s dir a b))) = rev (fmt07d b)"
    if "0 \<le> b" "okSuffix s" for s dir a b
  proof -
    from that(2) have s: "s = CHR ''.'' # tl s" "CHR ''.'' \<notin> set (tl s)" by (cases s; simp add: okSuffix_def)+
    let ?x = "rev (fmt07d b) @ CHR ''-'' # rev (dir @ ''/block-'' @ fmt07d a)"
    have r: "rev (blockFileName s dir a b) = rev (tl s) @ CHR ''.'' # ?x"
      by (subst s(1)) (simp add: blockFileName_def)
    have "takeWhile (\<lambda>c. c \<noteq> CHR ''.'') (rev (tl s) @ CHR ''.'' # ?x) = rev (tl s)"
      by (rule takeWhile_split) (use s(2) in auto)
    moreover have "drop (Suc (length (tl s))) (rev (tl s) @ CHR ''.'' # ?x) = ?x" by simp
    moreover have "takeWhile isDigit ?x = rev (fmt07d b)"
      by (rule takeWhile_split) (use digits_fmt07d [OF that(1)] in \<open>simp_all add: list_all_iff\<close>)
    ultimately show ?thesis unfolding r by simp
  qed
  have t: "rev (tl s) = rev (tl s')" using name [OF assms(1,3), of dir a] name [OF assms(2,4), of dir' a'] assms(5) by simp
  then have "fmt07d b = fmt07d b'"
    using name [OF assms(1,3), of dir a] name [OF assms(2,4), of dir' a'] assms(5) by simp
  moreover have "s = s'" using t assms(3,4) by (cases s; cases s') (simp_all add: okSuffix_def)
  ultimately show ?thesis using assms(1,2) fmt07d_inj by blast
qed

subsection \<open>Names sort like heights\<close>

lemma decVal_shift: "decVal acc xs = acc * 10 ^ length xs + decVal 0 xs"
proof (induction xs arbitrary: acc)
  case (Cons c cs)
  show ?case
    using Cons.IH [of "10 * acc + (of_char c - 48)"] Cons.IH [of "of_char c - 48"]
    by (simp add: algebra_simps)
qed simp

lemma decVal_bound: "list_all isDigit xs \<Longrightarrow> decVal 0 xs < 10 ^ length xs"
proof (induction xs)
  case (Cons c cs)
  then have "of_char c \<le> (57::nat)" by (simp add: isDigit_def)
  then have "of_char c - 48 \<le> (9::nat)" by linarith
  then have "(of_char c - 48) * 10 ^ length cs \<le> 9 * (10 ^ length cs :: nat)" by (rule mult_le_mono1)
  moreover from Cons have "decVal 0 cs < 10 ^ length cs" by simp
  ultimately have "(of_char c - 48) * 10 ^ length cs + decVal 0 cs < 10 * 10 ^ length cs" by linarith
  then show ?case using decVal_shift [of "of_char c - 48" cs] by simp
qed simp

lemma digits_less_iff:
  "length xs = length ys \<Longrightarrow> list_all isDigit xs \<Longrightarrow> list_all isDigit ys \<Longrightarrow>
   xs < ys \<longleftrightarrow> decVal 0 xs < decVal 0 ys"
proof (induction xs ys rule: list_induct2)
  case (Cons c cs d ds)
  let ?c = "of_char c - 48 :: nat" and ?d = "of_char d - 48 :: nat" and ?p = "10 ^ length ds :: nat"
  from Cons.prems have dig: "48 \<le> (of_char c :: nat)" "48 \<le> (of_char d :: nat)"
    by (simp_all add: isDigit_def)
  from Cons.prems Cons.hyps have cs: "decVal 0 cs < ?p" and ds: "decVal 0 ds < ?p"
    using decVal_bound [of cs] decVal_bound [of ds] by simp_all
  have val: "decVal 0 (c # cs) = ?c * ?p + decVal 0 cs" "decVal 0 (d # ds) = ?d * ?p + decVal 0 ds"
    using decVal_shift [of ?c cs] decVal_shift [of ?d ds] Cons.hyps by simp_all
  have eq: "c = d \<longleftrightarrow> ?c = ?d" using dig by (metis eq_diff_iff of_char_eq_iff)
  have lt: "c < d \<longleftrightarrow> ?c < ?d" using dig by (simp add: less_char_def) linarith
  consider "?c < ?d" | "?c = ?d" | "?d < ?c" by linarith
  then show ?case
  proof cases
    case 1
    then have "(?c + 1) * ?p \<le> ?d * ?p" by (intro mult_right_mono) simp_all
    with cs have "decVal 0 (c # cs) < decVal 0 (d # ds)" unfolding val by (simp add: algebra_simps)
    with 1 lt show ?thesis by simp
  next
    case 2
    with Cons eq lt show ?thesis by (simp only: val) simp
  next
    case 3
    then have "(?d + 1) * ?p \<le> ?c * ?p" by (intro mult_right_mono) simp_all
    with ds have "\<not> decVal 0 (c # cs) < decVal 0 (d # ds)" unfolding val by (simp add: algebra_simps)
    with 3 lt eq show ?thesis by simp
  qed
qed simp

lemma append_less_append: "(zs @ xs < zs @ ys) = (xs < (ys :: string))"
  by (induction zs) simp_all

lemma less_append_mono: "length xs = length ys \<Longrightarrow> xs < ys \<Longrightarrow> xs @ us < ys @ (vs :: string)"
  by (induction xs ys rule: list_induct2) auto

lemma blockFileName_less:
  assumes "0 \<le> a" "a < a'" "a' < 10000000"
  shows "blockFileName s dir a b < blockFileName s dir a' b'"
proof -
  have "fmt07d a < fmt07d a'"
    using assms by (simp add: digits_less_iff length_fmt07d)
  then have "fmt07d a @ ''-'' @ fmt07d b @ s < fmt07d a' @ ''-'' @ fmt07d b' @ s"
    using assms by (intro less_append_mono) (simp_all add: length_fmt07d)
  then show ?thesis
    unfolding blockFileName_def append_less_append .
qed

subsection \<open>Reading the last sealed height back\<close>

definition plainDir :: "string \<Rightarrow> bool" where
  "plainDir dir \<longleftrightarrow> list_all (\<lambda>i. take 6 (drop i dir) \<noteq> ''block-'') [0..<length dir]"

lemma matchAt_name:
  "0 \<le> a \<Longrightarrow> a < 10000000 \<Longrightarrow> 0 \<le> b \<Longrightarrow> b < 10000000 \<Longrightarrow>
   matchAt s (''block-'' @ fmt07d a @ ''-'' @ fmt07d b @ s) = Some (fmt07d b)"
  by (simp add: matchAt_def length_fmt07d)

lemma matchAt_dir:
  assumes "plainDir dir" "i < length (dir @ ''/'')"
  shows "matchAt s (drop i ((dir @ ''/'') @ t)) = None"
proof -
  have "take 6 (drop i (dir @ CHR ''/'' # t)) \<noteq> ''block-''"
  proof
    assume eq: "take 6 (drop i (dir @ CHR ''/'' # t)) = ''block-''"
    show False
    proof (cases "i + 6 \<le> length dir")
      case True
      with eq have "take 6 (drop i dir) = ''block-''" by simp
      with assms True show False by (auto simp: plainDir_def list_all_iff)
    next
      case False
      with assms have "CHR ''/'' \<in> set (take 6 (drop i (dir @ CHR ''/'' # t)))"
        by (auto simp: take_Cons')
      with eq show False by simp
    qed
  qed
  then show ?thesis by (simp add: matchAt_def)
qed

lemma findSubmatch_skip:
  "(\<And>i. i < length p \<Longrightarrow> matchAt s (drop i (p @ t)) = None) \<Longrightarrow>
   findSubmatch s (p @ t) = findSubmatch s t"
proof (induction p)
  case (Cons c p)
  have "matchAt s (c # p @ t) = None" using Cons.prems [of 0] by simp
  moreover have "findSubmatch s (p @ t) = findSubmatch s t"
    using Cons.prems [of "Suc _"] by (intro Cons.IH) simp
  ultimately show ?case by simp
qed simp

lemma findSubmatch_name:
  assumes "plainDir dir" "0 \<le> a" "a < 10000000" "0 \<le> b" "b < 10000000"
  shows "findSubmatch s (blockFileName s dir a b) = Some (fmt07d b)"
proof -
  let ?t = "''block-'' @ fmt07d a @ ''-'' @ fmt07d b @ s"
  have "findSubmatch s ((dir @ ''/'') @ ?t) = findSubmatch s ?t"
    using assms(1) by (intro findSubmatch_skip matchAt_dir)
  also have "\<dots> = Some (fmt07d b)"
    using matchAt_name [of a b s] assms by simp
  finally show ?thesis by (simp add: blockFileName_def)
qed

lemma last_sort:
  assumes "m \<in> set xs" "\<And>x. x \<in> set xs \<Longrightarrow> x \<le> m"
  shows "last (sort xs) = (m :: 'a :: linorder)"
proof -
  from assms(1) have ne: "sort xs \<noteq> []" by (metis empty_iff empty_set set_sort)
  then have "last (sort xs) \<in> set xs" by (metis last_in_set set_sort)
  moreover have "m \<le> last (sort xs)"
    using assms(1) ne by (metis append_butlast_last_id in_set_conv_nth last_conv_nth length_pos_if_in_set
        less_Suc_eq_le Suc_pred' set_sort sorted_nth_mono sorted_sort diff_less less_numeral_extra(1) length_greater_0_conv)
  ultimately show ?thesis using assms(2) by force
qed

text \<open>The directory holds exactly the files of the first \<open>k\<close> ranges of \<open>n\<close> heights.\<close>

definition sealedRanges :: "disk \<Rightarrow> string \<Rightarrow> string \<Rightarrow> int \<Rightarrow> int \<Rightarrow> bool" where
  "sealedRanges d dir s n k \<longleftrightarrow>
     set (filter (globMatch dir s) (map fst d)) =
     set (map (\<lambda>i. blockFileName s dir (i * n) (i * n + n - 1)) [0..k - 1])"

lemma lastFile_empty: "sealedRanges d dir s n 0 \<Longrightarrow> lastFile d dir s s = Inr 0"
  by (auto simp: sealedRanges_def lastFile_def listFiles_def Let_def filter_empty_conv)

lemma lastFile_sealed:
  assumes "sealedRanges d dir s n k" "plainDir dir" "0 < n" "0 < k" "k * n \<le> 10000000"
  shows "lastFile d dir s s = Inr (k * n - 1)"
proof -
  let ?name = "\<lambda>i. blockFileName s dir (i * n) (i * n + n - 1)"
  let ?fs = "filter (globMatch dir s) (map fst d)"
  have fs: "set ?fs = ?name ` {0..k - 1}" using assms(1) by (simp add: sealedRanges_def)
  have top: "(k - 1) * n + n = k * n" by (simp add: algebra_simps)
  have pos: "0 \<le> (k - 1) * n" using assms by simp
  have lt: "(k - 1) * n < 10000000" using top assms by linarith
  have last: "last (listFiles d dir s) = ?name (k - 1)"
    unfolding listFiles_def
  proof (rule last_sort)
    show "?name (k - 1) \<in> set ?fs" using fs assms by force
  next
    fix x assume "x \<in> set ?fs"
    then have "x \<in> ?name ` {0..k - 1}" by (simp only: fs)
    then obtain i where i: "0 \<le> i" "i \<le> k - 1" "x = ?name i" by auto
    show "x \<le> ?name (k - 1)"
    proof (cases "i = k - 1")
      case False
      with i have "i < k - 1" by simp
      with assms have "i * n < (k - 1) * n" by (intro mult_strict_right_mono)
      with i lt assms have "?name i < ?name (k - 1)" by (intro blockFileName_less) simp_all
      with i show ?thesis by simp
    qed (simp add: i)
  qed
  have "set (listFiles d dir s) = ?name ` {0..k - 1}" unfolding listFiles_def set_sort by (rule fs)
  with assms(4) have ne: "listFiles d dir s \<noteq> []" by force
  have "findSubmatch s (?name (k - 1)) = Some (fmt07d ((k - 1) * n + n - 1))"
    using assms pos lt top by (intro findSubmatch_name) simp_all
  moreover have "parseInt32 (fmt07d ((k - 1) * n + n - 1)) = Inr (k * n - 1)"
    using assms pos top by (simp add: parseInt32_def max32_def)
  ultimately show ?thesis using ne last by (simp add: lastFile_def Let_def top)
qed

text \<open>The name of a range is found by the listing of its directory.\<close>

lemma globMatch_name:
  assumes "0 \<le> a" "0 \<le> b" "CHR ''/'' \<notin> set s"
  shows "globMatch dir s (blockFileName s dir a b)"
proof -
  have "CHR ''/'' \<notin> set (fmt07d n)" if "0 \<le> n" for n
    using digits_fmt07d [OF that] by (auto simp: list_all_iff isDigit_def)
  moreover define base where "base = ''block-'' @ fmt07d a @ ''-'' @ fmt07d b"
  ultimately have "CHR ''/'' \<notin> set (base @ s)" using assms by simp
  moreover have "blockFileName s dir a b = (dir @ ''/'') @ base @ s" by (simp add: blockFileName_def base_def)
  ultimately show ?thesis by (simp add: globMatch_def Let_def)
qed

text \<open>A listing is the names in the order of the ranges.\<close>

lemma listFiles_sealed:
  assumes "sealedRanges d dir s n k" "distinct (map fst d)" "0 < n" "k * n \<le> 10000000"
  shows "listFiles d dir s = map (\<lambda>i. blockFileName s dir (i * n) (i * n + n - 1)) [0..k - 1]"
proof (rule sorted_distinct_set_unique)
  let ?name = "\<lambda>i. blockFileName s dir (i * n) (i * n + n - 1)"
  show "sorted (listFiles d dir s)" "distinct (listFiles d dir s)" using assms(2) by (simp_all add: listFiles_def)
  show "set (listFiles d dir s) = set (map ?name [0..k - 1])" using assms(1) by (simp add: listFiles_def sealedRanges_def)
  have "sorted_wrt (\<lambda>i j. ?name i < ?name j) [0..k - 1]"
  proof (rule sorted_wrt_mono_rel [OF _ sorted_wrt_upto])
    fix i j assume i: "i \<in> set [0..k - 1]" and j: "j \<in> set [0..k - 1]" and ij: "i < j"
    have "j * n < k * n" using j assms(3) by simp
    then have "j * n < 10000000" using assms(4) by (rule less_le_trans)
    then show "?name i < ?name j" using i ij assms(3) by (intro blockFileName_less) simp_all
  qed
  then have "sorted_wrt (<) (map ?name [0..k - 1])" by (simp add: sorted_wrt_map)
  then show "sorted (map ?name [0..k - 1])" "distinct (map ?name [0..k - 1])"
    using strict_sorted_iff by blast+
qed

end
