(* ===== verification/Backend.thy ===== *)
theory Backend
  imports FileNames
begin

text \<open>
  What the program is given from outside: bitcoind behind \<open>rpcclient\<close>, the btcd
  libraries \<open>wire\<close> and \<open>chainhash\<close>, the file system and the \<open>quit\<close>
  channel. All of it is one record of functions, an argument of every definition that
  uses it.

  The backend answers the \<open>n\<close>-th request of a run with the chain it has at that
  moment, \<open>rpc E n\<close>: two requests of the same Go function may see two different
  chains, which is what a reorg during an operation is. Each request, file operation and
  test of \<open>quit\<close> takes one tick of the clock \<open>now\<close>.
\<close>

record blockFilter =
  bfFilter :: string
  bfHeader :: string

record 'h chainView =
  GetBlockHash :: "int \<Rightarrow> err + hash"
  GetBlockHeader :: "hash \<Rightarrow> err + 'h"
  GetBlockFilter :: "hash \<Rightarrow> err + blockFilter"
  GetBlockCount :: "err + int"

text \<open>A file operation may fail to open its file, stop after some bytes, or fail to close.\<close>

datatype ioFault = OpenFault | WriteFault nat | CloseFault

record 'h env =
  rpc :: "nat \<Rightarrow> 'h chainView"
  quitClosed :: "nat \<Rightarrow> bool"
  ioFaults :: "nat \<Rightarrow> ioFault option"
  DoubleHash :: "bytes \<Rightarrow> hash"
  NewHashFromStr :: "string \<Rightarrow> err + hash"
  PrevBlock :: "'h \<Rightarrow> hash"
  BlockHash :: "'h \<Rightarrow> hash"
  SerializeHeader :: "'h \<Rightarrow> bytes"
  DeserializeHeader :: "bytes \<Rightarrow> err + 'h \<times> bytes"
  WriteVarInt :: "nat \<Rightarrow> bytes"
  VarIntSerializeSize :: "nat \<Rightarrow> nat"
  WriteVarBytes :: "bytes \<Rightarrow> bytes"
  ReadVarInt :: "bytes \<Rightarrow> err + nat \<times> bytes"
  ReadVarBytes :: "nat \<Rightarrow> bytes \<Rightarrow> err + bytes \<times> bytes"

subsection \<open>Documented behaviour of the libraries\<close>

text \<open>
  A serialized block header has 80 bytes (\<open>wire.MaxBlockHeaderPayload\<close>), of which
  4 to 36 are the hash of the previous block; its block hash is the double SHA-256 of
  them; deserializing reads back what was written and reports \<open>io.EOF\<close> at the end.
\<close>

definition MaxBlockHeaderPayload :: nat where "MaxBlockHeaderPayload = 80"
definition HashSize :: nat where "HashSize = 32"

definition header_codec :: "'h env \<Rightarrow> bool" where
  "header_codec E \<longleftrightarrow>
     (\<forall>h. length (SerializeHeader E h) = MaxBlockHeaderPayload) \<and>
     (\<forall>h. take 32 (drop 4 (SerializeHeader E h)) = PrevBlock E h) \<and>
     (\<forall>h. BlockHash E h = DoubleHash E (SerializeHeader E h)) \<and>
     (\<forall>h r. DeserializeHeader E (SerializeHeader E h @ r) = Inr (h, r)) \<and>
     DeserializeHeader E [] = Inl ErrEOF"

text \<open>
  Variable-length integers: \<open>VarIntSerializeSize\<close> is the number of bytes
  \<open>WriteVarInt\<close> writes, at least one; \<open>ReadVarInt\<close> reads them back; a byte
  string is its length followed by its bytes, and reading stops with \<open>io.EOF\<close> at
  the end of the input.
\<close>

definition wire_codec :: "'h env \<Rightarrow> bool" where
  "wire_codec E \<longleftrightarrow>
     (\<forall>n. length (WriteVarInt E n) = VarIntSerializeSize E n) \<and>
     (\<forall>n. 0 < VarIntSerializeSize E n) \<and>
     (\<forall>b. WriteVarBytes E b = WriteVarInt E (length b) @ b) \<and>
     (\<forall>n r. n < 18446744073709551616 \<longrightarrow> ReadVarInt E (WriteVarInt E n @ r) = Inr (n, r)) \<and>
     (\<forall>m b r. length b \<le> m \<longrightarrow> m < 18446744073709551616 \<longrightarrow>
        ReadVarBytes E m (WriteVarBytes E b @ r) = Inr (b, r)) \<and>
     (\<forall>m. ReadVarBytes E m [] = Inl ErrEOF)"

lemma wire_codecD:
  assumes "wire_codec E"
  shows "length (WriteVarInt E n) = VarIntSerializeSize E n"
    and "WriteVarBytes E b = WriteVarInt E (length b) @ b"
    and "n < 18446744073709551616 \<Longrightarrow> ReadVarInt E (WriteVarInt E n @ r) = Inr (n, r)"
    and "length b \<le> m \<Longrightarrow> m < 18446744073709551616 \<Longrightarrow> ReadVarBytes E m (WriteVarBytes E b @ r) = Inr (b, r)"
    and "ReadVarBytes E m [] = Inl ErrEOF"
  using assms unfolding wire_codec_def by blast+

text \<open>Hashes have 32 bytes.\<close>

definition hash_codec :: "'h env \<Rightarrow> bool" where
  "hash_codec E \<longleftrightarrow> (\<forall>b. length (DoubleHash E b) = HashSize)"

text \<open>Asked for a header by hash, the backend answers with the header of that hash.\<close>

definition header_by_hash :: "'h env \<Rightarrow> bool" where
  "header_by_hash E \<longleftrightarrow>
     (\<forall>n x h. GetBlockHeader (rpc E n) x = Inr h \<longrightarrow> BlockHash E h = x)"

subsection \<open>The shared state\<close>

text \<open>
  \<open>heightToHashCache\<close>, without its client. Of its lock, a \<open>sync.RWMutex\<close>, what is left
  between two steps: \<open>writerWaits\<close> says that somebody has asked for the write lock who will
  never get it, because the read lock is never given back; from then on the lock is given to nobody.
\<close>

record h2hCache =
  heightToHash :: "int \<rightharpoonup> hash"
  bestHeight :: int
  writerWaits :: bool

text \<open>What all producers and the request handlers share.\<close>

record shared =
  now :: nat
  disk :: disk
  cache :: h2hCache

definition rpcCall :: "'h env \<Rightarrow> ('h chainView \<Rightarrow> err + 'a) \<Rightarrow> ('z shared_scheme, 'a) go" where
  "rpcCall E f s = (f (rpc E (now s)), s\<lparr>now := Suc (now s)\<rparr>)"

text \<open>\<open>select { case <-quit: return errServerShutdown; default: }\<close>\<close>

definition checkQuit :: "'h env \<Rightarrow> ('z shared_scheme, unit) go" where
  "checkQuit E s = (if quitClosed E (now s) then Inl ErrServerShutdown else Inr (),
                    s\<lparr>now := Suc (now s)\<rparr>)"

text \<open>
  What a serializer has written when it returns, and its error. Go's serializers write
  to an \<open>io.Writer\<close> as they go, so the bytes before an error are out already.
\<close>

type_synonym stream = "bytes \<times> err option"

text \<open>
  The loop of every serializer: look each height up, write its entry, stop with an error
  at a height that is missing.
\<close>

fun streamEach :: "string \<Rightarrow> (int \<rightharpoonup> 'v) \<Rightarrow> ('v \<Rightarrow> bytes) \<Rightarrow> int list \<Rightarrow> stream" where
  "streamEach msg m put [] = ([], None)"
| "streamEach msg m put (j # js) =
     (case m j of
        None \<Rightarrow> ([], Some (Errf msg [j]))
      | Some v \<Rightarrow> (case streamEach msg m put js of (bs, e) \<Rightarrow> (put v @ bs, e)))"

text \<open>
  \<open>createAndWrite\<close>: create the file, run the serializer into it, close it. A failure
  leaves whatever was written under the file's final name.
\<close>

definition createAndWrite :: "'h env \<Rightarrow> string \<Rightarrow> stream \<Rightarrow> ('z shared_scheme, unit) go" where
  "createAndWrite E fileName out s =
     (let fault = ioFaults E (now s); s1 = s\<lparr>now := Suc (now s)\<rparr>;
          put = (\<lambda>bs. s1\<lparr>disk := AList.update fileName bs (disk s1)\<rparr>)
      in case fault of
           Some OpenFault \<Rightarrow> (Inl (Errf ''error creating file'' []), s1)
         | Some (WriteFault k) \<Rightarrow>
             (Inl (Wrapf ''error writing file'' [] (Errf ''write error'' [])), put (take k (fst out)))
         | _ \<Rightarrow>
             (case snd out of
                Some e \<Rightarrow> (Inl (Wrapf ''error writing file'' [] e), put (fst out))
              | None \<Rightarrow> (if fault = Some CloseFault then Inl (Errf ''error closing file'' []) else Inr (),
                         put (fst out))))"

text \<open>\<open>os.ReadFile\<close>, or \<open>os.Open\<close> followed by reading to the end.\<close>

definition readFile :: "'h env \<Rightarrow> string \<Rightarrow> ('z shared_scheme, bytes) go" where
  "readFile E fileName s =
     (case map_of (disk s) fileName of
        None \<Rightarrow> Inl (Errf ''no such file'' [])
      | Some bs \<Rightarrow> if ioFaults E (now s) = None then Inr bs else Inl (Errf ''read error'' []),
      s\<lparr>now := Suc (now s)\<rparr>)"

text \<open>\<open>os.MkdirAll\<close>: directories are implicit in the paths of files.\<close>

definition mkdirAll :: "'h env \<Rightarrow> ('z shared_scheme, unit) go" where
  "mkdirAll E s = (if ioFaults E (now s) = None then Inr () else Inl (Errf ''error creating directory'' []),
                   s\<lparr>now := Suc (now s)\<rparr>)"

definition fileExists :: "disk \<Rightarrow> string \<Rightarrow> bool" where
  "fileExists d name \<longleftrightarrow> map_of d name \<noteq> None"

subsection \<open>What a serializer writes\<close>

lemma streamEach_collect:
  "collect m js = Inr vs \<Longrightarrow> streamEach msg m put js = (concat (map put vs), None)"
  by (induction js arbitrary: vs) (auto split: option.splits sum.splits)

lemma streamEach_missing:
  "collect m js = Inl j \<Longrightarrow> snd (streamEach msg m put js) = Some (Errf msg [j])"
  by (induction js) (auto split: option.splits sum.splits prod.splits)

lemma streamEach_None: "snd (streamEach msg m put js) = None \<longleftrightarrow> set js \<subseteq> dom m"
  by (induction js) (auto split: option.splits prod.splits)

lemma streamEach_cong: "(\<And>j. j \<in> set js \<Longrightarrow> m j = m' j) \<Longrightarrow> streamEach msg m put js = streamEach msg m' put js"
  by (induction js) (auto split: option.splits)

lemma streamEach_append:
  "streamEach msg m put (js @ ks) =
     (case streamEach msg m put js of
        (bs, Some e) \<Rightarrow> (bs, Some e)
      | (bs, None) \<Rightarrow> (case streamEach msg m put ks of (cs, e) \<Rightarrow> (bs @ cs, e)))"
  by (induction js) (auto split: option.splits prod.splits)

lemma streamEach_length:
  assumes "\<And>v. length (put v) = w" "snd (streamEach msg m put js) = None"
  shows "length (fst (streamEach msg m put js)) = length js * w"
  using assms by (induction js) (auto split: option.splits prod.splits)

subsection \<open>What the operations leave alone\<close>

text \<open>
  \<open>quietStep E s s'\<close>: time did not go back, and every hash the cache gained was
  reported by the backend in between.
\<close>

definition cacheInv :: "h2hCache \<Rightarrow> bool" where
  "cacheInv c \<longleftrightarrow> (\<forall>h. heightToHash c h \<noteq> None \<longrightarrow> h \<le> bestHeight c)"

definition cacheGrows :: "'h env \<Rightarrow> 'z shared_scheme \<Rightarrow> 'z shared_scheme \<Rightarrow> bool" where
  "cacheGrows E s s' \<longleftrightarrow> now s \<le> now s' \<and>
     (cacheInv (cache s) \<longrightarrow> cacheInv (cache s')) \<and>
     (\<forall>h x. heightToHash (cache s') h = Some x \<longrightarrow>
        heightToHash (cache s) h = Some x \<or>
        (\<exists>n. now s \<le> n \<and> n < now s' \<and> GetBlockHash (rpc E n) h = Inr x))"

lemma cacheGrows_refl [simp]: "cacheGrows E s s"
  by (simp add: cacheGrows_def)

lemma cacheGrows_trans: "cacheGrows E s t \<Longrightarrow> cacheGrows E t u \<Longrightarrow> cacheGrows E s u"
  unfolding cacheGrows_def by (meson le_trans less_le_trans)

text \<open>No entry is dropped, and nobody is left waiting for the lock.\<close>

definition cacheStays :: "'z shared_scheme \<Rightarrow> 'y shared_scheme \<Rightarrow> bool" where
  "cacheStays s s' \<longleftrightarrow> dom (heightToHash (cache s)) \<subseteq> dom (heightToHash (cache s')) \<and> writerWaits (cache s') = writerWaits (cache s)"

lemma cacheStays_refl [simp]: "cacheStays s s"
  by (simp add: cacheStays_def)

lemma cacheStays_trans: "cacheStays s t \<Longrightarrow> cacheStays t u \<Longrightarrow> cacheStays s u"
  unfolding cacheStays_def by blast

lemma cacheStays_same [intro]: "cache s' = cache s \<Longrightarrow> cacheStays s s'"
  by (simp add: cacheStays_def)

text \<open>A step that leaves the cache alone, or only drops entries from it.\<close>

lemma cacheGrows_shrink:
  assumes "now s \<le> now s'" "cacheInv (cache s) \<Longrightarrow> cacheInv (cache s')"
    and "\<And>h. heightToHash (cache s') h = heightToHash (cache s) h \<or> heightToHash (cache s') h = None"
  shows "cacheGrows E s s'"
  using assms unfolding cacheGrows_def by (metis option.distinct(1))

lemma cacheGrows_same: "now s \<le> now s' \<Longrightarrow> cache s' = cache s \<Longrightarrow> cacheGrows E s s'"
  by (rule cacheGrows_shrink) simp_all

lemma rpcCall_Inr [go_simps]:
  "rpcCall E f s = (Inr a, s') \<longleftrightarrow> f (rpc E (now s)) = Inr a \<and> s' = s\<lparr>now := Suc (now s)\<rparr>"
  by (auto simp: rpcCall_def)

lemma rpcCall_Inl [go_simps]:
  "rpcCall E f s = (Inl e, s') \<longleftrightarrow> f (rpc E (now s)) = Inl e \<and> s' = s\<lparr>now := Suc (now s)\<rparr>"
  by (auto simp: rpcCall_def)

lemma checkQuit_Inr [go_simps]:
  "checkQuit E s = (Inr u, s') \<longleftrightarrow> \<not> quitClosed E (now s) \<and> s' = s\<lparr>now := Suc (now s)\<rparr>"
  by (auto simp: checkQuit_def)

lemma checkQuit_Inl [go_simps]:
  "checkQuit E s = (Inl e, s') \<longleftrightarrow>
     e = ErrServerShutdown \<and> quitClosed E (now s) \<and> s' = s\<lparr>now := Suc (now s)\<rparr>"
  by (auto simp: checkQuit_def)

text \<open>A successful write puts the whole output under the name, and touches nothing else.\<close>

lemma createAndWrite_ok:
  "createAndWrite E f out s = (Inr u, s') \<Longrightarrow>
     snd out = None \<and> map_of (disk s') = (map_of (disk s))(f \<mapsto> fst out) \<and>
     s' = s\<lparr>now := Suc (now s), disk := AList.update f (fst out) (disk s)\<rparr>"
  by (auto simp: createAndWrite_def Let_def update_conv' split: option.splits ioFault.splits if_splits)

lemma createAndWrite_frame:
  "createAndWrite E f out s = (r, s') \<Longrightarrow>
     now s' = Suc (now s) \<and> (g \<noteq> f \<longrightarrow> map_of (disk s') g = map_of (disk s) g) \<and>
     (map_of (disk s) g \<noteq> None \<longrightarrow> map_of (disk s') g \<noteq> None) \<and>
     s' = s\<lparr>now := Suc (now s), disk := disk s'\<rparr>"
  by (cases s) (auto simp: createAndWrite_def Let_def update_conv'
      split: option.splits ioFault.splits if_splits)

lemma createAndWrite_succeeds:
  "ioFaults E (now s) = None \<Longrightarrow>
     createAndWrite E f (out, None) s =
       (Inr (), s\<lparr>now := Suc (now s), disk := AList.update f out (disk s)\<rparr>)"
  by (simp add: createAndWrite_def Let_def)

lemma readFile_frame: "readFile E f s = (r, s') \<Longrightarrow> s' = s\<lparr>now := Suc (now s)\<rparr>"
  by (auto simp: readFile_def split: option.splits)

lemma readFile_ok:
  "readFile E f s = (Inr bs, s') \<Longrightarrow> map_of (disk s) f = Some bs \<and> s' = s\<lparr>now := Suc (now s)\<rparr>"
  by (auto simp: readFile_def split: option.splits if_splits)

lemma mkdirAll_frame: "mkdirAll E s = (r, s') \<Longrightarrow> s' = s\<lparr>now := Suc (now s)\<rparr>"
  by (simp add: mkdirAll_def)

lemma fileExists_dom: "fileExists d f \<longleftrightarrow> f \<in> dom (map_of d)"
  by (auto simp: fileExists_def)

text \<open>A step that moves the clock and the cache only.\<close>

definition onlyReads :: "'h env \<Rightarrow> 'z shared_scheme \<Rightarrow> 'z shared_scheme \<Rightarrow> bool" where
  "onlyReads E s s' \<longleftrightarrow> (\<exists>n c. s' = s\<lparr>now := n, cache := c\<rparr>) \<and> cacheGrows E s s' \<and> cacheStays s s'"

lemma onlyReads_refl [simp]: "onlyReads E s s"
proof -
  have "s = s\<lparr>now := now s, cache := cache s\<rparr>" by simp
  then show ?thesis unfolding onlyReads_def by (blast intro: cacheGrows_refl cacheStays_refl)
qed

lemma onlyReads_trans:
  assumes "onlyReads E s t" "onlyReads E t u"
  shows "onlyReads E s u"
proof -
  from assms obtain n c m d where "t = s\<lparr>now := n, cache := c\<rparr>" "u = t\<lparr>now := m, cache := d\<rparr>"
    by (auto simp: onlyReads_def)
  then have "u = s\<lparr>now := m, cache := d\<rparr>" by simp
  with assms show ?thesis unfolding onlyReads_def by (blast intro: cacheGrows_trans cacheStays_trans)
qed

lemma onlyReads_tick: "now s \<le> n \<Longrightarrow> onlyReads E s (s\<lparr>now := n\<rparr>)"
proof -
  assume "now s \<le> n"
  then have "cacheGrows E s (s\<lparr>now := n\<rparr>)" by (simp add: cacheGrows_same)
  moreover have "s\<lparr>now := n\<rparr> = s\<lparr>now := n, cache := cache s\<rparr>" by simp
  moreover have "cacheStays s (s\<lparr>now := n\<rparr>)" by (rule cacheStays_same) simp
  ultimately show ?thesis unfolding onlyReads_def by blast
qed

end
