(* ===== verification/H2HCache.thy ===== *)
theory H2HCache
  imports Backend
begin

text \<open>
  \<open>height-to-hash-cache.go\<close>: the in-memory map from height to block hash that every
  producer and handler shares. The operations are on the \<open>cache\<close> field of the
  shared state and each is one step, with its own lock taken and given back; the order of the
  single lock operations is the subject of \<open>CacheLock\<close>. The handlers that call
  \<open>getBlockHash\<close> with the read lock taken use \<open>Handlers.getBlockHashHolding\<close>.
\<close>

definition newH2HCache :: h2hCache where
  "newH2HCache = \<lparr>heightToHash = Map.empty, bestHeight = 0, writerWaits = False\<rparr>"

subsection \<open>Loading the sealed header files\<close>

text \<open>
  The inner loop of \<open>loadFromHeaders\<close>: read headers until \<open>io.EOF\<close>. Each turn
  consumes input, so the length of the file is budget enough
  (\<open>loadHeaderFile_serialized\<close>).
\<close>

fun loadHeaderFile :: "nat \<Rightarrow> 'h env \<Rightarrow> bytes \<Rightarrow> int \<Rightarrow> (int \<rightharpoonup> hash) \<Rightarrow> (err + int) \<times> (int \<rightharpoonup> hash)" where
  "loadHeaderFile 0 E dat height m = (Inl ErrOutOfFuel, m)"
| "loadHeaderFile (Suc n) E dat height m =
     (case DeserializeHeader E dat of
        Inr (hdr, rest) \<Rightarrow> loadHeaderFile n E rest (add32 height 1) (m(height \<mapsto> BlockHash E hdr))
      | Inl e \<Rightarrow> if e = ErrEOF then (Inr height, m)
                 else (Inl (Wrapf ''unable to deserialize header'' [] e), m))"

fun loadHeaderFiles :: "'h env \<Rightarrow> string list \<Rightarrow> int \<Rightarrow> ('z shared_scheme, int) go" where
  "loadHeaderFiles E [] height s = (Inr height, s)"
| "loadHeaderFiles E (f # fs) height s =
     (case readFile E f s of
        (Inl e, s1) \<Rightarrow> (Inl (Wrapf ''unable to open header file'' [] e), s1)
      | (Inr dat, s1) \<Rightarrow>
          (case loadHeaderFile (Suc (length dat)) E dat height (heightToHash (cache s1)) of
             (r, m) \<Rightarrow>
               (let s2 = s1\<lparr>cache := (cache s1)\<lparr>heightToHash := m\<rparr>\<rparr> in
                case r of Inl e \<Rightarrow> (Inl e, s2) | Inr height' \<Rightarrow> loadHeaderFiles E fs height' s2)))"

definition loadFromHeaders :: "'h env \<Rightarrow> string \<Rightarrow> ('z shared_scheme, int) go" where
  "loadFromHeaders E headerDir s =
     (case loadHeaderFiles E (listFiles (disk s) headerDir HeaderFileSuffix) 0 s of
        (Inl e, s1) \<Rightarrow> (Inl e, s1)
      | (Inr height, s1) \<Rightarrow>
          (Inr (sub32 height 1), s1\<lparr>cache := (cache s1)\<lparr>bestHeight := sub32 height 1\<rparr>\<rparr>))"

subsection \<open>Lookup and invalidation\<close>

definition getBlockHash :: "'h env \<Rightarrow> int \<Rightarrow> ('z shared_scheme, hash) go" where
  "getBlockHash E h s =
     (case heightToHash (cache s) h of
        Some x \<Rightarrow> (Inr x, s)
      | None \<Rightarrow>
          (case rpcCall E (\<lambda>V. GetBlockHash V h) s of
             (Inl e, s1) \<Rightarrow> (Inl (Wrapf ''error fetching block hash for height from backend'' [h] e), s1)
           | (Inr x, s1) \<Rightarrow>
               (let c = cache s1;
                    c1 = c\<lparr>heightToHash := (heightToHash c)(h \<mapsto> x)\<rparr>
                in (Inr x, s1\<lparr>cache := (if h > bestHeight c1 then c1\<lparr>bestHeight := h\<rparr> else c1)\<rparr>))))"

definition invalidate :: "int \<Rightarrow> h2hCache \<Rightarrow> h2hCache" where
  "invalidate fromHeight c =
     c\<lparr>heightToHash := deleteRange fromHeight (bestHeight c) (heightToHash c),
       bestHeight := sub32 fromHeight 1\<rparr>"

subsection \<open>Properties of the cache\<close>

lemma cacheInv_new: "cacheInv newH2HCache"
  by (simp add: cacheInv_def newH2HCache_def)

lemma getBlockHash_hit: "heightToHash (cache s) h = Some x \<Longrightarrow> getBlockHash E h s = (Inr x, s)"
  by (simp add: getBlockHash_def)

lemma getBlockHash_frame:
  "getBlockHash E h s = (r, s') \<Longrightarrow> s' = s\<lparr>now := now s', cache := cache s'\<rparr> \<and> disk s' = disk s"
  by (cases s) (auto simp: getBlockHash_def rpcCall_def Let_def split: option.splits sum.splits if_splits)

lemma getBlockHash_grows: "getBlockHash E h s = (r, s') \<Longrightarrow> cacheGrows E s s'"
  by (auto simp: getBlockHash_def rpcCall_def Let_def cacheGrows_def cacheInv_def
      split: option.splits sum.splits if_splits) force

lemma getBlockHash_stays: "getBlockHash E h s = (r, s') \<Longrightarrow> cacheStays s s'"
  by (auto simp: getBlockHash_def rpcCall_def Let_def cacheStays_def split: option.splits sum.splits if_splits)

text \<open>The hash a lookup returns is the one cached, or the one the backend reports now.\<close>

lemma getBlockHash_result:
  "getBlockHash E h s = (Inr x, s') \<Longrightarrow>
     heightToHash (cache s) h = Some x \<or>
     heightToHash (cache s) h = None \<and> GetBlockHash (rpc E (now s)) h = Inr x"
  by (auto simp: getBlockHash_def rpcCall_def Let_def split: option.splits sum.splits)

text \<open>A successful lookup is remembered: repeating it asks nobody and gives the same hash.\<close>

lemma getBlockHash_again:
  "getBlockHash E h s = (Inr x, s') \<Longrightarrow> getBlockHash E h s' = (Inr x, s')"
proof (rule getBlockHash_hit)
  assume "getBlockHash E h s = (Inr x, s')"
  then show "heightToHash (cache s') h = Some x"
    by (auto simp: getBlockHash_def rpcCall_def Let_def split: option.splits sum.splits if_splits)
qed

lemma invalidate_lookup:
  assumes "cacheInv c"
  shows "heightToHash (invalidate h0 c) h = (if h0 \<le> h then None else heightToHash c h)"
  using assms by (auto simp: invalidate_def deleteRange_apply cacheInv_def not_le)

lemma invalidate_inv:
  assumes "cacheInv c" "-2147483647 \<le> h0" "h0 \<le> 2147483647"
  shows "cacheInv (invalidate h0 c)"
proof -
  have "sub32 h0 1 = h0 - 1" using assms by (simp add: sub32_id)
  then show ?thesis
    using assms(1) invalidate_lookup [OF assms(1), of h0]
    by (auto simp: cacheInv_def invalidate_def split: if_splits)
qed

lemma getBlockHash_onlyReads: "getBlockHash E h s = (r, s') \<Longrightarrow> onlyReads E s s'"
  using getBlockHash_frame [of E h s r s'] getBlockHash_grows [of E h s r s'] getBlockHash_stays [of E h s r s'] unfolding onlyReads_def by blast

subsection \<open>Loading what the header producer wrote\<close>

text \<open>The entries for consecutive heights.\<close>

fun storeHashes :: "int \<Rightarrow> hash list \<Rightarrow> (int \<rightharpoonup> hash) \<Rightarrow> (int \<rightharpoonup> hash)" where
  "storeHashes h [] m = m"
| "storeHashes h (x # xs) m = storeHashes (h + 1) xs (m(h \<mapsto> x))"

lemma storeHashes_apply:
  "storeHashes a xs m h = (if a \<le> h \<and> h < a + int (length xs) then Some (xs ! nat (h - a)) else m h)"
proof (induction xs arbitrary: a m)
  case (Cons x xs)
  show ?case
  proof (cases "h = a")
    case False
    moreover have "xs ! nat (h - (a + 1)) = (x # xs) ! nat (h - a)" if "a + 1 \<le> h"
    proof -
      have "nat (h - a) = Suc (nat (h - (a + 1)))" using that by linarith
      then show ?thesis by simp
    qed
    ultimately show ?thesis unfolding storeHashes.simps Cons.IH by auto
  next
    case True
    then show ?thesis unfolding storeHashes.simps Cons.IH by simp
  qed
qed auto

lemma loadHeaderFile_serialized:
  assumes codec: "header_codec E" and "0 \<le> h" "h + int (length hs) \<le> 2147483647"
    and "length (concat (map (SerializeHeader E) hs)) < n"
  shows "loadHeaderFile n E (concat (map (SerializeHeader E) hs)) h m =
    (Inr (h + int (length hs)), storeHashes h (map (BlockHash E) hs) m)"
  using assms(2-)
proof (induction hs arbitrary: h n m)
  case Nil
  then show ?case using codec by (cases n) (simp_all add: header_codec_def)
next
  case (Cons x hs)
  then obtain k where n: "n = Suc k" by (cases n) simp_all
  have len: "length (SerializeHeader E x) = MaxBlockHeaderPayload" "0 < MaxBlockHeaderPayload"
    using codec by (simp_all add: header_codec_def MaxBlockHeaderPayload_def)
  have "DeserializeHeader E (SerializeHeader E x @ concat (map (SerializeHeader E) hs)) = Inr (x, concat (map (SerializeHeader E) hs))"
    using codec by (simp add: header_codec_def)
  moreover have "add32 h 1 = h + 1" using Cons.prems by (simp add: add32_id)
  moreover have "length (concat (map (SerializeHeader E) hs)) < k" using Cons.prems(3) n len by simp
  moreover have "0 \<le> h + 1" "h + 1 + int (length hs) \<le> 2147483647" using Cons.prems by simp_all
  ultimately show ?case using Cons.IH n by (simp add: fun_upd_def)
qed

text \<open>The contents of the file of range \<open>i\<close>, for the headers \<open>hdrs\<close> of a chain.\<close>

definition headersOf :: "'h env \<Rightarrow> (int \<Rightarrow> 'h) \<Rightarrow> int \<Rightarrow> int \<Rightarrow> bytes" where
  "headersOf E hdrs a b = concat (map (\<lambda>h. SerializeHeader E (hdrs h)) [a..b])"

lemma loadHeaderFiles_ranges:
  assumes codec: "header_codec E" and io: "\<forall>t. ioFaults E t = None" and n: "0 < n" and k: "k * n \<le> 10000000"
    and "0 \<le> i" "i \<le> k"
    and "\<forall>j. i \<le> j \<and> j < k \<longrightarrow> map_of (disk s) (blockFileName sfx dir (j * n) (j * n + n - 1)) =
      Some (headersOf E hdrs (j * n) (j * n + n - 1))"
  shows "\<exists>s'. loadHeaderFiles E (map (\<lambda>j. blockFileName sfx dir (j * n) (j * n + n - 1)) [i..k - 1]) (i * n) s = (Inr (k * n), s') \<and>
    (\<forall>h. heightToHash (cache s') h = (if i * n \<le> h \<and> h < k * n then Some (BlockHash E (hdrs h)) else heightToHash (cache s) h))"
  using assms(5-)
proof (induction "nat (k - i)" arbitrary: i s)
  case 0
  then show ?case by auto
next
  case (Suc m)
  then have ik: "i < k" by simp
  then have split: "[i..k - 1] = i # [i + 1..k - 1]" by (intro upto_rec1) simp
  have next_i: "(i + 1) * n = i * n + n" by (simp add: algebra_simps)
  have "(i + 1) * n \<le> k * n" using ik n by (intro mult_right_mono) simp_all
  then have b: "i * n + n \<le> 10000000" "i * n + n \<le> k * n" "0 \<le> i * n" using k next_i Suc.prems n by simp_all
  let ?f = "blockFileName sfx dir (i * n) (i * n + n - 1)" and ?dat = "headersOf E hdrs (i * n) (i * n + n - 1)"
  let ?hs = "map hdrs [i * n..i * n + n - 1]"
  have len: "int (length ?hs) = n" using n by simp
  have dat: "?dat = concat (map (SerializeHeader E) ?hs)" by (simp add: headersOf_def comp_def)
  have load: "loadHeaderFile (Suc (length ?dat)) E ?dat (i * n) M = (Inr (i * n + n), storeHashes (i * n) (map (BlockHash E) ?hs) M)" for M
    unfolding dat using loadHeaderFile_serialized [OF codec b(3), of ?hs] len b by (simp del: loadHeaderFile.simps)
  let ?s = "s\<lparr>now := Suc (now s), cache := (cache s)\<lparr>heightToHash := storeHashes (i * n) (map (BlockHash E) ?hs) (heightToHash (cache s))\<rparr>\<rparr>"
  have "\<exists>s'. loadHeaderFiles E (map (\<lambda>j. blockFileName sfx dir (j * n) (j * n + n - 1)) [i + 1..k - 1]) ((i + 1) * n) ?s = (Inr (k * n), s') \<and>
    (\<forall>h. heightToHash (cache s') h = (if (i + 1) * n \<le> h \<and> h < k * n then Some (BlockHash E (hdrs h)) else heightToHash (cache ?s) h))"
    using Suc.hyps(2) Suc.prems ik by (intro Suc.hyps(1)) simp_all
  moreover have "map_of (disk s) ?f = Some ?dat" using Suc.prems ik by simp
  ultimately show ?case
    using io load b n unfolding split next_i
    by (auto simp: readFile_def storeHashes_apply Let_def nth_upto simp del: loadHeaderFile.simps)
qed

end
