(* ===== verification/FileProducer.thy ===== *)
theory FileProducer
  imports H2HCache
begin

text \<open>
  \<open>file-producer.go\<close>: the life cycle every on-disk producer shares. \<open>producer\<close>
  is \<open>producerBase\<close> together with the shared state it works on and the memory
  \<open>'m\<close> of the concrete producer; \<open>producerHooks\<close> is the struct of the same name.
  The operations follow the methods one by one.

  The locale \<open>file_producer\<close> states what the base relies on: what each hook may
  change, what a successful ingest records, which files a sealed range consists of. The
  four producers interpret it in their own theories. In it are proved, once for all of
  them: sealing stops, seals whole files in order and only below the re-org-safe depth;
  the unsealed tail in memory is exactly the heights above the last sealed one; a sealed
  file never changes; a re-org above the sealed files is rolled back to the common
  ancestor and a poll then follows the backend's chain; a deeper one is refused.
\<close>

record 'm producer = shared +
  pname :: string
  baseDir :: string
  subDir :: string
  fileSuffix :: string
  extractSuffix :: string
  entriesPerFile :: int
  reOrgSafeDepth :: int
  startupComplete :: bool
  currentHeight :: int
  lastSealedHeight :: int
  mem :: 'm

record 'm producerHooks =
  ingest :: "int \<Rightarrow> ('m producer, unit) go"
  writeSealedFile :: "int \<Rightarrow> int \<Rightarrow> ('m producer, unit) go"
  pruneLocked :: "int \<Rightarrow> int \<Rightarrow> 'm \<Rightarrow> 'm"
  cachedHash :: "'m \<Rightarrow> int \<Rightarrow> hash option"
  afterCatchUp :: "('m producer \<Rightarrow> 'm producer) option"

definition isStartupComplete :: "'m producer \<Rightarrow> bool" where
  "isStartupComplete p = startupComplete p"

definition getCurrentHeight :: "'m producer \<Rightarrow> int" where
  "getCurrentHeight p = currentHeight p"

definition getLastSealedHeight :: "'m producer \<Rightarrow> int" where
  "getLastSealedHeight p = lastSealedHeight p"

subsection \<open>Sealing\<close>

text \<open>
  The loop of \<open>sealReadyFiles\<close>. The Go loop has no bound of its own; the budget is the
  number of heights between the last sealed height and the safe tip, which is enough
  because every turn seals at least one of them (\<open>sealReadyFiles_no_fuel\<close>).
\<close>

definition nextSealEnd :: "'m producer \<Rightarrow> int" where
  "nextSealEnd p =
     (if lastSealedHeight p < 0 then sub32 (entriesPerFile p) 1
      else add32 (lastSealedHeight p) (entriesPerFile p))"

definition safeTip :: "'m producer \<Rightarrow> int" where
  "safeTip p = sub32 (currentHeight p) (reOrgSafeDepth p)"

fun sealLoop :: "nat \<Rightarrow> 'm producerHooks \<Rightarrow> ('m producer, unit) go" where
  "sealLoop 0 H p = (Inl ErrOutOfFuel, p)"
| "sealLoop (Suc n) H p =
     (if nextSealEnd p > safeTip p then (Inr (), p)
      else let nextEnd = nextSealEnd p; fileStart = add32 (sub32 nextEnd (entriesPerFile p)) 1
           in case writeSealedFile H fileStart nextEnd p of
                (Inl e, p1) \<Rightarrow> (Inl (Wrapf ''error sealing file'' [] e), p1)
              | (Inr _, p1) \<Rightarrow>
                  sealLoop n H
                    (p1\<lparr>mem := pruneLocked H fileStart nextEnd (mem p1), lastSealedHeight := nextEnd\<rparr>))"

definition sealReadyFiles :: "'m producerHooks \<Rightarrow> ('m producer, unit) go" where
  "sealReadyFiles H p = sealLoop (nat (safeTip p - lastSealedHeight p) + 1) H p"

text \<open>The body of the loop of \<open>updateCacheAndFiles\<close>, and the loop.\<close>

definition ingestAndSeal :: "'h env \<Rightarrow> 'm producerHooks \<Rightarrow> int \<Rightarrow> ('m producer, unit) go" where
  "ingestAndSeal E H i =
     goBind (checkQuit E) (\<lambda>_.
     goBind (ingest H i) (\<lambda>_.
     goBind (goModify (\<lambda>p. p\<lparr>currentHeight := i\<rparr>)) (\<lambda>_.
     sealReadyFiles H)))"

definition updateCacheAndFiles :: "'h env \<Rightarrow> 'm producerHooks \<Rightarrow> int \<Rightarrow> int \<Rightarrow> ('m producer, unit) go" where
  "updateCacheAndFiles E H startBlock endBlock = goForEach [startBlock..endBlock] (ingestAndSeal E H)"

subsection \<open>Re-orgs\<close>

definition tipReorged :: "'h env \<Rightarrow> 'm producerHooks \<Rightarrow> 'm producer \<Rightarrow> bool \<times> 'm producer" where
  "tipReorged E H p =
     (let tip = currentHeight p in
      if tip < 0 then (False, p)
      else case cachedHash H (mem p) tip of
             None \<Rightarrow> (False, p)
           | Some ourHash \<Rightarrow>
               (case rpcCall E (\<lambda>V. GetBlockHash V tip) p of
                  (Inl _, p1) \<Rightarrow> (False, p1)
                | (Inr btcHash, p1) \<Rightarrow> (ourHash \<noteq> btcHash, p1)))"

text \<open>The loop of \<open>findCommonAncestor\<close> over the heights still to compare, highest first.\<close>

fun ancestorLoop :: "'h env \<Rightarrow> 'm producerHooks \<Rightarrow> int list \<Rightarrow> ('m producer, int) go" where
  "ancestorLoop E H [] p = (Inr (lastSealedHeight p), p)"
| "ancestorLoop E H (hgt # hgts) p =
     (case cachedHash H (mem p) hgt of
        None \<Rightarrow> ancestorLoop E H hgts p
      | Some ourHash \<Rightarrow>
          (case rpcCall E (\<lambda>V. GetBlockHash V hgt) p of
             (Inl e, p1) \<Rightarrow> (Inl (Wrapf ''error fetching backend hash at height'' [hgt] e), p1)
           | (Inr btcHash, p1) \<Rightarrow>
               if ourHash = btcHash then (Inr hgt, p1) else ancestorLoop E H hgts p1))"

definition findCommonAncestor :: "'h env \<Rightarrow> 'm producerHooks \<Rightarrow> int \<Rightarrow> ('m producer, int) go" where
  "findCommonAncestor E H tip p = ancestorLoop E H (rev [lastSealedHeight p + 1..tip]) p"

definition rollback :: "'m producerHooks \<Rightarrow> int \<Rightarrow> 'm producer \<Rightarrow> 'm producer" where
  "rollback H toHeight p =
     p\<lparr>mem := pruneLocked H (add32 toHeight 1) (currentHeight p) (mem p),
       currentHeight := toHeight,
       cache := invalidate (add32 toHeight 1) (cache p)\<rparr>"

definition handleReorg :: "'h env \<Rightarrow> 'm producerHooks \<Rightarrow> ('m producer, unit) go" where
  "handleReorg E H p =
     (let tip = currentHeight p in
      if tip < 0 then (Inr (), p)
      else case cachedHash H (mem p) tip of
             None \<Rightarrow> (Inr (), p)
           | Some ourHash \<Rightarrow>
               (case rpcCall E (\<lambda>V. GetBlockHash V tip) p of
                  (Inl e, p1) \<Rightarrow> (Inl (Wrapf ''error getting tip block hash'' [] e), p1)
                | (Inr btcHash, p1) \<Rightarrow>
                    if ourHash = btcHash then (Inr (), p1)
                    else case findCommonAncestor E H tip p1 of
                           (Inl e, p2) \<Rightarrow> (Inl (Wrapf ''error finding common ancestor'' [] e), p2)
                         | (Inr commonHeight, p2) \<Rightarrow>
                             if commonHeight \<le> lastSealedHeight p2
                             then (Inl (Wrapf ''reorg back to height (last sealed)''
                                     [commonHeight, lastSealedHeight p2] ErrDeepReorg), p2)
                             else (Inr (), rollback H commonHeight p2)))"

subsection \<open>The life cycle\<close>

text \<open>
  One turn of the poll loop of \<open>updateFiles\<close>. The \<open>select\<close> on the poll timer and
  \<open>quit\<close> is the test of \<open>quit\<close>.
\<close>

definition pollAdvance :: "'h env \<Rightarrow> 'm producerHooks \<Rightarrow> int \<Rightarrow> ('m producer, unit) go" where
  "pollAdvance E H height =
     goBind (handleReorg E H) (\<lambda>_ p.
       if i32 height \<le> currentHeight p then (Inr (), p)
       else goWrap ''error updating for blocks'' []
              (updateCacheAndFiles E H (add32 (currentHeight p) 1) (i32 height)) p)"

definition pollOnce :: "'h env \<Rightarrow> 'm producerHooks \<Rightarrow> ('m producer, unit) go" where
  "pollOnce E H =
     goBind (checkQuit E) (\<lambda>_.
     goBind (goWrap ''error getting best block'' [] (rpcCall E GetBlockCount)) (\<lambda>height p.
       if i32 height = currentHeight p
       then (case tipReorged E H p of
               (False, p1) \<Rightarrow> (Inr (), p1)
             | (True, p1) \<Rightarrow> pollAdvance E H height p1)
       else pollAdvance E H height p))"

text \<open>The loop never returns without an error; \<open>pollLoop k\<close> is its first \<open>k\<close> turns.\<close>

fun pollLoop :: "nat \<Rightarrow> 'h env \<Rightarrow> 'm producerHooks \<Rightarrow> ('m producer, unit) go" where
  "pollLoop 0 E H = goRet ()"
| "pollLoop (Suc k) E H = goBind (pollOnce E H) (\<lambda>_. pollLoop k E H)"

text \<open>The part of \<open>updateFiles\<close> before the poll loop.\<close>

definition resumeHeights :: "int \<Rightarrow> 'm producer \<Rightarrow> 'm producer" where
  "resumeHeights lastBlock p =
     (if lastBlock > 0 then p\<lparr>lastSealedHeight := lastBlock, currentHeight := lastBlock\<rparr>
      else p\<lparr>lastSealedHeight := -1\<rparr>)"

definition startUp :: "'h env \<Rightarrow> 'm producerHooks \<Rightarrow> int \<Rightarrow> ('m producer, unit) go" where
  "startUp E H numBlocks =
     goBind (mkdirAll E) (\<lambda>_.
     goBind (\<lambda>p. goWrap ''error getting last file'' []
              (goLift (lastFile (disk p) (joinPath (baseDir p) (subDir p)) (fileSuffix p) (extractSuffix p))) p)
       (\<lambda>lastBlock.
     goBind (goModify (resumeHeights lastBlock)) (\<lambda>_.
     goBind (\<lambda>p. goWrap ''error updating blocks'' []
              (updateCacheAndFiles E H (add32 (lastSealedHeight p) 1) numBlocks) p) (\<lambda>_.
     goModify (\<lambda>p.
       (case afterCatchUp H of Some f \<Rightarrow> f (p\<lparr>startupComplete := True\<rparr>)
        | None \<Rightarrow> p\<lparr>startupComplete := True\<rparr>))))))"

definition updateFiles :: "'h env \<Rightarrow> 'm producerHooks \<Rightarrow> int \<Rightarrow> nat \<Rightarrow> ('m producer, unit) go" where
  "updateFiles E H numBlocks polls = goBind (startUp E H numBlocks) (\<lambda>_. pollLoop polls E H)"

subsection \<open>The interface between the base and its hooks\<close>

definition conf :: "'m producer \<Rightarrow> string \<times> string \<times> string \<times> string \<times> string \<times> int \<times> int" where
  "conf p = (pname p, baseDir p, subDir p, fileSuffix p, extractSuffix p, entriesPerFile p, reOrgSafeDepth p)"

text \<open>A hook leaves the base's own fields alone.\<close>

definition sameBase :: "'m producer \<Rightarrow> 'm producer \<Rightarrow> bool" where
  "sameBase p p' \<longleftrightarrow> conf p' = conf p \<and> startupComplete p' = startupComplete p \<and>
     currentHeight p' = currentHeight p \<and> lastSealedHeight p' = lastSealedHeight p"

lemma sameBase_refl [simp]: "sameBase p p"
  by (simp add: sameBase_def)

lemma sameBase_trans: "sameBase p q \<Longrightarrow> sameBase q r \<Longrightarrow> sameBase p r"
  by (simp add: sameBase_def)

text \<open>
  The hooks are sequences of the operations of the earlier theories. \<open>quiet\<close> is what
  those do that only read; \<open>wrote\<close> allows writes to some files.
\<close>

definition quiet :: "'h env \<Rightarrow> 'm producer \<Rightarrow> 'm producer \<Rightarrow> bool" where
  "quiet E p p' \<longleftrightarrow> sameBase p p' \<and> cacheGrows E p p' \<and> cacheStays p p' \<and> disk p' = disk p"

definition wrote :: "'h env \<Rightarrow> string set \<Rightarrow> 'm producer \<Rightarrow> 'm producer \<Rightarrow> bool" where
  "wrote E F p p' \<longleftrightarrow> sameBase p p' \<and> cacheGrows E p p' \<and> cacheStays p p' \<and> mem p' = mem p \<and>
     (\<forall>f. f \<notin> F \<longrightarrow> map_of (disk p') f = map_of (disk p) f)"

lemma quiet_preorder [simp]: "reflp (quiet E)" "transp (quiet E)"
  by (auto simp: quiet_def intro!: reflpI transpI intro: sameBase_trans cacheGrows_trans cacheStays_trans)

lemma wrote_preorder [simp]: "reflp (wrote E F)" "transp (wrote E F)"
  by (auto simp: wrote_def intro!: reflpI transpI intro: sameBase_trans cacheGrows_trans cacheStays_trans)

lemma tick_quiet: "now p \<le> n \<Longrightarrow> quiet E p (p\<lparr>now := n\<rparr>)" "now p \<le> n \<Longrightarrow> wrote E F p (p\<lparr>now := n\<rparr>)"
  by (auto simp: quiet_def wrote_def sameBase_def conf_def intro: cacheGrows_same)

lemma keeps_rpcCall [keeps_intros]: "keeps (quiet E) (rpcCall E f)" "keeps (wrote E F) (rpcCall E f)"
  by (auto simp: keeps_def rpcCall_def tick_quiet)

lemma keeps_checkQuit [keeps_intros]: "keeps (quiet E) (checkQuit E)" "keeps (wrote E F) (checkQuit E)"
  by (auto simp: keeps_def checkQuit_def tick_quiet)

lemma keeps_readFile [keeps_intros]: "keeps (quiet E) (readFile E f)" "keeps (wrote E F) (readFile E f)"
  by (auto simp: keeps_def readFile_def tick_quiet)

lemma getBlockHash_quiet:
  assumes "getBlockHash E h p = (r, p')"
  shows "quiet E p p' \<and> wrote E F p p'"
proof -
  from getBlockHash_frame [OF assms] obtain n c where "p' = p\<lparr>now := n, cache := c\<rparr>" by blast
  then show ?thesis using getBlockHash_grows [OF assms] getBlockHash_stays [OF assms]
    by (simp add: quiet_def wrote_def sameBase_def conf_def)
qed

lemma keeps_getBlockHash [keeps_intros]: "keeps (quiet E) (getBlockHash E h)" "keeps (wrote E F) (getBlockHash E h)"
  by (auto intro!: keepsI dest: getBlockHash_quiet)

lemma keeps_memModify [keeps_intros]: "keeps (quiet E) (goModify (\<lambda>p. p\<lparr>mem := f p\<rparr>))"
  by (auto simp: keeps_def goModify_def quiet_def sameBase_def conf_def intro: cacheGrows_same)

lemma keeps_createAndWrite [keeps_intros]:
  assumes "f \<in> F"
  shows "keeps (wrote E F) (\<lambda>p. createAndWrite E f (out p) p)"
proof (rule keepsI)
  fix p r p'
  assume run: "createAndWrite E f (out p) p = (r, p')"
  from createAndWrite_frame [OF run] obtain d where p': "p' = p\<lparr>now := Suc (now p), disk := d\<rparr>" by blast
  have "map_of (disk p') g = map_of (disk p) g" if "g \<notin> F" for g
    using createAndWrite_frame [OF run, of g] assms that by auto
  then show "wrote E F p p'"
    by (auto simp: p' wrote_def sameBase_def conf_def intro: cacheGrows_same)
qed

text \<open>A hook that begins with a lookup leaves the height in the cache.\<close>

lemma lookup_first:
  assumes run: "goBind (goWrap msg xs (getBlockHash E h)) k p = (Inr u, p')" and k: "\<And>x. keeps (quiet E) (k x)"
  shows "heightToHash (cache p') h \<noteq> None"
proof -
  from run obtain x q where g: "getBlockHash E h p = (Inr x, q)" and r: "k x q = (Inr u, p')" by (auto simp: go_simps)
  have "heightToHash (cache q) h \<noteq> None"
    using g by (auto simp: getBlockHash_def rpcCall_def Let_def split: option.splits sum.splits if_splits)
  with keepsD [OF k r] show ?thesis by (auto simp: quiet_def cacheStays_def)
qed

text \<open>
  A batch of files, written in order until the first failure. Names and contents are those of
  the state before: writing a file changes neither the configuration nor the memory.
\<close>

fun writeBatch :: "'h env \<Rightarrow> (string \<times> stream) list \<Rightarrow> ('z shared_scheme, unit) go" where
  "writeBatch E [] = goRet ()"
| "writeBatch E ((fileName, out) # jobs) = goBind (createAndWrite E fileName out) (\<lambda>_. writeBatch E jobs)"

lemma writeBatch_wrote: "fst ` set jobs \<subseteq> F \<Longrightarrow> keeps (wrote E F) (writeBatch E jobs)"
proof (induction jobs)
  case (Cons job jobs)
  obtain f out where job: "job = (f, out)" by (cases job)
  have "keeps (wrote E F) (createAndWrite E f out)"
    using keeps_createAndWrite [of f F E "\<lambda>_. out"] Cons.prems job by simp
  with Cons show ?case by (auto simp: job intro!: keeps_goBind)
qed (simp add: keeps_goRet)

lemma writeBatch_ok:
  assumes "writeBatch E jobs (p :: 'm producer) = (Inr u, p')" "distinct (map fst jobs)" "(f, out) \<in> set jobs"
  shows "snd out = None \<and> map_of (disk p') f = Some (fst out)"
  using assms
proof (induction jobs arbitrary: p)
  case (Cons job jobs)
  obtain g o1 where job: "job = (g, o1)" by (cases job)
  from Cons.prems(1) job obtain q where w: "createAndWrite E g o1 p = (Inr (), q)"
    and rest: "writeBatch E jobs q = (Inr u, p')" by (auto simp: go_simps)
  show ?case
  proof (cases "(f, out) = job")
    case True
    have "g \<notin> fst ` set jobs" using Cons.prems(2) job by simp
    then have "map_of (disk p') g = map_of (disk q) g"
      using keepsD [OF writeBatch_wrote [OF order_refl] rest] by (simp add: wrote_def)
    with True job createAndWrite_ok [OF w] show ?thesis by (simp add: update_conv')
  next
    case False
    with Cons.prems job Cons.IH [OF rest] show ?thesis by auto
  qed
qed simp

lemma writeBatch_append: "writeBatch E (xs @ ys) = goBind (writeBatch E xs) (\<lambda>_. writeBatch E ys)"
proof (induction xs)
  case Nil
  show ?case by (rule ext) (simp add: goBind_def goRet_def)
next
  case (Cons x xs)
  show ?case by (cases x, rule ext) (simp add: goBind_def Cons.IH split: prod.split sum.split)
qed

text \<open>The last file of a batch changes only when all others are complete.\<close>

lemma writeBatch_last:
  assumes run: "writeBatch E (jobs @ [(f, out)]) (p :: 'm producer) = (r, p')"
    and "distinct (map fst (jobs @ [(f, out)]))" "(g, o1) \<in> set jobs"
    and changed: "map_of (disk p') f \<noteq> map_of (disk p) f"
  shows "map_of (disk p') g = Some (fst o1)"
proof -
  obtain y q where xs: "writeBatch E jobs p = (y, q)" by fastforce
  have "f \<notin> fst ` set jobs" "g \<noteq> f" using assms(2,3) by force+
  then have keep: "map_of (disk q) f = map_of (disk p) f"
    using keepsD [OF writeBatch_wrote [OF order_refl] xs] by (simp add: wrote_def)
  show ?thesis
  proof (cases y)
    case (Inl e)
    with run xs have "p' = q" by (simp add: writeBatch_append goBind_def)
    with keep changed show ?thesis by simp
  next
    case (Inr z)
    with run xs have rest: "writeBatch E [(f, out)] q = (r, p')" by (simp add: writeBatch_append goBind_def)
    have "map_of (disk q) g = Some (fst o1)" using writeBatch_ok [OF xs [unfolded Inr]] assms(2,3) by simp
    moreover have "map_of (disk p') g = map_of (disk q) g"
      using keepsD [OF writeBatch_wrote [of "[(f, out)]" "{f}"] rest] \<open>g \<noteq> f\<close> by (simp add: wrote_def)
    ultimately show ?thesis by simp
  qed
qed

lemma writeBatch_succeeds:
  assumes "\<forall>n. ioFaults E n = None" "\<forall>out\<in>snd ` set jobs. snd out = None"
  shows "\<exists>p'. writeBatch E jobs p = (Inr (), p')"
  using assms(2)
proof (induction jobs arbitrary: p)
  case (Cons job jobs)
  obtain f out where job: "job = (f, out)" by (cases job)
  with Cons.prems have "out = (fst out, None)" by (cases out) simp
  then have "createAndWrite E f out p = (Inr (), p\<lparr>now := Suc (now p), disk := AList.update f (fst out) (disk p)\<rparr>)"
    using createAndWrite_succeeds [of E p f "fst out"] assms(1) by metis
  with Cons job show ?case by (simp add: goBind_def)
qed (simp add: goRet_def)

locale file_producer =
  fixes H :: "'h env \<Rightarrow> 'm producerHooks"
    and files :: "'m producer \<Rightarrow> int \<Rightarrow> int \<Rightarrow> string list"
  assumes ingest_base: "ingest (H E) h p = (r, p') \<Longrightarrow>
        sameBase p p' \<and> files p' = files p \<and> cacheGrows E p p' \<and> disk p' = disk p"
    and ingest_records: "ingest (H E) h p = (Inr u, p') \<Longrightarrow>
        \<exists>x. cachedHash (H E) (mem p') = (cachedHash (H E) (mem p))(h \<mapsto> x)"
    and ingest_hash: "header_by_hash E \<Longrightarrow> ingest (H E) h p = (Inr u, p') \<Longrightarrow>
        \<exists>x q. getBlockHash E h p = (Inr x, q) \<and> cachedHash (H E) (mem p') h = Some x"
    and ingest_looks: "ingest (H E) h p = (Inr u, p') \<Longrightarrow> cacheStays p p' \<and> heightToHash (cache p') h \<noteq> None"
    and write_stays: "writeSealedFile (H E) a b p = (r, p') \<Longrightarrow> cacheStays p p'"
    and write_base: "writeSealedFile (H E) a b p = (r, p') \<Longrightarrow>
        sameBase p p' \<and> files p' = files p \<and> cacheGrows E p p' \<and>
        cachedHash (H E) (mem p') = cachedHash (H E) (mem p)"
    and write_only: "writeSealedFile (H E) a b p = (r, p') \<Longrightarrow> f \<notin> set (files p a b) \<Longrightarrow>
        map_of (disk p') f = map_of (disk p) f"
    and write_creates: "writeSealedFile (H E) a b p = (Inr u, p') \<Longrightarrow> f \<in> set (files p a b) \<Longrightarrow>
        fileExists (disk p') f"
    and prune_range: "cachedHash (H E) (pruneLocked (H E) a b m) h =
        (if a \<le> h \<and> h \<le> b then None else cachedHash (H E) m h)"
    and files_static: "conf q = conf p \<Longrightarrow> mem q = mem p \<or> mem q = pruneLocked (H E) a b (mem p) \<Longrightarrow>
        files q = files p"
    and files_disjoint: "0 \<le> a \<Longrightarrow> 0 \<le> b \<Longrightarrow> 0 \<le> a' \<Longrightarrow> 0 \<le> b' \<Longrightarrow> b \<noteq> b' \<Longrightarrow>
        set (files p a b) \<inter> set (files p a' b') = {}"
    and no_afterCatchUp: "afterCatchUp (H E) = None"

subsection \<open>What catching up leaves in the cache\<close>

text \<open>
  Every height a producer takes in is in the shared cache afterwards, and nothing a producer does
  while it catches up takes an entry out of it or leaves the lock of the cache asked for.
\<close>

context file_producer
begin

lemma sealLoop_stays: "sealLoop n (H E) p = (Inr u, p') \<Longrightarrow> cacheStays p p'"
proof (induction n arbitrary: p)
  case (Suc n)
  show ?case
  proof (cases "nextSealEnd p > safeTip p")
    case True
    with Suc.prems show ?thesis by simp
  next
    case False
    let ?b = "nextSealEnd p" and ?a = "add32 (sub32 (nextSealEnd p) (entriesPerFile p)) 1"
    from Suc.prems False obtain v p1 where w: "writeSealedFile (H E) ?a ?b p = (Inr v, p1)"
      and rest: "sealLoop n (H E) (p1\<lparr>mem := pruneLocked (H E) ?a ?b (mem p1), lastSealedHeight := ?b\<rparr>) = (Inr u, p')"
      by (auto simp: Let_def split: prod.splits sum.splits)
    from Suc.IH [OF rest] have "cacheStays p1 p'" by (simp add: cacheStays_def)
    with write_stays [OF w] show ?thesis by (rule cacheStays_trans)
  qed
qed simp

lemma ingestAndSeal_looks:
  assumes "ingestAndSeal E (H E) i p = (Inr u, p')"
  shows "cacheStays p p'" "i \<in> dom (heightToHash (cache p'))"
proof -
  let ?q = "p\<lparr>now := Suc (now p)\<rparr>"
  from assms obtain v p1 where i: "ingest (H E) i ?q = (Inr v, p1)" and s: "sealReadyFiles (H E) (p1\<lparr>currentHeight := i\<rparr>) = (Inr u, p')"
    by (auto simp: ingestAndSeal_def go_simps goModify_def)
  have 1: "cacheStays p p1" "i \<in> dom (heightToHash (cache p1))" using ingest_looks [OF i] by (simp_all add: cacheStays_def domIff)
  have 2: "cacheStays p1 p'" using sealLoop_stays [OF s [unfolded sealReadyFiles_def]] by (simp add: cacheStays_def)
  show "cacheStays p p'" by (rule cacheStays_trans [OF 1(1) 2])
  have "dom (heightToHash (cache p1)) \<subseteq> dom (heightToHash (cache p'))" using 2 by (simp add: cacheStays_def)
  with 1(2) show "i \<in> dom (heightToHash (cache p'))" by (rule rev_subsetD)
qed

lemma updateCacheAndFiles_looks:
  assumes "updateCacheAndFiles E (H E) a b p = (Inr u, p')"
  shows "cacheStays p p'" "{a..b} \<subseteq> dom (heightToHash (cache p'))"
proof -
  have "cacheStays p p' \<and> set hs \<subseteq> dom (heightToHash (cache p'))" if "goForEach hs (ingestAndSeal E (H E)) p = (Inr u, p')" for hs p
    using that
  proof (induction hs arbitrary: p)
    case (Cons h hs)
    then obtain v q where h: "ingestAndSeal E (H E) h p = (Inr v, q)" and rest: "goForEach hs (ingestAndSeal E (H E)) q = (Inr u, p')"
      by (auto simp: go_simps)
    note r = Cons.IH [OF rest]
    then have "dom (heightToHash (cache q)) \<subseteq> dom (heightToHash (cache p'))" by (simp add: cacheStays_def)
    with ingestAndSeal_looks(2) [OF h] have "h \<in> dom (heightToHash (cache p'))" by (rule rev_subsetD)
    moreover have "cacheStays p p'" by (rule cacheStays_trans [OF ingestAndSeal_looks(1) [OF h] conjunct1 [OF r]])
    ultimately show ?case using r by (simp only: list.set insert_subset)
  qed (simp add: goRet_def)
  from this [of "[a..b]" p] assms show "cacheStays p p'" "{a..b} \<subseteq> dom (heightToHash (cache p'))" by (simp_all add: updateCacheAndFiles_def)
qed

end

subsection \<open>The invariant\<close>

text \<open>
  Sizes and heights within a bound that keeps every sum of two of them inside
  \<open>int32\<close>; mainnet needs about a million. The last sealed height ends a file, memory
  holds exactly the heights above it, and every file below it is on disk.
\<close>

definition heightBound :: int where "heightBound = 1000000000"

definition confOK :: "'m producer \<Rightarrow> bool" where
  "confOK p \<longleftrightarrow> 0 < entriesPerFile p \<and> entriesPerFile p \<le> heightBound \<and>
     0 \<le> reOrgSafeDepth p \<and> reOrgSafeDepth p \<le> heightBound"

definition aligned :: "'m producer \<Rightarrow> bool" where
  "aligned p \<longleftrightarrow> -1 \<le> lastSealedHeight p \<and> (lastSealedHeight p + 1) mod entriesPerFile p = 0"

text \<open>The \<open>k\<close>-th file range.\<close>

definition rangeFiles :: "('m producer \<Rightarrow> int \<Rightarrow> int \<Rightarrow> string list) \<Rightarrow> 'm producer \<Rightarrow> int \<Rightarrow> string set" where
  "rangeFiles files p k = set (files p (k * entriesPerFile p) (k * entriesPerFile p + entriesPerFile p - 1))"

definition sealedOnDisk :: "('m producer \<Rightarrow> int \<Rightarrow> int \<Rightarrow> string list) \<Rightarrow> 'm producer \<Rightarrow> bool" where
  "sealedOnDisk files p \<longleftrightarrow>
     (\<forall>k\<ge>0. k * entriesPerFile p + entriesPerFile p - 1 \<le> lastSealedHeight p \<longrightarrow>
        (\<forall>f\<in>rangeFiles files p k. fileExists (disk p) f))"

definition tailUpto :: "'m producerHooks \<Rightarrow> ('m producer \<Rightarrow> int \<Rightarrow> int \<Rightarrow> string list) \<Rightarrow> int \<Rightarrow> 'm producer \<Rightarrow> bool" where
  "tailUpto H files i p \<longleftrightarrow> confOK p \<and> aligned p \<and> lastSealedHeight p < i \<and> i \<le> heightBound + 1 \<and>
     dom (cachedHash H (mem p)) = {lastSealedHeight p + 1..i - 1} \<and> sealedOnDisk files p"

definition tailInv :: "'m producerHooks \<Rightarrow> ('m producer \<Rightarrow> int \<Rightarrow> int \<Rightarrow> string list) \<Rightarrow> 'm producer \<Rightarrow> bool" where
  "tailInv H files p \<longleftrightarrow> tailUpto H files (currentHeight p + 1) p"

text \<open>
  Of the disk, only files of ranges strictly above height \<open>lo\<close> and at most \<open>hi\<close>
  differ between the two states.
\<close>

definition wroteOnly :: "('m producer \<Rightarrow> int \<Rightarrow> int \<Rightarrow> string list) \<Rightarrow> int \<Rightarrow> int \<Rightarrow> 'm producer \<Rightarrow> 'm producer \<Rightarrow> bool" where
  "wroteOnly files lo hi p p' \<longleftrightarrow>
     (\<forall>f. map_of (disk p') f \<noteq> map_of (disk p) f \<longrightarrow>
        (\<exists>k. lo < k * entriesPerFile p \<and> k * entriesPerFile p + entriesPerFile p - 1 \<le> hi \<and>
             f \<in> rangeFiles files p k))"

text \<open>The hash recorded for a height is the one a chain has there.\<close>

definition onChain :: "'h chainView \<Rightarrow> 'm producerHooks \<Rightarrow> 'm producer \<Rightarrow> int \<Rightarrow> bool" where
  "onChain V H p h \<longleftrightarrow>
     (case cachedHash H (mem p) h of None \<Rightarrow> False | Some x \<Rightarrow> GetBlockHash V h = Inr x)"

text \<open>The backend's reported heights stay within the bound.\<close>

definition boundedBackend :: "'h env \<Rightarrow> bool" where
  "boundedBackend E \<longleftrightarrow>
     (\<forall>n v. GetBlockCount (rpc E n) = Inr v \<longrightarrow> 0 \<le> v \<and> v \<le> heightBound)"

text \<open>
  The backend answers from one chain \<open>V\<close> from some moment on; memory, and the shared
  cache from a height upwards, hold only hashes of that chain.
\<close>

definition stableFrom :: "'h env \<Rightarrow> nat \<Rightarrow> 'h chainView \<Rightarrow> bool" where
  "stableFrom E n V \<longleftrightarrow> (\<forall>k\<ge>n. rpc E k = V)"

definition agrees :: "'h chainView \<Rightarrow> 'm producerHooks \<Rightarrow> 'm producer \<Rightarrow> bool" where
  "agrees V H p \<longleftrightarrow> (\<forall>h x. cachedHash H (mem p) h = Some x \<longrightarrow> GetBlockHash V h = Inr x)"

definition cacheOn :: "'h chainView \<Rightarrow> int \<Rightarrow> 'z shared_scheme \<Rightarrow> bool" where
  "cacheOn V a s \<longleftrightarrow> (\<forall>h\<ge>a. \<forall>x. heightToHash (cache s) h = Some x \<longrightarrow> GetBlockHash V h = Inr x)"

text \<open>
  Blocks commit to their predecessors: where memory and a chain have the same block, they
  have the same blocks below it.
\<close>

definition linkedTo :: "'h chainView \<Rightarrow> 'm producerHooks \<Rightarrow> 'm producer \<Rightarrow> bool" where
  "linkedTo V H p \<longleftrightarrow>
     (\<forall>h k x. onChain V H p h \<and> k \<le> h \<and> cachedHash H (mem p) k = Some x \<longrightarrow> GetBlockHash V k = Inr x)"

lemma stableFrom_mono: "stableFrom E n V \<Longrightarrow> n \<le> m \<Longrightarrow> stableFrom E m V"
  by (simp add: stableFrom_def)

lemma cacheOn_grows:
  "cacheOn V a s \<Longrightarrow> stableFrom E (now s) V \<Longrightarrow> cacheGrows E s s' \<Longrightarrow> a \<le> b \<Longrightarrow> cacheOn V b s'"
  unfolding cacheOn_def stableFrom_def cacheGrows_def by (metis order_trans)

text \<open>What any stretch of the producer's work does to its state.\<close>

definition evolves :: "'h env \<Rightarrow> ('m producer \<Rightarrow> int \<Rightarrow> int \<Rightarrow> string list) \<Rightarrow> int \<Rightarrow> 'm producer \<Rightarrow> 'm producer \<Rightarrow> bool" where
  "evolves E files hi p q \<longleftrightarrow> conf q = conf p \<and> files q = files p \<and> cacheGrows E p q \<and>
     lastSealedHeight p \<le> lastSealedHeight q \<and> wroteOnly files (lastSealedHeight p) hi p q"

text \<open>
  What a run of the sealing loop establishes: the tail invariant, nothing sealed above the
  safe tip, and when it succeeds no whole file left unsealed at or below it.
\<close>

definition sealPost :: "'h env \<Rightarrow> 'm producerHooks \<Rightarrow> ('m producer \<Rightarrow> int \<Rightarrow> int \<Rightarrow> string list) \<Rightarrow>
    'm producer \<Rightarrow> err + unit \<Rightarrow> 'm producer \<Rightarrow> bool" where
  "sealPost E H files p r p' \<longleftrightarrow>
     tailInv H files p' \<and> evolves E files (currentHeight p - reOrgSafeDepth p) p p' \<and>
     currentHeight p' = currentHeight p \<and>
     (\<forall>h x. cachedHash H (mem p') h = Some x \<longrightarrow> cachedHash H (mem p) h = Some x) \<and>
     (lastSealedHeight p' = lastSealedHeight p \<or> lastSealedHeight p' \<le> currentHeight p - reOrgSafeDepth p) \<and>
     (r = Inr () \<longrightarrow> currentHeight p - reOrgSafeDepth p < lastSealedHeight p' + entriesPerFile p')"

lemma confD:
  "conf q = conf p \<Longrightarrow> entriesPerFile q = entriesPerFile p"
  "conf q = conf p \<Longrightarrow> reOrgSafeDepth q = reOrgSafeDepth p"
  by (simp_all add: conf_def)

lemma confOK_cong: "conf q = conf p \<Longrightarrow> confOK q = confOK p"
  by (simp add: confOK_def conf_def)

lemma aligned_cong: "conf q = conf p \<Longrightarrow> lastSealedHeight q = lastSealedHeight p \<Longrightarrow> aligned q = aligned p"
  by (simp add: aligned_def conf_def)

lemma rangeFiles_cong: "conf q = conf p \<Longrightarrow> files q = files p \<Longrightarrow> rangeFiles files q = rangeFiles files p"
  by (simp add: rangeFiles_def conf_def fun_eq_iff)

lemma evolves_refl [simp]: "evolves E files hi p p"
  by (simp add: evolves_def wroteOnly_def)

lemma evolves_trans:
  assumes "evolves E files hi p q" "evolves E files hi' q r" "hi \<le> hi''" "hi' \<le> hi''"
  shows "evolves E files hi'' p r"
proof -
  have c: "conf q = conf p" "files q = files p" using assms(1) by (simp_all add: evolves_def)
  have "wroteOnly files (lastSealedHeight p) hi'' p r"
    unfolding wroteOnly_def
  proof (intro allI impI)
    fix f
    assume ne: "map_of (disk r) f \<noteq> map_of (disk p) f"
    show "\<exists>k. lastSealedHeight p < k * entriesPerFile p \<and>
        k * entriesPerFile p + entriesPerFile p - 1 \<le> hi'' \<and> f \<in> rangeFiles files p k"
    proof (cases "map_of (disk q) f = map_of (disk p) f")
      case True
      with ne have "map_of (disk r) f \<noteq> map_of (disk q) f" by simp
      then obtain k where k: "lastSealedHeight q < k * entriesPerFile p"
        "k * entriesPerFile p + entriesPerFile p - 1 \<le> hi'" "f \<in> rangeFiles files p k"
        using assms(2) c unfolding evolves_def wroteOnly_def
        by (metis confD(1) rangeFiles_cong)
      moreover have "lastSealedHeight p \<le> lastSealedHeight q" using assms(1) by (simp add: evolves_def)
      ultimately show ?thesis using assms(4) by (intro exI [of _ k]) auto
    next
      case False
      then show ?thesis using assms(1,3) unfolding evolves_def wroteOnly_def by (meson order_trans)
    qed
  qed
  then show ?thesis
    using assms(1,2) by (auto simp: evolves_def intro: cacheGrows_trans)
qed

lemma evolves_mono: "evolves E files hi p q \<Longrightarrow> hi \<le> hi' \<Longrightarrow> evolves E files hi' p q"
  by (rule evolves_trans [OF _ evolves_refl _ order_refl])

text \<open>A file whose range ends at or below the last sealed height does not change.\<close>

lemma wroteOnly_unchanged:
  assumes "wroteOnly files lo hi p q"
    and "\<And>k. lo < k * entriesPerFile p \<Longrightarrow> f \<notin> rangeFiles files p k"
  shows "map_of (disk q) f = map_of (disk p) f"
  using assms by (auto simp: wroteOnly_def)

context file_producer
begin

lemma rangeFiles_disjoint:
  assumes "0 < entriesPerFile p" "0 \<le> k" "0 \<le> k'" "k \<noteq> k'"
  shows "rangeFiles files p k \<inter> rangeFiles files p k' = {}"
proof -
  have "k * entriesPerFile p + entriesPerFile p - 1 \<noteq> k' * entriesPerFile p + entriesPerFile p - 1"
    using assms by simp
  moreover have "0 \<le> k * entriesPerFile p" "0 \<le> k' * entriesPerFile p" using assms by simp_all
  ultimately show ?thesis using assms(1) unfolding rangeFiles_def by (intro files_disjoint) linarith+
qed

text \<open>The wrapping arithmetic of one sealing step, under the invariant.\<close>

lemma seal_numbers:
  assumes "confOK p" "aligned p" "lastSealedHeight p \<le> heightBound"
  shows "nextSealEnd p = lastSealedHeight p + entriesPerFile p"
    and "add32 (sub32 (nextSealEnd p) (entriesPerFile p)) 1 = lastSealedHeight p + 1"
proof -
  note bounds = assms [unfolded confOK_def aligned_def heightBound_def]
  show 1: "nextSealEnd p = lastSealedHeight p + entriesPerFile p"
  proof (cases "lastSealedHeight p < 0")
    case True
    then have "lastSealedHeight p = -1" using bounds by linarith
    then show ?thesis using bounds by (simp add: nextSealEnd_def sub32_id)
  next
    case False
    then show ?thesis using bounds by (simp add: nextSealEnd_def add32_id)
  qed
  show "add32 (sub32 (nextSealEnd p) (entriesPerFile p)) 1 = lastSealedHeight p + 1"
    using bounds by (simp add: 1 sub32_id add32_id)
qed

lemma safeTip_eq:
  "confOK p \<Longrightarrow> -1 \<le> currentHeight p \<Longrightarrow> currentHeight p \<le> heightBound \<Longrightarrow>
   safeTip p = currentHeight p - reOrgSafeDepth p"
  by (simp add: safeTip_def sub32_id confOK_def heightBound_def)

text \<open>The next range is the one right above the last sealed height.\<close>

lemma next_range:
  assumes "confOK p" "aligned p"
  obtains k where "0 \<le> k" "k * entriesPerFile p = lastSealedHeight p + 1"
proof
  let ?k = "(lastSealedHeight p + 1) div entriesPerFile p"
  show "?k * entriesPerFile p = lastSealedHeight p + 1"
    using assms by (simp add: aligned_def div_mod_decomp_int mult_div_mod_eq minus_mod_eq_div_mult [symmetric])
  show "0 \<le> ?k" using assms by (simp add: aligned_def confOK_def pos_imp_zdiv_nonneg_iff)
qed

lemma sealedOnDisk_write:
  assumes "sealedOnDisk files p" "confOK p" "aligned p"
    and w: "writeSealedFile (H E) (lastSealedHeight p + 1) (lastSealedHeight p + entriesPerFile p) p = (r, p1)"
  shows "sealedOnDisk files p1"
    and "wroteOnly files (lastSealedHeight p) (lastSealedHeight p + entriesPerFile p) p p1"
    and "r = Inr u \<Longrightarrow> conf q = conf p1 \<Longrightarrow> files q = files p1 \<Longrightarrow> disk q = disk p1 \<Longrightarrow>
         lastSealedHeight q = lastSealedHeight p + entriesPerFile p \<Longrightarrow> sealedOnDisk files q"
proof -
  let ?n = "entriesPerFile p"
  from assms(2) have n: "0 < ?n" by (simp add: confOK_def)
  obtain k where k: "0 \<le> k" "k * ?n = lastSealedHeight p + 1" using next_range assms by blast
  note base = write_base [OF w]
  have c: "conf p1 = conf p" "files p1 = files p" "lastSealedHeight p1 = lastSealedHeight p"
    using base by (simp_all add: sameBase_def)
  have rf: "rangeFiles files p1 = rangeFiles files p" using c(1,2) by (rule rangeFiles_cong)
  have kfiles: "set (files p (lastSealedHeight p + 1) (lastSealedHeight p + ?n)) = rangeFiles files p k"
    using k by (simp add: rangeFiles_def)
  have old: "fileExists (disk p1) f"
    if "0 \<le> j" "j * ?n + ?n - 1 \<le> lastSealedHeight p" "f \<in> rangeFiles files p j" for j f
  proof -
    have "j \<noteq> k"
    proof
      assume "j = k"
      with that(2) k(2) n show False by simp
    qed
    then have "f \<notin> rangeFiles files p k" using rangeFiles_disjoint [of p j k] that k n by blast
    then have "map_of (disk p1) f = map_of (disk p) f" using write_only [OF w] kfiles by simp
    moreover have "fileExists (disk p) f" using assms(1) that by (auto simp: sealedOnDisk_def)
    ultimately show ?thesis by (simp add: fileExists_def)
  qed
  show "sealedOnDisk files p1" using old c rf confD(1) [OF c(1)] by (auto simp: sealedOnDisk_def)
  show "wroteOnly files (lastSealedHeight p) (lastSealedHeight p + ?n) p p1"
    unfolding wroteOnly_def using write_only [OF w] kfiles k by (auto intro!: exI [of _ k])
  assume r: "r = Inr u" and q: "conf q = conf p1" "files q = files p1" "disk q = disk p1"
    "lastSealedHeight q = lastSealedHeight p + ?n"
  have rq: "rangeFiles files q = rangeFiles files p" by (rule rangeFiles_cong) (use c q in simp_all)
  have nq: "entriesPerFile q = ?n" using c q by (simp add: conf_def)
  show "sealedOnDisk files q"
    unfolding sealedOnDisk_def
  proof (intro allI impI ballI)
    fix j f
    assume j: "0 \<le> j" "j * entriesPerFile q + entriesPerFile q - 1 \<le> lastSealedHeight q"
      and f: "f \<in> rangeFiles files q j"
    show "fileExists (disk q) f"
    proof (cases "j = k")
      case True
      then show ?thesis using write_creates [OF w [unfolded r]] kfiles f rq q by simp
    next
      case False
      have "j * ?n \<le> k * ?n" using j nq q k by simp
      then have "j \<le> k" using n by simp
      with False have "j + 1 \<le> k" by simp
      then have "(j + 1) * ?n \<le> k * ?n" using n by (intro mult_right_mono) simp_all
      then have "j * ?n + ?n - 1 \<le> lastSealedHeight p" using k by (simp add: algebra_simps)
      with old j f rq q show ?thesis by simp
    qed
  qed
qed

lemma tailInvD:
  assumes "tailInv (H E) files p"
  shows "confOK p" "aligned p" "-1 \<le> lastSealedHeight p" "lastSealedHeight p \<le> currentHeight p"
    "currentHeight p \<le> heightBound" "dom (cachedHash (H E) (mem p)) = {lastSealedHeight p + 1..currentHeight p}"
    "sealedOnDisk files p"
  using assms by (simp_all add: tailInv_def tailUpto_def aligned_def)

lemma tailInv_safeTip:
  assumes "tailInv (H E) files p"
  shows "safeTip p = currentHeight p - reOrgSafeDepth p"
  using tailInvD(1,3,4,5) [OF assms] by (intro safeTip_eq) auto

text \<open>A write that fails, or any other hook that leaves the recorded hashes alone.\<close>

lemma tailInv_cong:
  assumes "tailInv (H E) files p" "sameBase p q" "sealedOnDisk files q"
    and "cachedHash (H E) (mem q) = cachedHash (H E) (mem p)"
  shows "tailInv (H E) files q"
proof -
  have "conf q = conf p" "lastSealedHeight q = lastSealedHeight p" "currentHeight q = currentHeight p"
    using assms(2) by (simp_all add: sameBase_def)
  then show ?thesis
    using assms confOK_cong [of q p] aligned_cong [of q p] by (simp add: tailInv_def tailUpto_def)
qed

lemma seal_step:
  assumes inv: "tailInv (H E) files p" and safe: "nextSealEnd p \<le> safeTip p"
    and w: "writeSealedFile (H E) (lastSealedHeight p + 1) (lastSealedHeight p + entriesPerFile p) p = (Inr u, p1)"
    and q: "q = p1\<lparr>mem := pruneLocked (H E) (lastSealedHeight p + 1) (lastSealedHeight p + entriesPerFile p) (mem p1),
                   lastSealedHeight := lastSealedHeight p + entriesPerFile p\<rparr>"
  shows "tailInv (H E) files q" "evolves E files (currentHeight p - reOrgSafeDepth p) p q"
    and "currentHeight q = currentHeight p" "startupComplete q = startupComplete p"
    and "cachedHash (H E) (mem q) h = Some x \<Longrightarrow> cachedHash (H E) (mem p) h = Some x"
    and "lastSealedHeight q = lastSealedHeight p + entriesPerFile p"
    and "lastSealedHeight q \<le> currentHeight p - reOrgSafeDepth p"
proof -
  note D = tailInvD [OF inv]
  let ?n = "entriesPerFile p"
  have n: "0 < ?n" "0 \<le> reOrgSafeDepth p" using D(1) by (simp_all add: confOK_def)
  have le: "lastSealedHeight p + ?n \<le> currentHeight p - reOrgSafeDepth p"
    using safe seal_numbers(1) [OF D(1,2)] tailInv_safeTip [OF inv] D(4,5) by simp
  note base = write_base [OF w]
  have cq: "conf q = conf p1" by (simp add: q conf_def)
  have c: "conf q = conf p" "currentHeight q = currentHeight p" "startupComplete q = startupComplete p"
    using base cq by (simp_all add: q sameBase_def)
  have fq: "files q = files p1" by (rule files_static [where E = E and p = p1]) (use cq in \<open>auto simp: q\<close>)
  have f: "files q = files p" using fq base by simp
  have ls: "lastSealedHeight q = lastSealedHeight p + ?n" by (simp add: q)
  have hash: "cachedHash (H E) (mem q) h =
      (if lastSealedHeight p + 1 \<le> h \<and> h \<le> lastSealedHeight p + ?n then None
       else cachedHash (H E) (mem p) h)" for h
    using base by (simp add: q prune_range)
  have dom: "dom (cachedHash (H E) (mem q)) = {lastSealedHeight q + 1..currentHeight q}"
  proof -
    have "dom (cachedHash (H E) (mem q)) =
        dom (cachedHash (H E) (mem p)) - {lastSealedHeight p + 1..lastSealedHeight p + ?n}"
      by (auto simp: hash dom_def)
    then show ?thesis using D(6) le n c(2) ls by auto
  qed
  have al: "aligned q"
  proof -
    have "(lastSealedHeight p + ?n + 1) mod ?n = (lastSealedHeight p + 1 + ?n) mod ?n" by (simp add: algebra_simps)
    then show ?thesis using D(2,3) n ls confD(1) [OF c(1)] by (simp add: aligned_def)
  qed
  have sd: "sealedOnDisk files q"
    by (rule sealedOnDisk_write(3) [OF D(7,1,2) w refl cq fq]) (simp_all add: q)
  have cOK: "confOK q" using D(1) confOK_cong [OF c(1)] by simp
  show "tailInv (H E) files q"
    using cOK al sd dom le n D(5) c(2) ls by (simp add: tailInv_def tailUpto_def)
  have wo: "wroteOnly files (lastSealedHeight p) (currentHeight p - reOrgSafeDepth p) p q"
    using sealedOnDisk_write(2) [OF D(7,1,2) w] le unfolding wroteOnly_def q by (force intro: order_trans)
  have "cacheGrows E p q"
    using base by (auto simp: q intro: cacheGrows_trans [OF _ cacheGrows_same])
  then show "evolves E files (currentHeight p - reOrgSafeDepth p) p q"
    using c f wo n ls by (simp add: evolves_def)
  show "currentHeight q = currentHeight p" "startupComplete q = startupComplete p"
    "lastSealedHeight q = lastSealedHeight p + ?n" "lastSealedHeight q \<le> currentHeight p - reOrgSafeDepth p"
    using c ls le by simp_all
  show "cachedHash (H E) (mem p) h = Some x" if "cachedHash (H E) (mem q) h = Some x"
    using that by (simp add: hash split: if_splits)
qed

lemma seal_fails:
  assumes inv: "tailInv (H E) files p" and safe: "nextSealEnd p \<le> safeTip p"
    and w: "writeSealedFile (H E) (lastSealedHeight p + 1) (lastSealedHeight p + entriesPerFile p) p = (Inl e, p1)"
  shows "tailInv (H E) files p1" "evolves E files (currentHeight p - reOrgSafeDepth p) p p1"
    and "currentHeight p1 = currentHeight p" "lastSealedHeight p1 = lastSealedHeight p"
    and "cachedHash (H E) (mem p1) = cachedHash (H E) (mem p)"
proof -
  note D = tailInvD [OF inv] and base = write_base [OF w]
  have le: "lastSealedHeight p + entriesPerFile p \<le> currentHeight p - reOrgSafeDepth p"
    using safe seal_numbers(1) [OF D(1,2)] tailInv_safeTip [OF inv] D(4,5) by simp
  show "tailInv (H E) files p1"
    using inv base sealedOnDisk_write(1) [OF D(7,1,2) w] by (intro tailInv_cong [of E p p1]) simp_all
  have "wroteOnly files (lastSealedHeight p) (currentHeight p - reOrgSafeDepth p) p p1"
    using sealedOnDisk_write(2) [OF D(7,1,2) w] le unfolding wroteOnly_def by (force intro: order_trans)
  with base show "evolves E files (currentHeight p - reOrgSafeDepth p) p p1"
    by (simp add: evolves_def sameBase_def)
  show "currentHeight p1 = currentHeight p" "lastSealedHeight p1 = lastSealedHeight p"
    "cachedHash (H E) (mem p1) = cachedHash (H E) (mem p)"
    using base by (simp_all add: sameBase_def)
qed

lemma sealLoop_spec:
  assumes "tailInv (H E) files p" "sealLoop m (H E) p = (r, p')"
  shows "sealPost E (H E) files p r p'"
  using assms
proof (induction m arbitrary: p)
  case 0
  then show ?case by (auto simp: sealPost_def)
next
  case (Suc m)
  note D = tailInvD [OF Suc.prems(1)]
  have ls: "lastSealedHeight p \<le> heightBound" using D(4,5) by simp
  note num = seal_numbers [OF D(1,2) ls] and tip = tailInv_safeTip [OF Suc.prems(1)]
  show ?case
  proof (cases "nextSealEnd p > safeTip p")
    case True
    with Suc.prems num(1) tip show ?thesis by (simp add: sealPost_def)
  next
    case False
    obtain r1 p1 where w: "writeSealedFile (H E) (lastSealedHeight p + 1)
        (lastSealedHeight p + entriesPerFile p) p = (r1, p1)" by fastforce
    show ?thesis
    proof (cases r1)
      case (Inl e)
      with False w Suc.prems num have p': "p' = p1" "r = Inl (Wrapf ''error sealing file'' [] e)"
        by (simp_all add: Let_def)
      show ?thesis
        using seal_fails [OF Suc.prems(1) _ w [unfolded Inl]] False p' by (simp add: sealPost_def)
    next
      case (Inr u)
      define q where "q = p1\<lparr>mem := pruneLocked (H E) (lastSealedHeight p + 1)
          (lastSealedHeight p + entriesPerFile p) (mem p1),
          lastSealedHeight := lastSealedHeight p + entriesPerFile p\<rparr>"
      have safe: "nextSealEnd p \<le> safeTip p" using False by simp
      note st = seal_step [OF Suc.prems(1) safe w [unfolded Inr] q_def]
      have run: "sealLoop m (H E) q = (r, p')"
        using False w Inr Suc.prems(2) num by (simp add: Let_def q_def)
      have cq: "conf q = conf p" using st(2) by (simp add: evolves_def)
      have "reOrgSafeDepth q = reOrgSafeDepth p" using cq by (rule confD)
      with Suc.IH [OF st(1) run] st show ?thesis
        by (auto simp: sealPost_def intro: evolves_trans)
    qed
  qed
qed

text \<open>The budget of the sealing loop is never used up.\<close>

lemma sealLoop_no_fuel:
  assumes "tailInv (H E) files p" "nat (safeTip p - lastSealedHeight p) < m"
  shows "fst (sealLoop m (H E) p) \<noteq> Inl ErrOutOfFuel"
  using assms
proof (induction m arbitrary: p)
  case 0
  then show ?case by simp
next
  case (Suc m)
  note D = tailInvD [OF Suc.prems(1)]
  have ls: "lastSealedHeight p \<le> heightBound" using D(4,5) by simp
  note num = seal_numbers [OF D(1,2) ls] and tip = tailInv_safeTip [OF Suc.prems(1)]
  show ?case
  proof (cases "nextSealEnd p > safeTip p")
    case True
    then show ?thesis by simp
  next
    case False
    obtain r1 p1 where w: "writeSealedFile (H E) (lastSealedHeight p + 1)
        (lastSealedHeight p + entriesPerFile p) p = (r1, p1)" by fastforce
    show ?thesis
    proof (cases r1)
      case (Inl e)
      with False w num show ?thesis by (simp add: Let_def)
    next
      case (Inr u)
      define q where "q = p1\<lparr>mem := pruneLocked (H E) (lastSealedHeight p + 1)
          (lastSealedHeight p + entriesPerFile p) (mem p1),
          lastSealedHeight := lastSealedHeight p + entriesPerFile p\<rparr>"
      have safe: "nextSealEnd p \<le> safeTip p" using False by simp
      note st = seal_step [OF Suc.prems(1) safe w [unfolded Inr] q_def]
      have "conf q = conf p" using st(2) by (simp add: evolves_def)
      then have "safeTip q = safeTip p"
        using tailInv_safeTip [OF st(1)] tip st(3) confD(2) by metis
      moreover have "0 < entriesPerFile p" using D(1) by (simp add: confOK_def)
      ultimately have "nat (safeTip q - lastSealedHeight q) < m"
        using Suc.prems(2) st(6) safe num(1) by simp
      then have "fst (sealLoop m (H E) q) \<noteq> Inl ErrOutOfFuel" by (rule Suc.IH [OF st(1)])
      with False w Inr num show ?thesis by (simp add: Let_def q_def)
    qed
  qed
qed

lemma sealReadyFiles_spec:
  "tailInv (H E) files p \<Longrightarrow> sealReadyFiles (H E) p = (r, p') \<Longrightarrow> sealPost E (H E) files p r p'"
  unfolding sealReadyFiles_def by (rule sealLoop_spec)

lemma sealReadyFiles_no_fuel:
  "tailInv (H E) files p \<Longrightarrow> fst (sealReadyFiles (H E) p) \<noteq> Inl ErrOutOfFuel"
  unfolding sealReadyFiles_def by (rule sealLoop_no_fuel) simp_all

text \<open>Updates of the base's own fields.\<close>

lemma evolves_ingest:
  assumes "ingest (H E) i q = (r, q1)" "conf q = conf p" "files q = files p" "cacheGrows E p q"
    "disk q = disk p" "lastSealedHeight q = lastSealedHeight p"
  shows "evolves E files hi p (q1\<lparr>currentHeight := c\<rparr>)"
proof -
  note base = ingest_base [OF assms(1)]
  have "conf (q1\<lparr>currentHeight := c\<rparr>) = conf p" using base assms by (simp add: sameBase_def conf_def)
  moreover have "files (q1\<lparr>currentHeight := c\<rparr>) = files q1"
    by (rule files_static [where E = E]) (simp_all add: conf_def)
  moreover have "cacheGrows E p (q1\<lparr>currentHeight := c\<rparr>)"
    using base assms by (auto intro: cacheGrows_trans cacheGrows_trans [OF _ cacheGrows_same])
  ultimately show ?thesis
    using base assms by (simp add: evolves_def wroteOnly_def sameBase_def)
qed

text \<open>A successful ingest of the next height extends the tail by it.\<close>

lemma ingest_tail:
  assumes inv: "tailUpto (H E) files i p" and i: "0 \<le> i" "i \<le> heightBound"
    and q: "q = p\<lparr>now := Suc (now p)\<rparr>" and ing: "ingest (H E) i q = (Inr u, q1)"
  shows "tailInv (H E) files (q1\<lparr>currentHeight := i\<rparr>)" "evolves E files hi p (q1\<lparr>currentHeight := i\<rparr>)"
    "lastSealedHeight q1 = lastSealedHeight p"
    "\<exists>x. cachedHash (H E) (mem q1) = (cachedHash (H E) (mem p))(i \<mapsto> x)"
proof -
  define q2 where "q2 = q1\<lparr>currentHeight := i\<rparr>"
  have qq: "conf q = conf p" "lastSealedHeight q = lastSealedHeight p" "mem q = mem p" "disk q = disk p"
    "cacheGrows E p q" by (auto simp: q conf_def intro: cacheGrows_same)
  have fq: "files q = files p" by (rule files_static [where E = E]) (use qq in simp_all)
  note base = ingest_base [OF ing]
  have ev: "evolves E files hi p q2" for hi unfolding q2_def using ing qq(1) fq qq(5,4,2) by (rule evolves_ingest)
  then show "evolves E files hi p (q1\<lparr>currentHeight := i\<rparr>)" by (simp add: q2_def)
  have c2: "conf q2 = conf p" "files q2 = files p" using ev by (simp_all add: evolves_def)
  have ls2: "lastSealedHeight q2 = lastSealedHeight p" using base qq by (simp add: q2_def sameBase_def)
  then show "lastSealedHeight q1 = lastSealedHeight p" by (simp add: q2_def)
  from ingest_records [OF ing] qq(3)
  show "\<exists>x. cachedHash (H E) (mem q1) = (cachedHash (H E) (mem p))(i \<mapsto> x)" by simp
  then obtain x where x: "cachedHash (H E) (mem q1) = (cachedHash (H E) (mem p))(i \<mapsto> x)" ..
  have "sealedOnDisk files q2"
    using inv base qq ls2 rangeFiles_cong [OF c2] confD(1) [OF c2(1)]
    by (simp add: q2_def tailUpto_def sealedOnDisk_def)
  moreover have "dom (cachedHash (H E) (mem q2)) = {lastSealedHeight q2 + 1..i}"
    using inv x ls2 by (auto simp: q2_def tailUpto_def)
  ultimately show "tailInv (H E) files (q1\<lparr>currentHeight := i\<rparr>)"
    using inv i ls2 confOK_cong [OF c2(1)] aligned_cong [OF c2(1) ls2]
    by (simp add: tailInv_def tailUpto_def q2_def)
qed

lemma ingestAndSeal_ok:
  assumes inv: "tailUpto (H E) files i p" and i: "0 \<le> i" "i \<le> heightBound"
    and run: "ingestAndSeal E (H E) i p = (Inr u, p')"
  obtains x where "tailInv (H E) files p'" "currentHeight p' = i"
    "evolves E files (i - reOrgSafeDepth p) p p'"
    "\<forall>h y. cachedHash (H E) (mem p') h = Some y \<longrightarrow> (if h = i then y = x else cachedHash (H E) (mem p) h = Some y)"
    "header_by_hash E \<longrightarrow> (\<exists>q. getBlockHash E i (p\<lparr>now := Suc (now p)\<rparr>) = (Inr x, q))"
    "lastSealedHeight p' = lastSealedHeight p \<or> lastSealedHeight p' \<le> i - reOrgSafeDepth p"
    "i - reOrgSafeDepth p < lastSealedHeight p' + entriesPerFile p"
proof -
  define q where "q = p\<lparr>now := Suc (now p)\<rparr>"
  from run obtain q1 where ing: "ingest (H E) i q = (Inr (), q1)"
    and seal: "sealReadyFiles (H E) (q1\<lparr>currentHeight := i\<rparr>) = (Inr (), p')"
    by (auto simp: ingestAndSeal_def go_simps q_def)
  define q2 where "q2 = q1\<lparr>currentHeight := i\<rparr>"
  note tail = ingest_tail [OF inv i q_def ing, folded q2_def]
  from tail(4) obtain x where x: "cachedHash (H E) (mem q1) = (cachedHash (H E) (mem p))(i \<mapsto> x)" ..
  have c2: "conf q2 = conf p" using tail(2) by (simp add: evolves_def)
  have ls2: "lastSealedHeight q2 = lastSealedHeight p" using tail(3) by (simp add: q2_def)
  note post = sealReadyFiles_spec [OF tail(1) seal [folded q2_def], unfolded sealPost_def]
  have d: "reOrgSafeDepth q2 = reOrgSafeDepth p" "currentHeight q2 = i"
    using c2 by (simp_all add: conf_def) (simp add: q2_def)
  have ep: "entriesPerFile p' = entriesPerFile p"
    using post c2 by (simp add: evolves_def conf_def)
  show thesis
  proof (rule that [of x])
    show "evolves E files (i - reOrgSafeDepth p) p p'"
      using tail(2) [of "i - reOrgSafeDepth p"] post d by (auto intro: evolves_trans)
    show "\<forall>h y. cachedHash (H E) (mem p') h = Some y \<longrightarrow> (if h = i then y = x else cachedHash (H E) (mem p) h = Some y)"
    proof (intro allI impI)
      fix h y
      assume "cachedHash (H E) (mem p') h = Some y"
      with post have "cachedHash (H E) (mem q2) h = Some y" by blast
      then show "if h = i then y = x else cachedHash (H E) (mem p) h = Some y"
        by (simp add: q2_def x split: if_splits)
    qed
    show "header_by_hash E \<longrightarrow> (\<exists>q. getBlockHash E i (p\<lparr>now := Suc (now p)\<rparr>) = (Inr x, q))"
      using ingest_hash [OF _ ing] x by (auto simp: q_def)
  qed (use post d ls2 ep in auto)
qed

lemma tailInv_upto: "tailInv (H E) files p \<Longrightarrow> tailUpto (H E) files (currentHeight p + 1) p"
  by (simp add: tailInv_def)

lemma updateCacheAndFiles_ok:
  assumes "tailUpto (H E) files a p" "0 \<le> a" "a \<le> b" "b \<le> heightBound"
    and "updateCacheAndFiles E (H E) a b p = (Inr u, p')"
  shows "tailInv (H E) files p' \<and> currentHeight p' = b \<and> evolves E files (b - reOrgSafeDepth p) p p' \<and>
    (lastSealedHeight p' = lastSealedHeight p \<or> lastSealedHeight p' \<le> b - reOrgSafeDepth p) \<and>
    b - reOrgSafeDepth p < lastSealedHeight p' + entriesPerFile p"
  using assms
proof (induction "nat (b - a)" arbitrary: a p)
  case (0 a p)
  then have ab: "a = b" by simp
  with 0 have "ingestAndSeal E (H E) b p = (Inr (), p')"
    by (auto simp: updateCacheAndFiles_def go_simps)
  from ingestAndSeal_ok [OF 0(2) [unfolded ab] _ 0(5) this] 0 ab show ?case by (metis order_refl)
next
  case (Suc n a p)
  then have lt: "a < b" by simp
  then have "[a..b] = a # [a + 1..b]" by (simp add: upto_rec1)
  with Suc.prems obtain p1 where step: "ingestAndSeal E (H E) a p = (Inr (), p1)"
    and rest: "updateCacheAndFiles E (H E) (a + 1) b p1 = (Inr u, p')"
    by (auto simp: updateCacheAndFiles_def go_simps)
  have ha: "a \<le> heightBound" using lt Suc.prems by simp
  obtain x where st: "tailInv (H E) files p1" "currentHeight p1 = a"
    "evolves E files (a - reOrgSafeDepth p) p p1"
    "lastSealedHeight p1 = lastSealedHeight p \<or> lastSealedHeight p1 \<le> a - reOrgSafeDepth p"
    using ingestAndSeal_ok [OF Suc.prems(1,2) ha step] by metis
  have c: "conf p1 = conf p" using st(3) by (simp add: evolves_def)
  have "tailUpto (H E) files (a + 1) p1" using tailInv_upto [OF st(1)] st(2) by simp
  then have IH: "tailInv (H E) files p'" "currentHeight p' = b"
    "evolves E files (b - reOrgSafeDepth p1) p1 p'"
    "lastSealedHeight p' = lastSealedHeight p1 \<or> lastSealedHeight p' \<le> b - reOrgSafeDepth p1"
    "b - reOrgSafeDepth p1 < lastSealedHeight p' + entriesPerFile p1"
    using Suc.hyps(1) [of "a + 1" p1] Suc.hyps(2) Suc.prems lt rest by auto
  show ?case
    using IH st lt confD [OF c] evolves_trans [OF st(3) IH(3)] by auto
qed

subsubsection \<open>Re-orgs\<close>

lemma ancestorLoop_frame:
  "ancestorLoop E (H E) hs p = (r, p') \<Longrightarrow> p' = p\<lparr>now := now p'\<rparr> \<and> now p \<le> now p'"
proof (induction hs arbitrary: p)
  case (Cons h hs)
  then show ?case
    by (cases p) (fastforce simp: rpcCall_def split: option.splits sum.splits if_splits)
qed auto

lemma ancestorLoop_result:
  "ancestorLoop E (H E) hs p = (Inr c, p') \<Longrightarrow> c = lastSealedHeight p \<or> c \<in> set hs"
proof (induction hs arbitrary: p)
  case (Cons h hs)
  then show ?case
    by (fastforce simp: rpcCall_def split: option.splits sum.splits if_splits)
qed simp

text \<open>
  With the backend on one chain \<open>V\<close> throughout, the walk returns the highest height
  above the sealed ones whose hash is on that chain, and the last sealed height if there
  is none.
\<close>

lemma ancestorLoop_highest:
  assumes "\<And>n. now p \<le> n \<Longrightarrow> rpc E n = V" "ancestorLoop E (H E) (rev [l..tip]) p = (Inr c, p')"
    and "l = lastSealedHeight p + 1"
  shows "(c = lastSealedHeight p \<or> onChain V (H E) p c) \<and>
         (\<forall>h. c < h \<and> l \<le> h \<and> h \<le> tip \<longrightarrow> \<not> onChain V (H E) p h)"
  using assms
proof (induction "nat (tip + 1 - l)" arbitrary: tip p)
  case (0 tip p)
  then show ?case by auto
next
  case (Suc n tip p)
  then have "l \<le> tip" by simp
  then have "rev [l..tip] = tip # rev [l..tip - 1]" by (simp add: upto_rec2)
  note run = Suc.prems(2) [unfolded this]
  have IH: "(c = lastSealedHeight q \<or> onChain V (H E) q c) \<and>
      (\<forall>h. c < h \<and> l \<le> h \<and> h \<le> tip - 1 \<longrightarrow> \<not> onChain V (H E) q h)"
    if "ancestorLoop E (H E) (rev [l..tip - 1]) q = (Inr c, p')"
      "q = p \<or> q = p\<lparr>now := Suc (now p)\<rparr>" for q
    using that Suc.prems(1,3) Suc.hyps(2) by (intro Suc.hyps(1)) auto
  show ?case
  proof (cases "cachedHash (H E) (mem p) tip")
    case None
    with run have "ancestorLoop E (H E) (rev [l..tip - 1]) p = (Inr c, p')" by simp
    from IH [OF this] have "(c = lastSealedHeight p \<or> onChain V (H E) p c) \<and>
        (\<forall>h. c < h \<and> l \<le> h \<and> h \<le> tip - 1 \<longrightarrow> \<not> onChain V (H E) p h)" by simp
    moreover have "\<not> onChain V (H E) p tip" using None by (simp add: onChain_def)
    ultimately show ?thesis by (metis le_less zle_diff1_eq)
  next
    case (Some x)
    show ?thesis
    proof (cases "GetBlockHash V tip = Inr x")
      case True
      with run Some Suc.prems(1) show ?thesis by (auto simp: rpcCall_def onChain_def)
    next
      case False
      with run Some Suc.prems(1) have "ancestorLoop E (H E) (rev [l..tip - 1]) (p\<lparr>now := Suc (now p)\<rparr>) = (Inr c, p')"
        by (auto simp: rpcCall_def split: sum.splits if_splits)
      from IH [OF this] have "(c = lastSealedHeight p \<or> onChain V (H E) p c) \<and>
          (\<forall>h. c < h \<and> l \<le> h \<and> h \<le> tip - 1 \<longrightarrow> \<not> onChain V (H E) p h)" by (simp add: onChain_def)
      moreover have "\<not> onChain V (H E) p tip" using False Some by (simp add: onChain_def)
      ultimately show ?thesis by (metis le_less zle_diff1_eq)
    qed
  qed
qed

lemma rollback_ok:
  assumes inv: "tailInv (H E) files p" and c: "lastSealedHeight p < c" "c \<le> currentHeight p"
  shows "tailInv (H E) files (rollback (H E) c p)" "evolves E files hi p (rollback (H E) c p)"
    and "currentHeight (rollback (H E) c p) = c" "disk (rollback (H E) c p) = disk p"
    and "lastSealedHeight (rollback (H E) c p) = lastSealedHeight p"
    and "cachedHash (H E) (mem (rollback (H E) c p)) h =
         (if c < h then None else cachedHash (H E) (mem p) h)"
    and "cacheInv (cache p) \<Longrightarrow>
         heightToHash (cache (rollback (H E) c p)) h = (if c < h then None else heightToHash (cache p) h)"
proof -
  note D = tailInvD [OF inv]
  have rng: "-1 \<le> c" "c \<le> 1000000000" using D(3,5) c by (simp_all add: heightBound_def)
  have c1: "add32 c 1 = c + 1" using rng by (simp add: add32_id)
  let ?q = "rollback (H E) c p"
  have q: "?q = p\<lparr>mem := pruneLocked (H E) (c + 1) (currentHeight p) (mem p), currentHeight := c,
                   cache := invalidate (c + 1) (cache p)\<rparr>"
    by (simp add: rollback_def c1)
  have cq: "conf ?q = conf p" by (simp add: q conf_def)
  have fq: "files ?q = files p" by (rule files_static [where E = E]) (use cq in \<open>auto simp: q\<close>)
  have hash: "cachedHash (H E) (mem ?q) h = (if c < h then None else cachedHash (H E) (mem p) h)" for h
  proof (cases "currentHeight p < h")
    case True
    then have "h \<notin> dom (cachedHash (H E) (mem p))" using D(6) by simp
    then show ?thesis by (auto simp: q prune_range)
  qed (auto simp: q prune_range)
  show "cachedHash (H E) (mem ?q) h = (if c < h then None else cachedHash (H E) (mem p) h)" by (rule hash)
  have "dom (cachedHash (H E) (mem ?q)) = {lastSealedHeight p + 1..c}"
  proof -
    have "dom (cachedHash (H E) (mem ?q)) = dom (cachedHash (H E) (mem p)) \<inter> {..c}"
      by (auto simp: hash dom_def)
    then show ?thesis using D(6) c by auto
  qed
  moreover have "sealedOnDisk files ?q"
    using D(7) rangeFiles_cong [OF cq fq] confD(1) [OF cq] by (simp add: sealedOnDisk_def q)
  ultimately show "tailInv (H E) files ?q"
    using D c confOK_cong [OF cq] aligned_cong [OF cq] by (simp add: tailInv_def tailUpto_def q)
  have "cacheGrows E p ?q"
    by (rule cacheGrows_shrink)
      (use rng in \<open>simp_all add: q invalidate_inv, simp add: invalidate_def deleteRange_apply\<close>)
  then show "evolves E files hi p ?q"
    using cq fq by (simp add: evolves_def wroteOnly_def q)
  show "heightToHash (cache ?q) h = (if c < h then None else heightToHash (cache p) h)" if "cacheInv (cache p)"
    using invalidate_lookup [OF that, of "c + 1" h] by (simp add: q)
qed (simp_all add: rollback_def)

text \<open>The clock alone.\<close>

lemma tick_ok:
  assumes "q = p\<lparr>now := now q\<rparr>" "now p \<le> now q"
  shows "conf q = conf p" "files q = files p" "sameBase p q" "cacheGrows E p q" "evolves E files hi p q"
    "mem q = mem p" "disk q = disk p" "cache q = cache p"
    "tailInv (H E) files p \<Longrightarrow> tailInv (H E) files q"
proof -
  show m: "mem q = mem p" "disk q = disk p" "cache q = cache p" by (subst assms(1), simp)+
  show c: "conf q = conf p" by (subst assms(1)) (simp add: conf_def)
  show b: "sameBase p q" by (subst assms(1)) (simp add: sameBase_def conf_def)
  show f: "files q = files p" by (rule files_static [where E = undefined]) (use c m in simp_all)
  show g: "cacheGrows E p q" using assms(2) m by (simp add: cacheGrows_same)
  show "evolves E files hi p q" using c f g m b by (simp add: evolves_def wroteOnly_def sameBase_def)
  show "tailInv (H E) files q" if inv: "tailInv (H E) files p"
  proof (rule tailInv_cong [OF inv b])
    show "sealedOnDisk files q"
      using tailInvD(7) [OF inv] b m rangeFiles_cong [OF c f] confD(1) [OF c]
      by (simp add: sealedOnDisk_def sameBase_def)
  qed (simp add: m)
qed

text \<open>What follows once the tip is known to differ.\<close>

lemma handleReorg_walk:
  assumes "0 \<le> currentHeight p" "cachedHash (H E) (mem p) (currentHeight p) = Some x"
    and "GetBlockHash (rpc E (now p)) (currentHeight p) = Inr b" "x \<noteq> b"
    and anc: "ancestorLoop E (H E) (rev [lastSealedHeight p + 1..currentHeight p]) (p\<lparr>now := Suc (now p)\<rparr>) = (rc, q)"
  shows "handleReorg E (H E) p =
     (case rc of
        Inl e \<Rightarrow> (Inl (Wrapf ''error finding common ancestor'' [] e), q)
      | Inr c \<Rightarrow>
          if c \<le> lastSealedHeight p
          then (Inl (Wrapf ''reorg back to height (last sealed)'' [c, lastSealedHeight p] ErrDeepReorg), q)
          else (Inr (), rollback (H E) c q))"
    and "q = p\<lparr>now := now q\<rparr>" "now p \<le> now q"
proof -
  from ancestorLoop_frame [OF anc] have f: "q = p\<lparr>now := now q\<rparr>" "now p \<le> now q" "lastSealedHeight q = lastSealedHeight p"
    by (cases p; cases q; simp)+
  then show "q = p\<lparr>now := now q\<rparr>" "now p \<le> now q" by simp_all
  show "handleReorg E (H E) p =
     (case rc of
        Inl e \<Rightarrow> (Inl (Wrapf ''error finding common ancestor'' [] e), q)
      | Inr c \<Rightarrow>
          if c \<le> lastSealedHeight p
          then (Inl (Wrapf ''reorg back to height (last sealed)'' [c, lastSealedHeight p] ErrDeepReorg), q)
          else (Inr (), rollback (H E) c q))"
    using assms f by (simp add: handleReorg_def Let_def rpcCall_def findCommonAncestor_def split: sum.split)
qed

lemma handleReorg_cases:
  assumes "handleReorg E (H E) p = (r, p')"
  obtains (quiet) "r = Inr ()" "p' = p\<lparr>now := now p'\<rparr>" "now p \<le> now p'"
      "\<And>x. 0 \<le> currentHeight p \<Longrightarrow> cachedHash (H E) (mem p) (currentHeight p) = Some x \<Longrightarrow>
         GetBlockHash (rpc E (now p)) (currentHeight p) = Inr x"
  | (rolled) c q where "r = Inr ()" "q = p\<lparr>now := now q\<rparr>" "now p \<le> now q" "lastSealedHeight p < c"
      "ancestorLoop E (H E) (rev [lastSealedHeight p + 1..currentHeight p]) (p\<lparr>now := Suc (now p)\<rparr>) = (Inr c, q)"
      "p' = rollback (H E) c q"
  | (failed) e where "r = Inl e" "p' = p\<lparr>now := now p'\<rparr>" "now p \<le> now p'"
proof (cases "currentHeight p < 0 \<or> cachedHash (H E) (mem p) (currentHeight p) = None")
  case True
  with assms have "r = Inr ()" "p' = p" by (auto simp: handleReorg_def Let_def split: if_splits)
  with True show thesis by (intro quiet) auto
next
  case False
  then obtain x where x: "0 \<le> currentHeight p" "cachedHash (H E) (mem p) (currentHeight p) = Some x" by auto
  show thesis
  proof (cases "GetBlockHash (rpc E (now p)) (currentHeight p)")
    case (Inl e)
    with assms x show thesis by (intro failed) (auto simp: handleReorg_def Let_def rpcCall_def)
  next
    case b: (Inr b)
    show thesis
    proof (cases "x = b")
      case True
      with assms x b have "r = Inr ()" "p' = p\<lparr>now := Suc (now p)\<rparr>"
        by (simp_all add: handleReorg_def Let_def rpcCall_def)
      with x b True show thesis by (intro quiet) auto
    next
      case False
      obtain rc q where anc: "ancestorLoop E (H E) (rev [lastSealedHeight p + 1..currentHeight p])
          (p\<lparr>now := Suc (now p)\<rparr>) = (rc, q)" by fastforce
      note walk = handleReorg_walk [OF x b False anc]
      show thesis
      proof (cases rc)
        case (Inl e)
        with walk assms show thesis by (intro failed) simp_all
      next
        case (Inr c)
        show thesis
        proof (cases "c \<le> lastSealedHeight p")
          case True
          with Inr walk assms show thesis by (intro failed) simp_all
        next
          case False
          with Inr walk assms anc show thesis by (intro rolled [of q c]) simp_all
        qed
      qed
    qed
  qed
qed

text \<open>A failing re-org check changes nothing but the clock; a successful one keeps the invariant.\<close>

lemma handleReorg_ok:
  assumes inv: "tailInv (H E) files p" and run: "handleReorg E (H E) p = (Inr u, p')"
  shows "tailInv (H E) files p' \<and> evolves E files hi p p' \<and> lastSealedHeight p' = lastSealedHeight p \<and>
    disk p' = disk p \<and> currentHeight p' \<le> currentHeight p \<and>
    (\<forall>h. cachedHash (H E) (mem p') h = (if currentHeight p' < h then None else cachedHash (H E) (mem p) h))"
  using run
proof (cases rule: handleReorg_cases)
  case quiet
  note t = tick_ok [OF quiet(2,3)]
  have "cachedHash (H E) (mem p) h = None" if "currentHeight p < h" for h
  proof -
    have "h \<notin> dom (cachedHash (H E) (mem p))" using that unfolding tailInvD(6) [OF inv] by simp
    then show ?thesis by (simp add: domIff)
  qed
  then show ?thesis
    using t(2,5-7) t(9) [OF inv] t(3) [unfolded sameBase_def] by simp
next
  case (rolled c q)
  note t = tick_ok [OF rolled(2,3)]
  have q: "tailInv (H E) files q" "lastSealedHeight q = lastSealedHeight p" "currentHeight q = currentHeight p"
    using t inv by (simp_all add: sameBase_def)
  have "c \<le> currentHeight q"
    using ancestorLoop_result [OF rolled(5)] rolled(4) q by auto
  note rb = rollback_ok [OF q(1) rolled(4) [folded q(2)] this, folded rolled(6)]
  have "evolves E files hi p p'" by (rule evolves_trans [OF t(5) rb(2) order_refl order_refl])
  then show ?thesis using rb t q \<open>c \<le> currentHeight q\<close> by simp
next
  case (failed e)
  then show ?thesis by simp
qed

subsubsection \<open>Polling\<close>

lemma pollAdvance_ok:
  assumes inv: "tailInv (H E) files p" and v: "0 \<le> v" "v \<le> heightBound"
    and run: "pollAdvance E (H E) v p = (Inr u, p')"
  shows "tailInv (H E) files p' \<and> evolves E files (v - reOrgSafeDepth p) p p' \<and> v \<le> currentHeight p'"
proof -
  have i32v: "i32 v = v" using v by (simp add: i32_id heightBound_def)
  from run obtain p1 where r: "handleReorg E (H E) p = (Inr (), p1)"
    and rest: "(if v \<le> currentHeight p1 then (Inr (), p1)
       else goWrap ''error updating for blocks'' []
              (updateCacheAndFiles E (H E) (add32 (currentHeight p1) 1) v) p1) = (Inr u, p')"
    by (auto simp: pollAdvance_def go_simps i32v cong: if_cong)
  note h = handleReorg_ok [OF inv r]
  note D = tailInvD [OF conjunct1 [OF h]]
  show ?thesis
  proof (cases "v \<le> currentHeight p1")
    case True
    with rest h show ?thesis by auto
  next
    case False
    have a: "add32 (currentHeight p1) 1 = currentHeight p1 + 1"
      using D(3,4,5) by (simp add: add32_id heightBound_def)
    have up: "updateCacheAndFiles E (H E) (currentHeight p1 + 1) v p1 = (Inr u, p')"
      using rest False a by (simp add: go_simps)
    have c: "reOrgSafeDepth p1 = reOrgSafeDepth p" using h by (auto simp: evolves_def intro: confD)
    have "tailInv (H E) files p' \<and> currentHeight p' = v \<and> evolves E files (v - reOrgSafeDepth p1) p1 p'"
      using updateCacheAndFiles_ok [OF tailInv_upto [OF conjunct1 [OF h]] _ _ v(2) up] False D(3,4) by simp
    moreover have "evolves E files (v - reOrgSafeDepth p) p p1" using h by blast
    ultimately show ?thesis
      using c by (auto intro: evolves_trans [OF _ _ order_refl order_refl])
  qed
qed

lemma tipReorged_frame:
  "tipReorged E (H E) p = (b, p') \<Longrightarrow> p' = p\<lparr>now := now p'\<rparr> \<and> now p \<le> now p'"
  by (cases p) (auto simp: tipReorged_def Let_def rpcCall_def split: if_splits option.splits sum.splits)

lemma pollOnce_cases:
  assumes "pollOnce E (H E) p = (Inr u, p')"
  obtains v q where "GetBlockCount (rpc E (Suc (now p))) = Inr v" "q = p\<lparr>now := now q\<rparr>" "Suc (now p) < now q"
    "p' = q \<and> i32 v = currentHeight p \<and> tipReorged E (H E) (p\<lparr>now := Suc (Suc (now p))\<rparr>) = (False, q)
     \<or> pollAdvance E (H E) v q = (Inr u, p')"
proof -
  let ?q = "p\<lparr>now := Suc (Suc (now p))\<rparr>"
  from assms obtain v where v: "GetBlockCount (rpc E (Suc (now p))) = Inr v"
    and rest: "(if i32 v = currentHeight ?q
       then (case tipReorged E (H E) ?q of
               (False, p1) \<Rightarrow> (Inr (), p1)
             | (True, p1) \<Rightarrow> pollAdvance E (H E) v p1)
       else pollAdvance E (H E) v ?q) = (Inr u, p')"
    by (auto simp: pollOnce_def go_simps cong: if_cong)
  show thesis
  proof (cases "i32 v = currentHeight p")
    case False
    with rest show thesis by (intro that [OF v, of ?q]) simp_all
  next
    case True
    obtain b q where b: "tipReorged E (H E) ?q = (b, q)" by fastforce
    from tipReorged_frame [OF b] have q: "q = p\<lparr>now := now q\<rparr>" "Suc (now p) < now q"
      by (cases p; cases q; simp)+
    from rest True b have "(case b of False \<Rightarrow> (Inr (), q) | True \<Rightarrow> pollAdvance E (H E) v q) = (Inr u, p')"
      by simp
    with True b show thesis by (intro that [OF v q]) (cases b; simp)
  qed
qed

lemma pollOnce_ok:
  assumes inv: "tailInv (H E) files p" and bb: "boundedBackend E" and run: "pollOnce E (H E) p = (Inr u, p')"
  obtains v where "GetBlockCount (rpc E (Suc (now p))) = Inr v"
    "tailInv (H E) files p'" "evolves E files (v - reOrgSafeDepth p) p p'" "v \<le> currentHeight p'"
proof -
  from run obtain v q where v: "GetBlockCount (rpc E (Suc (now p))) = Inr v"
    and q: "q = p\<lparr>now := now q\<rparr>" "Suc (now p) < now q"
    and alt: "p' = q \<and> i32 v = currentHeight p \<and> tipReorged E (H E) (p\<lparr>now := Suc (Suc (now p))\<rparr>) = (False, q)
      \<or> pollAdvance E (H E) v q = (Inr u, p')"
    by (rule pollOnce_cases)
  have bv: "0 \<le> v" "v \<le> heightBound" using bb v by (auto simp: boundedBackend_def)
  note t = tick_ok [OF q(1) less_imp_le [OF Suc_lessD [OF q(2)]]]
  have d: "reOrgSafeDepth q = reOrgSafeDepth p" using t(1) by (rule confD)
  from alt show thesis
  proof
    assume "p' = q \<and> i32 v = currentHeight p \<and> tipReorged E (H E) (p\<lparr>now := Suc (Suc (now p))\<rparr>) = (False, q)"
    then have p': "p' = q" "v = currentHeight p" using bv by (simp_all add: i32_id heightBound_def)
    have "currentHeight q = currentHeight p" using t(3) by (simp add: sameBase_def)
    then show thesis unfolding p' using t(9) [OF inv] t(5) v by (intro that [of v]) (simp_all add: p')
  next
    assume adv: "pollAdvance E (H E) v q = (Inr u, p')"
    from pollAdvance_ok [OF t(9) [OF inv] bv adv] d
    have "tailInv (H E) files p'" "evolves E files (v - reOrgSafeDepth p) q p'" "v \<le> currentHeight p'"
      by simp_all
    with v show thesis
      using evolves_trans [OF t(5) _ order_refl order_refl] by (intro that [of v]) blast+
  qed
qed

lemma pollLoop_ok:
  assumes "tailInv (H E) files p" "boundedBackend E" "pollLoop k E (H E) p = (Inr u, p')"
  shows "tailInv (H E) files p' \<and> evolves E files heightBound p p'"
  using assms
proof (induction k arbitrary: p)
  case 0
  then show ?case by (simp add: go_simps)
next
  case (Suc k)
  from Suc.prems(3) obtain q where q: "pollOnce E (H E) p = (Inr (), q)" and rest: "pollLoop k E (H E) q = (Inr u, p')"
    by (auto simp: go_simps)
  from pollOnce_ok [OF Suc.prems(1,2) q] obtain v where
    v: "GetBlockCount (rpc E (Suc (now p))) = Inr v" and inv: "tailInv (H E) files q"
    and ev: "evolves E files (v - reOrgSafeDepth p) p q" by metis
  have "v \<le> heightBound" using Suc.prems(2) v by (auto simp: boundedBackend_def)
  then have "v - reOrgSafeDepth p \<le> heightBound"
    using tailInvD(1) [OF Suc.prems(1)] by (simp add: confOK_def)
  with Suc.IH [OF inv Suc.prems(2) rest] ev show ?case by (auto intro: evolves_trans)
qed

subsubsection \<open>Whatever the outcome\<close>

text \<open>
  A run that fails part way leaves its writes behind. They too are writes of ranges above the
  height sealed before.
\<close>

lemma ingestAndSeal_evolves:
  assumes inv: "tailUpto (H E) files i p" and i: "0 \<le> i" "i \<le> heightBound"
    and run: "ingestAndSeal E (H E) i p = (r, p')"
  shows "evolves E files heightBound p p'"
proof -
  define q where "q = p\<lparr>now := Suc (now p)\<rparr>"
  have q: "conf q = conf p" "files q = files p" "cacheGrows E p q" "disk q = disk p" "lastSealedHeight q = lastSealedHeight p"
    "evolves E files heightBound p q"
    using tick_ok [of q p] by (auto simp: q_def)
  obtain ri q1 where ing: "ingest (H E) i q = (ri, q1)" by fastforce
  show ?thesis
  proof (cases "quitClosed E (now p)")
    case True
    with run q(6) show ?thesis by (simp add: ingestAndSeal_def goBind_def checkQuit_def q_def)
  next
    case False
    show ?thesis
    proof (cases ri)
      case (Inl e)
      with run False ing have "p' = q1" by (simp add: ingestAndSeal_def goBind_def checkQuit_def q_def)
      with evolves_ingest [OF ing q(1-5), of heightBound "currentHeight q1"] show ?thesis by simp
    next
      case (Inr u)
      with run False ing have seal: "sealReadyFiles (H E) (q1\<lparr>currentHeight := i\<rparr>) = (r, p')"
        by (simp add: ingestAndSeal_def goBind_def checkQuit_def q_def goModify_def)
      note tail = ingest_tail [OF inv i q_def ing [unfolded Inr]]
      have d: "0 \<le> reOrgSafeDepth (q1\<lparr>currentHeight := i\<rparr>)" using tailInvD(1) [OF tail(1)] by (simp add: confOK_def)
      have "evolves E files (i - reOrgSafeDepth (q1\<lparr>currentHeight := i\<rparr>)) (q1\<lparr>currentHeight := i\<rparr>) p'"
        using sealReadyFiles_spec [OF tail(1) seal] by (simp add: sealPost_def)
      then have "evolves E files heightBound (q1\<lparr>currentHeight := i\<rparr>) p'" by (rule evolves_mono) (use d i in simp)
      with tail(2) [of heightBound] show ?thesis by (rule evolves_trans) simp_all
    qed
  qed
qed

lemma updateCacheAndFiles_evolves:
  assumes "tailUpto (H E) files a p" "0 \<le> a" "b \<le> heightBound" "updateCacheAndFiles E (H E) a b p = (r, p')"
  shows "evolves E files heightBound p p'"
  using assms
proof (induction "nat (b + 1 - a)" arbitrary: a p)
  case 0
  then show ?case by (simp add: updateCacheAndFiles_def goRet_def)
next
  case (Suc n)
  then have ab: "a \<le> b" by simp
  then have split: "[a..b] = a # [a + 1..b]" by (rule upto_rec1)
  obtain r1 p1 where step: "ingestAndSeal E (H E) a p = (r1, p1)" by fastforce
  have ha: "a \<le> heightBound" using ab Suc.prems(3) by simp
  note ev = ingestAndSeal_evolves [OF Suc.prems(1,2) ha step]
  show ?case
  proof (cases r1)
    case (Inl e)
    with Suc.prems(4) step split ev show ?thesis by (simp add: updateCacheAndFiles_def goBind_def)
  next
    case (Inr u)
    with Suc.prems(4) step split have rest: "updateCacheAndFiles E (H E) (a + 1) b p1 = (r, p')"
      by (simp add: updateCacheAndFiles_def goBind_def)
    obtain x where st: "tailInv (H E) files p1" "currentHeight p1 = a"
      using ingestAndSeal_ok [OF Suc.prems(1,2) ha step [unfolded Inr]] by metis
    have "tailUpto (H E) files (a + 1) p1" using tailInv_upto [OF st(1)] st(2) by simp
    then have "evolves E files heightBound p1 p'" using Suc.hyps(1) [of "a + 1" p1] Suc.hyps(2) Suc.prems rest by simp
    with ev show ?thesis by (rule evolves_trans) simp_all
  qed
qed

lemma pollAdvance_evolves:
  assumes inv: "tailInv (H E) files p" and v: "0 \<le> v" "v \<le> heightBound" and run: "pollAdvance E (H E) v p = (r, p')"
  shows "evolves E files heightBound p p'"
proof -
  have i32v: "i32 v = v" using v by (simp add: i32_id heightBound_def)
  obtain r1 p1 where re: "handleReorg E (H E) p = (r1, p1)" by fastforce
  show ?thesis
  proof (cases r1)
    case (Inl e)
    with run re have "p' = p1" by (simp add: pollAdvance_def goBind_def)
    moreover from re [unfolded Inl] have "evolves E files heightBound p p1"
      by (cases rule: handleReorg_cases) (auto intro: tick_ok(5))
    ultimately show ?thesis by simp
  next
    case (Inr u)
    note h = handleReorg_ok [OF inv re [unfolded Inr]]
    note D = tailInvD [OF conjunct1 [OF h]]
    have ev: "evolves E files heightBound p p1" using h by blast
    show ?thesis
    proof (cases "v \<le> currentHeight p1")
      case True
      with run re Inr i32v ev show ?thesis by (simp add: pollAdvance_def goBind_def)
    next
      case False
      have a: "add32 (currentHeight p1) 1 = currentHeight p1 + 1" using D(3,4,5) by (simp add: add32_id heightBound_def)
      obtain r2 p2 where up: "updateCacheAndFiles E (H E) (currentHeight p1 + 1) v p1 = (r2, p2)" by fastforce
      with run re Inr i32v False a have "p' = p2" by (auto simp: pollAdvance_def goBind_def goWrap_def split: sum.splits)
      moreover have "evolves E files heightBound p1 p2"
        using updateCacheAndFiles_evolves [OF tailInv_upto [OF conjunct1 [OF h]] _ v(2) up] D(3,4) by simp
      ultimately show ?thesis using ev evolves_trans [OF ev _ order_refl order_refl] by blast
    qed
  qed
qed

lemma pollOnce_evolves:
  assumes inv: "tailInv (H E) files p" and bb: "boundedBackend E" and run: "pollOnce E (H E) p = (r, p')"
  shows "evolves E files heightBound p p'"
proof -
  let ?q = "p\<lparr>now := Suc (Suc (now p))\<rparr>"
  have tick: "evolves E files heightBound p q" "tailInv (H E) files q" if "q = p\<lparr>now := now q\<rparr>" "now p \<le> now q" for q
    using tick_ok [OF that] inv by blast+
  show ?thesis
  proof (cases "quitClosed E (now p) \<or> (\<exists>e. GetBlockCount (rpc E (Suc (now p))) = Inl e)")
    case True
    with run have "p' = p\<lparr>now := Suc (now p)\<rparr> \<or> p' = ?q"
      by (cases "quitClosed E (now p)") (auto simp: pollOnce_def goBind_def goWrap_def checkQuit_def rpcCall_def)
    then show ?thesis using tick(1) [of p'] by auto
  next
    case False
    then obtain v where v: "GetBlockCount (rpc E (Suc (now p))) = Inr v" by (metis sumE)
    have bv: "0 \<le> v" "v \<le> heightBound" using bb v by (auto simp: boundedBackend_def)
    obtain b q where b: "tipReorged E (H E) ?q = (b, q)" by fastforce
    have q: "q = p\<lparr>now := now q\<rparr>" "now p \<le> now q" using tipReorged_frame [OF b] by (cases p; cases q; simp)+
    from run False v b have "p' = q \<or> (\<exists>q'. (q' = ?q \<or> q' = q) \<and> pollAdvance E (H E) v q' = (r, p'))"
      by (cases b) (auto simp: pollOnce_def goBind_def goWrap_def checkQuit_def rpcCall_def split: if_splits)
    then show ?thesis
    proof
      assume "p' = q"
      with tick(1) [OF q] show ?thesis by simp
    next
      assume "\<exists>q'. (q' = ?q \<or> q' = q) \<and> pollAdvance E (H E) v q' = (r, p')"
      then obtain q' where adv: "pollAdvance E (H E) v q' = (r, p')" and q': "q' = ?q \<or> q' = q" by blast
      have t: "q' = p\<lparr>now := now q'\<rparr>" "now p \<le> now q'" using q' q by auto
      from pollAdvance_evolves [OF tick(2) [OF t] bv adv] tick(1) [OF t] show ?thesis
        using evolves_trans [OF _ _ order_refl order_refl] by blast
    qed
  qed
qed

lemma pollLoop_evolves:
  assumes "tailInv (H E) files p" "boundedBackend E" "pollLoop k E (H E) p = (r, p')"
  shows "evolves E files heightBound p p'"
  using assms
proof (induction k arbitrary: p)
  case 0
  then show ?case by (simp add: goRet_def)
next
  case (Suc k)
  obtain r1 q where q: "pollOnce E (H E) p = (r1, q)" by fastforce
  note ev = pollOnce_evolves [OF Suc.prems(1,2) q]
  show ?case
  proof (cases r1)
    case (Inl e)
    with Suc.prems(3) q ev show ?thesis by (simp add: goBind_def)
  next
    case (Inr u)
    with Suc.prems(3) q have rest: "pollLoop k E (H E) q = (r, p')" by (simp add: goBind_def)
    from pollOnce_ok [OF Suc.prems(1,2) q [unfolded Inr]] have "tailInv (H E) files q" by metis
    from Suc.IH [OF this Suc.prems(2) rest] ev show ?thesis by (auto intro: evolves_trans)
  qed
qed

text \<open>A file of a sealed range keeps its contents through any number of polls.\<close>

lemma sealed_unchanged:
  assumes inv: "tailInv (H E) files p" and ev: "evolves E files hi p p'"
    and k: "0 \<le> k" "k * entriesPerFile p + entriesPerFile p - 1 \<le> lastSealedHeight p"
    and f: "f \<in> rangeFiles files p k"
  shows "fileExists (disk p) f \<and> map_of (disk p') f = map_of (disk p) f"
proof
  show "fileExists (disk p) f" using tailInvD(7) [OF inv] k f by (auto simp: sealedOnDisk_def)
  have n: "0 < entriesPerFile p" using tailInvD(1) [OF inv] by (simp add: confOK_def)
  have "f \<notin> rangeFiles files p j" if j: "lastSealedHeight p < j * entriesPerFile p" for j
  proof -
    have "k * entriesPerFile p < j * entriesPerFile p" using j k n by linarith
    then have "k < j" using n by simp
    then show ?thesis using rangeFiles_disjoint [of p k j] k n f by auto
  qed
  then show "map_of (disk p') f = map_of (disk p) f"
    using ev by (intro wroteOnly_unchanged) (auto simp: evolves_def)
qed

subsubsection \<open>Following the backend's chain\<close>

lemma ingestAndSeal_agrees:
  assumes inv: "tailUpto (H E) files i p" and i: "0 \<le> i" "i \<le> heightBound"
    and run: "ingestAndSeal E (H E) i p = (Inr u, p')"
    and V: "header_by_hash E" "stableFrom E (now p) V" "agrees V (H E) p" "cacheOn V i p"
  shows "agrees V (H E) p' \<and> cacheOn V (i + 1) p'"
proof -
  obtain x where "tailInv (H E) files p'" "currentHeight p' = i"
    and ev: "evolves E files (i - reOrgSafeDepth p) p p'"
    and hash: "\<forall>h y. cachedHash (H E) (mem p') h = Some y \<longrightarrow>
      (if h = i then y = x else cachedHash (H E) (mem p) h = Some y)"
    and x: "header_by_hash E \<longrightarrow> (\<exists>q. getBlockHash E i (p\<lparr>now := Suc (now p)\<rparr>) = (Inr x, q))"
    and "lastSealedHeight p' = lastSealedHeight p \<or> lastSealedHeight p' \<le> i - reOrgSafeDepth p"
    and "i - reOrgSafeDepth p < lastSealedHeight p' + entriesPerFile p"
    by (rule ingestAndSeal_ok [OF inv i run])
  from x V(1) obtain q where "getBlockHash E i (p\<lparr>now := Suc (now p)\<rparr>) = (Inr x, q)" by blast
  from getBlockHash_result [OF this]
  have "heightToHash (cache p) i = Some x \<or> GetBlockHash (rpc E (Suc (now p))) i = Inr x" by auto
  moreover have "rpc E (Suc (now p)) = V" using V(2) by (simp add: stableFrom_def)
  ultimately have "GetBlockHash V i = Inr x" using V(4) by (auto simp: cacheOn_def)
  with hash V(3) have "agrees V (H E) p'" unfolding agrees_def by metis
  moreover have "cacheOn V (i + 1) p'"
    using V(4,2) ev by (intro cacheOn_grows [of V i p E p']) (simp_all add: evolves_def)
  ultimately show ?thesis ..
qed

lemma updateCacheAndFiles_agrees:
  assumes "tailUpto (H E) files a p" "0 \<le> a" "a \<le> b" "b \<le> heightBound"
    and "updateCacheAndFiles E (H E) a b p = (Inr u, p')"
    and "header_by_hash E" "stableFrom E (now p) V" "agrees V (H E) p" "cacheOn V a p"
  shows "agrees V (H E) p'"
  using assms
proof (induction "nat (b - a)" arbitrary: a p)
  case (0 a p)
  then have ab: "a = b" by simp
  with 0 have "ingestAndSeal E (H E) b p = (Inr (), p')"
    by (auto simp: updateCacheAndFiles_def go_simps)
  from ingestAndSeal_agrees [OF 0(2) [unfolded ab] _ 0(5) this 0(7,8,9)] 0 ab show ?case by simp
next
  case (Suc n a p)
  then have lt: "a < b" by simp
  then have "[a..b] = a # [a + 1..b]" by (simp add: upto_rec1)
  with Suc.prems obtain p1 where step: "ingestAndSeal E (H E) a p = (Inr (), p1)"
    and rest: "updateCacheAndFiles E (H E) (a + 1) b p1 = (Inr u, p')"
    by (auto simp: updateCacheAndFiles_def go_simps)
  have ha: "a \<le> heightBound" using lt Suc.prems by simp
  note ag = ingestAndSeal_agrees [OF Suc.prems(1,2) ha step Suc.prems(6-9)]
  from ingestAndSeal_ok [OF Suc.prems(1,2) ha step]
  have st: "tailInv (H E) files p1" "currentHeight p1 = a" "evolves E files (a - reOrgSafeDepth p) p p1"
    by metis+
  have "stableFrom E (now p1) V"
    using Suc.prems(7) st(3) by (auto simp: evolves_def cacheGrows_def intro: stableFrom_mono)
  moreover have "tailUpto (H E) files (a + 1) p1" using tailInv_upto [OF st(1)] st(2) by simp
  ultimately show ?case
    using Suc.hyps(1) [of "a + 1" p1] Suc.hyps(2) Suc.prems(2,4,6) lt rest ag by auto
qed

text \<open>When the tip is on the chain, so is everything in memory.\<close>

lemma agrees_from_tip:
  assumes inv: "tailInv (H E) files p" and "linkedTo V (H E) p"
    and tip: "lastSealedHeight p < currentHeight p \<Longrightarrow> onChain V (H E) p (currentHeight p)"
  shows "agrees V (H E) p"
proof (cases "lastSealedHeight p < currentHeight p")
  case True
  have "h \<le> currentHeight p" if "cachedHash (H E) (mem p) h = Some y" for h y
  proof -
    have "h \<in> dom (cachedHash (H E) (mem p))" using that by blast
    then show ?thesis unfolding tailInvD(6) [OF inv] by simp
  qed
  then show ?thesis using tip [OF True] assms(2) unfolding agrees_def linkedTo_def by blast
next
  case False
  then have "dom (cachedHash (H E) (mem p)) = {}" unfolding tailInvD(6) [OF inv] by simp
  then show ?thesis by (auto simp: agrees_def)
qed

lemma tip_in_memory:
  assumes "tailInv (H E) files p" "lastSealedHeight p < currentHeight p"
  obtains x where "cachedHash (H E) (mem p) (currentHeight p) = Some x" "0 \<le> currentHeight p"
proof -
  have "currentHeight p \<in> dom (cachedHash (H E) (mem p))" unfolding tailInvD(6) [OF assms(1)] using assms(2) by simp
  moreover have "0 \<le> currentHeight p" using assms(2) tailInvD(3) [OF assms(1)] by simp
  ultimately show thesis using that by blast
qed

lemma handleReorg_agrees:
  assumes inv: "tailInv (H E) files p" and run: "handleReorg E (H E) p = (Inr u, p')"
    and V: "stableFrom E (now p) V" "linkedTo V (H E) p" "cacheInv (cache p)" "cacheOn V (currentHeight p + 1) p"
  shows "agrees V (H E) p' \<and> cacheOn V (currentHeight p' + 1) p'"
  using run
proof (cases rule: handleReorg_cases)
  case quiet
  note t = tick_ok [OF quiet(2,3)]
  have "agrees V (H E) p"
  proof (rule agrees_from_tip [OF inv V(2)])
    assume "lastSealedHeight p < currentHeight p"
    then obtain x where x: "cachedHash (H E) (mem p) (currentHeight p) = Some x" "0 \<le> currentHeight p"
      by (rule tip_in_memory [OF inv])
    from quiet(4) [OF x(2,1)] V(1) x(1) show "onChain V (H E) p (currentHeight p)"
      by (simp add: onChain_def stableFrom_def)
  qed
  then show ?thesis
    using V(4) t(6,8) t(3) [unfolded sameBase_def] by (simp add: agrees_def cacheOn_def)
next
  case (rolled c q)
  note t = tick_ok [OF rolled(2,3)]
  have q: "tailInv (H E) files q" "lastSealedHeight q = lastSealedHeight p" "currentHeight q = currentHeight p"
    using t(9) [OF inv] t(3) by (simp_all add: sameBase_def)
  have "c \<le> currentHeight q" using ancestorLoop_result [OF rolled(5)] rolled(4) q by auto
  note rb = rollback_ok [OF q(1) rolled(4) [folded q(2)] this, folded rolled(6)]
  have "onChain V (H E) (p\<lparr>now := Suc (now p)\<rparr>) c"
    using ancestorLoop_highest [OF _ rolled(5), of V] V(1) rolled(4) by (simp add: stableFrom_def)
  then have "onChain V (H E) p c" by (simp add: onChain_def)
  then have "agrees V (H E) p'"
    using V(2) rb(6) t(6) unfolding agrees_def linkedTo_def
    by (metis not_le option.distinct(1))
  moreover have "cacheOn V (currentHeight p' + 1) p'"
    using rb(3) rb(7) V(3) t(8) by (simp add: cacheOn_def)
  ultimately show ?thesis ..
next
  case (failed e)
  then show ?thesis by simp
qed

lemma pollOnce_follows:
  assumes inv: "tailInv (H E) files p" and run: "pollOnce E (H E) p = (Inr u, p')"
    and N: "GetBlockCount V = Inr N" "0 \<le> N" "N \<le> heightBound" "\<And>h. 0 \<le> h \<Longrightarrow> h \<le> N \<Longrightarrow> \<exists>x. GetBlockHash V h = Inr x"
    and V: "header_by_hash E" "stableFrom E (now p) V" "linkedTo V (H E) p"
      "cacheInv (cache p)" "cacheOn V (currentHeight p + 1) p"
  shows "agrees V (H E) p' \<and> N \<le> currentHeight p'"
proof -
  from run obtain v q where v: "GetBlockCount (rpc E (Suc (now p))) = Inr v"
    and q: "q = p\<lparr>now := now q\<rparr>" "Suc (now p) < now q"
    and alt: "p' = q \<and> i32 v = currentHeight p \<and> tipReorged E (H E) (p\<lparr>now := Suc (Suc (now p))\<rparr>) = (False, q)
      \<or> pollAdvance E (H E) v q = (Inr u, p')"
    by (rule pollOnce_cases)
  have later: "rpc E k = V" if "now p \<le> k" for k using V(2) that by (simp add: stableFrom_def)
  have vN: "v = N" using v N(1) later [of "Suc (now p)"] by simp
  have i32N: "i32 N = N" using N by (simp add: i32_id heightBound_def)
  note t = tick_ok [OF q(1) less_imp_le [OF Suc_lessD [OF q(2)]]]
  have ch: "currentHeight q = currentHeight p" using t(3) by (simp add: sameBase_def)
  have Vq: "stableFrom E (now q) V" "linkedTo V (H E) q" "cacheInv (cache q)" "cacheOn V (currentHeight q + 1) q"
    using V(3-5) t(6,8) ch stableFrom_mono [OF V(2)] q(2)
    by (simp_all add: linkedTo_def onChain_def cacheOn_def)
  from alt show ?thesis
  proof
    assume quiet: "p' = q \<and> i32 v = currentHeight p \<and> tipReorged E (H E) (p\<lparr>now := Suc (Suc (now p))\<rparr>) = (False, q)"
    have "agrees V (H E) p"
    proof (rule agrees_from_tip [OF inv V(3)])
      assume "lastSealedHeight p < currentHeight p"
      then obtain x where x: "cachedHash (H E) (mem p) (currentHeight p) = Some x" "0 \<le> currentHeight p"
        by (rule tip_in_memory [OF inv])
      obtain y where "GetBlockHash V (currentHeight p) = Inr y" using N(4) x(2) quiet vN i32N by force
      with quiet x show "onChain V (H E) p (currentHeight p)"
        by (auto simp: tipReorged_def Let_def rpcCall_def later onChain_def)
    qed
    then show ?thesis using quiet t(6) ch vN i32N by (simp add: agrees_def)
  next
    assume adv: "pollAdvance E (H E) v q = (Inr u, p')"
    from adv obtain p1 where r: "handleReorg E (H E) q = (Inr (), p1)"
      and rest: "(if N \<le> currentHeight p1 then (Inr (), p1)
         else goWrap ''error updating for blocks'' []
                (updateCacheAndFiles E (H E) (add32 (currentHeight p1) 1) N) p1) = (Inr u, p')"
      by (auto simp: pollAdvance_def go_simps vN i32N cong: if_cong)
    note h = handleReorg_ok [OF t(9) [OF inv] r] and ag = handleReorg_agrees [OF t(9) [OF inv] r Vq]
    note D = tailInvD [OF conjunct1 [OF h]]
    show ?thesis
    proof (cases "N \<le> currentHeight p1")
      case True
      with rest ag show ?thesis by simp
    next
      case False
      have up: "updateCacheAndFiles E (H E) (currentHeight p1 + 1) N p1 = (Inr u, p')"
        using rest False D(3,4,5) by (simp add: go_simps add32_id heightBound_def)
      have "stableFrom E (now p1) V"
        using Vq(1) h by (auto simp: evolves_def cacheGrows_def intro: stableFrom_mono)
      then have "agrees V (H E) p'"
        using updateCacheAndFiles_agrees [OF tailInv_upto [OF conjunct1 [OF h]] _ _ N(3) up V(1)] ag False D(3,4)
        by simp
      moreover have "currentHeight p' = N"
        using updateCacheAndFiles_ok [OF tailInv_upto [OF conjunct1 [OF h]] _ _ N(3) up] False D(3,4) by simp
      ultimately show ?thesis by simp
    qed
  qed
qed

text \<open>The walk returns as long as the backend answers.\<close>

lemma ancestorLoop_answers:
  assumes "stableFrom E (now p) V" "\<And>h. h \<in> set hs \<Longrightarrow> \<exists>x. GetBlockHash V h = Inr x"
  shows "\<exists>c q. ancestorLoop E (H E) hs p = (Inr c, q)"
  using assms
proof (induction hs arbitrary: p)
  case (Cons h hs)
  obtain x where x: "GetBlockHash V h = Inr x" using Cons.prems(2) by force
  have rpc: "rpc E (now p) = V" using Cons.prems(1) by (simp add: stableFrom_def)
  have st: "stableFrom E (now (p\<lparr>now := Suc (now p)\<rparr>)) V" using Cons.prems(1) by (simp add: stableFrom_def)
  from Cons.IH [OF st] Cons.IH [OF Cons.prems(1)] Cons.prems(2) x rpc show ?case
    by (auto simp: rpcCall_def split: option.split)
qed simp

text \<open>A re-org whose fork point is above the sealed files is rolled back to that point.\<close>

lemma shallow_reorg:
  assumes inv: "tailInv (H E) files p" and V: "stableFrom E (now p) V"
    and ans: "\<And>h. lastSealedHeight p < h \<Longrightarrow> h \<le> currentHeight p \<Longrightarrow> \<exists>x. GetBlockHash V h = Inr x"
    and c: "lastSealedHeight p < c" "c < currentHeight p" "onChain V (H E) p c"
    and above: "\<And>h. c < h \<Longrightarrow> h \<le> currentHeight p \<Longrightarrow> \<not> onChain V (H E) p h"
  obtains p' where "handleReorg E (H E) p = (Inr (), p')" "currentHeight p' = c" "disk p' = disk p"
    "lastSealedHeight p' = lastSealedHeight p" "tailInv (H E) files p'"
    "cacheInv (cache p) \<longrightarrow> (\<forall>h>c. heightToHash (cache p') h = None)"
proof -
  have "lastSealedHeight p < currentHeight p" using c by simp
  with inv obtain x where x: "cachedHash (H E) (mem p) (currentHeight p) = Some x" "0 \<le> currentHeight p"
    by (rule tip_in_memory)
  obtain b where b: "GetBlockHash V (currentHeight p) = Inr b" using ans [of "currentHeight p"] c by auto
  have xb: "x \<noteq> b" using above [of "currentHeight p"] c x b by (auto simp: onChain_def)
  have rpc: "GetBlockHash (rpc E (now p)) (currentHeight p) = Inr b" using b V by (simp add: stableFrom_def)
  let ?p1 = "p\<lparr>now := Suc (now p)\<rparr>"
  have V1: "stableFrom E (now ?p1) V" using V by (simp add: stableFrom_def)
  obtain c' q where anc: "ancestorLoop E (H E) (rev [lastSealedHeight p + 1..currentHeight p]) ?p1 = (Inr c', q)"
    using ancestorLoop_answers [OF V1, of "rev [lastSealedHeight p + 1..currentHeight p]"] ans by auto
  have hi: "(c' = lastSealedHeight p \<or> onChain V (H E) p c') \<and>
      (\<forall>h. c' < h \<and> lastSealedHeight p + 1 \<le> h \<and> h \<le> currentHeight p \<longrightarrow> \<not> onChain V (H E) p h)"
    using ancestorLoop_highest [OF _ anc, of V] V1 by (simp add: stableFrom_def onChain_def)
  have "c' \<le> currentHeight p" using ancestorLoop_result [OF anc] c by auto
  then have cc: "c' = c" using hi above c by (metis add1_zle_eq less_le_not_le linorder_less_linear not_le)
  note walk = handleReorg_walk [OF x(2,1) rpc xb anc]
  have run: "handleReorg E (H E) p = (Inr (), rollback (H E) c q)" using walk(1) cc c by simp
  note t = tick_ok [OF walk(2,3)]
  have q: "tailInv (H E) files q" "lastSealedHeight q = lastSealedHeight p" "currentHeight q = currentHeight p"
    using t(9) [OF inv] t(3) by (simp_all add: sameBase_def)
  have cq: "lastSealedHeight q < c" "c \<le> currentHeight q" using q c by simp_all
  note rb = rollback_ok [OF q(1) cq]
  show thesis
    by (rule that [OF run rb(3)]) (use rb(1,4,5) t(7) q rb(7) t(8) in simp_all)
qed

text \<open>
  A re-org that replaced every height in memory is refused, and nothing changes: not
  even the rollback of the heights that could be replaced.
\<close>

lemma deep_reorg:
  assumes inv: "tailInv (H E) files p" and V: "stableFrom E (now p) V"
    and ans: "\<And>h. lastSealedHeight p < h \<Longrightarrow> h \<le> currentHeight p \<Longrightarrow> \<exists>x. GetBlockHash V h = Inr x"
    and tail: "lastSealedHeight p < currentHeight p"
    and off: "\<And>h. lastSealedHeight p < h \<Longrightarrow> h \<le> currentHeight p \<Longrightarrow> \<not> onChain V (H E) p h"
  obtains e p' where "handleReorg E (H E) p = (Inl e, p')" "errors_is e ErrDeepReorg" "p' = p\<lparr>now := now p'\<rparr>"
proof -
  from inv tail obtain x where x: "cachedHash (H E) (mem p) (currentHeight p) = Some x" "0 \<le> currentHeight p"
    by (rule tip_in_memory)
  obtain b where b: "GetBlockHash V (currentHeight p) = Inr b" using ans [of "currentHeight p"] tail by auto
  have xb: "x \<noteq> b" using off [of "currentHeight p"] tail x b by (auto simp: onChain_def)
  have rpc: "GetBlockHash (rpc E (now p)) (currentHeight p) = Inr b" using b V by (simp add: stableFrom_def)
  let ?p1 = "p\<lparr>now := Suc (now p)\<rparr>"
  have V1: "stableFrom E (now ?p1) V" using V by (simp add: stableFrom_def)
  obtain c q where anc: "ancestorLoop E (H E) (rev [lastSealedHeight p + 1..currentHeight p]) ?p1 = (Inr c, q)"
    using ancestorLoop_answers [OF V1, of "rev [lastSealedHeight p + 1..currentHeight p]"] ans by auto
  have "c = lastSealedHeight p \<or> onChain V (H E) p c"
    using ancestorLoop_highest [OF _ anc, of V] V1 by (simp add: stableFrom_def onChain_def)
  moreover have "c = lastSealedHeight p \<or> lastSealedHeight p < c \<and> c \<le> currentHeight p"
    using ancestorLoop_result [OF anc] by auto
  ultimately have "c = lastSealedHeight p" using off by blast
  note walk = handleReorg_walk [OF x(2,1) rpc xb anc]
  show thesis by (rule that [OF walk(1) [unfolded \<open>c = lastSealedHeight p\<close>, simplified] _ walk(2)]) simp
qed

text \<open>
  A restart resumes where the files on disk end: with the first \<open>k\<close> ranges sealed, the
  catch-up ingests only the heights above them and leaves the sealed files as they were.
\<close>

lemma resume_at:
  assumes "sealedRanges (disk p) (joinPath (baseDir p) (subDir p)) (fileSuffix p) (entriesPerFile p) k"
    and "extractSuffix p = fileSuffix p" "plainDir (joinPath (baseDir p) (subDir p))"
    and n: "0 < entriesPerFile p" and k: "0 \<le> k" "k * entriesPerFile p \<le> 10000000" "k * entriesPerFile p \<noteq> 1"
  obtains L where "lastFile (disk p) (joinPath (baseDir p) (subDir p)) (fileSuffix p) (extractSuffix p) = Inr L"
    "lastSealedHeight (resumeHeights L p) = k * entriesPerFile p - 1"
proof (cases "k = 0")
  case True
  with assms(1,2) show thesis by (intro that [of 0]) (simp_all add: lastFile_empty resumeHeights_def)
next
  case False
  with k have "0 < k" by simp
  with n have "0 < k * entriesPerFile p" by simp
  with k have "0 < k * entriesPerFile p - 1" by linarith
  then show thesis using assms \<open>0 < k\<close>
    by (intro that [of "k * entriesPerFile p - 1"]) (simp_all add: lastFile_sealed resumeHeights_def)
qed

lemma startUp_ok:
  assumes d: "sealedRanges (disk p) (joinPath (baseDir p) (subDir p)) (fileSuffix p) (entriesPerFile p) k"
    "extractSuffix p = fileSuffix p" "plainDir (joinPath (baseDir p) (subDir p))"
    and ok: "confOK p" and fresh: "dom (cachedHash (H E) (mem p)) = {}"
    and k: "0 \<le> k" "k * entriesPerFile p \<le> 10000000" "k * entriesPerFile p \<noteq> 1"
    and there: "\<And>j f. 0 \<le> j \<Longrightarrow> j < k \<Longrightarrow> f \<in> rangeFiles files p j \<Longrightarrow> fileExists (disk p) f"
    and N: "k * entriesPerFile p \<le> N" "N \<le> heightBound"
    and run: "startUp E (H E) N p = (Inr u, p')"
  shows "tailInv (H E) files p' \<and> currentHeight p' = N \<and> startupComplete p' \<and>
    k * entriesPerFile p - 1 \<le> lastSealedHeight p' \<and>
    (\<forall>j f. 0 \<le> j \<and> j < k \<and> f \<in> rangeFiles files p j \<longrightarrow> map_of (disk p') f = map_of (disk p) f)"
proof -
  let ?n = "entriesPerFile p" and ?p0 = "p\<lparr>now := Suc (now p)\<rparr>"
  have n: "0 < ?n" using ok by (simp add: confOK_def)
  obtain L where L: "lastFile (disk ?p0) (joinPath (baseDir ?p0) (subDir ?p0)) (fileSuffix ?p0) (extractSuffix ?p0) = Inr L"
    "lastSealedHeight (resumeHeights L ?p0) = k * ?n - 1"
    by (rule resume_at [of ?p0 k]) (use d n k in simp_all)
  define q where "q = resumeHeights L ?p0"
  have q: "conf q = conf p" "mem q = mem p" "disk q = disk p" "lastSealedHeight q = k * ?n - 1"
    using L(2) by (simp_all add: q_def resumeHeights_def conf_def)
  have fq: "files q = files p" by (rule files_static [OF q(1) disjI1 [OF q(2)]])
  have rq: "rangeFiles files q = rangeFiles files p" by (rule rangeFiles_cong [OF q(1) fq])
  note nq = confD [OF q(1)]
  from run L(1) obtain p1 where up: "updateCacheAndFiles E (H E) (add32 (lastSealedHeight q) 1) N q = (Inr (), p1)"
    and p': "p' = p1\<lparr>startupComplete := True\<rparr>"
    by (auto simp: startUp_def go_simps no_afterCatchUp q_def mkdirAll_def split: if_splits)
  have kn: "0 \<le> k * ?n" using k n by simp
  have a: "add32 (lastSealedHeight q) 1 = k * ?n" using q(4) kn k by (simp add: add32_id)
  have old: "0 \<le> j \<and> j * ?n + ?n - 1 \<le> k * ?n - 1 \<longleftrightarrow> 0 \<le> j \<and> j < k" for j
  proof -
    have "j * ?n + ?n \<le> k * ?n \<longleftrightarrow> (j + 1) * ?n \<le> k * ?n" by (simp add: algebra_simps)
    then show ?thesis using n by auto
  qed
  have okq: "confOK q" using confOK_cong [OF q(1)] ok by (rule iffD2)
  have "sealedOnDisk files q" using there old unfolding sealedOnDisk_def rq nq q(3,4) by blast
  then have T: "tailUpto (H E) files (k * ?n) q"
    using okq fresh kn N q(2,4) nq by (simp add: tailUpto_def aligned_def)
  note res = updateCacheAndFiles_ok [OF T kn N up [unfolded a]]
  have "map_of (disk p1) f = map_of (disk q) f" if j: "0 \<le> j" "j < k" "f \<in> rangeFiles files p j" for j f
  proof (rule wroteOnly_unchanged)
    show "wroteOnly files (lastSealedHeight q) (N - reOrgSafeDepth q) q p1" using res by (simp add: evolves_def)
    fix i assume "lastSealedHeight q < i * entriesPerFile q"
    then have "k * ?n \<le> i * ?n" using nq q(4) by simp
    then have "j \<noteq> i" "0 \<le> i" using n j k by auto
    then show "f \<notin> rangeFiles files q i" using rangeFiles_disjoint [OF n j(1)] j(3) rq by auto
  qed
  moreover have "tailInv (H E) files p'"
  proof -
    have c: "conf p' = conf p1" by (simp add: p' conf_def)
    have "files p' = files p1" by (rule files_static [OF c, where E = E]) (simp add: p')
    then have "rangeFiles files p' = rangeFiles files p1" by (rule rangeFiles_cong [OF c])
    then have "sealedOnDisk files p' = sealedOnDisk files p1" by (simp add: sealedOnDisk_def p')
    with res show ?thesis
      by (simp add: p' tailInv_def tailUpto_def confOK_def aligned_def)
  qed
  ultimately show ?thesis using res q(3,4) by (auto simp: p' evolves_def)
qed

end

end
