(* ===== verification/Demo.thy ===== *)
theory Demo
  imports Backend
begin

text \<open>
  One concrete instance of everything the program is given from outside, in which the
  hypotheses of the properties are shown to hold together: Bitcoin's variable-length
  integers as they are, and a miniature block chain. A miniature header is the number of
  the block and of its predecessor; its hash is 32 times the number. The hash of any other
  string repeats the first byte and ends in the length.
\<close>

subsection \<open>Variable-length integers\<close>

definition compactSize :: "nat \<Rightarrow> bytes" where
  "compactSize n =
     (if n < 253 then [of_nat n]
      else if n < 65536 then 253 # le_bytes 2 n
      else if n < 4294967296 then 254 # le_bytes 4 n
      else 255 # le_bytes 8 n)"

definition compactSizeLen :: "nat \<Rightarrow> nat" where
  "compactSizeLen n = (if n < 253 then 1 else if n < 65536 then 3 else if n < 4294967296 then 5 else 9)"

definition readFixed :: "nat \<Rightarrow> bytes \<Rightarrow> err + nat \<times> bytes" where
  "readFixed k bs = (if length bs < k then Inl ErrUnexpectedEOF else Inr (le_val (take k bs), drop k bs))"

fun readCompactSize :: "bytes \<Rightarrow> err + nat \<times> bytes" where
  "readCompactSize [] = Inl ErrEOF"
| "readCompactSize (b # bs) =
     (if b = 253 then readFixed 2 bs else if b = 254 then readFixed 4 bs
      else if b = 255 then readFixed 8 bs else Inr (unat b, bs))"

definition readBytes :: "nat \<Rightarrow> bytes \<Rightarrow> err + bytes \<times> bytes" where
  "readBytes m bs =
     (case readCompactSize bs of
        Inl e \<Rightarrow> Inl e
      | Inr (n, rest) \<Rightarrow>
          if n > m then Inl (Errf ''payload is larger than the max allowed size'' [])
          else if length rest < n then Inl ErrUnexpectedEOF
          else Inr (take n rest, drop n rest))"

lemma readFixed_le_bytes: "n < 256 ^ k \<Longrightarrow> readFixed k (le_bytes k n @ r) = Inr (n, r)"
  by (simp add: readFixed_def)

lemma readCompactSize_compactSize:
  assumes "n < 18446744073709551616"
  shows "readCompactSize (compactSize n @ r) = Inr (n, r)"
proof (cases "n < 253")
  case True
  then have u: "unat (of_nat n :: byte) = n" by (simp add: unat_of_nat take_bit_eq_mod)
  then have "of_nat n \<noteq> (253 :: byte)" "of_nat n \<noteq> (254 :: byte)" "of_nat n \<noteq> (255 :: byte)"
    using True by auto
  with True u show ?thesis by (simp add: compactSize_def)
next
  case False
  with assms show ?thesis by (auto simp: compactSize_def readFixed_le_bytes simp del: le_bytes.simps)
qed

subsection \<open>The miniature chain\<close>

type_synonym miniHeader = "byte \<times> byte"

definition miniSerialize :: "miniHeader \<Rightarrow> bytes" where
  "miniSerialize h = [fst h, 0, 0, 0] @ replicate 32 (snd h) @ replicate 44 0"

definition miniDeserialize :: "bytes \<Rightarrow> err + miniHeader \<times> bytes" where
  "miniDeserialize bs =
     (if bs = [] then Inl ErrEOF else if length bs < 80 then Inl ErrUnexpectedEOF
      else Inr ((bs ! 0, bs ! 4), drop 80 bs))"

definition miniHash :: "bytes \<Rightarrow> hash" where
  "miniHash bs = replicate 31 (hd (bs @ [0])) @ [if length bs = 80 then hd bs else of_nat (length bs)]"

text \<open>The chain up to a tip: block \<open>n\<close> has the filter \<open>[n]\<close>, in hexadecimal.\<close>

definition miniBlockHash :: "int \<Rightarrow> hash" where "miniBlockHash n = replicate 32 (of_int n)"

definition miniFilterHeader :: "int \<Rightarrow> hash" where
  "miniFilterHeader n = replicate 31 (of_int n) @ [64]"

definition miniChain :: "int \<Rightarrow> miniHeader chainView" where
  "miniChain tip = \<lparr>
     GetBlockHash = (\<lambda>n. if 0 \<le> n \<and> n \<le> tip then Inr (miniBlockHash n) else Inl (Errf ''Block height out of range'' [n])),
     GetBlockHeader = (\<lambda>x. if x = replicate 32 (hd x) then Inr (hd x, hd x - 1) else Inl (Errf ''Block not found'' [])),
     GetBlockFilter = (\<lambda>x. Inr \<lparr>bfFilter = [CHR ''0'', char_of (48 + unat (hd x))],
                                 bfHeader = map (\<lambda>b. char_of (unat b)) (replicate 31 (hd x) @ [64])\<rparr>),
     GetBlockCount = Inr tip\<rparr>"

definition miniEnv :: "int \<Rightarrow> miniHeader env" where
  "miniEnv tip = \<lparr>rpc = (\<lambda>_. miniChain tip), quitClosed = (\<lambda>_. False), ioFaults = (\<lambda>_. None),
     DoubleHash = miniHash, NewHashFromStr = (\<lambda>s. Inr (map (\<lambda>c. of_nat (of_char c)) s)),
     PrevBlock = (\<lambda>h. replicate 32 (snd h)), BlockHash = (\<lambda>h. replicate 32 (fst h)),
     SerializeHeader = miniSerialize, DeserializeHeader = miniDeserialize,
     WriteVarInt = compactSize, VarIntSerializeSize = compactSizeLen,
     WriteVarBytes = (\<lambda>b. compactSize (length b) @ b),
     ReadVarInt = readCompactSize, ReadVarBytes = readBytes\<rparr>"

lemma byte_char [simp]: "(of_nat (unat b mod 256) :: byte) = b"
proof -
  have "unat b < 256" using unsigned_less [of b, where 'a = nat] by simp
  then show ?thesis by simp
qed

lemma mini_header_codec [simp]: "header_codec (miniEnv tip)"
proof -
  have "miniHash (miniSerialize h) = replicate 32 (fst h)" for h
    by (simp add: miniHash_def miniSerialize_def replicate_append_same flip: replicate_Suc)
  then show ?thesis
    by (auto simp: header_codec_def miniEnv_def miniSerialize_def miniDeserialize_def MaxBlockHeaderPayload_def nth_append)
qed

lemma mini_wire_codec [simp]: "wire_codec (miniEnv tip)"
proof -
  have "length (compactSize n) = compactSizeLen n" "0 < compactSizeLen n" for n
    by (simp_all add: compactSize_def compactSizeLen_def del: le_bytes.simps)
  moreover have "readBytes m (compactSize (length b) @ b @ r) = Inr (b, r)"
    if "length b \<le> m" "m < 18446744073709551616" for m b r
    using that readCompactSize_compactSize [of "length b" "b @ r"] by (simp add: readBytes_def)
  ultimately show ?thesis
    by (auto simp: wire_codec_def miniEnv_def readCompactSize_compactSize readBytes_def)
qed

lemma mini_hash_codec [simp]: "hash_codec (miniEnv tip)"
  by (simp add: hash_codec_def miniEnv_def miniHash_def HashSize_def)

lemma mini_header_by_hash [simp]: "header_by_hash (miniEnv tip)"
  by (auto simp: header_by_hash_def miniEnv_def miniChain_def split: if_splits)

lemma upto_01: "[0..1] = [0, 1 :: int]"
  by (simp add: upto_rec1)

end
