(* ===== verification/BlockPrevouts.thy ===== *)
theory BlockPrevouts
  imports H2HCache Demo
begin

text \<open>
  \<open>block-prevouts.go\<close>: fetching a block together with the scripts of the outputs it
  spends, over bitcoind's REST interface or its \<open>getblock\<close> call, and the prefetcher that
  keeps the next blocks in flight.

  What the code uses of \<open>wire\<close>, \<open>blockchain\<close>, \<open>net/http\<close>, \<open>encoding/json\<close>,
  \<open>silentpayments\<close> and \<open>txscript\<close> is the record \<open>blockEnv\<close>. The fetcher's
  \<open>probeOnce\<close> and \<open>useREST\<close> and the prefetcher's \<open>pending\<close> map are the record
  \<open>prefetch\<close>. A background fetch runs at the moment it is scheduled; its result waits in
  the map, as it waits in the channel of the Go program, until the height is consumed.
\<close>

type_synonym outPoint = "hash \<times> nat"

record txOut =
  Value :: int
  PkScript :: bytes

record msgTx =
  TxIn :: "outPoint list"
  TxOut :: "txOut list"

record getBlockTx =
  txHex :: string
  txVin :: "string option list"

record blockWithPrevOuts =
  txs :: "msgTx list"
  prevOutScripts :: "outPoint \<rightharpoonup> bytes"

record blockEnv =
  httpGet :: "nat \<Rightarrow> string \<Rightarrow> err + int \<times> (err + bytes)"
  hashString :: "hash \<Rightarrow> string"
  MsgBlockDeserialize :: "bytes \<Rightarrow> err + msgTx list"
  RawGetBlock :: "nat \<Rightarrow> hash \<Rightarrow> err + bytes"
  UnmarshalGetBlock :: "bytes \<Rightarrow> err + getBlockTx list"
  MsgTxDeserializeHex :: "string \<Rightarrow> err + msgTx"
  IsCoinBaseTx :: "msgTx \<Rightarrow> bool"
  TransactionTweakData :: "msgTx \<Rightarrow> (outPoint \<Rightarrow> err + bytes) \<Rightarrow> err + bytes option"
  IsPayToTaproot :: "bytes \<Rightarrow> bool"
  IsPayToWitnessPubKeyHash :: "bytes \<Rightarrow> bool"
  IsPayToWitnessScriptHash :: "bytes \<Rightarrow> bool"
  GCSBuild :: "hash \<Rightarrow> bytes list \<Rightarrow> err + bytes"
  GCSNBytes :: "bytes \<Rightarrow> err + bytes"
  rangeScripts :: "(outPoint \<rightharpoonup> bytes) \<Rightarrow> bytes list"

text \<open>
  \<open>GCSBuild\<close> stands for \<open>builder.WithKeyHash\<close>, the calls of \<open>AddEntry\<close> and
  \<open>Build\<close>; \<open>rangeScripts\<close> is the order in which Go ranges over a map, which the
  language leaves open.
\<close>

definition MaxBlockPayload :: nat where "MaxBlockPayload = 4000000"
definition MaxMessagePayload :: nat where "MaxMessagePayload = 33554432"
definition maxSpentTxOutsPerBlock :: nat where "maxSpentTxOutsPerBlock = MaxBlockPayload"
definition minPrevOutBackendVersion :: int where "minPrevOutBackendVersion = 300000"
definition prefetchDepth :: int where "prefetchDepth = 8"
definition restProbePath :: string where "restProbePath = ''/rest/chaininfo.json''"

definition fetchPrevOutScript :: "blockWithPrevOuts \<Rightarrow> outPoint \<Rightarrow> err + bytes" where
  "fetchPrevOutScript b op =
     (case prevOutScripts b op of
        None \<Rightarrow> Inl (Errf ''no previous output script known for outpoint'' [])
      | Some pkScript \<Rightarrow> Inr pkScript)"

definition backendRESTURL :: "bool \<Rightarrow> string \<Rightarrow> string" where
  "backendRESTURL disableTLS host = (if disableTLS then ''http'' else ''https'') @ ''://'' @ host"

definition verifyPrevOutBackendVersion :: "int \<Rightarrow> err + unit" where
  "verifyPrevOutBackendVersion version =
     (if version < minPrevOutBackendVersion
      then Inl (Errf ''indexing SP tweak data or custom filters requires bitcoind v30.0 or later'' [version])
      else Inr ())"

subsection \<open>The response of \<open>/rest/spenttxouts\<close>\<close>

text \<open>\<open>int64(binary.LittleEndian.Uint64(...))\<close> of eight bytes.\<close>

definition int64le :: "bytes \<Rightarrow> int" where
  "int64le bs = (int (le_val bs) + 9223372036854775808) mod 18446744073709551616 - 9223372036854775808"

fun parseTxOuts :: "'h env \<Rightarrow> nat \<Rightarrow> bytes \<Rightarrow> err + txOut list \<times> bytes" where
  "parseTxOuts E 0 r = Inr ([], r)"
| "parseTxOuts E (Suc n) r =
     (if length r < 8 then Inl (Wrapf ''error reading value of spent output'' []
         (if r = [] then ErrEOF else ErrUnexpectedEOF))
      else case ReadVarBytes E MaxMessagePayload (drop 8 r) of
             Inl e \<Rightarrow> Inl (Wrapf ''error reading pkScript of spent output'' [] e)
           | Inr (pkScript, r1) \<Rightarrow>
               (case parseTxOuts E n r1 of
                  Inl e \<Rightarrow> Inl e
                | Inr (outs, r2) \<Rightarrow> Inr (\<lparr>Value = int64le (take 8 r), PkScript = pkScript\<rparr> # outs, r2)))"

fun parseTxLists :: "'h env \<Rightarrow> nat \<Rightarrow> bytes \<Rightarrow> err + txOut list list \<times> bytes" where
  "parseTxLists E 0 r = Inr ([], r)"
| "parseTxLists E (Suc n) r =
     (case ReadVarInt E r of
        Inl e \<Rightarrow> Inl (Wrapf ''error reading input count of tx'' [] e)
      | Inr (numIns, r1) \<Rightarrow>
          if numIns > maxSpentTxOutsPerBlock then Inl (Errf ''input count of tx exceeds maximum'' [int numIns])
          else case parseTxOuts E numIns r1 of
                 Inl e \<Rightarrow> Inl e
               | Inr (outs, r2) \<Rightarrow>
                   (case parseTxLists E n r2 of
                      Inl e \<Rightarrow> Inl e
                    | Inr (lsts, r3) \<Rightarrow> Inr (outs # lsts, r3)))"

definition parseSpentTxOuts :: "'h env \<Rightarrow> bytes \<Rightarrow> err + txOut list list" where
  "parseSpentTxOuts E r =
     (case ReadVarInt E r of
        Inl e \<Rightarrow> Inl (Wrapf ''error reading tx count'' [] e)
      | Inr (numTxs, r1) \<Rightarrow>
          if numTxs > maxSpentTxOutsPerBlock then Inl (Errf ''tx count exceeds maximum'' [int numTxs])
          else case parseTxLists E numTxs r1 of
                 Inl e \<Rightarrow> Inl e
               | Inr (spentTxOuts, r2) \<Rightarrow>
                   if r2 \<noteq> [] then Inl (Errf ''unexpected trailing data after spent output lists'' [])
                   else Inr spentTxOuts)"

subsection \<open>Fetching one block\<close>

record prefetchedBlock =
  pbHash :: hash
  pbResult :: "err + blockWithPrevOuts"

record prefetch =
  probed :: bool
  useREST :: bool
  pending :: "int \<rightharpoonup> prefetchedBlock"

type_synonym ('z, 'a) fetch = "(prefetch \<times> 'z shared_scheme, 'a) go"

text \<open>One HTTP request: it takes a tick, like every request to the backend.\<close>

definition httpCall :: "blockEnv \<Rightarrow> string \<Rightarrow> ('z, int \<times> (err + bytes)) fetch" where
  "httpCall B path = (\<lambda>(q, s). (httpGet B (now s) path, (q, s\<lparr>now := Suc (now s)\<rparr>)))"

text \<open>\<open>f.probeOnce.Do(f.probeREST)\<close>\<close>

definition probeREST :: "blockEnv \<Rightarrow> ('z, unit) fetch" where
  "probeREST B qs =
     (case httpCall B restProbePath qs of
        (Inl _, qs1) \<Rightarrow> (Inr (), qs1)
      | (Inr (status, _), (q, s)) \<Rightarrow>
          if status \<noteq> 200 then (Inr (), (q, s)) else (Inr (), (q\<lparr>useREST := True\<rparr>, s)))"

definition probeOnce :: "blockEnv \<Rightarrow> ('z, unit) fetch" where
  "probeOnce B = (\<lambda>(q, s). if probed q then (Inr (), (q, s)) else probeREST B (q\<lparr>probed := True\<rparr>, s))"

definition requireREST :: "blockEnv \<Rightarrow> ('z, unit) fetch" where
  "requireREST B = goBind (probeOnce B) (\<lambda>_ (q, s).
     if \<not> useREST q then (Inl (Errf ''the backend's REST API is not reachable'' []), (q, s)) else (Inr (), (q, s)))"

definition restGet :: "blockEnv \<Rightarrow> string \<Rightarrow> ('z, bytes) fetch" where
  "restGet B path = goBind (goWrap ''error calling REST endpoint'' [] (httpCall B path)) (\<lambda>(status, body) qs.
     case body of
       Inl e \<Rightarrow> (Inl (Wrapf ''error reading response of REST endpoint'' [] e), qs)
     | Inr bs \<Rightarrow> if status \<noteq> 200 then (Inl (Errf ''REST endpoint returned HTTP status'' [status]), qs)
                 else (Inr bs, qs))"

text \<open>
  The loop of \<open>fetchBlockREST\<close> over the transactions after the first, which is the
  coinbase transaction; the map is filled in order, a later entry replaces an earlier one.
\<close>

definition addPrevOuts :: "outPoint list \<Rightarrow> bytes list \<Rightarrow> (outPoint \<rightharpoonup> bytes) \<Rightarrow> (outPoint \<rightharpoonup> bytes)" where
  "addPrevOuts ops scripts m = fold (\<lambda>(op, script) m. m(op \<mapsto> script)) (zip ops scripts) m"

fun pairSpent :: "nat \<Rightarrow> msgTx list \<Rightarrow> txOut list list \<Rightarrow> (outPoint \<rightharpoonup> bytes) \<Rightarrow> err + (outPoint \<rightharpoonup> bytes)" where
  "pairSpent i (tx # rest) (spent # lsts) m =
     (if i = 0 then pairSpent (Suc i) rest lsts m
      else if length spent \<noteq> length (TxIn tx)
      then Inl (Errf ''input count mismatch for tx'' [int i, int (length spent), int (length (TxIn tx))])
      else pairSpent (Suc i) rest lsts (addPrevOuts (TxIn tx) (map PkScript spent) m))"
| "pairSpent i _ _ m = Inr m"

definition fetchBlockREST :: "'h env \<Rightarrow> blockEnv \<Rightarrow> hash \<Rightarrow> ('z, blockWithPrevOuts) fetch" where
  "fetchBlockREST E B hash =
     goBind (goWrap ''error fetching block'' [] (restGet B (''/rest/block/'' @ hashString B hash @ ''.bin''))) (\<lambda>blockBytes.
     goBind (goWrap ''error deserializing block'' [] (goLift (MsgBlockDeserialize B blockBytes))) (\<lambda>transactions.
     goBind (goWrap ''error fetching spent outputs of block'' []
         (restGet B (''/rest/spenttxouts/'' @ hashString B hash @ ''.bin''))) (\<lambda>spentBytes.
     goBind (goWrap ''error parsing spent outputs of block'' [] (goLift (parseSpentTxOuts E spentBytes))) (\<lambda>spentTxOuts.
       if length spentTxOuts \<noteq> length transactions
       then goFail (Errf ''tx count mismatch for block'' [int (length spentTxOuts), int (length transactions)])
       else case pairSpent 0 transactions spentTxOuts Map.empty of
              Inl e \<Rightarrow> goFail e
            | Inr m \<Rightarrow> goRet \<lparr>txs = transactions, prevOutScripts = m\<rparr>))))"

text \<open>\<open>getBlockWithPrevOuts\<close>: the same from a single \<open>getblock\<close> call.\<close>

fun decodeVin :: "nat \<Rightarrow> string option list \<Rightarrow> err + bytes list" where
  "decodeVin i [] = Inr []"
| "decodeVin i (None # vin) = Inl (Errf ''missing prevout data for input'' [int i])"
| "decodeVin i (Some hex # vin) =
     (case hex_decode hex of
        None \<Rightarrow> Inl (Errf ''error decoding prevout script of input'' [int i])
      | Some pkScript \<Rightarrow> (case decodeVin (Suc i) vin of Inl e \<Rightarrow> Inl e | Inr ps \<Rightarrow> Inr (pkScript # ps)))"

fun collectTxs :: "blockEnv \<Rightarrow> getBlockTx list \<Rightarrow> msgTx list \<Rightarrow> (outPoint \<rightharpoonup> bytes) \<Rightarrow> err + blockWithPrevOuts" where
  "collectTxs B [] sofar m = Inr \<lparr>txs = sofar, prevOutScripts = m\<rparr>"
| "collectTxs B (rpcTx # rest) sofar m =
     (case MsgTxDeserializeHex B (txHex rpcTx) of
        Inl e \<Rightarrow> Inl (Wrapf ''error deserializing tx'' [int (length sofar)] e)
      | Inr tx \<Rightarrow>
          if IsCoinBaseTx B tx then collectTxs B rest (sofar @ [tx]) m
          else if length (txVin rpcTx) \<noteq> length (TxIn tx)
          then Inl (Errf ''input count mismatch for tx'' [int (length sofar), int (length (txVin rpcTx)), int (length (TxIn tx))])
          else case decodeVin 0 (txVin rpcTx) of
                 Inl e \<Rightarrow> Inl e
               | Inr scripts \<Rightarrow> collectTxs B rest (sofar @ [tx]) (addPrevOuts (TxIn tx) scripts m))"

definition getBlockWithPrevOuts :: "blockEnv \<Rightarrow> hash \<Rightarrow> ('z, blockWithPrevOuts) fetch" where
  "getBlockWithPrevOuts B hash =
     goBind (goWrap ''error fetching block with getblock verbosity 3'' []
       (\<lambda>(q, s). (RawGetBlock B (now s) hash, (q, s\<lparr>now := Suc (now s)\<rparr>)))) (\<lambda>rawResult.
     goBind (goWrap ''error decoding getblock response for block'' [] (goLift (UnmarshalGetBlock B rawResult))) (\<lambda>result.
       goLift (collectTxs B result [] Map.empty)))"

definition fetchSingle :: "'h env \<Rightarrow> blockEnv \<Rightarrow> hash \<Rightarrow> ('z, blockWithPrevOuts) fetch" where
  "fetchSingle E B hash = goBind (probeOnce B) (\<lambda>_ (q, s).
     if useREST q then fetchBlockREST E B hash (q, s) else getBlockWithPrevOuts B hash (q, s))"

subsection \<open>The prefetcher\<close>

definition newBlockPrefetcher :: "bool \<Rightarrow> bool \<Rightarrow> prefetch" where
  "newBlockPrefetcher done rest = \<lparr>probed = done, useREST = rest, pending = Map.empty\<rparr>"

text \<open>The loop of \<open>scheduleAhead\<close>: it ends at the first height the backend does not know.\<close>

fun scheduleLoop :: "'h env \<Rightarrow> blockEnv \<Rightarrow> int list \<Rightarrow> prefetch \<times> 'z shared_scheme \<Rightarrow> prefetch \<times> 'z shared_scheme" where
  "scheduleLoop E B [] qs = qs"
| "scheduleLoop E B (h # hs) (q, s) =
     (if pending q h \<noteq> None then scheduleLoop E B hs (q, s)
      else case getBlockHash E h s of
             (Inl _, s1) \<Rightarrow> (q, s1)
           | (Inr hash, s1) \<Rightarrow>
               (case fetchSingle E B hash (q, s1) of
                  (res, (q2, s2)) \<Rightarrow>
                    scheduleLoop E B hs (q2\<lparr>pending := (pending q2)(h \<mapsto> \<lparr>pbHash = hash, pbResult = res\<rparr>)\<rparr>, s2)))"

definition scheduleAhead :: "'h env \<Rightarrow> blockEnv \<Rightarrow> int \<Rightarrow> prefetch \<times> 'z shared_scheme \<Rightarrow> prefetch \<times> 'z shared_scheme" where
  "scheduleAhead E B height = scheduleLoop E B [add32 height 1..add32 height prefetchDepth]"

definition fetchBlock :: "'h env \<Rightarrow> blockEnv \<Rightarrow> int \<Rightarrow> hash \<Rightarrow> ('z, blockWithPrevOuts) fetch" where
  "fetchBlock E B height hash qs =
     (case scheduleAhead E B height qs of
        (q, s) \<Rightarrow>
          (case pending q height of
             None \<Rightarrow> fetchSingle E B hash (q, s)
           | Some entry \<Rightarrow>
               (let q1 = q\<lparr>pending := (pending q)(height := None)\<rparr> in
                case pbResult entry of
                  Inr block \<Rightarrow> if pbHash entry = hash then (Inr block, (q1, s)) else fetchSingle E B hash (q1, s)
                | Inl _ \<Rightarrow> fetchSingle E B hash (q1, s))))"

subsection \<open>What a fetch leaves alone\<close>

definition fetchReads :: "'h env \<Rightarrow> prefetch \<times> 'z shared_scheme \<Rightarrow> prefetch \<times> 'z shared_scheme \<Rightarrow> bool" where
  "fetchReads E qs qs' \<longleftrightarrow> onlyReads E (snd qs) (snd qs') \<and> now (snd qs) \<le> now (snd qs') \<and>
     pending (fst qs') = pending (fst qs)"

lemma fetchReads_preorder [simp]: "reflp (fetchReads E)" "transp (fetchReads E)"
  by (auto simp: fetchReads_def intro!: reflpI transpI intro: onlyReads_trans)

lemma fetchReads_http [keeps_intros]: "keeps (fetchReads E) (httpCall B path)"
  by (auto simp: keeps_def httpCall_def fetchReads_def onlyReads_tick)

lemma fetchReads_raw [keeps_intros]:
  "keeps (fetchReads E) (\<lambda>(q, s). (RawGetBlock B (now s) hash, (q, s\<lparr>now := Suc (now s)\<rparr>)))"
  by (auto simp: keeps_def fetchReads_def onlyReads_tick)

lemma fetchReads_probe: "keeps (fetchReads E) (probeOnce B)"
  by (auto simp: keeps_def probeOnce_def probeREST_def httpCall_def fetchReads_def onlyReads_tick split: sum.splits)

lemma fetchReads_restGet: "keeps (fetchReads E) (restGet B path)"
proof -
  have "keeps (fetchReads E) (\<lambda>qs :: prefetch \<times> 'z shared_scheme. case body of
      Inl e \<Rightarrow> (Inl (e1 e), qs) | Inr bs \<Rightarrow> if status \<noteq> (200 :: int) then (Inl e2, qs) else (Inr bs, qs))"
    for body :: "err + bytes" and status e1 e2
    by (auto simp: keeps_def reflpD [OF fetchReads_preorder(1)] split: sum.splits)
  then show ?thesis unfolding restGet_def by (intro keeps_intros fetchReads_preorder) (auto split: prod.splits)
qed

lemma fetchReads_REST: "keeps (fetchReads E) (fetchBlockREST E B hash)"
  unfolding fetchBlockREST_def
  by (intro keeps_intros fetchReads_preorder fetchReads_restGet) (auto intro: keeps_intros split: sum.split)

lemma fetchReads_RPC: "keeps (fetchReads E) (getBlockWithPrevOuts B hash)"
  unfolding getBlockWithPrevOuts_def by (intro keeps_intros fetchReads_preorder)

lemma fetchReads_single: "keeps (fetchReads E) (fetchSingle E B hash)"
proof -
  have "keeps (fetchReads E) (\<lambda>(q, s). if useREST q then fetchBlockREST E B hash (q, s)
      else getBlockWithPrevOuts B hash (q, s))"
    using fetchReads_REST [of E B hash] fetchReads_RPC [of E B hash] by (auto simp: keeps_def)
  then show ?thesis unfolding fetchSingle_def by (intro keeps_intros fetchReads_preorder fetchReads_probe)
qed

subsection \<open>A prefetched block is the block asked for\<close>

definition fetchedFor :: "'h env \<Rightarrow> blockEnv \<Rightarrow> 'z shared_scheme \<Rightarrow> hash \<Rightarrow> blockWithPrevOuts \<Rightarrow> bool" where
  "fetchedFor E B s hash block \<longleftrightarrow>
     (\<exists>q0 s0 :: 'z shared_scheme. now s0 \<le> now s \<and> fst (fetchSingle E B hash (q0, s0)) = Inr block)"

definition pendingOK :: "'h env \<Rightarrow> blockEnv \<Rightarrow> prefetch \<Rightarrow> 'z shared_scheme \<Rightarrow> bool" where
  "pendingOK E B q s \<longleftrightarrow>
     (\<forall>h e block. pending q h = Some e \<and> pbResult e = Inr block \<longrightarrow> fetchedFor E B s (pbHash e) block)"

lemma fetchedFor_later:
  fixes s s' :: "'z shared_scheme"
  shows "fetchedFor E B s hash block \<Longrightarrow> now s \<le> now s' \<Longrightarrow> fetchedFor E B s' hash block"
  unfolding fetchedFor_def by (meson order_trans)

lemma pendingOK_later:
  fixes s s' :: "'z shared_scheme"
  shows "pendingOK E B q s \<Longrightarrow> now s \<le> now s' \<Longrightarrow> pending q' = pending q \<Longrightarrow> pendingOK E B q' s'"
  unfolding pendingOK_def by (metis fetchedFor_later)

lemma fetchedFor_single:
  assumes "fetchSingle E B hash (q, s) = (Inr block, (q', s'))"
  shows "fetchedFor E B s' hash block"
proof -
  have "now s \<le> now s'" using keepsD [OF fetchReads_single assms] by (simp add: fetchReads_def)
  with assms show ?thesis unfolding fetchedFor_def by (metis fst_conv)
qed

lemma scheduleLoop_ok:
  assumes "scheduleLoop E B hs (q, s) = (q', s')"
  shows "onlyReads E s s' \<and> now s \<le> now s' \<and> (pendingOK E B q s \<longrightarrow> pendingOK E B q' s') \<and>
    dom (pending q') \<subseteq> dom (pending q) \<union> set hs"
  using assms
proof (induction hs arbitrary: q s)
  case (Cons h hs)
  show ?case
  proof (cases "pending q h \<noteq> None")
    case True
    with Cons show ?thesis by fastforce
  next
    case False
    obtain r s1 where g: "getBlockHash E h s = (r, s1)" by fastforce
    have o1: "onlyReads E s s1" "now s \<le> now s1"
      using getBlockHash_onlyReads [OF g] by (auto simp: onlyReads_def cacheGrows_def)
    show ?thesis
    proof (cases r)
      case (Inl e)
      with Cons.prems False g o1 show ?thesis by (auto intro: pendingOK_later)
    next
      case (Inr hash)
      obtain res q2 s2 where f: "fetchSingle E B hash (q, s1) = (res, (q2, s2))" by (metis prod.collapse)
      have o2: "onlyReads E s1 s2" "now s1 \<le> now s2" "pending q2 = pending q"
        using keepsD [OF fetchReads_single f] by (simp_all add: fetchReads_def)
      let ?q = "q2\<lparr>pending := (pending q2)(h \<mapsto> \<lparr>pbHash = hash, pbResult = res\<rparr>)\<rparr>"
      have rest: "scheduleLoop E B hs (?q, s2) = (q', s')" using Cons.prems False g Inr f by simp
      have "pendingOK E B ?q s2" if ok: "pendingOK E B q s"
      proof -
        have "pendingOK E B q2 s2" using ok o1 o2 by (intro pendingOK_later [OF ok]) simp_all
        then show ?thesis using f by (auto simp: pendingOK_def dest: fetchedFor_single split: if_splits)
      qed
      with Cons.IH [OF rest] o1 o2 show ?thesis by (auto intro: onlyReads_trans)
    qed
  qed
qed auto

lemma fetchBlock_onlyReads:
  assumes "fetchBlock E B height hash (q, s) = (r, (q', s'))"
  shows "onlyReads E s s' \<and> now s \<le> now s'"
proof -
  obtain q1 s1 where sch: "scheduleAhead E B height (q, s) = (q1, s1)" by fastforce
  have 1: "onlyReads E s s1" "now s \<le> now s1" using scheduleLoop_ok [OF sch [unfolded scheduleAhead_def]] by simp_all
  have "onlyReads E s1 s' \<and> now s1 \<le> now s'"
  proof (cases "s1 = s'")
    case False
    then obtain q2 where "fetchSingle E B hash (q2, s1) = (r, (q', s'))"
      using assms sch by (auto simp: fetchBlock_def Let_def split: option.splits sum.splits if_splits)
    from keepsD [OF fetchReads_single this] show ?thesis by (simp add: fetchReads_def)
  qed simp
  with 1 show ?thesis by (auto intro: onlyReads_trans)
qed

text \<open>
  Claim C32. The prefetcher never hands out a block of another hash: whatever was scheduled
  before and however the chain was reorganized since, the block \<open>fetchBlock\<close> returns was
  fetched for the hash it was asked for; and what it keeps for later still satisfies the
  same condition.
\<close>

theorem prefetch_never_stale:
  assumes ok: "pendingOK E B q s" and run: "fetchBlock E B height hash (q, s) = (Inr block, (q', s'))"
  shows "fetchedFor E B s' hash block \<and> pendingOK E B q' s'"
proof -
  obtain q1 s1 where sch: "scheduleAhead E B height (q, s) = (q1, s1)" by fastforce
  have ok1: "pendingOK E B q1 s1" using scheduleLoop_ok [OF sch [unfolded scheduleAhead_def]] ok by simp
  have ok2: "pendingOK E B (q1\<lparr>pending := (pending q1)(height := None)\<rparr>) s1"
    using ok1 by (auto simp: pendingOK_def split: if_splits)
  have single: "fetchedFor E B s' hash block \<and> pendingOK E B q' s'"
    if "fetchSingle E B hash (q2, s1) = (Inr block, (q', s'))" "pendingOK E B q2 s1" for q2
    using fetchedFor_single [OF that(1)] keepsD [OF fetchReads_single that(1)] pendingOK_later [OF that(2)]
    by (simp add: fetchReads_def)
  show ?thesis
  proof (cases "pending q1 height")
    case None
    with run sch show ?thesis by (intro single [OF _ ok1]) (simp add: fetchBlock_def)
  next
    case (Some e)
    let ?q = "q1\<lparr>pending := (pending q1)(height := None)\<rparr>"
    from run sch Some have "fetchSingle E B hash (?q, s1) = (Inr block, (q', s')) \<or>
        pbResult e = Inr block \<and> pbHash e = hash \<and> q' = ?q \<and> s' = s1"
      by (auto simp: fetchBlock_def Let_def split: sum.splits if_splits)
    then show ?thesis using single [OF _ ok2] ok1 ok2 Some by (auto simp: pendingOK_def)
  qed
qed

text \<open>
  The prefetch window is bounded: heights consumed one after the other never leave
  more than \<open>prefetchDepth\<close> blocks waiting, all of them above the block just returned.
\<close>

theorem prefetch_window:
  assumes "dom (pending q) \<subseteq> {height..height + prefetchDepth}" "0 \<le> height" "height \<le> 2147483639"
    and "fetchBlock E B height hash (q, s) = (r, (q', s'))"
  shows "dom (pending q') \<subseteq> {height + 1..height + prefetchDepth}"
proof -
  obtain q1 s1 where sch: "scheduleAhead E B height (q, s) = (q1, s1)" by fastforce
  have "[add32 height 1..add32 height prefetchDepth] = [height + 1..height + prefetchDepth]"
    using assms(2,3) by (simp add: add32_id prefetchDepth_def)
  then have "dom (pending q1) \<subseteq> dom (pending q) \<union> {height + 1..height + prefetchDepth}"
    using scheduleLoop_ok [OF sch [unfolded scheduleAhead_def]] by simp
  also have "\<dots> \<subseteq> insert height {height + 1..height + prefetchDepth}"
    using assms(1) by (auto simp: prefetchDepth_def)
  finally have d1: "dom (pending q1) \<subseteq> insert height {height + 1..height + prefetchDepth}" .
  have p: "pending q' = pending q2" if "fetchSingle E B hash (q2, s1) = (r, (q', s'))" for q2
    using keepsD [OF fetchReads_single that] by (simp add: fetchReads_def)
  show ?thesis
  proof (cases "pending q1 height")
    case None
    then have "pending q' = pending q1" using assms(4) sch by (intro p) (simp add: fetchBlock_def)
    with None d1 show ?thesis by (auto simp: dom_def)
  next
    case (Some e)
    then have "pending q' = (pending q1)(height := None)"
      using assms(4) sch by (auto simp: fetchBlock_def Let_def dest: p split: sum.splits if_splits)
    with d1 show ?thesis by (auto simp: dom_def)
  qed
qed

subsection \<open>Reading the spent outputs\<close>

text \<open>The encoding bitcoind documents for the response.\<close>

definition encodeTxOut :: "'h env \<Rightarrow> txOut \<Rightarrow> bytes" where
  "encodeTxOut E out = le_bytes 8 (nat (Value out mod 18446744073709551616)) @ WriteVarBytes E (PkScript out)"

definition encodeTxList :: "'h env \<Rightarrow> txOut list \<Rightarrow> bytes" where
  "encodeTxList E outs = WriteVarInt E (length outs) @ concat (map (encodeTxOut E) outs)"

definition encodeSpent :: "'h env \<Rightarrow> txOut list list \<Rightarrow> bytes" where
  "encodeSpent E xss = WriteVarInt E (length xss) @ concat (map (encodeTxList E) xss)"

definition wireTxOut :: "txOut \<Rightarrow> bool" where
  "wireTxOut out \<longleftrightarrow> -9223372036854775808 \<le> Value out \<and> Value out < 9223372036854775808 \<and>
     length (PkScript out) \<le> MaxMessagePayload"

lemma int64le_le_bytes:
  assumes "-9223372036854775808 \<le> v" "v < 9223372036854775808"
  shows "int64le (le_bytes 8 (nat (v mod 18446744073709551616))) = v"
proof -
  have "le_val (le_bytes 8 (nat (v mod 18446744073709551616))) = nat (v mod 18446744073709551616)"
    by (simp del: le_bytes.simps)
  moreover have "(v mod 18446744073709551616 + 9223372036854775808) mod 18446744073709551616
      = (v + 9223372036854775808) mod 18446744073709551616"
    by (rule mod_add_left_eq)
  ultimately show ?thesis using assms by (simp add: int64le_def)
qed

lemma parseTxOuts_encode:
  assumes "wire_codec E" "\<forall>out\<in>set outs. wireTxOut out"
  shows "parseTxOuts E (length outs) (concat (map (encodeTxOut E) outs) @ r) = Inr (outs, r)"
  using assms(2)
proof (induction outs)
  case (Cons out outs)
  have "ReadVarBytes E MaxMessagePayload (WriteVarBytes E (PkScript out) @ t) = Inr (PkScript out, t)" for t
    by (rule wire_codecD(4) [OF assms(1)]) (use Cons.prems in \<open>simp_all add: wireTxOut_def MaxMessagePayload_def\<close>)
  with Cons show ?case
    by (simp add: encodeTxOut_def int64le_le_bytes wireTxOut_def del: le_bytes.simps)
qed simp

lemma parseTxLists_encode:
  assumes "wire_codec E" "\<forall>outs\<in>set xss. length outs \<le> maxSpentTxOutsPerBlock \<and> (\<forall>out\<in>set outs. wireTxOut out)"
  shows "parseTxLists E (length xss) (concat (map (encodeTxList E) xss) @ r) = Inr (xss, r)"
  using assms(2)
proof (induction xss)
  case (Cons outs xss)
  have "length outs < 18446744073709551616"
    using Cons.prems by (simp add: maxSpentTxOutsPerBlock_def MaxBlockPayload_def)
  then have "ReadVarInt E (WriteVarInt E (length outs) @ t) = Inr (length outs, t)" for t
    by (rule wire_codecD(3) [OF assms(1)])
  moreover have "parseTxOuts E (length outs) (concat (map (encodeTxOut E) outs) @ t) = Inr (outs, t)" for t
    using parseTxOuts_encode [OF assms(1)] Cons.prems by simp
  ultimately show ?case using Cons by (simp add: encodeTxList_def)
qed simp

lemma parseSpentTxOuts_encode:
  assumes "wire_codec E" "length xss \<le> maxSpentTxOutsPerBlock"
    and "\<forall>outs\<in>set xss. length outs \<le> maxSpentTxOutsPerBlock \<and> (\<forall>out\<in>set outs. wireTxOut out)"
  shows "parseSpentTxOuts E (encodeSpent E xss @ t) =
    (if t = [] then Inr xss else Inl (Errf ''unexpected trailing data after spent output lists'' []))"
proof -
  have "length xss < 18446744073709551616"
    using assms(2) by (simp add: maxSpentTxOutsPerBlock_def MaxBlockPayload_def)
  then have "ReadVarInt E (WriteVarInt E (length xss) @ u) = Inr (length xss, u)" for u
    by (rule wire_codecD(3) [OF assms(1)])
  with assms show ?thesis by (simp add: parseSpentTxOuts_def encodeSpent_def parseTxLists_encode)
qed

text \<open>
  Claim C34. Reading back the binary response of \<open>/rest/spenttxouts\<close>: \<open>parseSpentTxOuts\<close>
  returns exactly the lists of outputs that were encoded, negative values included, and
  refuses a response with anything after them.
\<close>

theorem parseSpentTxOuts_roundtrip:
  assumes "wire_codec E" "length xss \<le> maxSpentTxOutsPerBlock"
    and "\<forall>outs\<in>set xss. length outs \<le> maxSpentTxOutsPerBlock \<and> (\<forall>out\<in>set outs. wireTxOut out)"
  shows "parseSpentTxOuts E (encodeSpent E xss) = Inr xss \<and>
    (t \<noteq> [] \<longrightarrow> (\<exists>e. parseSpentTxOuts E (encodeSpent E xss @ t) = Inl e))"
  using parseSpentTxOuts_encode [OF assms] parseSpentTxOuts_encode [OF assms, of "[]"] by simp

lemma parseSpentTxOuts_roundtrip_witness:
  "parseSpentTxOuts (miniEnv 3) (encodeSpent (miniEnv 3) [[], [\<lparr>Value = -1, PkScript = [81]\<rparr>]])
     = Inr [[], [\<lparr>Value = -1, PkScript = [81]\<rparr>]]"
  using parseSpentTxOuts_roundtrip [OF mini_wire_codec, of "[[], [\<lparr>Value = -1, PkScript = [81]\<rparr>]]"]
  by (simp add: maxSpentTxOutsPerBlock_def MaxBlockPayload_def wireTxOut_def MaxMessagePayload_def)

subsection \<open>Both ways of fetching\<close>

lemma dom_addPrevOuts:
  assumes "length ops = length scripts"
  shows "dom (addPrevOuts ops scripts m) = set ops \<union> dom m"
  using assms by (induction ops scripts arbitrary: m rule: list_induct2) (auto simp: addPrevOuts_def)

lemma pairSpent_dom:
  assumes "pairSpent i ts ss m = Inr m'" "length ts = length ss"
  shows "dom m \<subseteq> dom m' \<and> (\<forall>k<length ts. 0 < i + k \<longrightarrow> set (TxIn (ts ! k)) \<subseteq> dom m')"
  using assms(2,1)
proof (induction ts ss arbitrary: i m rule: list_induct2)
  case (Cons t ts spent ss)
  show ?case
  proof (cases "i = 0")
    case True
    with Cons.prems have "pairSpent 1 ts ss m = Inr m'" by simp
    from Cons.IH [OF this] True show ?thesis by (auto simp: nth_Cons split: nat.splits)
  next
    case False
    with Cons.prems have len: "length spent = length (TxIn t)"
      and rest: "pairSpent (Suc i) ts ss (addPrevOuts (TxIn t) (map PkScript spent) m) = Inr m'"
      by (auto split: if_splits)
    from Cons.IH [OF rest] dom_addPrevOuts [of "TxIn t" "map PkScript spent" m] len
    show ?thesis by (auto simp: nth_Cons split: nat.splits)
  qed
qed simp

text \<open>
  A block fetched over REST is complete: the script of every output its
  transactions after the coinbase spend can be resolved, so the tweak and filter
  computations never miss a previous output.
\<close>

theorem rest_block_complete:
  assumes "fetchBlockREST E B hash qs = (Inr block, qs')"
    and "0 < k" "k < length (txs block)" "op \<in> set (TxIn (txs block ! k))"
  shows "\<exists>pkScript. fetchPrevOutScript block op = Inr pkScript"
proof -
  from assms(1) obtain spent m where len: "length spent = length (txs block)"
    and p: "pairSpent 0 (txs block) spent Map.empty = Inr m" and m: "prevOutScripts block = m"
    by (auto simp: fetchBlockREST_def go_simps split: if_splits sum.splits)
  from pairSpent_dom [OF p] len assms(2-4) have "op \<in> dom m" by auto
  with m show ?thesis by (auto simp: fetchPrevOutScript_def)
qed

text \<open>What both ways should produce from the transactions and the scripts their inputs spend.\<close>

definition prevOutMap :: "msgTx list \<Rightarrow> bytes list list \<Rightarrow> (outPoint \<rightharpoonup> bytes)" where
  "prevOutMap ts sss = fold (\<lambda>(t, ss) m. addPrevOuts (TxIn t) ss m) (zip ts sss) Map.empty"

lemma pairSpent_fold:
  assumes "list_all2 (\<lambda>t ss. length ss = length (TxIn t)) ts spent" "0 < i"
  shows "pairSpent i ts spent m =
    Inr (fold (\<lambda>(t, ss) m. addPrevOuts (TxIn t) ss m) (zip ts (map (map PkScript) spent)) m)"
  using assms by (induction ts spent arbitrary: i m rule: list_all2_induct) simp_all

text \<open>A \<open>getblock\<close> entry describes a transaction and the scripts its inputs spend.\<close>

definition rpcTxOf :: "blockEnv \<Rightarrow> getBlockTx \<Rightarrow> msgTx \<Rightarrow> bytes list \<Rightarrow> bool" where
  "rpcTxOf B r t scripts \<longleftrightarrow> MsgTxDeserializeHex B (txHex r) = Inr t \<and>
     (IsCoinBaseTx B t \<or> length (txVin r) = length (TxIn t) \<and> decodeVin 0 (txVin r) = Inr scripts)"

lemma collectTxs_fold:
  assumes "length rs = length ts" "length ts = length sss"
    and "\<forall>i<length ts. rpcTxOf B (rs ! i) (ts ! i) (sss ! i) \<and> \<not> IsCoinBaseTx B (ts ! i)"
  shows "collectTxs B rs sofar m =
    Inr \<lparr>txs = sofar @ ts, prevOutScripts = fold (\<lambda>(t, ss) m. addPrevOuts (TxIn t) ss m) (zip ts sss) m\<rparr>"
  using assms
proof (induction rs ts sss arbitrary: sofar m rule: list_induct3)
  case (Cons r rs t ts ss sss)
  from Cons.prems have "rpcTxOf B r t ss" "\<not> IsCoinBaseTx B t" by force+
  then have step: "collectTxs B (r # rs) sofar m = collectTxs B rs (sofar @ [t]) (addPrevOuts (TxIn t) ss m)"
    by (simp add: rpcTxOf_def)
  have "\<forall>i<length ts. rpcTxOf B (rs ! i) (ts ! i) (sss ! i) \<and> \<not> IsCoinBaseTx B (ts ! i)"
    using Cons.prems by force
  from Cons.IH [OF this] show ?case unfolding step by simp
qed simp

lemma fetchBlockREST_value:
  assumes "restGet B (''/rest/block/'' @ hashString B hash @ ''.bin'') qs = (Inr blockBytes, qs1)"
      "MsgBlockDeserialize B blockBytes = Inr (cb # ts)"
      "restGet B (''/rest/spenttxouts/'' @ hashString B hash @ ''.bin'') qs1 = (Inr spentBytes, qs2)"
      "parseSpentTxOuts E spentBytes = Inr (scb # spent)"
      "list_all2 (\<lambda>t ss. length ss = length (TxIn t)) ts spent"
  shows "fetchBlockREST E B hash qs =
    (Inr \<lparr>txs = cb # ts, prevOutScripts = prevOutMap ts (map (map PkScript) spent)\<rparr>, qs2)"
proof -
  have "pairSpent 1 ts spent Map.empty = Inr (prevOutMap ts (map (map PkScript) spent))"
    unfolding prevOutMap_def by (rule pairSpent_fold [OF assms(5)]) simp
  then show ?thesis
    using assms list_all2_lengthD [OF assms(5)]
    by (simp add: fetchBlockREST_def goBind_def goWrap_def goLift_def goRet_def)
qed

text \<open>
  Claim C33. The fast path and the fallback agree: where the REST responses and the
  \<open>getblock\<close> response describe the same block, its coinbase transaction first,
  \<open>fetchBlockREST\<close> and \<open>getBlockWithPrevOuts\<close> return the same transactions with the same
  map of spent scripts.
\<close>

theorem rest_and_rpc_agree:
  assumes rest: "restGet B (''/rest/block/'' @ hashString B hash @ ''.bin'') qs = (Inr blockBytes, qs1)"
      "MsgBlockDeserialize B blockBytes = Inr (cb # ts)"
      "restGet B (''/rest/spenttxouts/'' @ hashString B hash @ ''.bin'') qs1 = (Inr spentBytes, qs2)"
      "parseSpentTxOuts E spentBytes = Inr (scb # spent)"
      "list_all2 (\<lambda>t ss. length ss = length (TxIn t)) ts spent"
    and raw: "RawGetBlock B (now (snd qs')) hash = Inr raw" "UnmarshalGetBlock B raw = Inr (rcb # rs)"
      "rpcTxOf B rcb cb []" "IsCoinBaseTx B cb" "length rs = length ts"
      "\<forall>i<length ts. rpcTxOf B (rs ! i) (ts ! i) (map PkScript (spent ! i)) \<and> \<not> IsCoinBaseTx B (ts ! i)"
  shows "fst (fetchBlockREST E B hash qs) = fst (getBlockWithPrevOuts B hash qs') \<and>
    fst (fetchBlockREST E B hash qs) =
      Inr \<lparr>txs = cb # ts, prevOutScripts = prevOutMap ts (map (map PkScript) spent)\<rparr>"
proof -
  have len: "length ts = length spent" using rest(5) by (rule list_all2_lengthD)
  note R = fetchBlockREST_value [OF rest]
  have "collectTxs B rs [cb] Map.empty =
      Inr \<lparr>txs = [cb] @ ts, prevOutScripts = prevOutMap ts (map (map PkScript) spent)\<rparr>"
    unfolding prevOutMap_def by (rule collectTxs_fold) (use raw(5,6) len in simp_all)
  then have "fst (getBlockWithPrevOuts B hash qs') =
      Inr \<lparr>txs = cb # ts, prevOutScripts = prevOutMap ts (map (map PkScript) spent)\<rparr>"
    using raw by (cases qs') (simp add: getBlockWithPrevOuts_def goBind_def goWrap_def goLift_def rpcTxOf_def)
  with R show ?thesis by simp
qed

subsection \<open>A miniature block source\<close>

text \<open>
  Without REST: the block of hash \<open>x\<close> has one transaction whose only input refers to
  \<open>x\<close>. With REST: one block, in which the second transaction spends output 7 of the
  zero hash.
\<close>

definition miniBlocks :: blockEnv where
  "miniBlocks = \<lparr>httpGet = (\<lambda>_ _. Inl (Errf ''connection refused'' [])), hashString = (\<lambda>_. ''h''),
     MsgBlockDeserialize = (\<lambda>_. Inl ErrEOF), RawGetBlock = (\<lambda>_ x. Inr x),
     UnmarshalGetBlock = (\<lambda>bs. Inr [\<lparr>txHex = map (\<lambda>b. char_of (unat b)) bs, txVin = []\<rparr>]),
     MsgTxDeserializeHex = (\<lambda>s. Inr \<lparr>TxIn = [(map (\<lambda>c. of_nat (of_char c)) s, 0)], TxOut = []\<rparr>),
     IsCoinBaseTx = (\<lambda>_. True), TransactionTweakData = (\<lambda>_ _. Inr None), IsPayToTaproot = (\<lambda>_. False),
     IsPayToWitnessPubKeyHash = (\<lambda>_. False), IsPayToWitnessScriptHash = (\<lambda>_. False),
     GCSBuild = (\<lambda>_ xs. Inr (concat (remdups xs))), GCSNBytes = Inr, rangeScripts = (\<lambda>_. [])\<rparr>"

definition miniBlock :: "hash \<Rightarrow> blockWithPrevOuts" where
  "miniBlock x = \<lparr>txs = [\<lparr>TxIn = [(x, 0)], TxOut = []\<rparr>], prevOutScripts = Map.empty\<rparr>"

lemma mini_fetchSingle:
  "fetchSingle E miniBlocks x (\<lparr>probed = True, useREST = False, pending = P\<rparr>, s) =
     (Inr (miniBlock x), (\<lparr>probed = True, useREST = False, pending = P\<rparr>, s\<lparr>now := Suc (now s)\<rparr>))"
  by (simp add: fetchSingle_def probeOnce_def goBind_def goWrap_def goLift_def getBlockWithPrevOuts_def
      miniBlocks_def miniBlock_def comp_def)

text \<open>A stale prefetch: the block of hash 9 waits for height 3, where hash 3 is now asked for.\<close>

definition stalePrefetch :: prefetch where
  "stalePrefetch = \<lparr>probed = True, useREST = False,
     pending = [3 \<mapsto> \<lparr>pbHash = miniBlockHash 9, pbResult = Inr (miniBlock (miniBlockHash 9))\<rparr>]\<rparr>"

definition miniShared :: shared where "miniShared = \<lparr>now = 0, disk = [], cache = newH2HCache\<rparr>"

lemma stale_pendingOK: "pendingOK E miniBlocks stalePrefetch miniShared"
proof -
  have "fst (fetchSingle E miniBlocks x (stalePrefetch, miniShared)) = Inr (miniBlock x)" for x
    by (simp add: stalePrefetch_def mini_fetchSingle)
  then have "fetchedFor E miniBlocks miniShared x (miniBlock x)" for x unfolding fetchedFor_def by blast
  then show ?thesis by (simp add: pendingOK_def stalePrefetch_def)
qed

lemma stale_fetch:
  "fetchBlock (miniEnv 3) miniBlocks 3 (miniBlockHash 3) (stalePrefetch, miniShared) =
     (Inr (miniBlock (miniBlockHash 3)),
      (\<lparr>probed = True, useREST = False, pending = Map.empty\<rparr>, miniShared\<lparr>now := Suc (Suc 0)\<rparr>))"
proof -
  have "[4..11] = 4 # [4 + 1..11 :: int]" by (rule upto_rec1) simp
  then have "scheduleAhead (miniEnv 3) miniBlocks 3 (stalePrefetch, miniShared) = (stalePrefetch, miniShared\<lparr>now := Suc 0\<rparr>)"
    by (simp add: scheduleAhead_def add32_id prefetchDepth_def stalePrefetch_def miniShared_def getBlockHash_def rpcCall_def
        newH2HCache_def miniEnv_def miniChain_def)
  then show ?thesis
    by (simp add: fetchBlock_def stalePrefetch_def mini_fetchSingle miniBlockHash_def miniShared_def)
qed

lemma prefetch_never_stale_witness:
  "fetchedFor (miniEnv 3) miniBlocks (miniShared\<lparr>now := Suc (Suc 0)\<rparr>) (miniBlockHash 3) (miniBlock (miniBlockHash 3))"
  using prefetch_never_stale [OF stale_pendingOK stale_fetch] by simp

lemma prefetch_window_example:
  "dom (pending (fst (snd (fetchBlock (miniEnv 3) miniBlocks 3 (miniBlockHash 3) (stalePrefetch, miniShared)))))
     \<subseteq> {4..11}"
  using prefetch_window [OF _ _ _ stale_fetch] unfolding stale_fetch
  by (simp add: stalePrefetch_def prefetchDepth_def)

definition spendingTx :: msgTx where
  "spendingTx = \<lparr>TxIn = [(zeroHash, 7)], TxOut = []\<rparr>"

definition restBlocks :: blockEnv where
  "restBlocks = miniBlocks\<lparr>
     httpGet := (\<lambda>_ path. Inr (200, Inr (if take 12 path = ''/rest/block/'' then [42]
        else encodeSpent (miniEnv 3) [[], [\<lparr>Value = 5, PkScript = [81]\<rparr>]]))),
     MsgBlockDeserialize := (\<lambda>_. Inr [\<lparr>TxIn = [], TxOut = []\<rparr>, spendingTx]),
     RawGetBlock := (\<lambda>_ _. Inr []),
     UnmarshalGetBlock := (\<lambda>_. Inr [\<lparr>txHex = [], txVin = []\<rparr>, \<lparr>txHex = ''02'', txVin = [Some ''51'']\<rparr>]),
     MsgTxDeserializeHex := (\<lambda>s. if s = [] then Inr \<lparr>TxIn = [], TxOut = []\<rparr> else Inr spendingTx),
     IsCoinBaseTx := (\<lambda>t. TxIn t = [])\<rparr>"

lemma rest_responses:
  "restGet restBlocks (''/rest/block/'' @ hashString restBlocks x @ ''.bin'') (q, s) = (Inr [42], (q, s\<lparr>now := Suc (now s)\<rparr>))"
  "restGet restBlocks (''/rest/spenttxouts/'' @ hashString restBlocks x @ ''.bin'') (q, s) =
     (Inr (encodeSpent (miniEnv 3) [[], [\<lparr>Value = 5, PkScript = [81]\<rparr>]]), (q, s\<lparr>now := Suc (now s)\<rparr>))"
  by (simp_all add: restGet_def httpCall_def goBind_def goWrap_def restBlocks_def)

lemma rest_parsed:
  "parseSpentTxOuts (miniEnv 3) (encodeSpent (miniEnv 3) [[], [\<lparr>Value = 5, PkScript = [81]\<rparr>]]) =
     Inr [[], [\<lparr>Value = 5, PkScript = [81]\<rparr>]]"
  using parseSpentTxOuts_encode [OF mini_wire_codec, of "[[], [\<lparr>Value = 5, PkScript = [81]\<rparr>]]" 3 "[]"]
  by (simp add: maxSpentTxOutsPerBlock_def MaxBlockPayload_def wireTxOut_def MaxMessagePayload_def)

lemma rest_block_value: "prevOutMap [spendingTx] (map (map PkScript) [[\<lparr>Value = 5, PkScript = [81]\<rparr>]]) = [(zeroHash, 7) \<mapsto> [81]]"
  by (simp add: spendingTx_def prevOutMap_def addPrevOuts_def)

lemma rest_and_rpc_agree_witness:
  "fst (fetchBlockREST (miniEnv 3) restBlocks zeroHash (stalePrefetch, miniShared)) =
     fst (getBlockWithPrevOuts restBlocks zeroHash (stalePrefetch, miniShared)) \<and>
   fst (fetchBlockREST (miniEnv 3) restBlocks zeroHash (stalePrefetch, miniShared)) =
     Inr \<lparr>txs = [\<lparr>TxIn = [], TxOut = []\<rparr>, spendingTx], prevOutScripts = [(zeroHash, 7) \<mapsto> [81]]\<rparr>"
proof -
  have hex: "hex_decode ''51'' = Some [81]" by (simp add: hex_digit_def)
  show ?thesis
    unfolding rest_block_value [symmetric]
    by (rule rest_and_rpc_agree [OF rest_responses(1) _ rest_responses(2) rest_parsed,
          where raw = "[]" and rcb = "\<lparr>txHex = [], txVin = []\<rparr>" and rs = "[\<lparr>txHex = ''02'', txVin = [Some ''51'']\<rparr>]"])
      (use hex in \<open>simp_all add: restBlocks_def spendingTx_def rpcTxOf_def\<close>)
qed

lemma rest_block_complete_example:
  "\<exists>block. fst (fetchBlockREST (miniEnv 3) restBlocks zeroHash (stalePrefetch, miniShared)) = Inr block \<and>
     (\<exists>pkScript. fetchPrevOutScript block (zeroHash, 7) = Inr pkScript)"
proof -
  let ?b = "\<lparr>txs = [\<lparr>TxIn = [], TxOut = []\<rparr>, spendingTx],
    prevOutScripts = prevOutMap [spendingTx] (map (map PkScript) [[\<lparr>Value = 5, PkScript = [81]\<rparr>]])\<rparr>"
  have run: "fetchBlockREST (miniEnv 3) restBlocks zeroHash (stalePrefetch, miniShared) =
      (Inr ?b, (stalePrefetch, miniShared\<lparr>now := Suc (now miniShared), now := Suc (now (miniShared\<lparr>now := Suc (now miniShared)\<rparr>))\<rparr>))"
    by (rule fetchBlockREST_value [OF rest_responses(1) _ rest_responses(2) rest_parsed])
      (simp_all add: restBlocks_def spendingTx_def)
  from rest_block_complete [OF run, of 1 "(zeroHash, 7)"] run show ?thesis by (simp add: spendingTx_def)
qed

end
