(* ===== verification/SilentPayments.thy ===== *)
theory SilentPayments
  imports FileProducer BlockPrevouts
begin

text \<open>
  \<open>silent-payments-files.go\<close>: the producer of the Silent Payments tweak files, one per
  dust level and range. Its memory is \<open>spMem\<close>, its hooks \<open>spHooks\<close>; the
  interpretation \<open>spt\<close> discharges the laws of \<open>file_producer\<close>. The throughput
  statistics are not modelled.

  The lemmas show that a file decodes to what its header and the documented format say, that
  the announced size is exact, how the dust levels relate, and that the file a restart
  resumes from is the last of its batch to appear.
\<close>

datatype network = MainNet | TestNet3 | TestNet4 | SigNet | RegTest

definition DefaultSPTweaksPerFile :: int where "DefaultSPTweaksPerFile = 2000"
definition DefaultRegtestSPTweaksPerFile :: int where "DefaultRegtestSPTweaksPerFile = 2000"
definition SPTweakFileDir :: string where "SPTweakFileDir = ''silentpayments''"
definition SPTweakFileSuffix :: string where "SPTweakFileSuffix = ''.sptweak''"
definition spTweakFileVersion :: byte where "spTweakFileVersion = 0"
definition typeSPTweaks :: byte where "typeSPTweaks = 2"
definition spTweakFileHeaderSize :: nat where "spTweakFileHeaderSize = 4 + 1 + 1 + 4 + 8"
definition spTweakDustLimits :: "nat list" where "spTweakDustLimits = [0, 600, 1000, 3750]"

fun TaprootActivationHeights :: "network \<Rightarrow> int option" where
  "TaprootActivationHeights MainNet = Some 709632"
| "TaprootActivationHeights TestNet3 = Some 2011968"
| "TaprootActivationHeights TestNet4 = Some 1"
| "TaprootActivationHeights SigNet = Some 1"
| "TaprootActivationHeights RegTest = None"

definition spTweakDustDir :: "nat \<Rightarrow> string" where
  "spTweakDustDir dustLimit = joinPath SPTweakFileDir (''dust-'' @ decimal dustLimit)"

definition isValidSPTweakDustLimit :: "nat \<Rightarrow> bool" where
  "isValidSPTweakDustLimit dustLimit \<longleftrightarrow> dustLimit \<in> set spTweakDustLimits"

definition writeSPTweakFileHeader :: "nat \<Rightarrow> int \<Rightarrow> nat \<Rightarrow> bytes" where
  "writeSPTweakFileHeader net startHeight dustLimit =
     le_bytes 4 net @ [spTweakFileVersion, typeSPTweaks] @ le_bytes 4 (u32 startHeight) @ le_bytes 8 dustLimit"

record spTweakEntry =
  tweak :: bytes
  maxValue :: nat

record spMem =
  tweakData :: "int \<rightharpoonup> spTweakEntry list"
  spHeightToHash :: "int \<rightharpoonup> hash"
  spFetcher :: prefetch
  spNet :: nat
  taprootStartHeight :: int
  taprootSupported :: bool

type_synonym spTweakFiles = "spMem producer"

subsection \<open>Indexing a block\<close>

text \<open>\<open>uint64(v)\<close> of an \<open>int64\<close>, and \<open>copy\<close> into an array of 33 bytes.\<close>

definition u64 :: "int \<Rightarrow> nat" where "u64 v = nat (v mod 18446744073709551616)"
definition copy33 :: "bytes \<Rightarrow> bytes" where "copy33 bs = take 33 (bs @ replicate 33 0)"

definition maxTaprootValue :: "blockEnv \<Rightarrow> txOut list \<Rightarrow> nat" where
  "maxTaprootValue B outs =
     fold (\<lambda>out v. if \<not> IsPayToTaproot B (PkScript out) then v else max v (u64 (Value out))) outs 0"

fun spEntries :: "blockEnv \<Rightarrow> blockWithPrevOuts \<Rightarrow> int \<Rightarrow> nat \<Rightarrow> msgTx list \<Rightarrow> err + spTweakEntry list" where
  "spEntries B block height txIndex [] = Inr []"
| "spEntries B block height txIndex (tx # rest) =
     (if IsCoinBaseTx B tx then spEntries B block height (Suc txIndex) rest
      else case TransactionTweakData B tx (fetchPrevOutScript block) of
             Inl e \<Rightarrow> Inl (Wrapf ''error calculating SP tweak data for tx index in block at height'' [int txIndex, height] e)
           | Inr None \<Rightarrow> spEntries B block height (Suc txIndex) rest
           | Inr (Some tweakPubKey) \<Rightarrow>
               (case spEntries B block height (Suc txIndex) rest of
                  Inl e \<Rightarrow> Inl e
                | Inr es \<Rightarrow> Inr (\<lparr>tweak = copy33 tweakPubKey, maxValue = maxTaprootValue B (TxOut tx)\<rparr> # es)))"

definition indexBlockSPTweakData :: "blockEnv \<Rightarrow> int \<Rightarrow> blockWithPrevOuts \<Rightarrow> (spTweakFiles, unit) go" where
  "indexBlockSPTweakData B height block p =
     (case spEntries B block height 0 (txs block) of
        Inl e \<Rightarrow> (Inl e, p)
      | Inr entries \<Rightarrow>
          if entries = [] then (Inr (), p)
          else (Inr (), p\<lparr>mem := (mem p)\<lparr>tweakData := (tweakData (mem p))(height \<mapsto> entries)\<rparr>\<rparr>))"

text \<open>A call of the prefetcher, which is a field of the producer.\<close>

definition runFetch :: "('m \<Rightarrow> prefetch) \<Rightarrow> (prefetch \<Rightarrow> 'm \<Rightarrow> 'm) \<Rightarrow>
    (prefetch \<times> 'm producer \<Rightarrow> (err + 'a) \<times> prefetch \<times> 'm producer) \<Rightarrow> ('m producer, 'a) go" where
  "runFetch get put m p = (case m (get (mem p), p) of (r, (q, p1)) \<Rightarrow> (r, p1\<lparr>mem := put q (mem p1)\<rparr>))"

definition spIngest :: "'h env \<Rightarrow> blockEnv \<Rightarrow> int \<Rightarrow> (spTweakFiles, unit) go" where
  "spIngest E B height =
     goBind (goWrap ''error getting block hash for height'' [height] (getBlockHash E height)) (\<lambda>hash.
     goBind (goModify (\<lambda>p. p\<lparr>mem := (mem p)\<lparr>tweakData := (tweakData (mem p))(height \<mapsto> []),
       spHeightToHash := (spHeightToHash (mem p))(height \<mapsto> hash)\<rparr>\<rparr>)) (\<lambda>_ p.
       if height < taprootStartHeight (mem p) then (Inr (), p)
       else goBind (goWrap ''error getting block for SP tweak data'' []
                (runFetch spFetcher (\<lambda>q m. m\<lparr>spFetcher := q\<rparr>) (fetchBlock E B height hash)))
              (\<lambda>block. goWrap ''error indexing SP tweak data'' [] (indexBlockSPTweakData B height block)) p))"

subsection \<open>Serialization\<close>

definition keptTweaks :: "nat \<Rightarrow> spTweakEntry list \<Rightarrow> spTweakEntry list" where
  "keptTweaks dustLimit entries = filter (\<lambda>entry. maxValue entry > dustLimit) entries"

definition blockTweaks :: "'h env \<Rightarrow> nat \<Rightarrow> spTweakEntry list \<Rightarrow> bytes" where
  "blockTweaks E dustLimit entries =
     WriteVarInt E (length (keptTweaks dustLimit entries)) @ concat (map tweak (keptTweaks dustLimit entries))"

definition serializeSPTweaks :: "'h env \<Rightarrow> spMem \<Rightarrow> nat \<Rightarrow> int \<Rightarrow> int \<Rightarrow> stream" where
  "serializeSPTweaks E m dustLimit startIndex endIndex =
     (case streamEach ''missing SP tweak data at height'' (tweakData m) (blockTweaks E dustLimit) [startIndex..endIndex] of
        (bs, e) \<Rightarrow> (writeSPTweakFileHeader (spNet m) startIndex dustLimit @ bs, e))"

fun spTweaksSizeLoop :: "'h env \<Rightarrow> (int \<rightharpoonup> spTweakEntry list) \<Rightarrow> nat \<Rightarrow> int list \<Rightarrow> int \<Rightarrow> int \<times> bool" where
  "spTweaksSizeLoop E m dustLimit [] sofar = (sofar, True)"
| "spTweaksSizeLoop E m dustLimit (j # js) sofar =
     (case m j of
        None \<Rightarrow> (0, False)
      | Some entries \<Rightarrow>
          (let count = length (filter (\<lambda>entry. maxValue entry > dustLimit) entries) in
           spTweaksSizeLoop E m dustLimit js (sofar + (int (VarIntSerializeSize E count) + int count * 33))))"

definition spTweaksSize :: "'h env \<Rightarrow> spMem \<Rightarrow> nat \<Rightarrow> int \<Rightarrow> int \<Rightarrow> int \<times> bool" where
  "spTweaksSize E m dustLimit startIndex endIndex =
     spTweaksSizeLoop E (tweakData m) dustLimit [startIndex..endIndex] (int spTweakFileHeaderSize)"

subsection \<open>The hooks\<close>

definition spFileName :: "spTweakFiles \<Rightarrow> nat \<Rightarrow> int \<Rightarrow> int \<Rightarrow> string" where
  "spFileName p dustLimit = blockFileName SPTweakFileSuffix (joinPath (baseDir p) (spTweakDustDir dustLimit))"

text \<open>The loop of \<open>writeSealedFile\<close> runs over the levels backwards.\<close>

definition spBatch :: "'h env \<Rightarrow> spTweakFiles \<Rightarrow> nat list \<Rightarrow> int \<Rightarrow> int \<Rightarrow> (string \<times> stream) list" where
  "spBatch E p levels fileStart fileEnd =
     map (\<lambda>dustLimit. (spFileName p dustLimit fileStart fileEnd, serializeSPTweaks E (mem p) dustLimit fileStart fileEnd)) levels"

definition spWriteSealedFile :: "'h env \<Rightarrow> int \<Rightarrow> int \<Rightarrow> (spTweakFiles, unit) go" where
  "spWriteSealedFile E fileStart fileEnd p = writeBatch E (spBatch E p (rev spTweakDustLimits) fileStart fileEnd) p"

definition spPrune :: "int \<Rightarrow> int \<Rightarrow> spMem \<Rightarrow> spMem" where
  "spPrune start end m =
     m\<lparr>tweakData := deleteRange start end (tweakData m), spHeightToHash := deleteRange start end (spHeightToHash m)\<rparr>"

definition spCachedHash :: "spMem \<Rightarrow> int \<Rightarrow> hash option" where
  "spCachedHash m height = spHeightToHash m height"

definition spHooks :: "blockEnv \<Rightarrow> 'h env \<Rightarrow> spMem producerHooks" where
  "spHooks B E = \<lparr>ingest = spIngest E B, writeSealedFile = spWriteSealedFile E,
     pruneLocked = spPrune, cachedHash = spCachedHash, afterCatchUp = None\<rparr>"

definition newSPTweakFiles :: "int \<Rightarrow> int \<Rightarrow> string \<Rightarrow> network \<Rightarrow> nat \<Rightarrow> prefetch \<Rightarrow> shared \<Rightarrow> spTweakFiles" where
  "newSPTweakFiles itemsPerFile depth dir net magic fetcher s =
     \<lparr>now = now s, disk = disk s, cache = cache s, pname = ''SP tweak data'', baseDir = dir,
      subDir = spTweakDustDir (spTweakDustLimits ! 0),
      fileSuffix = SPTweakFileSuffix, extractSuffix = SPTweakFileSuffix, entriesPerFile = itemsPerFile,
      reOrgSafeDepth = depth, startupComplete = False, currentHeight = 0, lastSealedHeight = -1,
      mem = \<lparr>tweakData = Map.empty, spHeightToHash = Map.empty, spFetcher = fetcher, spNet = magic,
             taprootStartHeight = (case TaprootActivationHeights net of None \<Rightarrow> 0 | Some h \<Rightarrow> h),
             taprootSupported = (TaprootActivationHeights net \<noteq> None)\<rparr>\<rparr>"

text \<open>
  \<open>updateFiles\<close> shadows the base's: on a network without Taproot it only waits for the
  shutdown; otherwise it creates the directories of the levels first.
\<close>

definition spUpdateFiles :: "'h env \<Rightarrow> blockEnv \<Rightarrow> int \<Rightarrow> nat \<Rightarrow> (spTweakFiles, unit) go" where
  "spUpdateFiles E B numBlocks polls p =
     (if \<not> taprootSupported (mem p) then (Inl ErrServerShutdown, p\<lparr>startupComplete := True\<rparr>)
      else goBind (goForEach spTweakDustLimits (\<lambda>_. goWrap ''error creating directory'' [] (mkdirAll E)))
             (\<lambda>_. updateFiles E (spHooks B E) numBlocks polls) p)"

subsection \<open>The laws of the base\<close>

definition spRangeFiles :: "spTweakFiles \<Rightarrow> int \<Rightarrow> int \<Rightarrow> string list" where
  "spRangeFiles p a b = map (\<lambda>d. spFileName p d a b) (rev spTweakDustLimits)"

lemma okSuffix_sp [simp]: "okSuffix SPTweakFileSuffix"
  by (simp add: okSuffix_def SPTweakFileSuffix_def)

lemma onlyReads_quiet: "onlyReads E p p' \<Longrightarrow> quiet E p p'"
  by (auto simp: onlyReads_def quiet_def sameBase_def conf_def)

lemma quiet_mem: "quiet E p p' \<Longrightarrow> quiet E p (p'\<lparr>mem := m\<rparr>)"
  by (auto simp: quiet_def sameBase_def conf_def intro: cacheGrows_trans [OF _ cacheGrows_same] cacheStays_trans [OF _ cacheStays_same])

lemma keeps_runFetch: "keeps (quiet E) (runFetch get put (fetchBlock E B height hash))"
proof (rule keepsI)
  fix p r p'
  assume run: "runFetch get put (fetchBlock E B height hash) p = (r, p')"
  obtain x q p1 where f: "fetchBlock E B height hash (get (mem p), p) = (x, (q, p1))" by (metis prod.collapse)
  have "quiet E p p1" using fetchBlock_onlyReads [OF f] by (blast intro: onlyReads_quiet)
  with run f show "quiet E p p'" by (auto simp: runFetch_def intro: quiet_mem)
qed

lemma keeps_indexBlock: "keeps (quiet E) (indexBlockSPTweakData B height block)"
  by (auto simp: keeps_def indexBlockSPTweakData_def reflpD [OF quiet_preorder(1)]
      intro: quiet_mem split: sum.splits)

lemma spIngest_quiet: "keeps (quiet E) (spIngest E B h)"
  and spIngest_looks: "spIngest E B h p = (Inr u, p') \<Longrightarrow> heightToHash (cache p') h \<noteq> None"
proof -
  have "keeps (quiet E) (\<lambda>p. if h < taprootStartHeight (mem p) then (Inr (), p)
      else goBind (goWrap msg [] (runFetch spFetcher (\<lambda>q m. m\<lparr>spFetcher := q\<rparr>) (fetchBlock E B h hash)))
              (\<lambda>block. goWrap msg' [] (indexBlockSPTweakData B h block)) p)" for hash msg msg'
  proof -
    have "keeps (quiet E) (goBind (goWrap msg [] (runFetch spFetcher (\<lambda>q m. m\<lparr>spFetcher := q\<rparr>) (fetchBlock E B h hash)))
              (\<lambda>block. goWrap msg' [] (indexBlockSPTweakData B h block)))"
      by (intro keeps_intros quiet_preorder keeps_runFetch keeps_indexBlock)
    then show ?thesis by (auto simp: keeps_def reflpD [OF quiet_preorder(1)])
  qed
  note index = this
  show "keeps (quiet E) (spIngest E B h)" unfolding spIngest_def by (intro keeps_intros quiet_preorder index)
  show "heightToHash (cache p') h \<noteq> None" if "spIngest E B h p = (Inr u, p')"
    using that unfolding spIngest_def by (rule lookup_first) (intro keeps_intros quiet_preorder index)
qed

text \<open>The hash recorded for a height is set before the block is fetched and not changed after.\<close>

lemma runFetch_mem:
  assumes "runFetch get put (fetchBlock E B height hash) p = (r, p')"
  shows "\<exists>q. mem p' = put q (mem p)"
proof -
  obtain x q p1 where f: "fetchBlock E B height hash (get (mem p), p) = (x, (q, p1))" by (metis prod.collapse)
  from fetchBlock_onlyReads [OF f] obtain n c where "p1 = p\<lparr>now := n, cache := c\<rparr>" by (auto simp: onlyReads_def)
  with assms f show ?thesis by (auto simp: runFetch_def)
qed

lemma indexBlock_hashes:
  "indexBlockSPTweakData B height block p = (r, p') \<Longrightarrow> spHeightToHash (mem p') = spHeightToHash (mem p)"
  by (auto simp: indexBlockSPTweakData_def split: sum.splits if_splits)

lemma spIngest_ok:
  assumes "spIngest E B h p = (Inr u, p')"
  obtains x q where "getBlockHash E h p = (Inr x, q)"
    "spHeightToHash (mem p') = (spHeightToHash (mem p))(h \<mapsto> x)"
proof -
  from assms obtain x q where g: "getBlockHash E h p = (Inr x, q)"
    and hs: "spHeightToHash (mem p') = (spHeightToHash (mem q))(h \<mapsto> x)"
    by (auto simp: spIngest_def go_simps dest!: runFetch_mem indexBlock_hashes split: if_splits)
  have "mem q = mem p" using getBlockHash_quiet [OF g] by (simp add: wrote_def)
  with g hs show thesis by (intro that) simp_all
qed

lemma spFileName_cong: "conf q = conf p \<Longrightarrow> spFileName q = spFileName p \<and> spRangeFiles q = spRangeFiles p"
  by (simp add: spFileName_def spRangeFiles_def conf_def fun_eq_iff)

lemma decimal_inj: "decimal m = decimal n \<Longrightarrow> m = n"
  by (metis decVal_decimal)

lemma spFileName_inj: "spFileName p d a b = spFileName p d' a b \<longleftrightarrow> d = d'"
  by (auto simp: spFileName_def blockFileName_def joinPath_def spTweakDustDir_def dest: decimal_inj)

lemma spBatch_distinct: "distinct levels \<Longrightarrow> distinct (map fst (spBatch E p levels a b))"
  by (auto simp: spBatch_def distinct_map inj_on_def spFileName_inj comp_def)

lemma spBatch_files: "map fst (spBatch E p (rev spTweakDustLimits) a b) = spRangeFiles p a b"
  by (simp add: spBatch_def spRangeFiles_def)

lemma spWrite_ok:
  assumes "spWriteSealedFile E a b p = (Inr u, p')" "d \<in> set spTweakDustLimits"
  shows "snd (serializeSPTweaks E (mem p) d a b) = None \<and>
    map_of (disk p') (spFileName p d a b) = Some (fst (serializeSPTweaks E (mem p) d a b))"
  by (rule writeBatch_ok [OF assms(1) [unfolded spWriteSealedFile_def] spBatch_distinct])
    (use assms(2) in \<open>auto simp: spBatch_def spTweakDustLimits_def\<close>)

interpretation spt: file_producer "spHooks B" spRangeFiles for B
proof unfold_locales
  fix E :: "'a env" and h :: int and a b a' b' u and r :: "err + unit" and p p' q :: spTweakFiles and f m
  show "ingest (spHooks B E) h p = (r, p') \<Longrightarrow>
      sameBase p p' \<and> spRangeFiles p' = spRangeFiles p \<and> cacheGrows E p p' \<and> disk p' = disk p"
    using keepsD [OF spIngest_quiet, of E B h p r p'] spFileName_cong [of p' p]
    by (simp add: spHooks_def quiet_def sameBase_def)
  show "\<exists>x. cachedHash (spHooks B E) (mem p') = (cachedHash (spHooks B E) (mem p))(h \<mapsto> x)"
    if "ingest (spHooks B E) h p = (Inr u, p')"
    using that by (auto simp: spHooks_def spCachedHash_def fun_eq_iff elim!: spIngest_ok)
  show "\<exists>x q. getBlockHash E h p = (Inr x, q) \<and> cachedHash (spHooks B E) (mem p') h = Some x"
    if "header_by_hash E" "ingest (spHooks B E) h p = (Inr u, p')"
    using that by (auto simp: spHooks_def spCachedHash_def elim!: spIngest_ok)
  show "cacheStays p p' \<and> heightToHash (cache p') h \<noteq> None" if "ingest (spHooks B E) h p = (Inr u, p')"
    using that keepsD [OF spIngest_quiet, of E B h p "Inr u" p'] spIngest_looks [of E B h p u p'] by (simp add: spHooks_def quiet_def)
  have wr: "writeSealedFile (spHooks B E) a b p = (r, p') \<Longrightarrow> wrote E (set (spRangeFiles p a b)) p p'"
    using keepsD [OF writeBatch_wrote [of "spBatch E p (rev spTweakDustLimits) a b"], of "set (spRangeFiles p a b)" E p r p']
    by (simp add: spHooks_def spWriteSealedFile_def flip: spBatch_files [of E])
  then show "writeSealedFile (spHooks B E) a b p = (r, p') \<Longrightarrow> cacheStays p p'" by (simp add: wrote_def)
  show "writeSealedFile (spHooks B E) a b p = (r, p') \<Longrightarrow>
      sameBase p p' \<and> spRangeFiles p' = spRangeFiles p \<and> cacheGrows E p p' \<and>
      cachedHash (spHooks B E) (mem p') = cachedHash (spHooks B E) (mem p)"
    using wr spFileName_cong [of p' p] by (simp add: wrote_def sameBase_def)
  show "writeSealedFile (spHooks B E) a b p = (r, p') \<Longrightarrow> f \<notin> set (spRangeFiles p a b) \<Longrightarrow>
      map_of (disk p') f = map_of (disk p) f"
    using wr by (simp add: wrote_def)
  show "writeSealedFile (spHooks B E) a b p = (Inr u, p') \<Longrightarrow> f \<in> set (spRangeFiles p a b) \<Longrightarrow>
      fileExists (disk p') f"
    using spWrite_ok [of E a b p u p'] by (auto simp: spHooks_def spRangeFiles_def fileExists_def)
  show "cachedHash (spHooks B E) (pruneLocked (spHooks B E) a b m) h =
      (if a \<le> h \<and> h \<le> b then None else cachedHash (spHooks B E) m h)"
    by (simp add: spHooks_def spCachedHash_def spPrune_def deleteRange_apply)
  show "conf q = conf p \<Longrightarrow> spRangeFiles q = spRangeFiles p"
    using spFileName_cong [of q p] by simp
  show "0 \<le> a \<Longrightarrow> 0 \<le> b \<Longrightarrow> 0 \<le> a' \<Longrightarrow> 0 \<le> b' \<Longrightarrow> b \<noteq> b' \<Longrightarrow>
      set (spRangeFiles p a b) \<inter> set (spRangeFiles p a' b') = {}"
    by (auto simp: spRangeFiles_def spFileName_def dest!: blockFileName_end [OF _ _ okSuffix_sp okSuffix_sp, rotated 2])
  show "afterCatchUp (spHooks B E) = None"
    by (simp add: spHooks_def)
qed

subsection \<open>The format of a file\<close>

text \<open>
  A reader of the documented format: 18 bytes of metadata, then for each block a count and as
  many keys of 33 bytes. \<open>None\<close> if the input ends early or goes on.
\<close>

record spFile =
  sfNet :: nat
  sfVersion :: byte
  sfType :: byte
  sfStart :: nat
  sfDust :: nat
  sfBlocks :: "bytes list list"

fun splitKeys :: "nat \<Rightarrow> bytes \<Rightarrow> bytes list" where
  "splitKeys 0 bs = []"
| "splitKeys (Suc n) bs = take 33 bs # splitKeys n (drop 33 bs)"

fun decodeBlocks :: "'h env \<Rightarrow> nat \<Rightarrow> bytes \<Rightarrow> bytes list list option" where
  "decodeBlocks E 0 bs = (if bs = [] then Some [] else None)"
| "decodeBlocks E (Suc n) bs =
     (case ReadVarInt E bs of
        Inl _ \<Rightarrow> None
      | Inr (count, rest) \<Rightarrow>
          if length rest < count * 33 then None
          else map_option ((#) (splitKeys count rest)) (decodeBlocks E n (drop (count * 33) rest)))"

definition decodeSPTweaks :: "'h env \<Rightarrow> nat \<Rightarrow> bytes \<Rightarrow> spFile option" where
  "decodeSPTweaks E numBlocks bs =
     (if length bs < 18 then None
      else map_option (\<lambda>blocks. \<lparr>sfNet = le_val (take 4 bs), sfVersion = bs ! 4, sfType = bs ! 5,
             sfStart = le_val (take 4 (drop 6 bs)), sfDust = le_val (take 8 (drop 10 bs)), sfBlocks = blocks\<rparr>)
           (decodeBlocks E numBlocks (drop 18 bs)))"

lemma splitKeys_concat:
  "(\<forall>k\<in>set ks. length k = 33) \<Longrightarrow> splitKeys (length ks) (concat ks @ r) = ks"
  by (induction ks) simp_all

lemma length_concat33: "(\<forall>k\<in>set ks. length k = 33) \<Longrightarrow> length (concat ks) = length ks * 33"
  by (induction ks) simp_all

lemma decodeBlocks_encode:
  assumes "wire_codec E" "\<forall>es\<in>set ess. length es < 18446744073709551616 \<and> (\<forall>e\<in>set es. length (tweak e) = 33)"
  shows "decodeBlocks E (length ess) (concat (map (blockTweaks E d) ess)) =
    Some (map (\<lambda>es. map tweak (keptTweaks d es)) ess)"
  using assms(2)
proof (induction ess)
  case (Cons es ess)
  let ?ks = "map tweak (keptTweaks d es)" and ?r = "concat (map (blockTweaks E d) ess)"
  have k33: "\<forall>k\<in>set ?ks. length k = 33" using Cons.prems by (auto simp: keptTweaks_def)
  have "length (keptTweaks d es) \<le> length es" by (simp add: keptTweaks_def)
  then have "length (keptTweaks d es) < 18446744073709551616" using Cons.prems by auto
  then have "ReadVarInt E (WriteVarInt E (length (keptTweaks d es)) @ t) = Inr (length (keptTweaks d es), t)" for t
    by (rule wire_codecD(3) [OF assms(1)])
  with splitKeys_concat [OF k33, of ?r] length_concat33 [OF k33] Cons show ?case
    by (simp add: blockTweaks_def [of E d es])
qed simp

lemma length_spHeader [simp]: "length (writeSPTweakFileHeader net a d) = 18"
  by (simp add: writeSPTweakFileHeader_def del: le_bytes.simps)

lemma spHeader_fields:
  assumes "net < 4294967296" "0 \<le> a" "a < 4294967296" "d < 18446744073709551616"
  shows "le_val (take 4 (writeSPTweakFileHeader net a d @ r)) = net"
    "(writeSPTweakFileHeader net a d @ r) ! 4 = spTweakFileVersion"
    "(writeSPTweakFileHeader net a d @ r) ! 5 = typeSPTweaks"
    "le_val (take 4 (drop 6 (writeSPTweakFileHeader net a d @ r))) = nat a"
    "le_val (take 8 (drop 10 (writeSPTweakFileHeader net a d @ r))) = d"
  using assms by (simp_all add: writeSPTweakFileHeader_def u32_id nth_append del: le_bytes.simps)

text \<open>
  Claim C26. A tweak file reads back as documented: decoding what \<open>serializeSPTweaks\<close> writes
  gives the network, format version 0, file type 2, the start height and the dust limit, and
  for every height of the range, in order, exactly the tweak keys above the dust limit.
\<close>

theorem sp_file_roundtrip:
  assumes "wire_codec E" "collect (tweakData m) [a..b] = Inr ess"
    and "\<forall>es\<in>set ess. length es < 18446744073709551616 \<and> (\<forall>e\<in>set es. length (tweak e) = 33)"
    and "spNet m < 4294967296" "0 \<le> a" "a < 4294967296" "d < 18446744073709551616"
  shows "decodeSPTweaks E (length [a..b]) (fst (serializeSPTweaks E m d a b)) =
    Some \<lparr>sfNet = spNet m, sfVersion = 0, sfType = 2, sfStart = nat a, sfDust = d,
      sfBlocks = map (\<lambda>es. map tweak (keptTweaks d es)) ess\<rparr>"
proof -
  have body: "fst (serializeSPTweaks E m d a b) =
      writeSPTweakFileHeader (spNet m) a d @ concat (map (blockTweaks E d) ess)"
    using streamEach_collect [OF assms(2)] by (simp add: serializeSPTweaks_def)
  have "map (tweakData m) [a..b] = map Some ess" using assms(2) by (simp add: collect_Inr)
  then have len: "length [a..b] = length ess" by (metis length_map)
  show ?thesis
    unfolding body len decodeSPTweaks_def
    using decodeBlocks_encode [OF assms(1,3), of d] spHeader_fields [OF assms(4-7)]
    by (simp add: spTweakFileVersion_def typeSPTweaks_def)
qed

text \<open>
  The size announced for a tweak response is the length of the body, for every dust
  level, and it is known exactly when every height of the range is in memory.
\<close>

theorem spTweaksSize_exact:
  assumes "wire_codec E" "\<forall>es\<in>ran (tweakData m). \<forall>e\<in>set es. length (tweak e) = 33"
  shows "spTweaksSize E m d a b =
    (case serializeSPTweaks E m d a b of
       (body, None) \<Rightarrow> (int (length body), True) | (_, Some _) \<Rightarrow> (0, False))"
proof -
  have "spTweaksSizeLoop E (tweakData m) d js t =
    (case streamEach msg (tweakData m) (blockTweaks E d) js of
       (body, None) \<Rightarrow> (t + int (length body), True) | (_, Some _) \<Rightarrow> (0, False))" for js t msg
  proof (induction js arbitrary: t)
    case (Cons j js)
    show ?case
    proof (cases "tweakData m j")
      case (Some es)
      then have "\<forall>k\<in>set (map tweak (keptTweaks d es)). length k = 33"
        using assms(2) by (auto simp: keptTweaks_def intro: ranI)
      from length_concat33 [OF this]
      have "length (blockTweaks E d es) = VarIntSerializeSize E (length (keptTweaks d es)) + length (keptTweaks d es) * 33"
        using wire_codecD(1) [OF assms(1)] by (simp add: blockTweaks_def)
      with Some Cons.IH show ?thesis by (simp add: keptTweaks_def Let_def split: prod.splits option.splits)
    qed simp
  qed simp
  from this [of "[a..b]" _ "''missing SP tweak data at height''"] show ?thesis
    by (auto simp: spTweaksSize_def serializeSPTweaks_def spTweakFileHeaderSize_def split: prod.splits option.splits)
qed

subsection \<open>What is indexed and what the levels contain\<close>

definition spEntryOf :: "blockEnv \<Rightarrow> blockWithPrevOuts \<Rightarrow> msgTx \<Rightarrow> spTweakEntry option" where
  "spEntryOf B block tx =
     (if IsCoinBaseTx B tx then None
      else case TransactionTweakData B tx (fetchPrevOutScript block) of
             Inr (Some k) \<Rightarrow> Some \<lparr>tweak = copy33 k, maxValue = maxTaprootValue B (TxOut tx)\<rparr>
           | _ \<Rightarrow> None)"

lemma spEntries_map_filter:
  "spEntries B block h i ts = Inr es \<Longrightarrow> es = List.map_filter (spEntryOf B block) ts"
  by (induction ts arbitrary: i es)
    (auto simp: map_filter_simps spEntryOf_def split: if_splits sum.splits option.splits)

lemma maxTaprootValue_fold:
  "fold (\<lambda>out v. if \<not> IsPayToTaproot B (PkScript out) then v else max v (u64 (Value out))) outs v =
   Max (insert v ((\<lambda>out. u64 (Value out)) ` {out \<in> set outs. IsPayToTaproot B (PkScript out)}))"
proof (induction outs arbitrary: v)
  case (Cons out outs)
  let ?S = "(\<lambda>out. u64 (Value out)) ` {out \<in> set outs. IsPayToTaproot B (PkScript out)}"
  have fin: "finite ?S" by simp
  show ?case
  proof (cases "IsPayToTaproot B (PkScript out)")
    case True
    then have "(\<lambda>out. u64 (Value out)) ` {x \<in> set (out # outs). IsPayToTaproot B (PkScript x)} = insert (u64 (Value out)) ?S"
      by auto
    moreover have "Max (insert (max v w) S) = Max (insert v (insert w S))" if "finite S" for w :: nat and S
      using that by (cases "S = {}") (simp_all add: max.assoc)
    ultimately show ?thesis using True Cons.IH fin by simp
  next
    case False
    then have "{x \<in> set (out # outs). IsPayToTaproot B (PkScript x)} = {x \<in> set outs. IsPayToTaproot B (PkScript x)}"
      by auto
    with False Cons.IH show ?thesis by simp
  qed
qed simp

text \<open>
  Claim C31. Which tweaks of a block a level holds: an indexed block holds one entry per
  eligible transaction, in block order; an entry is in a level exactly when some taproot
  output of its transaction is worth strictly more than the level's dust limit; and a higher
  level is a subsequence of a lower one. Level 0 is no exception: a transaction whose taproot
  outputs are all worth zero has an entry and is in no level, while the README, the index page and
  the comment on \<open>spTweakDustLimits\<close> say that level 0 contains every tweak
  (\<open>sp_zero_value_unserved\<close>).
\<close>

theorem sp_levels:
  assumes "spEntries B block h 0 (txs block) = Inr es"
  shows "es = List.map_filter (spEntryOf B block) (txs block) \<and>
    (\<forall>tx e. spEntryOf B block tx = Some e \<longrightarrow>
       (e \<in> set (keptTweaks d [e]) \<longleftrightarrow> (\<exists>out\<in>set (TxOut tx). IsPayToTaproot B (PkScript out) \<and> d < u64 (Value out)))) \<and>
    (\<forall>d'. d \<le> d' \<longrightarrow> keptTweaks d' es = filter (\<lambda>e. d' < maxValue e) (keptTweaks d es))"
proof (intro conjI allI impI)
  show "es = List.map_filter (spEntryOf B block) (txs block)" using assms by (rule spEntries_map_filter)
next
  fix tx e
  assume "spEntryOf B block tx = Some e"
  then have "maxValue e = maxTaprootValue B (TxOut tx)"
    by (auto simp: spEntryOf_def split: if_splits sum.splits option.splits)
  then have "d < maxValue e \<longleftrightarrow> (\<exists>out\<in>set (TxOut tx). IsPayToTaproot B (PkScript out) \<and> d < u64 (Value out))"
    unfolding maxTaprootValue_def maxTaprootValue_fold by (auto simp: Max_gr_iff)
  then show "e \<in> set (keptTweaks d [e]) \<longleftrightarrow> (\<exists>out\<in>set (TxOut tx). IsPayToTaproot B (PkScript out) \<and> d < u64 (Value out))"
    by (simp add: keptTweaks_def)
next
  fix d' assume "d \<le> d'"
  then show "keptTweaks d' es = filter (\<lambda>e. d' < maxValue e) (keptTweaks d es)"
    by (auto simp: keptTweaks_def intro!: filter_cong)
qed

text \<open>
  Claim C30. The file a restart resumes from is the last of its batch: at whatever point
  \<open>spTweakFiles.writeSealedFile\<close> stops, if the level-0 file of the range appeared or
  changed, the files of all other levels are complete.
\<close>

theorem sp_resume_file_last:
  assumes "spWriteSealedFile E a b p = (r, p')"
    and "map_of (disk p') (spFileName p 0 a b) \<noteq> map_of (disk p) (spFileName p 0 a b)"
    and "d \<in> {600, 1000, 3750}"
  shows "map_of (disk p') (spFileName p d a b) = Some (fst (serializeSPTweaks E (mem p) d a b))"
proof (rule writeBatch_last)
  show "writeBatch E (spBatch E p [3750, 1000, 600] a b @ [(spFileName p 0 a b, serializeSPTweaks E (mem p) 0 a b)]) p = (r, p')"
    using assms(1) by (simp add: spWriteSealedFile_def spBatch_def spTweakDustLimits_def)
  show "distinct (map fst (spBatch E p [3750, 1000, 600] a b @ [(spFileName p 0 a b, serializeSPTweaks E (mem p) 0 a b)]))"
    using spBatch_distinct [of "[3750, 1000, 600, 0]" E p a b] by (simp add: spBatch_def)
qed (use assms(2,3) in \<open>auto simp: spBatch_def\<close>)

text \<open>
  Level 0 does not contain every tweak, against the comment on
  \<open>spTweakDustLimits\<close> and the README: the tweak of an eligible transaction whose taproot
  outputs are all worth zero is indexed, but no dust level includes it.
\<close>

theorem sp_zero_value_unserved:
  assumes "\<not> IsCoinBaseTx B tx" "TransactionTweakData B tx (fetchPrevOutScript block) = Inr (Some k)"
    and "\<forall>out\<in>set (TxOut tx). IsPayToTaproot B (PkScript out) \<longrightarrow> Value out = 0"
  shows "\<exists>e. spEntries B block h i [tx] = Inr [e] \<and> tweak e = copy33 k \<and> (\<forall>d. keptTweaks d [e] = [])"
proof -
  have "maxTaprootValue B (TxOut tx) = Max (insert 0 ((\<lambda>out. u64 (Value out)) ` {out \<in> set (TxOut tx). IsPayToTaproot B (PkScript out)}))"
    unfolding maxTaprootValue_def by (rule maxTaprootValue_fold)
  also have "(\<lambda>out. u64 (Value out)) ` {out \<in> set (TxOut tx). IsPayToTaproot B (PkScript out)} \<subseteq> {0}"
    using assms(3) by (auto simp: u64_def)
  then have "insert 0 ((\<lambda>out. u64 (Value out)) ` {out \<in> set (TxOut tx). IsPayToTaproot B (PkScript out)}) = {0}" by auto
  finally have "maxTaprootValue B (TxOut tx) = 0" by simp
  with assms(1,2) show ?thesis by (simp add: keptTweaks_def)
qed

subsection \<open>Concrete runs\<close>

definition spBlocks :: blockEnv where
  "spBlocks = miniBlocks\<lparr>IsCoinBaseTx := (\<lambda>t. TxIn t = []), TransactionTweakData := (\<lambda>_ _. Inr (Some (replicate 33 2))),
     IsPayToTaproot := (\<lambda>s. s = [81])\<rparr>"

definition spPaying :: "int \<Rightarrow> msgTx" where
  "spPaying v = \<lparr>TxIn = [(zeroHash, 7)], TxOut = [\<lparr>Value = v, PkScript = [81]\<rparr>]\<rparr>"

definition spBlock :: blockWithPrevOuts where
  "spBlock = \<lparr>txs = [\<lparr>TxIn = [], TxOut = []\<rparr>, spPaying 700], prevOutScripts = [(zeroHash, 7) \<mapsto> [81]]\<rparr>"

definition miniSP :: spTweakFiles where
  "miniSP = (newSPTweakFiles 2 0 ''/d'' SigNet 77 stalePrefetch miniShared)
     \<lparr>currentHeight := 1,
      mem := \<lparr>tweakData = [0 \<mapsto> [], 1 \<mapsto> [\<lparr>tweak = replicate 33 2, maxValue = 700\<rparr>]],
        spHeightToHash = [0 \<mapsto> miniBlockHash 0, 1 \<mapsto> miniBlockHash 1],
        spFetcher = stalePrefetch, spNet = 77, taprootStartHeight = 1, taprootSupported = True\<rparr>\<rparr>"

lemma miniSP_tweaks: "collect (tweakData (mem miniSP)) [0..1] = Inr [[], [\<lparr>tweak = replicate 33 2, maxValue = 700\<rparr>]]"
  by (simp add: upto_01 miniSP_def)

lemma sp_file_roundtrip_witness:
  "decodeSPTweaks (miniEnv 3) (Suc (Suc 0)) (fst (serializeSPTweaks (miniEnv 3) (mem miniSP) 600 0 1)) =
     Some \<lparr>sfNet = 77, sfVersion = 0, sfType = 2, sfStart = 0, sfDust = 600, sfBlocks = [[], [replicate 33 2]]\<rparr>"
  using sp_file_roundtrip [OF mini_wire_codec [of 3] miniSP_tweaks, of 600]
  by (simp add: upto_01 keptTweaks_def) (simp add: miniSP_def)

lemma spTweaksSize_example: "spTweaksSize (miniEnv 3) (mem miniSP) 600 0 1 = (53, True)"
proof -
  have "\<forall>es\<in>ran (tweakData (mem miniSP)). \<forall>e\<in>set es. length (tweak e) = 33"
    by (auto simp: miniSP_def ran_def split: if_splits)
  from spTweaksSize_exact [OF mini_wire_codec [of 3] this, of 600 0 1]
  show ?thesis
    by (simp add: serializeSPTweaks_def upto_01 miniSP_def blockTweaks_def keptTweaks_def miniEnv_def compactSize_def)
qed

lemma sp_levels_witness:
  "List.map_filter (spEntryOf spBlocks spBlock) (txs spBlock) = [\<lparr>tweak = replicate 33 2, maxValue = 700\<rparr>]"
proof -
  have run: "spEntries spBlocks spBlock 5 0 (txs spBlock) = Inr [\<lparr>tweak = replicate 33 2, maxValue = 700\<rparr>]"
    by (simp add: spBlock_def spBlocks_def spPaying_def copy33_def maxTaprootValue_def u64_def)
  from sp_levels [OF run] show ?thesis by simp
qed

lemma sp_resume_file_last_witness:
  "map_of (disk (snd (spWriteSealedFile (miniEnv 3) 0 1 miniSP))) (spFileName miniSP 600 0 1) =
     Some (fst (serializeSPTweaks (miniEnv 3) (mem miniSP) 600 0 1))"
proof -
  have None: "snd (serializeSPTweaks (miniEnv 3) (mem miniSP) d 0 1) = None" for d
    using streamEach_collect [OF miniSP_tweaks] by (simp add: serializeSPTweaks_def)
  have "\<exists>p'. writeBatch (miniEnv 3) (spBatch (miniEnv 3) miniSP (rev spTweakDustLimits) 0 1) miniSP = (Inr (), p')"
    by (rule writeBatch_succeeds) (auto simp: None spBatch_def, simp add: miniEnv_def)
  then obtain p' where run: "spWriteSealedFile (miniEnv 3) 0 1 miniSP = (Inr (), p')"
    by (auto simp: spWriteSealedFile_def)
  have "map_of (disk p') (spFileName miniSP 0 0 1) \<noteq> map_of (disk miniSP) (spFileName miniSP 0 0 1)"
    using spWrite_ok [OF run, of 0] by (simp add: spTweakDustLimits_def miniSP_def newSPTweakFiles_def miniShared_def)
  from sp_resume_file_last [OF run this, of 600] run show ?thesis by simp
qed

lemma sp_zero_value_example:
  "\<exists>e. spEntries spBlocks spBlock 5 0 [spPaying 0] = Inr [e] \<and> tweak e = replicate 33 2 \<and> (\<forall>d. keptTweaks d [e] = [])"
  using sp_zero_value_unserved [of spBlocks "spPaying 0" spBlock "replicate 33 2" 5 0]
  by (simp add: spBlocks_def spPaying_def copy33_def)

end
