(* ===== verification/CFilterFiles.thy ===== *)
theory CFilterFiles
  imports FileProducer Demo
begin

text \<open>
  \<open>cfilter-files.go\<close>: the producer of the BIP157 basic-filter files. Its memory is
  \<open>cfMem\<close>, its hooks \<open>cfHooks\<close>, one definition per method; the interpretation
  \<open>cf\<close> discharges the laws of \<open>file_producer\<close> for them.

  \<open>verifyFilters\<close> recomputes the commitment chain \<open>filterChain\<close> between two
  authoritative filter headers. The lemmas show that two sequences of filters of one length
  with the same chain are equal (up to a collision among the strings hashed), hence that a
  sealed file holds the authoritative filters, and that \<open>filtersSize\<close> is the length of
  what is written.
\<close>

record cfMem =
  filters :: "int \<rightharpoonup> bytes"
  cfHeightToHash :: "int \<rightharpoonup> hash"

type_synonym cFilterFiles = "cfMem producer"

definition cfIngest :: "'h env \<Rightarrow> int \<Rightarrow> (cFilterFiles, unit) go" where
  "cfIngest E height =
     goBind (goWrap ''error getting block hash for height'' [height] (getBlockHash E height)) (\<lambda>hash.
     goBind (goWrap ''error getting block filter for hash'' [] (rpcCall E (\<lambda>V. GetBlockFilter V hash))) (\<lambda>bfilter.
     goBind (case hex_decode (bfFilter bfilter) of
               None \<Rightarrow> goFail (Errf ''error parsing filter bytes for hash'' [])
             | Some filterBytes \<Rightarrow> goRet filterBytes) (\<lambda>filterBytes.
     goModify (\<lambda>p. p\<lparr>mem := (mem p)\<lparr>filters := (filters (mem p))(height \<mapsto> filterBytes),
       cfHeightToHash := (cfHeightToHash (mem p))(height \<mapsto> hash)\<rparr>\<rparr>))))"

subsection \<open>The commitment chain\<close>

definition authHeader :: "'h env \<Rightarrow> int \<Rightarrow> (cFilterFiles, hash) go" where
  "authHeader E height =
     goBind (goWrap ''error getting block hash at'' [height] (getBlockHash E height)) (\<lambda>hash.
     goBind (goWrap ''error getting filter at'' [height] (rpcCall E (\<lambda>V. GetBlockFilter V hash))) (\<lambda>bfilter.
     goLift (NewHashFromStr E (bfHeader bfilter))))"

text \<open>The loop of \<open>verifyFilters\<close>.\<close>

fun verifyFiltersLoop :: "'h env \<Rightarrow> (int \<rightharpoonup> bytes) \<Rightarrow> int list \<Rightarrow> hash \<Rightarrow> err + hash" where
  "verifyFiltersLoop E m [] prevHeader = Inr prevHeader"
| "verifyFiltersLoop E m (height # heights) prevHeader =
     (case m height of
        None \<Rightarrow> Inl (Errf ''missing filter at height'' [height])
      | Some f \<Rightarrow> verifyFiltersLoop E m heights (DoubleHash E (DoubleHash E f @ prevHeader)))"

definition verifyFilters :: "'h env \<Rightarrow> int \<Rightarrow> int \<Rightarrow> (cFilterFiles, unit) go" where
  "verifyFilters E fileStart fileEnd =
     goBind (if fileStart > 0 then authHeader E (sub32 fileStart 1) else goRet zeroHash) (\<lambda>prevHeader.
     goBind (authHeader E fileEnd) (\<lambda>wantEnd p.
       case verifyFiltersLoop E (filters (mem p)) [fileStart..fileEnd] prevHeader of
         Inl e \<Rightarrow> (Inl e, p)
       | Inr h \<Rightarrow>
           if h \<noteq> wantEnd
           then (Inl (Errf ''filter chain of heights does not match the backend's filter header''
                   [fileStart, fileEnd]), p)
           else (Inr (), p)))"

subsection \<open>Serialization\<close>

definition serializeFilters :: "'h env \<Rightarrow> cfMem \<Rightarrow> int \<Rightarrow> int \<Rightarrow> stream" where
  "serializeFilters E m startIndex endIndex =
     streamEach ''missing filter at height'' (filters m) (WriteVarBytes E) [startIndex..endIndex]"

definition filterAtHeight :: "cfMem \<Rightarrow> int \<Rightarrow> bytes option" where
  "filterAtHeight m height = filters m height"

fun filtersSizeLoop :: "'h env \<Rightarrow> (int \<rightharpoonup> bytes) \<Rightarrow> int list \<Rightarrow> int \<Rightarrow> int \<times> bool" where
  "filtersSizeLoop E m [] sofar = (sofar, True)"
| "filtersSizeLoop E m (j # js) sofar =
     (case m j of
        None \<Rightarrow> (0, False)
      | Some f \<Rightarrow> filtersSizeLoop E m js (sofar + (int (VarIntSerializeSize E (length f)) + int (length f))))"

definition filtersSize :: "'h env \<Rightarrow> cfMem \<Rightarrow> int \<Rightarrow> int \<Rightarrow> int \<times> bool" where
  "filtersSize E m startIndex endIndex = filtersSizeLoop E (filters m) [startIndex..endIndex] 0"

subsection \<open>The hooks\<close>

definition writeFilters :: "'h env \<Rightarrow> string \<Rightarrow> int \<Rightarrow> int \<Rightarrow> (cFilterFiles, unit) go" where
  "writeFilters E fileName startIndex endIndex p =
     createAndWrite E fileName (serializeFilters E (mem p) startIndex endIndex) p"

definition filterFileName :: "cFilterFiles \<Rightarrow> int \<Rightarrow> int \<Rightarrow> string" where
  "filterFileName p = blockFileName FilterFileSuffix (joinPath (baseDir p) (subDir p))"

definition cfWriteSealedFile :: "'h env \<Rightarrow> int \<Rightarrow> int \<Rightarrow> (cFilterFiles, unit) go" where
  "cfWriteSealedFile E fileStart fileEnd =
     goBind (goWrap ''refusing to seal filters'' [fileStart, fileEnd] (verifyFilters E fileStart fileEnd)) (\<lambda>_ p.
       writeFilters E (filterFileName p fileStart fileEnd) fileStart fileEnd p)"

definition cfPrune :: "int \<Rightarrow> int \<Rightarrow> cfMem \<Rightarrow> cfMem" where
  "cfPrune start end m =
     m\<lparr>filters := deleteRange start end (filters m), cfHeightToHash := deleteRange start end (cfHeightToHash m)\<rparr>"

definition cfCachedHash :: "cfMem \<Rightarrow> int \<Rightarrow> hash option" where
  "cfCachedHash m height = cfHeightToHash m height"

definition cfHooks :: "'h env \<Rightarrow> cfMem producerHooks" where
  "cfHooks E = \<lparr>ingest = cfIngest E, writeSealedFile = cfWriteSealedFile E,
     pruneLocked = cfPrune, cachedHash = cfCachedHash, afterCatchUp = None\<rparr>"

definition newCFilterFiles :: "int \<Rightarrow> int \<Rightarrow> string \<Rightarrow> shared \<Rightarrow> cFilterFiles" where
  "newCFilterFiles filtersPerFile depth dir s =
     \<lparr>now = now s, disk = disk s, cache = cache s, pname = ''filter'', baseDir = dir, subDir = FilterFileDir,
      fileSuffix = FilterFileSuffix, extractSuffix = FilterFileSuffix, entriesPerFile = filtersPerFile,
      reOrgSafeDepth = depth, startupComplete = False, currentHeight = 0, lastSealedHeight = -1,
      mem = \<lparr>filters = Map.empty, cfHeightToHash = Map.empty\<rparr>\<rparr>"

subsection \<open>The laws of the base\<close>

definition cfRangeFiles :: "cFilterFiles \<Rightarrow> int \<Rightarrow> int \<Rightarrow> string list" where
  "cfRangeFiles p a b = [filterFileName p a b]"

lemma cfIngest_quiet: "keeps (quiet E) (cfIngest E h)"
  unfolding cfIngest_def by (intro keeps_intros quiet_preorder) (auto intro: keeps_intros split: option.split)

lemma cfIngest_looks: "cfIngest E h p = (Inr u, p') \<Longrightarrow> heightToHash (cache p') h \<noteq> None"
  unfolding cfIngest_def by (erule lookup_first, intro keeps_intros quiet_preorder) (auto intro: keeps_intros split: option.split)

lemma cfIngest_ok:
  assumes "cfIngest E h p = (Inr u, p')"
  obtains x q bf f where "getBlockHash E h p = (Inr x, q)" "GetBlockFilter (rpc E (now q)) x = Inr bf"
    "hex_decode (bfFilter bf) = Some f"
    "mem p' = \<lparr>filters = (filters (mem p))(h \<mapsto> f), cfHeightToHash = (cfHeightToHash (mem p))(h \<mapsto> x)\<rparr>"
proof -
  from assms obtain x q bf f where g: "getBlockHash E h p = (Inr x, q)" "GetBlockFilter (rpc E (now q)) x = Inr bf"
    "hex_decode (bfFilter bf) = Some f"
    and m: "mem p' = (mem q)\<lparr>filters := (filters (mem q))(h \<mapsto> f), cfHeightToHash := (cfHeightToHash (mem q))(h \<mapsto> x)\<rparr>"
    by (auto simp: cfIngest_def go_simps split: option.splits)
  have "mem q = mem p" using getBlockHash_quiet [OF g(1)] by (simp add: wrote_def)
  with m have "mem p' = \<lparr>filters = (filters (mem p))(h \<mapsto> f), cfHeightToHash = (cfHeightToHash (mem p))(h \<mapsto> x)\<rparr>" by simp
  with g show thesis by (rule that)
qed

lemma filterFileName_cong: "conf q = conf p \<Longrightarrow> filterFileName q = filterFileName p \<and> cfRangeFiles q = cfRangeFiles p"
  by (simp add: filterFileName_def cfRangeFiles_def conf_def fun_eq_iff)

lemma authHeader_wrote: "keeps (wrote E F) (authHeader E h)"
  unfolding authHeader_def by (intro keeps_intros wrote_preorder)

lemma verifyFilters_wrote: "keeps (wrote E F) (verifyFilters E a b)"
proof -
  have "keeps (wrote E F) (\<lambda>p. case verifyFiltersLoop E (filters (mem p)) js h of
          Inl e \<Rightarrow> (Inl e, p) | Inr h \<Rightarrow> if h \<noteq> w then (Inl e1, p) else (Inr (), p))" for js h w e1
    by (auto simp: keeps_def reflpD [OF wrote_preorder(1)] split: sum.splits)
  moreover have "keeps (wrote E F) (if a > 0 then authHeader E h else goRet zeroHash)" for h
    by (simp add: authHeader_wrote keeps_goRet)
  ultimately show ?thesis unfolding verifyFilters_def by (intro keeps_intros wrote_preorder authHeader_wrote)
qed

lemma cfWrite_wrote:
  assumes "cfWriteSealedFile E a b p = (r, p')"
  shows "wrote E (set (cfRangeFiles p a b)) p p'"
proof -
  let ?F = "set (cfRangeFiles p a b)"
  obtain v q where v: "verifyFilters E a b p = (v, q)" by fastforce
  then have pq: "wrote E ?F p q" using verifyFilters_wrote by (rule keepsD [rotated])
  then have "filterFileName q = filterFileName p" using filterFileName_cong [of q p] by (simp add: wrote_def sameBase_def)
  then have "keeps (wrote E ?F) (writeFilters E (filterFileName q a b) a b)"
    unfolding writeFilters_def by (intro keeps_intros) (simp add: cfRangeFiles_def)
  with assms v pq show ?thesis
    by (cases v) (auto simp: cfWriteSealedFile_def goBind_def goWrap_def dest: keepsD transpD [OF wrote_preorder(2)])
qed

lemma cfWrite_ok:
  assumes "cfWriteSealedFile E a b p = (Inr u, p')"
  shows "fst (verifyFilters E a b p) = Inr () \<and> snd (serializeFilters E (mem p) a b) = None \<and>
    map_of (disk p') (filterFileName p a b) = Some (fst (serializeFilters E (mem p) a b))"
proof -
  from assms obtain q where v: "verifyFilters E a b p = (Inr (), q)"
    and w: "createAndWrite E (filterFileName q a b) (serializeFilters E (mem q) a b) q = (Inr u, p')"
    by (auto simp: cfWriteSealedFile_def go_simps writeFilters_def)
  have q: "wrote E {} p q" using v verifyFilters_wrote by (rule keepsD [rotated])
  then have "filterFileName q = filterFileName p" "mem q = mem p"
    using filterFileName_cong [of q p] by (simp_all add: wrote_def sameBase_def)
  with createAndWrite_ok [OF w] v show ?thesis by (simp add: update_conv')
qed

interpretation cf: file_producer cfHooks cfRangeFiles
proof unfold_locales
  fix E :: "'a env" and h :: int and a b a' b' u and r :: "err + unit" and p p' q :: cFilterFiles and f m
  show "ingest (cfHooks E) h p = (r, p') \<Longrightarrow>
      sameBase p p' \<and> cfRangeFiles p' = cfRangeFiles p \<and> cacheGrows E p p' \<and> disk p' = disk p"
    using keepsD [OF cfIngest_quiet, of E h p r p'] filterFileName_cong [of p' p]
    by (simp add: cfHooks_def quiet_def sameBase_def)
  show "\<exists>x. cachedHash (cfHooks E) (mem p') = (cachedHash (cfHooks E) (mem p))(h \<mapsto> x)"
    if "ingest (cfHooks E) h p = (Inr u, p')"
    using that by (auto simp: cfHooks_def cfCachedHash_def fun_eq_iff elim!: cfIngest_ok)
  show "\<exists>x q. getBlockHash E h p = (Inr x, q) \<and> cachedHash (cfHooks E) (mem p') h = Some x"
    if "header_by_hash E" "ingest (cfHooks E) h p = (Inr u, p')"
    using that by (auto simp: cfHooks_def cfCachedHash_def elim!: cfIngest_ok)
  show "cacheStays p p' \<and> heightToHash (cache p') h \<noteq> None" if "ingest (cfHooks E) h p = (Inr u, p')"
    using that keepsD [OF cfIngest_quiet, of E h p "Inr u" p'] cfIngest_looks [of E h p u p'] by (simp add: cfHooks_def quiet_def)
  show "writeSealedFile (cfHooks E) a b p = (r, p') \<Longrightarrow> cacheStays p p'"
    using cfWrite_wrote [of E a b p r p'] by (simp add: cfHooks_def wrote_def)
  show "writeSealedFile (cfHooks E) a b p = (r, p') \<Longrightarrow>
      sameBase p p' \<and> cfRangeFiles p' = cfRangeFiles p \<and> cacheGrows E p p' \<and>
      cachedHash (cfHooks E) (mem p') = cachedHash (cfHooks E) (mem p)"
    using cfWrite_wrote [of E a b p r p'] filterFileName_cong [of p' p]
    by (simp add: cfHooks_def wrote_def sameBase_def)
  show "writeSealedFile (cfHooks E) a b p = (r, p') \<Longrightarrow> f \<notin> set (cfRangeFiles p a b) \<Longrightarrow>
      map_of (disk p') f = map_of (disk p) f"
    using cfWrite_wrote [of E a b p r p'] by (simp add: cfHooks_def wrote_def)
  show "writeSealedFile (cfHooks E) a b p = (Inr u, p') \<Longrightarrow> f \<in> set (cfRangeFiles p a b) \<Longrightarrow>
      fileExists (disk p') f"
    using cfWrite_ok [of E a b p u p'] by (auto simp: cfHooks_def fileExists_def cfRangeFiles_def)
  show "cachedHash (cfHooks E) (pruneLocked (cfHooks E) a b m) h =
      (if a \<le> h \<and> h \<le> b then None else cachedHash (cfHooks E) m h)"
    by (simp add: cfHooks_def cfCachedHash_def cfPrune_def deleteRange_apply)
  show "conf q = conf p \<Longrightarrow> cfRangeFiles q = cfRangeFiles p"
    using filterFileName_cong [of q p] by simp
  show "0 \<le> a \<Longrightarrow> 0 \<le> b \<Longrightarrow> 0 \<le> a' \<Longrightarrow> 0 \<le> b' \<Longrightarrow> b \<noteq> b' \<Longrightarrow>
      set (cfRangeFiles p a b) \<inter> set (cfRangeFiles p a' b') = {}"
    by (simp add: cfRangeFiles_def filterFileName_def blockFileName_eq_iff)
  show "afterCatchUp (cfHooks E) = None"
    by (simp add: cfHooks_def)
qed

subsection \<open>What \<open>verifyFilters\<close> proves\<close>

definition filterChain :: "'h env \<Rightarrow> hash \<Rightarrow> bytes list \<Rightarrow> hash" where
  "filterChain E prev fs = foldl (\<lambda>acc f. DoubleHash E (DoubleHash E f @ acc)) prev fs"

text \<open>The strings hashed on the way.\<close>

fun chainInputs :: "'h env \<Rightarrow> hash \<Rightarrow> bytes list \<Rightarrow> bytes list" where
  "chainInputs E prev [] = []"
| "chainInputs E prev (f # fs) =
     f # (DoubleHash E f @ prev) # chainInputs E (DoubleHash E (DoubleHash E f @ prev)) fs"

lemma chainInputs_snoc:
  "chainInputs E prev (fs @ [f]) = chainInputs E prev fs @ [f, DoubleHash E f @ filterChain E prev fs]"
  by (induction fs arbitrary: prev) (simp_all add: filterChain_def)

lemma filterChain_inj:
  assumes "hash_codec E" "length fs = length gs" "filterChain E p fs = filterChain E q gs"
    and "inj_on (DoubleHash E) (set (chainInputs E p fs) \<union> set (chainInputs E q gs))"
  shows "fs = gs \<and> p = q"
  using assms(2-)
proof (induction fs arbitrary: gs rule: rev_induct)
  case (snoc f fs)
  from snoc.prems(1) obtain gs' g where gs: "gs = gs' @ [g]" by (cases gs rule: rev_cases) auto
  let ?x = "DoubleHash E f @ filterChain E p fs" and ?y = "DoubleHash E g @ filterChain E q gs'"
  note inj = snoc.prems(3) [unfolded gs chainInputs_snoc]
  have "DoubleHash E ?x = DoubleHash E ?y" using snoc.prems(2) gs by (simp add: filterChain_def)
  then have "?x = ?y" by (rule inj_onD [OF inj]) simp_all
  then have h: "DoubleHash E f = DoubleHash E g" "filterChain E p fs = filterChain E q gs'"
    using assms(1) by (simp_all add: hash_codec_def)
  from h(1) have "f = g" by (rule inj_onD [OF inj]) simp_all
  moreover have "fs = gs' \<and> p = q"
    by (rule snoc.IH [OF _ h(2) inj_on_subset [OF inj]]) (use snoc.prems(1) gs in auto)
  ultimately show ?case using gs by simp
qed (simp add: filterChain_def)

lemmas filterChain_unique = filterChain_inj [THEN conjunct1]

lemma verifyFiltersLoop_iff:
  "verifyFiltersLoop E m js prev = Inr h \<longleftrightarrow> (\<exists>fs. collect m js = Inr fs \<and> h = filterChain E prev fs)"
proof (induction js arbitrary: prev)
  case (Cons j js)
  show ?case
  proof (cases "m j")
    case (Some f)
    with Cons.IH show ?thesis by (auto simp: filterChain_def split: sum.splits)
  qed simp
qed (auto simp: filterChain_def)

text \<open>The authoritative header the chain of a range starts from.\<close>

definition startHeader :: "'h env \<Rightarrow> int \<Rightarrow> (cFilterFiles, hash) go" where
  "startHeader E a = (if a > 0 then authHeader E (sub32 a 1) else goRet zeroHash)"

lemma verifyFilters_iff:
  assumes "startHeader E a p = (Inr s, q)" "authHeader E b q = (Inr e, q')"
  shows "fst (verifyFilters E a b p) = Inr () \<longleftrightarrow>
    (\<exists>fs. collect (filters (mem p)) [a..b] = Inr fs \<and> filterChain E s fs = e)"
proof -
  have "keeps (wrote E {}) (startHeader E a)" by (simp add: startHeader_def authHeader_wrote keeps_goRet)
  then have "wrote E {} p q" using assms(1) by (rule keepsD)
  moreover have "wrote E {} q q'" using authHeader_wrote assms(2) by (rule keepsD)
  ultimately have m: "mem q' = mem p" by (simp add: wrote_def)
  have run: "verifyFilters E a b p =
     (case verifyFiltersLoop E (filters (mem p)) [a..b] s of
        Inl e' \<Rightarrow> (Inl e', q')
      | Inr h \<Rightarrow> if h \<noteq> e
                 then (Inl (Errf ''filter chain of heights does not match the backend's filter header'' [a, b]), q')
                 else (Inr (), q'))"
    using assms m by (simp add: verifyFilters_def startHeader_def goBind_def)
  show ?thesis
    unfolding run using verifyFiltersLoop_iff [of E "filters (mem p)" "[a..b]" s e]
    by (auto split: sum.splits)
qed

lemma verifyFilters_ok:
  assumes "fst (verifyFilters E a b p) = Inr ()"
  obtains s q e q' where "startHeader E a p = (Inr s, q)" "authHeader E b q = (Inr e, q')"
  using assms by (auto simp: verifyFilters_def startHeader_def goBind_def split: prod.splits sum.splits)

subsection \<open>Sealed files\<close>

text \<open>
  Claim C25. Whenever \<open>cFilterFiles.writeSealedFile\<close> succeeds, the filter file on disk is the
  concatenation of the length-prefixed authoritative filters of the range: of any sequence of
  filters, as long as the range, whose BIP157 commitment chain leads from the backend's
  filter header before the range to its filter header at the end of it. A filter of a
  reorged-away block cannot be sealed, unless two of the strings hashed collide.
\<close>

theorem sealed_filters_are_authoritative:
  assumes "hash_codec E" "cfWriteSealedFile E a b p = (Inr u, p')"
    and auth: "startHeader E a p = (Inr s, q)" "authHeader E b q = (Inr e, q')"
    and fs: "int (length fs) = b - a + 1" "filterChain E s fs = e"
    and inj: "inj_on (DoubleHash E)
      (set (chainInputs E s fs) \<union> set (chainInputs E s (map (the \<circ> filters (mem p)) [a..b])))"
  shows "map_of (disk p') (filterFileName p a b) = Some (concat (map (WriteVarBytes E) fs))"
proof -
  note w = cfWrite_ok [OF assms(2)]
  then obtain gs where gs: "collect (filters (mem p)) [a..b] = Inr gs" "filterChain E s gs = e"
    using verifyFilters_iff [OF auth] by auto
  then have m: "map (filters (mem p)) [a..b] = map Some gs" by (simp add: collect_Inr)
  then have "map the (map (filters (mem p)) [a..b]) = map the (map Some gs)" by (rule arg_cong)
  then have gs': "map (the \<circ> filters (mem p)) [a..b] = gs" by (simp add: comp_def)
  then have "length gs = nat (b - a + 1)" by (metis length_map length_upto)
  then have "length gs = length fs" unfolding fs(1) [symmetric] by simp
  moreover have "filterChain E s gs = filterChain E s fs" using gs(2) fs(2) by simp
  ultimately have "gs = fs"
    by (rule filterChain_unique [OF assms(1)]) (use inj gs' in \<open>simp add: Un_commute\<close>)
  with w streamEach_collect [OF gs(1)] show ?thesis by (simp add: serializeFilters_def)
qed

text \<open>Two heights of the miniature chain in memory.\<close>

definition miniCFilterFiles :: cFilterFiles where
  "miniCFilterFiles =
     (newCFilterFiles 2 0 ''/d'' \<lparr>now = 0, disk = [], cache = newH2HCache\<rparr>)
       \<lparr>currentHeight := 1,
        mem := \<lparr>filters = [0 \<mapsto> [0], 1 \<mapsto> [1]], cfHeightToHash = [0 \<mapsto> miniBlockHash 0, 1 \<mapsto> miniBlockHash 1]\<rparr>\<rparr>"

lemma mini_start: "startHeader (miniEnv 3) 0 miniCFilterFiles = (Inr zeroHash, miniCFilterFiles)"
  by (simp add: startHeader_def goRet_def)

lemma mini_end:
  "authHeader (miniEnv 3) 1 miniCFilterFiles =
     (Inr (miniFilterHeader 1), snd (authHeader (miniEnv 3) 1 miniCFilterFiles))"
  by (simp add: authHeader_def goBind_def goWrap_def goLift_def getBlockHash_def rpcCall_def miniCFilterFiles_def
      newCFilterFiles_def newH2HCache_def miniEnv_def miniChain_def miniBlockHash_def miniFilterHeader_def)

lemma mini_filter_chain: "filterChain (miniEnv 3) zeroHash [[0], [1]] = miniFilterHeader 1"
  by (simp add: filterChain_def miniEnv_def miniHash_def miniFilterHeader_def zeroHash_def)

lemma mini_filters_sealed:
  "cfWriteSealedFile (miniEnv 3) 0 1 miniCFilterFiles =
     (Inr (), snd (cfWriteSealedFile (miniEnv 3) 0 1 miniCFilterFiles))"
proof -
  have "collect (filters (mem miniCFilterFiles)) [0..1] = Inr [[0], [1]]"
    by (simp add: upto_01 miniCFilterFiles_def)
  then have "fst (verifyFilters (miniEnv 3) 0 1 miniCFilterFiles) = Inr ()"
    using verifyFilters_iff [OF mini_start mini_end] mini_filter_chain by simp
  then obtain q where q: "verifyFilters (miniEnv 3) 0 1 miniCFilterFiles = (Inr (), q)" by (metis prod.collapse)
  have "wrote (miniEnv 3) {} miniCFilterFiles q" using verifyFilters_wrote q by (rule keepsD)
  then have "mem q = mem miniCFilterFiles" by (simp add: wrote_def)
  then have "snd (serializeFilters (miniEnv 3) (mem q) 0 1) = None"
    by (simp add: serializeFilters_def streamEach_None upto_01 miniCFilterFiles_def)
  with q show ?thesis
    by (simp add: cfWriteSealedFile_def goBind_def goWrap_def writeFilters_def createAndWrite_def Let_def
        miniEnv_def)
qed

lemma sealed_filters_are_authoritative_witness:
  "map_of (disk (snd (cfWriteSealedFile (miniEnv 3) 0 1 miniCFilterFiles))) (filterFileName miniCFilterFiles 0 1)
   = Some ([1, 0] @ [1, 1])"
proof -
  have "inj_on miniHash (set (chainInputs (miniEnv 3) zeroHash [[0], [1]]))"
    by (auto simp: inj_on_def miniEnv_def miniHash_def zeroHash_def)
  moreover have "map (the \<circ> filters (mem miniCFilterFiles)) [0..1] = [[0], [1]]"
    by (simp add: upto_01 miniCFilterFiles_def)
  ultimately show ?thesis
    using sealed_filters_are_authoritative [OF mini_hash_codec mini_filters_sealed mini_start mini_end _ mini_filter_chain]
    by (simp add: miniEnv_def compactSize_def)
qed

lemma length_WriteVarBytes:
  "wire_codec E \<Longrightarrow> length (WriteVarBytes E f) = VarIntSerializeSize E (length f) + length f"
  by (simp add: wire_codec_def)

lemma filtersSizeLoop_eq:
  assumes "wire_codec E"
  shows "filtersSizeLoop E m js t =
    (if set js \<subseteq> dom m then (t + int (length (fst (streamEach msg m (WriteVarBytes E) js))), True) else (0, False))"
proof (induction js arbitrary: t)
  case (Cons j js)
  show ?case
  proof (cases "m j")
    case None
    then show ?thesis by auto
  next
    case (Some f)
    then have "j \<in> dom m" by auto
    with Cons.IH Some show ?thesis by (simp add: length_WriteVarBytes [OF assms] split: prod.splits)
  qed
qed simp

text \<open>
  Claim C36. The size of a range of filters announced to clients is the length of the body
  \<open>serializeFilters\<close> streams, and it is known exactly when every filter of the range is
  in memory.
\<close>

theorem filtersSize_exact:
  assumes "wire_codec E"
  shows "filtersSize E m a b =
    (case serializeFilters E m a b of
       (body, None) \<Rightarrow> (int (length body), True) | (_, Some _) \<Rightarrow> (0, False))"
  using filtersSizeLoop_eq [OF assms, of "filters m" "[a..b]" 0 "''missing filter at height''"]
    streamEach_None [of "''missing filter at height''" "filters m" "WriteVarBytes E" "[a..b]"]
  by (auto simp: filtersSize_def serializeFilters_def split: prod.splits option.splits if_splits)

lemma filtersSize_exact_witness: "filtersSize (miniEnv 3) (mem miniCFilterFiles) 0 1 = (4, True)"
  using filtersSize_exact [OF mini_wire_codec, of 3 "mem miniCFilterFiles" 0 1]
  by (simp add: serializeFilters_def upto_01 miniCFilterFiles_def miniEnv_def compactSize_def)

end
