(* ===== verification/CustomFilters.thy ===== *)
theory CustomFilters
  imports SilentPayments CFilterFiles
begin

text \<open>
  \<open>custom-filter-files.go\<close>: the producer of filters restricted to output types, four
  configurations in one pass, with filter headers in larger files than the filters. Its
  memory is \<open>customMem\<close>, its hooks \<open>customHooks\<close>; the interpretation \<open>cuf\<close>
  discharges the laws of \<open>file_producer\<close>. The throughput statistics are not modelled.

  The lemmas show which scripts each filter is built from, that the headers form the BIP157
  chain of the filters, that a restart rebuilds the chain from the sealed filter files, and
  that the file a restart resumes from is the last of its batch to appear.
\<close>

unbundle bit_operations_syntax

definition scriptTypeP2WPKH :: byte where "scriptTypeP2WPKH = 1"
definition scriptTypeP2WSH :: byte where "scriptTypeP2WSH = 2"
definition scriptTypeP2TR :: byte where "scriptTypeP2TR = 4"

record customFilterConfig =
  cfgName :: string
  cfgTypes :: byte

definition customFilterConfigs :: "customFilterConfig list" where
  "customFilterConfigs =
     [\<lparr>cfgName = ''segwit'', cfgTypes = scriptTypeP2WPKH OR scriptTypeP2WSH OR scriptTypeP2TR\<rparr>,
      \<lparr>cfgName = ''p2wpkh'', cfgTypes = scriptTypeP2WPKH\<rparr>,
      \<lparr>cfgName = ''p2wsh'', cfgTypes = scriptTypeP2WSH\<rparr>,
      \<lparr>cfgName = ''p2tr'', cfgTypes = scriptTypeP2TR\<rparr>]"

fun configIndex :: "customFilterConfig list \<Rightarrow> nat \<Rightarrow> string \<Rightarrow> nat option" where
  "configIndex [] i name = None"
| "configIndex (cfg # cfgs) i name = (if cfgName cfg = name then Some i else configIndex cfgs (Suc i) name)"

definition customFilterConfigIndex :: "string \<Rightarrow> nat option" where
  "customFilterConfigIndex name = configIndex customFilterConfigs 0 name"

definition customFilterDir :: "string \<Rightarrow> string" where
  "customFilterDir name = joinPath FilterFileDir (''custom-'' @ name)"

definition customHeaderDir :: "string \<Rightarrow> string" where
  "customHeaderDir name = joinPath HeaderFileDir (''custom-'' @ name)"

subsection \<open>Building the filters of a block\<close>

definition classifyScript :: "blockEnv \<Rightarrow> bytes \<Rightarrow> byte" where
  "classifyScript B pkScript =
     (if IsPayToWitnessPubKeyHash B pkScript then scriptTypeP2WPKH
      else if IsPayToWitnessScriptHash B pkScript then scriptTypeP2WSH
      else if IsPayToTaproot B pkScript then scriptTypeP2TR
      else 0)"

text \<open>The closure \<open>addScript\<close>: the entries added to each builder so far.\<close>

definition addScript :: "blockEnv \<Rightarrow> bytes \<Rightarrow> bytes list list \<Rightarrow> bytes list list" where
  "addScript B pkScript builders =
     (let types = classifyScript B pkScript in
      if types = 0 then builders
      else map (\<lambda>(cfg, b). if cfgTypes cfg AND types \<noteq> 0 then b @ [pkScript] else b) (zip customFilterConfigs builders))"

fun buildAll :: "blockEnv \<Rightarrow> hash \<Rightarrow> bytes list list \<Rightarrow> err + bytes list" where
  "buildAll B hash [] = Inr []"
| "buildAll B hash (b # bs) =
     (case GCSBuild B hash b of
        Inl e \<Rightarrow> Inl (Wrapf ''error building custom filter'' [] e)
      | Inr f \<Rightarrow> (case buildAll B hash bs of Inl e \<Rightarrow> Inl e | Inr fs \<Rightarrow> Inr (f # fs)))"

definition buildCustomFilters :: "blockEnv \<Rightarrow> hash \<Rightarrow> blockWithPrevOuts \<Rightarrow> err + bytes list" where
  "buildCustomFilters B hash block =
     (let builders = map (\<lambda>_. []) customFilterConfigs;
          builders1 = fold (\<lambda>tx bs. fold (\<lambda>out. addScript B (PkScript out)) (TxOut tx) bs) (txs block) builders;
          builders2 = fold (addScript B) (rangeScripts B (prevOutScripts block)) builders1
      in buildAll B hash builders2)"

definition filterHeaderFromBytes :: "'h env \<Rightarrow> bytes \<Rightarrow> hash \<Rightarrow> hash" where
  "filterHeaderFromBytes E filterBytes prevHeader = DoubleHash E (DoubleHash E filterBytes @ prevHeader)"

subsection \<open>The header chain after a restart\<close>

record customMem =
  cuFilters :: "int \<rightharpoonup> bytes list"
  cuFilterHeaders :: "int \<rightharpoonup> hash list"
  headersPerFile :: int
  cuHeightToHash :: "int \<rightharpoonup> hash"
  cuFetcher :: prefetch

type_synonym customFilterFiles = "customMem producer"

definition cuFilterFileName :: "customFilterFiles \<Rightarrow> string \<Rightarrow> int \<Rightarrow> int \<Rightarrow> string" where
  "cuFilterFileName p name = blockFileName FilterFileSuffix (joinPath (baseDir p) (customFilterDir name))"

definition cuHeaderFileName :: "customFilterFiles \<Rightarrow> string \<Rightarrow> int \<Rightarrow> int \<Rightarrow> string" where
  "cuHeaderFileName p name = blockFileName FilterHeaderFileSuffix (joinPath (baseDir p) (customHeaderDir name))"

definition zeroHeaders :: "hash list" where
  "zeroHeaders = map (\<lambda>_. zeroHash) customFilterConfigs"

text \<open>
  \<open>readFilterFile\<close> collects what it hands to its callback. Every turn of the loop reads at
  least one byte, so the length of the file is budget enough (\<open>readFilters_serialized\<close>).
\<close>

fun readFilters :: "nat \<Rightarrow> 'h env \<Rightarrow> bytes \<Rightarrow> err + bytes list" where
  "readFilters 0 E dat = Inl ErrOutOfFuel"
| "readFilters (Suc n) E dat =
     (case ReadVarBytes E MaxMessagePayload dat of
        Inr (f, rest) \<Rightarrow> (case readFilters n E rest of Inl e \<Rightarrow> Inl e | Inr fs \<Rightarrow> Inr (f # fs))
      | Inl e \<Rightarrow> if errors_is e ErrEOF then Inr [] else Inl (Wrapf ''error reading filter'' [] e))"

definition readFilterFile :: "'h env \<Rightarrow> string \<Rightarrow> ('z shared_scheme, bytes list) go" where
  "readFilterFile E fileName =
     goBind (goWrap ''error opening file'' [] (readFile E fileName)) (\<lambda>dat.
       goLift (readFilters (Suc (length dat)) E dat))"

text \<open>The headers a configuration's filters give, one after the other.\<close>

fun chainHeaders :: "'h env \<Rightarrow> hash \<Rightarrow> bytes list \<Rightarrow> hash list" where
  "chainHeaders E prev [] = []"
| "chainHeaders E prev (f # fs) =
     (let h = filterHeaderFromBytes E f prev in h # chainHeaders E h fs)"

text \<open>
  One file range of \<open>rebuildFilterHeaders\<close>: the columns of headers, one per
  configuration. A file with the wrong number of entries is refused.
\<close>

fun rebuildColumns :: "'h env \<Rightarrow> customFilterConfig list \<Rightarrow> int \<Rightarrow> int \<Rightarrow> hash list \<Rightarrow>
    (customFilterFiles, hash list list) go" where
  "rebuildColumns E (cfg # cfgs) fileStart fileEnd (prev # prevs) p =
     goBind (goWrap ''error rebuilding filter headers from file'' []
               (readFilterFile E (cuFilterFileName p (cfgName cfg) fileStart fileEnd))) (\<lambda>fs.
       if int (length fs) \<noteq> entriesPerFile p
       then goFail (Errf ''filter file has wrong number of entries'' [int (length fs), entriesPerFile p])
       else goBind (rebuildColumns E cfgs fileStart fileEnd prevs) (\<lambda>cols.
              goRet (chainHeaders E prev fs # cols))) p"
| "rebuildColumns E _ fileStart fileEnd _ p = (Inr [], p)"

definition columnRow :: "hash list list \<Rightarrow> nat \<Rightarrow> hash list" where
  "columnRow cols r = map (\<lambda>col. col ! r) cols"

definition storeRows :: "int \<Rightarrow> nat \<Rightarrow> hash list list \<Rightarrow> customMem \<Rightarrow> customMem" where
  "storeRows fileStart n cols m =
     m\<lparr>cuFilterHeaders := fold (\<lambda>r hs. hs(add32 fileStart (int r) \<mapsto> columnRow cols r)) [0..<n] (cuFilterHeaders m)\<rparr>"

text \<open>
  The loop of \<open>rebuildFilterHeaders\<close> over the filter files; the number of heights is budget
  enough for its number of turns.
\<close>

fun rebuildLoop :: "nat \<Rightarrow> 'h env \<Rightarrow> hash list \<Rightarrow> int \<Rightarrow> int \<Rightarrow> (customFilterFiles, hash list) go" where
  "rebuildLoop 0 E prev fileStart end p = (Inl ErrOutOfFuel, p)"
| "rebuildLoop (Suc k) E prev fileStart end p =
     (if fileStart > end then (Inr prev, p)
      else goBind (rebuildColumns E customFilterConfigs fileStart
                     (sub32 (add32 fileStart (entriesPerFile p)) 1) prev) (\<lambda>cols.
           goBind (goModify (\<lambda>p. p\<lparr>mem := storeRows fileStart (nat (entriesPerFile p)) cols (mem p)\<rparr>)) (\<lambda>_.
             rebuildLoop k E (map2 (\<lambda>old col. if col = [] then old else last col) prev cols)
               (add32 fileStart (entriesPerFile p)) end)) p)"

definition rebuildFilterHeaders :: "'h env \<Rightarrow> hash list \<Rightarrow> int \<Rightarrow> int \<Rightarrow> (customFilterFiles, hash list) go" where
  "rebuildFilterHeaders E prevHeaders start end = rebuildLoop (nat (end - start + 1) + 1) E prevHeaders start end"

fun readAnchors :: "'h env \<Rightarrow> customFilterConfig list \<Rightarrow> int \<Rightarrow> int \<Rightarrow> (customFilterFiles, hash list) go" where
  "readAnchors E [] fileStart height p = (Inr [], p)"
| "readAnchors E (cfg # cfgs) fileStart height p =
     goBind (goWrap ''error reading filter header file to resume the header chain'' []
               (readFile E (cuHeaderFileName p (cfgName cfg) fileStart height))) (\<lambda>dat.
       if int (length dat) \<noteq> headersPerFile (mem p) * int HashSize
       then goFail (Errf ''unexpected size of filter header file'' [int (length dat)])
       else goBind (readAnchors E cfgs fileStart height) (\<lambda>hs.
              goRet (drop (length dat - HashSize) dat # hs))) p"

definition readHeaderFileAnchor :: "'h env \<Rightarrow> int \<Rightarrow> (customFilterFiles, hash list) go" where
  "readHeaderFileAnchor E height p =
     readAnchors E customFilterConfigs (sub32 (add32 height 1) (headersPerFile (mem p))) height p"

definition resumeFilterHeaders :: "'h env \<Rightarrow> int \<Rightarrow> (customFilterFiles, hash list) go" where
  "resumeFilterHeaders E height p =
     (let anchorCount = height div headersPerFile (mem p) * headersPerFile (mem p) in
      goBind (if anchorCount > 0 then readHeaderFileAnchor E (sub32 anchorCount 1) else goRet zeroHeaders) (\<lambda>prevHeaders.
        if anchorCount = height then goRet prevHeaders
        else rebuildFilterHeaders E prevHeaders anchorCount (sub32 height 1)) p)"

definition prevFilterHeaders :: "'h env \<Rightarrow> int \<Rightarrow> (customFilterFiles, hash list) go" where
  "prevFilterHeaders E height p =
     (if height = 0 then (Inr zeroHeaders, p)
      else case cuFilterHeaders (mem p) (sub32 height 1) of
             Some hs \<Rightarrow> (Inr hs, p)
           | None \<Rightarrow> resumeFilterHeaders E height p)"

subsection \<open>Ingesting a block\<close>

fun serializeAll :: "'h env \<Rightarrow> blockEnv \<Rightarrow> bytes list \<Rightarrow> hash list \<Rightarrow> err + (bytes \<times> hash) list" where
  "serializeAll E B (f # fs) (prev # prevs) =
     (case GCSNBytes B f of
        Inl e \<Rightarrow> Inl (Wrapf ''error serializing custom filter'' [] e)
      | Inr bs \<Rightarrow> (case serializeAll E B fs prevs of
                     Inl e \<Rightarrow> Inl e | Inr xs \<Rightarrow> Inr ((bs, filterHeaderFromBytes E bs prev) # xs)))"
| "serializeAll E B _ _ = Inr []"

definition customIngest :: "'h env \<Rightarrow> blockEnv \<Rightarrow> int \<Rightarrow> (customFilterFiles, unit) go" where
  "customIngest E B height =
     goBind (goWrap ''error getting block hash for height'' [height] (getBlockHash E height)) (\<lambda>hash.
     goBind (goWrap ''error getting previous filter headers for height'' [height] (prevFilterHeaders E height)) (\<lambda>prevHeaders.
     goBind (goWrap ''error getting block for custom filters'' []
               (runFetch cuFetcher (\<lambda>q m. m\<lparr>cuFetcher := q\<rparr>) (fetchBlock E B height hash))) (\<lambda>block.
     goBind (goWrap ''error building custom filters for height'' [height] (goLift (buildCustomFilters B hash block))) (\<lambda>fs.
     goBind (goLift (serializeAll E B fs prevHeaders)) (\<lambda>xs.
     goModify (\<lambda>p. p\<lparr>mem := (mem p)\<lparr>
       cuFilters := (cuFilters (mem p))(height \<mapsto> map fst xs),
       cuFilterHeaders := (cuFilterHeaders (mem p))(height \<mapsto> map snd xs),
       cuHeightToHash := (cuHeightToHash (mem p))(height \<mapsto> hash)\<rparr>\<rparr>))))))"

subsection \<open>Serialization\<close>

definition cuSerializeFilters :: "'h env \<Rightarrow> customMem \<Rightarrow> nat \<Rightarrow> int \<Rightarrow> int \<Rightarrow> stream" where
  "cuSerializeFilters E m cfgIndex startIndex endIndex =
     streamEach ''missing custom filter at height'' (cuFilters m) (\<lambda>fs. WriteVarBytes E (fs ! cfgIndex)) [startIndex..endIndex]"

definition cuSerializeFilterHeaders :: "customMem \<Rightarrow> nat \<Rightarrow> int \<Rightarrow> int \<Rightarrow> stream" where
  "cuSerializeFilterHeaders m cfgIndex startIndex endIndex =
     streamEach ''missing custom filter header at height'' (cuFilterHeaders m) (\<lambda>hs. hs ! cfgIndex) [startIndex..endIndex]"

definition cuFiltersSize :: "'h env \<Rightarrow> customMem \<Rightarrow> nat \<Rightarrow> int \<Rightarrow> int \<Rightarrow> int \<times> bool" where
  "cuFiltersSize E m cfgIndex startIndex endIndex =
     filtersSizeLoop E (\<lambda>j. map_option (\<lambda>fs. fs ! cfgIndex) (cuFilters m j)) [startIndex..endIndex] 0"

definition cuFilterHeadersSize :: "int \<Rightarrow> int \<Rightarrow> int \<times> bool" where
  "cuFilterHeadersSize startIndex endIndex =
     (if endIndex < startIndex then (0, False)
      else (add32 (sub32 endIndex startIndex) 1 * int HashSize, True))"

subsection \<open>The hooks\<close>

text \<open>The two loops over the configurations; the filter files are written backwards.\<close>

definition cuHeaderBatch :: "customFilterFiles \<Rightarrow> int \<Rightarrow> int \<Rightarrow> (string \<times> stream) list" where
  "cuHeaderBatch p fileStart fileEnd =
     map (\<lambda>(i, cfg). (cuHeaderFileName p (cfgName cfg) fileStart fileEnd, cuSerializeFilterHeaders (mem p) i fileStart fileEnd))
       (enumerate 0 customFilterConfigs)"

definition writeFilterHeaderFiles :: "'h env \<Rightarrow> int \<Rightarrow> (customFilterFiles, unit) go" where
  "writeFilterHeaderFiles E fileEnd p =
     (let fileStart = sub32 (add32 fileEnd 1) (headersPerFile (mem p)) in
      goBind (writeBatch E (cuHeaderBatch p fileStart fileEnd)) (\<lambda>_.
        goModify (\<lambda>p. p\<lparr>mem := (mem p)\<lparr>cuFilterHeaders := deleteRange fileStart fileEnd (cuFilterHeaders (mem p))\<rparr>\<rparr>)) p)"

definition cuFilterBatch :: "'h env \<Rightarrow> customFilterFiles \<Rightarrow> int \<Rightarrow> int \<Rightarrow> (string \<times> stream) list" where
  "cuFilterBatch E p fileStart fileEnd =
     map (\<lambda>(i, cfg). (cuFilterFileName p (cfgName cfg) fileStart fileEnd, cuSerializeFilters E (mem p) i fileStart fileEnd))
       (rev (enumerate 0 customFilterConfigs))"

definition customWriteSealedFile :: "'h env \<Rightarrow> int \<Rightarrow> int \<Rightarrow> (customFilterFiles, unit) go" where
  "customWriteSealedFile E fileStart fileEnd p =
     goBind (if add32 fileEnd 1 mod headersPerFile (mem p) = 0 then writeFilterHeaderFiles E fileEnd else goRet ()) (\<lambda>_ q.
       writeBatch E (cuFilterBatch E q fileStart fileEnd) q) p"

definition customPrune :: "int \<Rightarrow> int \<Rightarrow> customMem \<Rightarrow> customMem" where
  "customPrune start end m =
     m\<lparr>cuFilters := deleteRange start end (cuFilters m), cuHeightToHash := deleteRange start end (cuHeightToHash m)\<rparr>"

definition customCachedHash :: "customMem \<Rightarrow> int \<Rightarrow> hash option" where
  "customCachedHash m height = cuHeightToHash m height"

definition customHooks :: "blockEnv \<Rightarrow> 'h env \<Rightarrow> customMem producerHooks" where
  "customHooks B E = \<lparr>ingest = customIngest E B, writeSealedFile = customWriteSealedFile E,
     pruneLocked = customPrune, cachedHash = customCachedHash, afterCatchUp = None\<rparr>"

definition newCustomFilterFiles :: "int \<Rightarrow> int \<Rightarrow> int \<Rightarrow> string \<Rightarrow> prefetch \<Rightarrow> shared \<Rightarrow> customFilterFiles" where
  "newCustomFilterFiles itemsPerFile headersPer depth dir fetcher s =
     \<lparr>now = now s, disk = disk s, cache = cache s, pname = ''custom filter'', baseDir = dir,
      subDir = customFilterDir (cfgName (customFilterConfigs ! 0)),
      fileSuffix = FilterFileSuffix, extractSuffix = FilterFileSuffix, entriesPerFile = itemsPerFile,
      reOrgSafeDepth = depth, startupComplete = False, currentHeight = 0, lastSealedHeight = -1,
      mem = \<lparr>cuFilters = Map.empty, cuFilterHeaders = Map.empty, headersPerFile = headersPer,
             cuHeightToHash = Map.empty, cuFetcher = fetcher\<rparr>\<rparr>"

definition customUpdateFiles :: "'h env \<Rightarrow> blockEnv \<Rightarrow> int \<Rightarrow> nat \<Rightarrow> (customFilterFiles, unit) go" where
  "customUpdateFiles E B numBlocks polls p =
     (if headersPerFile (mem p) \<le> 0 \<or> headersPerFile (mem p) mod entriesPerFile p \<noteq> 0
      then (Inl (Errf ''custom filter headers per file must be a positive multiple of the filters per file''
              [headersPerFile (mem p), entriesPerFile p]), p)
      else goBind (goForEach (concat (map (\<lambda>cfg. [customFilterDir (cfgName cfg), customHeaderDir (cfgName cfg)]) customFilterConfigs))
                     (\<lambda>_. goWrap ''error creating directory'' [] (mkdirAll E)))
             (\<lambda>_. updateFiles E (customHooks B E) numBlocks polls) p)"

subsection \<open>The laws of the base\<close>

definition customRangeFiles :: "customFilterFiles \<Rightarrow> int \<Rightarrow> int \<Rightarrow> string list" where
  "customRangeFiles p a b =
     map (\<lambda>cfg. cuFilterFileName p (cfgName cfg) a b) customFilterConfigs @
     (if add32 b 1 mod headersPerFile (mem p) = 0
      then map (\<lambda>cfg. cuHeaderFileName p (cfgName cfg) (sub32 (add32 b 1) (headersPerFile (mem p))) b) customFilterConfigs
      else [])"

text \<open>What the custom producer's hooks keep of its memory beside the base.\<close>

definition cuQuiet :: "'h env \<Rightarrow> customFilterFiles \<Rightarrow> customFilterFiles \<Rightarrow> bool" where
  "cuQuiet E p p' \<longleftrightarrow> quiet E p p' \<and> cuHeightToHash (mem p') = cuHeightToHash (mem p) \<and>
     headersPerFile (mem p') = headersPerFile (mem p) \<and> cuFilters (mem p') = cuFilters (mem p)"

definition cuWrote :: "'h env \<Rightarrow> string set \<Rightarrow> customFilterFiles \<Rightarrow> customFilterFiles \<Rightarrow> bool" where
  "cuWrote E F p p' \<longleftrightarrow> sameBase p p' \<and> cacheGrows E p p' \<and> cacheStays p p' \<and>
     cuHeightToHash (mem p') = cuHeightToHash (mem p) \<and> headersPerFile (mem p') = headersPerFile (mem p) \<and>
     cuFilters (mem p') = cuFilters (mem p) \<and> (\<forall>f. f \<notin> F \<longrightarrow> map_of (disk p') f = map_of (disk p) f)"

lemma cuQuiet_preorder [simp]: "reflp (cuQuiet E)" "transp (cuQuiet E)"
  using quiet_preorder [of E] by (auto simp: cuQuiet_def reflp_def transp_def)

lemma cuWrote_preorder [simp]: "reflp (cuWrote E F)" "transp (cuWrote E F)"
  by (auto simp: cuWrote_def intro!: reflpI transpI intro: sameBase_trans cacheGrows_trans cacheStays_trans)

lemma cuQuiet_readOnly: "keeps (quiet E) m \<Longrightarrow> keeps (wrote E {}) m \<Longrightarrow> keeps (cuQuiet E) m"
  by (simp add: keeps_def cuQuiet_def wrote_def)

lemma cuWrote_wrote: "wrote E F p p' \<Longrightarrow> cuWrote E F p p'"
  by (simp add: cuWrote_def wrote_def)

text \<open>Reading back the header chain: time passes, and of the memory only the headers change.\<close>

definition cuReads :: "customFilterFiles \<Rightarrow> customFilterFiles \<Rightarrow> bool" where
  "cuReads p p' \<longleftrightarrow> (\<exists>n X. now p \<le> n \<and> p' = p\<lparr>now := n, mem := (mem p)\<lparr>cuFilterHeaders := X\<rparr>\<rparr>)"

lemma cuReads_refl [simp]: "cuReads p p"
  unfolding cuReads_def by (intro exI [of _ "now p"] exI [of _ "cuFilterHeaders (mem p)"]) simp

lemma cuReads_trans: "cuReads p q \<Longrightarrow> cuReads q r \<Longrightarrow> cuReads p r"
  unfolding cuReads_def by (clarsimp, rule exI, rule conjI [rotated], rule exI, rule refl, simp)

lemma cuReads_preorder [simp]: "reflp cuReads" "transp cuReads"
  by (auto intro!: reflpI transpI intro: cuReads_trans)

lemma cuReads_store: "cuReads p (p\<lparr>mem := (mem p)\<lparr>cuFilterHeaders := X\<rparr>\<rparr>)"
  unfolding cuReads_def by (intro exI [of _ "now p"] exI [of _ X]) simp

lemma cuReads_quiet: "cuReads p p' \<Longrightarrow> cuQuiet E p p'"
  by (auto simp: cuReads_def cuQuiet_def quiet_def sameBase_def conf_def cacheGrows_def)

lemma cuReads_file: "keeps cuReads (readFile E f)"
proof (rule keepsI)
  fix p p' :: customFilterFiles and r
  assume "readFile E f p = (r, p')"
  then have "p' = p\<lparr>now := Suc (now p)\<rparr>" by (rule readFile_frame)
  then show "cuReads p p'" unfolding cuReads_def by (intro exI [of _ "Suc (now p)"] exI [of _ "cuFilterHeaders (mem p)"]) simp
qed

lemma cuReads_readFilterFile: "keeps cuReads (readFilterFile E f)"
  unfolding readFilterFile_def by (intro keeps_intros cuReads_preorder cuReads_file)

lemma cuReads_columns: "keeps cuReads (rebuildColumns E cfgs a b prevs)"
proof (induction cfgs arbitrary: prevs)
  case Nil
  then show ?case by (simp add: keeps_def reflpD [OF cuReads_preorder(1)])
next
  case (Cons cfg cfgs)
  show ?case
  proof (cases prevs)
    case Nil
    then show ?thesis by (simp add: keeps_def reflpD [OF cuReads_preorder(1)])
  next
    case (Cons pr prs)
    have "keeps cuReads (goBind (goWrap msg [] (readFilterFile E f)) (\<lambda>fs.
       if int (length fs) \<noteq> n then goFail (e fs)
       else goBind (rebuildColumns E cfgs a b prs) (\<lambda>cols. goRet (chainHeaders E pr fs # cols))))" for msg f n e
      using Cons.IH by (auto intro!: keeps_intros cuReads_readFilterFile)
    then show ?thesis unfolding Cons by (simp add: keeps_def)
  qed
qed

lemma cuReads_storeRows:
  "keeps cuReads (goModify (\<lambda>p. p\<lparr>mem := storeRows a (n p) cols (mem p)\<rparr>))"
  by (auto simp: keeps_def goModify_def storeRows_def intro: cuReads_store)

lemma cuReads_rebuildLoop: "keeps cuReads (rebuildLoop k E prev a b)"
proof (induction k arbitrary: prev a)
  case 0
  then show ?case by (simp add: keeps_def reflpD [OF cuReads_preorder(1)])
next
  case (Suc k)
  have "keeps cuReads (goBind (rebuildColumns E customFilterConfigs a e prev) (\<lambda>cols.
           goBind (goModify (\<lambda>p. p\<lparr>mem := storeRows a (nat (entriesPerFile p)) cols (mem p)\<rparr>)) (\<lambda>_.
             rebuildLoop k E (f cols) a' b)))" for e f a'
    by (intro keeps_intros cuReads_preorder cuReads_columns cuReads_storeRows Suc.IH)
  then show ?case by (simp add: keeps_def reflpD [OF cuReads_preorder(1)])
qed

lemma cuReads_anchors: "keeps cuReads (readAnchors E cfgs a b)"
proof (induction cfgs)
  case Nil
  then show ?case by (simp add: keeps_def reflpD [OF cuReads_preorder(1)])
next
  case (Cons cfg cfgs)
  have "keeps cuReads (goBind (goWrap msg [] (readFile E f)) (\<lambda>dat.
       if int (length dat) \<noteq> n then goFail (e dat)
       else goBind (readAnchors E cfgs a b) (\<lambda>hs. goRet (g dat # hs))))" for msg f n e g
    using Cons.IH by (auto intro!: keeps_intros cuReads_file)
  then show ?case by (simp add: keeps_def)
qed

lemma cuReads_prev: "keeps cuReads (prevFilterHeaders E h)"
proof -
  have "keeps cuReads (goBind (if c then readAnchors E customFilterConfigs x y else goRet zeroHeaders) (\<lambda>prevHeaders.
        if d then goRet prevHeaders else rebuildFilterHeaders E prevHeaders u v))" for c d x y u v
    unfolding rebuildFilterHeaders_def
    by (auto intro!: keeps_intros cuReads_anchors cuReads_rebuildLoop)
  note body = this
  have "keeps cuReads (resumeFilterHeaders E h)"
  proof (rule keepsI)
    fix p p' :: customFilterFiles and r
    let ?n = "headersPerFile (mem p)"
    let ?c = "h div ?n * ?n"
    assume "resumeFilterHeaders E h p = (r, p')"
    then have "goBind (if ?c > 0 then readAnchors E customFilterConfigs (sub32 (add32 (sub32 ?c 1) 1) ?n) (sub32 ?c 1)
        else goRet zeroHeaders) (\<lambda>prevHeaders. if ?c = h then goRet prevHeaders
          else rebuildFilterHeaders E prevHeaders ?c (sub32 h 1)) p = (r, p')"
      by (cases "?c > 0") (simp_all add: resumeFilterHeaders_def readHeaderFileAnchor_def Let_def goBind_def)
    with body show "cuReads p p'" by (rule keepsD)
  qed
  then show ?thesis by (auto simp: keeps_def prevFilterHeaders_def reflpD [OF cuReads_preorder(1)] split: option.splits)
qed

lemma cuQuiet_prev: "keeps (cuQuiet E) (prevFilterHeaders E h)"
  using cuReads_prev [of E h] cuReads_quiet by (auto simp: keeps_def)

lemma cuQuiet_fetch: "keeps (cuQuiet E) (runFetch cuFetcher (\<lambda>q m. m\<lparr>cuFetcher := q\<rparr>) (fetchBlock E B h hash))"
proof (rule keepsI)
  fix p p' :: customFilterFiles and r
  assume run: "runFetch cuFetcher (\<lambda>q m. m\<lparr>cuFetcher := q\<rparr>) (fetchBlock E B h hash) p = (r, p')"
  then have "quiet E p p'" using keeps_runFetch by (rule keepsD [rotated])
  with runFetch_mem [OF run] show "cuQuiet E p p'" by (auto simp: cuQuiet_def)
qed

definition cuStep :: "'h env \<Rightarrow> customFilterFiles \<Rightarrow> customFilterFiles \<Rightarrow> bool" where
  "cuStep E p p' \<longleftrightarrow> quiet E p p' \<and> headersPerFile (mem p') = headersPerFile (mem p)"

lemma cuStep_preorder [simp]: "reflp (cuStep E)" "transp (cuStep E)"
  using quiet_preorder [of E] by (auto simp: cuStep_def reflp_def transp_def)

lemma cuStep_quiet: "keeps (cuQuiet E) m \<Longrightarrow> keeps (cuStep E) m"
  by (simp add: keeps_def cuQuiet_def cuStep_def)

lemma customIngest_step: "keeps (cuStep E) (customIngest E B h)"
  and customIngest_looks: "customIngest E B h p = (Inr u, p') \<Longrightarrow> heightToHash (cache p') h \<noteq> None"
proof -
  have "keeps (cuStep E) (goModify (\<lambda>p. p\<lparr>mem := (mem p)\<lparr>cuFilters := f p, cuFilterHeaders := g p, cuHeightToHash := k p\<rparr>\<rparr>))" for f g k
    using keeps_memModify [of E "\<lambda>p. (mem p)\<lparr>cuFilters := f p, cuFilterHeaders := g p, cuHeightToHash := k p\<rparr>"]
    by (simp add: keeps_def cuStep_def goModify_def)
  then show "keeps (cuStep E) (customIngest E B h)" unfolding customIngest_def
    by (intro keeps_intros cuStep_preorder cuStep_quiet [OF cuQuiet_prev] cuStep_quiet [OF cuQuiet_fetch]
        cuStep_quiet [OF cuQuiet_readOnly [OF keeps_getBlockHash]])
  have q: "keeps (cuQuiet E) m \<Longrightarrow> keeps (quiet E) m" for m :: "(customFilterFiles, 'z) go" by (simp add: keeps_def cuQuiet_def)
  show "heightToHash (cache p') h \<noteq> None" if "customIngest E B h p = (Inr u, p')"
    using that unfolding customIngest_def
    by (rule lookup_first) (intro keeps_intros quiet_preorder q [OF cuQuiet_prev] q [OF cuQuiet_fetch])
qed

lemma customIngest_ok:
  assumes "customIngest E B h p = (Inr u, p')"
  obtains x q prevs q1 block fs xs where "getBlockHash E h p = (Inr x, q)"
    "prevFilterHeaders E h q = (Inr prevs, q1)" "buildCustomFilters B x block = Inr fs" "serializeAll E B fs prevs = Inr xs"
    "cuHeightToHash (mem p') = (cuHeightToHash (mem p))(h \<mapsto> x)"
    "cuFilters (mem p') = (cuFilters (mem p))(h \<mapsto> map fst xs)"
    "cuFilterHeaders (mem p') = (cuFilterHeaders (mem q1))(h \<mapsto> map snd xs)"
    "headersPerFile (mem p') = headersPerFile (mem p)"
proof -
  from assms obtain x q prevs q1 block q2 fs xs where g: "getBlockHash E h p = (Inr x, q)"
    and pr: "prevFilterHeaders E h q = (Inr prevs, q1)"
    and fe: "runFetch cuFetcher (\<lambda>q m. m\<lparr>cuFetcher := q\<rparr>) (fetchBlock E B h x) q1 = (Inr block, q2)"
    and b: "Inr fs = buildCustomFilters B x block" "Inr xs = serializeAll E B fs prevs"
    and p': "mem p' = (mem q2)\<lparr>
       cuFilters := (cuFilters (mem q2))(h \<mapsto> map fst xs),
       cuFilterHeaders := (cuFilterHeaders (mem q2))(h \<mapsto> map snd xs),
       cuHeightToHash := (cuHeightToHash (mem q2))(h \<mapsto> x)\<rparr>"
    by (auto simp: customIngest_def go_simps)
  note b = b [symmetric]
  have "mem q = mem p" using getBlockHash_quiet [OF g] by (simp add: wrote_def)
  moreover have "cuQuiet E q q1" using cuQuiet_prev pr by (rule keepsD)
  moreover have "cuQuiet E q1 q2" using cuQuiet_fetch fe by (rule keepsD)
  moreover have "cuFilterHeaders (mem q2) = cuFilterHeaders (mem q1)" using runFetch_mem [OF fe] by auto
  ultimately show thesis using g pr b by (intro that) (simp_all add: p' cuQuiet_def)
qed

lemma cuNames_cong: "conf q = conf p \<Longrightarrow> cuFilterFileName q = cuFilterFileName p \<and> cuHeaderFileName q = cuHeaderFileName p"
  by (simp add: cuFilterFileName_def cuHeaderFileName_def conf_def fun_eq_iff)

lemma customRangeFiles_cong:
  "conf q = conf p \<Longrightarrow> headersPerFile (mem q) = headersPerFile (mem p) \<Longrightarrow> customRangeFiles q = customRangeFiles p"
  using cuNames_cong [of q p] by (simp add: customRangeFiles_def fun_eq_iff)

lemma cuFilterBatch_files:
  "map fst (cuFilterBatch E p a b) = rev (map (\<lambda>cfg. cuFilterFileName p (cfgName cfg) a b) customFilterConfigs)"
  by (simp add: cuFilterBatch_def customFilterConfigs_def)

lemma cuHeaderBatch_files:
  "map fst (cuHeaderBatch p a b) = map (\<lambda>cfg. cuHeaderFileName p (cfgName cfg) a b) customFilterConfigs"
  by (simp add: cuHeaderBatch_def customFilterConfigs_def)

lemma cuNames_inj:
  "cuFilterFileName p n a b = cuFilterFileName p n' a b \<longleftrightarrow> n = n'"
  "cuHeaderFileName p n a b = cuHeaderFileName p n' a b \<longleftrightarrow> n = n'"
  by (simp_all add: cuFilterFileName_def cuHeaderFileName_def blockFileName_def joinPath_def customFilterDir_def customHeaderDir_def)

lemma cuNames_differ: "cuHeaderFileName p n a b \<noteq> cuFilterFileName q n' a' b'"
proof
  assume "cuHeaderFileName p n a b = cuFilterFileName q n' a' b'"
  then have "rev (cuHeaderFileName p n a b) = rev (cuFilterFileName q n' a' b')" by simp
  then show False
    by (simp add: cuHeaderFileName_def cuFilterFileName_def blockFileName_def FilterHeaderFileSuffix_def FilterFileSuffix_def)
qed

lemma customFilterConfigs_distinct: "distinct (map cfgName customFilterConfigs)"
  by (simp add: customFilterConfigs_def)

lemma cuBatch_distinct: "distinct (map fst (cuFilterBatch E p a b))" "distinct (map fst (cuHeaderBatch p a b))"
  unfolding cuFilterBatch_files cuHeaderBatch_files
  by (simp_all add: customFilterConfigs_def cuNames_inj)

text \<open>Writing the header files first leaves memory without the headers of the span.\<close>

lemma customWrite_cases:
  assumes "customWriteSealedFile E a b p = (r, p')"
  obtains (direct) "add32 b 1 mod headersPerFile (mem p) \<noteq> 0" "writeBatch E (cuFilterBatch E p a b) p = (r, p')"
  | (stopped) e where "add32 b 1 mod headersPerFile (mem p) = 0" "r = Inl e"
      "writeBatch E (cuHeaderBatch p (sub32 (add32 b 1) (headersPerFile (mem p))) b) p = (Inl e, p')"
  | (both) q where "add32 b 1 mod headersPerFile (mem p) = 0"
      "writeBatch E (cuHeaderBatch p (sub32 (add32 b 1) (headersPerFile (mem p))) b) p = (Inr (), q)"
      "writeBatch E (cuFilterBatch E (q\<lparr>mem := (mem q)\<lparr>cuFilterHeaders :=
          deleteRange (sub32 (add32 b 1) (headersPerFile (mem p))) b (cuFilterHeaders (mem q))\<rparr>\<rparr>) a b)
        (q\<lparr>mem := (mem q)\<lparr>cuFilterHeaders :=
          deleteRange (sub32 (add32 b 1) (headersPerFile (mem p))) b (cuFilterHeaders (mem q))\<rparr>\<rparr>) = (r, p')"
proof (cases "add32 b 1 mod headersPerFile (mem p) = 0")
  case False
  with assms show thesis by (intro direct) (simp_all add: customWriteSealedFile_def goBind_def goRet_def)
next
  case True
  obtain x q where w: "writeBatch E (cuHeaderBatch p (sub32 (add32 b 1) (headersPerFile (mem p))) b) p = (x, q)" by fastforce
  show thesis
  proof (cases x)
    case (Inl e)
    with assms True w show thesis
      by (intro stopped [of e]) (simp_all add: customWriteSealedFile_def writeFilterHeaderFiles_def Let_def goBind_def)
  next
    case (Inr u)
    with assms True w show thesis
      by (intro both) (simp_all add: customWriteSealedFile_def writeFilterHeaderFiles_def Let_def goBind_def goModify_def)
  qed
qed

lemma customWrite_wrote:
  assumes "customWriteSealedFile E a b p = (r, p')"
  shows "cuWrote E (set (customRangeFiles p a b)) p p'"
  using assms
proof (cases rule: customWrite_cases)
  let ?F = "set (customRangeFiles p a b)" and ?s = "sub32 (add32 b 1) (headersPerFile (mem p))"
  have filt: "fst ` set (cuFilterBatch E q a b) \<subseteq> ?F" if "conf q = conf p" for q :: customFilterFiles
  proof -
    have "fst ` set (cuFilterBatch E q a b) = set (map fst (cuFilterBatch E q a b))" by simp
    also have "\<dots> \<subseteq> ?F" unfolding cuFilterBatch_files using cuNames_cong [OF that] by (auto simp: customRangeFiles_def)
    finally show ?thesis .
  qed
  have head: "fst ` set (cuHeaderBatch p ?s b) \<subseteq> ?F" if "add32 b 1 mod headersPerFile (mem p) = 0"
  proof -
    have "fst ` set (cuHeaderBatch p ?s b) = set (map fst (cuHeaderBatch p ?s b))" by simp
    also have "\<dots> \<subseteq> ?F" unfolding cuHeaderBatch_files using that by (auto simp: customRangeFiles_def)
    finally show ?thesis .
  qed
  {
    case direct
    from keepsD [OF writeBatch_wrote [OF filt [OF refl]] direct(2)] show ?thesis by (rule cuWrote_wrote)
  next
    case (stopped e)
    from keepsD [OF writeBatch_wrote [OF head [OF stopped(1)]] stopped(3)] show ?thesis by (rule cuWrote_wrote)
  next
    case (both q)
    let ?q = "q\<lparr>mem := (mem q)\<lparr>cuFilterHeaders := deleteRange ?s b (cuFilterHeaders (mem q))\<rparr>\<rparr>"
    from keepsD [OF writeBatch_wrote [OF head [OF both(1)]] both(2)] have 1: "cuWrote E ?F p q" by (rule cuWrote_wrote)
    then have 2: "cuWrote E ?F p ?q" and c: "conf ?q = conf p"
      by (auto simp: cuWrote_def sameBase_def conf_def intro: cacheGrows_trans [OF _ cacheGrows_same] cacheStays_trans [OF _ cacheStays_same])
    from keepsD [OF writeBatch_wrote [OF filt [OF c]] both(3)] have "cuWrote E ?F ?q p'" by (rule cuWrote_wrote)
    with 2 show ?thesis by (rule transpD [OF cuWrote_preorder(2)])
  }
qed

text \<open>The header files of a span are complete before the filter files are written, which leave them alone.\<close>

lemma headers_before_filters:
  assumes "writeBatch E (cuHeaderBatch p s b) p = (Inr (), q)" "writeBatch E (cuFilterBatch E (q\<lparr>mem := m\<rparr>) a b) (q\<lparr>mem := m\<rparr>) = (r, p')"
    and "i < length customFilterConfigs"
  shows "map_of (disk p') (cuHeaderFileName p (cfgName (customFilterConfigs ! i)) s b) = Some (fst (cuSerializeFilterHeaders (mem p) i s b))"
proof -
  let ?f = "cuHeaderFileName p (cfgName (customFilterConfigs ! i)) s b"
  have "(i, customFilterConfigs ! i) \<in> set (enumerate 0 customFilterConfigs)" using assms(3) by (simp add: in_set_enumerate_eq)
  then have "(?f, cuSerializeFilterHeaders (mem p) i s b) \<in> set (cuHeaderBatch p s b)" by (force simp: cuHeaderBatch_def)
  from writeBatch_ok [OF assms(1) cuBatch_distinct(2) this]
  have "map_of (disk q) ?f = Some (fst (cuSerializeFilterHeaders (mem p) i s b))" ..
  moreover have "?f \<notin> fst ` set (cuFilterBatch E (q\<lparr>mem := m\<rparr>) a b)"
  proof -
    have "fst ` set (cuFilterBatch E (q\<lparr>mem := m\<rparr>) a b) = set (map fst (cuFilterBatch E (q\<lparr>mem := m\<rparr>) a b))" by simp
    also have "?f \<notin> \<dots>" unfolding cuFilterBatch_files by (auto simp: cuNames_differ)
    finally show ?thesis .
  qed
  then have "map_of (disk p') ?f = map_of (disk (q\<lparr>mem := m\<rparr>)) ?f"
    using keepsD [OF writeBatch_wrote [OF order_refl] assms(2)] by (simp add: wrote_def)
  ultimately show ?thesis by simp
qed

text \<open>A successful seal leaves every file of the range complete.\<close>

lemma customWrite_ok:
  assumes "customWriteSealedFile E a b p = (Inr u, p')" "i < length customFilterConfigs"
  shows "map_of (disk p') (cuFilterFileName p (cfgName (customFilterConfigs ! i)) a b) =
      Some (fst (cuSerializeFilters E (mem p) i a b)) \<and>
    (add32 b 1 mod headersPerFile (mem p) = 0 \<longrightarrow>
      map_of (disk p') (cuHeaderFileName p (cfgName (customFilterConfigs ! i)) (sub32 (add32 b 1) (headersPerFile (mem p))) b) =
      Some (fst (cuSerializeFilterHeaders (mem p) i (sub32 (add32 b 1) (headersPerFile (mem p))) b)))"
proof -
  let ?cfg = "customFilterConfigs ! i" and ?s = "sub32 (add32 b 1) (headersPerFile (mem p))"
  have en: "(i, ?cfg) \<in> set (enumerate 0 customFilterConfigs)" using assms(2) by (simp add: in_set_enumerate_eq)
  have filt: "map_of (disk p') (cuFilterFileName q (cfgName ?cfg) a b) = Some (fst (cuSerializeFilters E (mem q) i a b))"
    if "writeBatch E (cuFilterBatch E q a b) q = (Inr u, p')" for q
  proof -
    have "(cuFilterFileName q (cfgName ?cfg) a b, cuSerializeFilters E (mem q) i a b) \<in> set (cuFilterBatch E q a b)"
      using en by (force simp: cuFilterBatch_def)
    from writeBatch_ok [OF that cuBatch_distinct(1) this] show ?thesis by simp
  qed
  from assms(1) show ?thesis
  proof (cases rule: customWrite_cases)
    case direct
    with filt [OF direct(2)] show ?thesis by simp
  next
    case (stopped e)
    then show ?thesis by simp
  next
    case (both q)
    let ?q = "q\<lparr>mem := (mem q)\<lparr>cuFilterHeaders := deleteRange ?s b (cuFilterHeaders (mem q))\<rparr>\<rparr>"
    have w: "wrote E (fst ` set (cuHeaderBatch p ?s b)) p q" by (rule keepsD [OF writeBatch_wrote [OF order_refl] both(2)])
    then have c: "conf ?q = conf p" and m: "mem q = mem p" by (simp_all add: wrote_def sameBase_def conf_def)
    have F: "map_of (disk p') (cuFilterFileName p (cfgName ?cfg) a b) = Some (fst (cuSerializeFilters E (mem p) i a b))"
      using filt [OF both(3)] cuNames_cong [OF c] m by (simp add: cuSerializeFilters_def)
    with headers_before_filters [OF both(2,3) assms(2)] show ?thesis by simp
  qed
qed

interpretation cuf: file_producer "customHooks B" customRangeFiles for B
proof unfold_locales
  fix E :: "'a env" and h :: int and a b a' b' u and r :: "err + unit" and p p' q :: customFilterFiles and f m
  show "ingest (customHooks B E) h p = (r, p') \<Longrightarrow>
      sameBase p p' \<and> customRangeFiles p' = customRangeFiles p \<and> cacheGrows E p p' \<and> disk p' = disk p"
    using keepsD [OF customIngest_step, of E B h p r p'] customRangeFiles_cong [of p' p]
    by (simp add: customHooks_def cuStep_def quiet_def sameBase_def)
  show "\<exists>x. cachedHash (customHooks B E) (mem p') = (cachedHash (customHooks B E) (mem p))(h \<mapsto> x)"
    if "ingest (customHooks B E) h p = (Inr u, p')"
    using that by (auto simp: customHooks_def customCachedHash_def fun_eq_iff elim!: customIngest_ok)
  show "\<exists>x q. getBlockHash E h p = (Inr x, q) \<and> cachedHash (customHooks B E) (mem p') h = Some x"
    if "header_by_hash E" "ingest (customHooks B E) h p = (Inr u, p')"
    using that by (auto simp: customHooks_def customCachedHash_def elim!: customIngest_ok)
  show "cacheStays p p' \<and> heightToHash (cache p') h \<noteq> None" if "ingest (customHooks B E) h p = (Inr u, p')"
    using that keepsD [OF customIngest_step, of E B h p "Inr u" p'] customIngest_looks [of E B h p u p']
    by (simp add: customHooks_def cuStep_def quiet_def)
  show "writeSealedFile (customHooks B E) a b p = (r, p') \<Longrightarrow> cacheStays p p'"
    using customWrite_wrote [of E a b p r p'] by (simp add: customHooks_def cuWrote_def)
  show "writeSealedFile (customHooks B E) a b p = (r, p') \<Longrightarrow>
      sameBase p p' \<and> customRangeFiles p' = customRangeFiles p \<and> cacheGrows E p p' \<and>
      cachedHash (customHooks B E) (mem p') = cachedHash (customHooks B E) (mem p)"
    using customWrite_wrote [of E a b p r p'] customRangeFiles_cong [of p' p]
    by (simp add: customHooks_def customCachedHash_def fun_eq_iff cuWrote_def sameBase_def)
  show "writeSealedFile (customHooks B E) a b p = (r, p') \<Longrightarrow> f \<notin> set (customRangeFiles p a b) \<Longrightarrow>
      map_of (disk p') f = map_of (disk p) f"
    using customWrite_wrote [of E a b p r p'] by (simp add: customHooks_def cuWrote_def)
  show "writeSealedFile (customHooks B E) a b p = (Inr u, p') \<Longrightarrow> f \<in> set (customRangeFiles p a b) \<Longrightarrow>
      fileExists (disk p') f"
    using customWrite_ok [of E a b p u p']
    by (auto simp: customHooks_def customRangeFiles_def fileExists_def in_set_conv_nth split: if_splits)
  show "cachedHash (customHooks B E) (pruneLocked (customHooks B E) a b m) h =
      (if a \<le> h \<and> h \<le> b then None else cachedHash (customHooks B E) m h)"
    by (simp add: customHooks_def customCachedHash_def customPrune_def deleteRange_apply)
  show "conf q = conf p \<Longrightarrow> mem q = mem p \<or> mem q = pruneLocked (customHooks B E) a b (mem p) \<Longrightarrow>
      customRangeFiles q = customRangeFiles p"
    by (rule customRangeFiles_cong) (auto simp: customHooks_def customPrune_def)
  have ok: "okSuffix FilterFileSuffix" "okSuffix FilterHeaderFileSuffix" by simp_all
  show "0 \<le> a \<Longrightarrow> 0 \<le> b \<Longrightarrow> 0 \<le> a' \<Longrightarrow> 0 \<le> b' \<Longrightarrow> b \<noteq> b' \<Longrightarrow>
      set (customRangeFiles p a b) \<inter> set (customRangeFiles p a' b') = {}"
    by (auto simp: customRangeFiles_def cuFilterFileName_def cuHeaderFileName_def split: if_splits
        dest!: blockFileName_end [OF _ _ ok(1) ok(1), rotated 2] blockFileName_end [OF _ _ ok(1) ok(2), rotated 2]
          blockFileName_end [OF _ _ ok(2) ok(1), rotated 2] blockFileName_end [OF _ _ ok(2) ok(2), rotated 2])
  show "afterCatchUp (customHooks B E) = None"
    by (simp add: customHooks_def)
qed

subsection \<open>What the filters are built from\<close>

definition matchesConfig :: "blockEnv \<Rightarrow> customFilterConfig \<Rightarrow> bytes \<Rightarrow> bool" where
  "matchesConfig B cfg pkScript \<longleftrightarrow> cfgTypes cfg AND classifyScript B pkScript \<noteq> 0"

definition blockScripts :: "blockEnv \<Rightarrow> blockWithPrevOuts \<Rightarrow> bytes list" where
  "blockScripts B block =
     concat (map (\<lambda>tx. map PkScript (TxOut tx)) (txs block)) @ rangeScripts B (prevOutScripts block)"

lemma addScript_map:
  "addScript B s (map acc customFilterConfigs) =
     map (\<lambda>cfg. acc cfg @ (if matchesConfig B cfg s then [s] else [])) customFilterConfigs"
  by (simp add: addScript_def matchesConfig_def customFilterConfigs_def Let_def)

lemma fold_addScript:
  "fold (addScript B) ss (map acc customFilterConfigs) =
     map (\<lambda>cfg. acc cfg @ filter (matchesConfig B cfg) ss) customFilterConfigs"
  by (induction ss arbitrary: acc) (simp_all add: addScript_map)

lemma buildAll_iff:
  "buildAll B hash bs = Inr fs \<longleftrightarrow> list_all2 (\<lambda>b f. GCSBuild B hash b = Inr f) bs fs"
proof (induction bs arbitrary: fs)
  case (Cons b bs)
  show ?case
  proof (cases "GCSBuild B hash b")
    case (Inr f)
    then show ?thesis by (cases fs) (auto simp: Cons.IH [symmetric] split: sum.splits)
  qed (auto simp: list_all2_Cons1)
qed auto

lemma buildCustomFilters_eq:
  "buildCustomFilters B hash block =
     buildAll B hash (map (\<lambda>cfg. filter (matchesConfig B cfg) (blockScripts B block)) customFilterConfigs)"
proof -
  have outs: "fold (\<lambda>tx bs. fold (\<lambda>out. addScript B (PkScript out)) (TxOut tx) bs) ts bs =
      fold (addScript B) (concat (map (\<lambda>tx. map PkScript (TxOut tx)) ts)) bs" for ts bs
    by (induction ts arbitrary: bs) (simp_all add: fold_map comp_def)
  have "fold (addScript B) (blockScripts B block) (map (\<lambda>_. []) customFilterConfigs) =
      map (\<lambda>cfg. [] @ filter (matchesConfig B cfg) (blockScripts B block)) customFilterConfigs"
    by (rule fold_addScript)
  then show ?thesis by (simp add: buildCustomFilters_def outs blockScripts_def Let_def)
qed

text \<open>
  What \<open>txscript\<close> promises of its three templates: a script is at most one of them (they
  begin with different bytes or have different lengths).
\<close>

definition templatesDiffer :: "blockEnv \<Rightarrow> bool" where
  "templatesDiffer B \<longleftrightarrow> (\<forall>s. \<not> (IsPayToWitnessPubKeyHash B s \<and> IsPayToWitnessScriptHash B s) \<and>
     \<not> (IsPayToWitnessPubKeyHash B s \<and> IsPayToTaproot B s) \<and> \<not> (IsPayToWitnessScriptHash B s \<and> IsPayToTaproot B s))"

lemma matchesConfig_template:
  assumes "templatesDiffer B"
  shows "matchesConfig B (customFilterConfigs ! 0) = (\<lambda>s. IsPayToWitnessPubKeyHash B s \<or> IsPayToWitnessScriptHash B s \<or> IsPayToTaproot B s)"
    "matchesConfig B (customFilterConfigs ! 1) = IsPayToWitnessPubKeyHash B"
    "matchesConfig B (customFilterConfigs ! 2) = IsPayToWitnessScriptHash B"
    "matchesConfig B (customFilterConfigs ! 3) = IsPayToTaproot B"
  using assms by (auto simp: fun_eq_iff templatesDiffer_def matchesConfig_def customFilterConfigs_def classifyScript_def
      scriptTypeP2WPKH_def scriptTypeP2WSH_def scriptTypeP2TR_def)

text \<open>
  Claim C28. Each custom filter is built from exactly the scripts of its output types: the
  outputs the block creates and the previous outputs it spends, keyed with the block's hash.
  There are four, at the indexes of their names: \<open>segwit\<close> holds the scripts that pay to a
  witness public key hash, to a witness script hash or to a taproot output, \<open>p2wpkh\<close>,
  \<open>p2wsh\<close> and \<open>p2tr\<close> those of the one type each. They are built if and only if the
  library builds each of the four.
\<close>

theorem custom_filter_elements:
  assumes "templatesDiffer B"
    and scripts: "scripts = concat (map (\<lambda>tx. map PkScript (TxOut tx)) (txs block)) @ rangeScripts B (prevOutScripts block)"
  shows "(buildCustomFilters B hash block = Inr fs \<longleftrightarrow>
      (\<exists>segwit p2wpkh p2wsh p2tr. fs = [segwit, p2wpkh, p2wsh, p2tr] \<and>
         GCSBuild B hash (filter (\<lambda>s. IsPayToWitnessPubKeyHash B s \<or> IsPayToWitnessScriptHash B s \<or> IsPayToTaproot B s) scripts) = Inr segwit \<and>
         GCSBuild B hash (filter (IsPayToWitnessPubKeyHash B) scripts) = Inr p2wpkh \<and>
         GCSBuild B hash (filter (IsPayToWitnessScriptHash B) scripts) = Inr p2wsh \<and>
         GCSBuild B hash (filter (IsPayToTaproot B) scripts) = Inr p2tr)) \<and>
    map customFilterConfigIndex [''segwit'', ''p2wpkh'', ''p2wsh'', ''p2tr''] = [Some 0, Some 1, Some 2, Some 3]"
proof -
  have four: "map f customFilterConfigs = [f (customFilterConfigs ! 0), f (customFilterConfigs ! 1), f (customFilterConfigs ! 2), f (customFilterConfigs ! 3)]"
    for f :: "customFilterConfig \<Rightarrow> bytes list" by (simp add: customFilterConfigs_def)
  have "blockScripts B block = scripts" by (simp add: blockScripts_def scripts)
  then have "buildCustomFilters B hash block = Inr fs \<longleftrightarrow>
      list_all2 (\<lambda>b f. GCSBuild B hash b = Inr f)
        [filter (\<lambda>s. IsPayToWitnessPubKeyHash B s \<or> IsPayToWitnessScriptHash B s \<or> IsPayToTaproot B s) scripts,
         filter (IsPayToWitnessPubKeyHash B) scripts, filter (IsPayToWitnessScriptHash B) scripts, filter (IsPayToTaproot B) scripts] fs"
    by (simp only: buildCustomFilters_eq buildAll_iff four matchesConfig_template [OF assms(1)])
  moreover have "map customFilterConfigIndex [''segwit'', ''p2wpkh'', ''p2wsh'', ''p2tr''] = [Some 0, Some 1, Some 2, Some 3]"
    by code_simp
  ultimately show ?thesis by (auto simp: list_all2_Cons1)
qed

subsection \<open>The header chain\<close>

lemma filterChain_snoc: "filterChain E prev (fs @ [f]) = filterHeaderFromBytes E f (filterChain E prev fs)"
  by (simp add: filterChain_def filterHeaderFromBytes_def)

lemma length_chainHeaders [simp]: "length (chainHeaders E prev fs) = length fs"
  by (induction fs arbitrary: prev) (simp_all add: Let_def)

lemma chainHeaders_nth: "r < length fs \<Longrightarrow> chainHeaders E prev fs ! r = filterChain E prev (take (Suc r) fs)"
proof (induction fs arbitrary: prev r)
  case (Cons f fs)
  then show ?case
    by (cases r) (auto simp: Let_def filterChain_def filterHeaderFromBytes_def)
qed simp

lemma chainHeaders_last: "fs \<noteq> [] \<Longrightarrow> last (chainHeaders E prev fs) = filterChain E prev fs"
  using chainHeaders_nth [of "length fs - 1" fs E prev]
  by (cases fs rule: rev_cases) (simp_all add: last_conv_nth flip: length_greater_0_conv)

lemma serializeAll_headers:
  "serializeAll E B fs prevs = Inr xs \<Longrightarrow> map snd xs = map2 (filterHeaderFromBytes E) (map fst xs) prevs \<or> length fs \<noteq> length prevs"
proof (induction E B fs prevs arbitrary: xs rule: serializeAll.induct)
  case (1 E B f fs pr prs)
  then show ?case by (auto split: sum.splits)
qed auto

text \<open>
  Ingesting a block extends every configuration's BIP157 header chain: the header
  stored for the height commits to the filter stored for it and to the header of the height
  before.
\<close>

theorem custom_header_chain:
  assumes "customIngest E B h p = (Inr u, p')" "h \<noteq> 0" "cuFilterHeaders (mem p) (sub32 h 1) = Some prevs" "length prevs = 4"
  shows "\<exists>fs. cuFilters (mem p') h = Some fs \<and>
    cuFilterHeaders (mem p') h = Some (map2 (filterHeaderFromBytes E) fs prevs)"
proof -
  from assms(1) obtain x q prevs' q1 block fs xs where g: "getBlockHash E h p = (Inr x, q)"
    and pr: "prevFilterHeaders E h q = (Inr prevs', q1)" and b: "buildCustomFilters B x block = Inr fs"
    and ser: "serializeAll E B fs prevs' = Inr xs"
    and m: "cuFilters (mem p') = (cuFilters (mem p))(h \<mapsto> map fst xs)"
      "cuFilterHeaders (mem p') = (cuFilterHeaders (mem q1))(h \<mapsto> map snd xs)"
    by (elim customIngest_ok)
  have "mem q = mem p" using getBlockHash_quiet [OF g] by (simp add: wrote_def)
  with pr assms(2,3) have "prevs' = prevs" by (simp add: prevFilterHeaders_def)
  moreover have "length fs = 4"
    using list_all2_lengthD [OF iffD1 [OF buildAll_iff b [unfolded buildCustomFilters_eq]]]
    by (simp add: customFilterConfigs_def)
  ultimately have "map snd xs = map2 (filterHeaderFromBytes E) (map fst xs) prevs"
    using serializeAll_headers [OF ser] assms(4) by auto
  with m show ?thesis by simp
qed

subsection \<open>Rebuilding the chain after a restart\<close>

lemma readFilters_serialized:
  assumes "wire_codec E" "\<forall>f\<in>set fs. length f \<le> MaxMessagePayload" "length fs < n"
  shows "readFilters n E (concat (map (WriteVarBytes E) fs)) = Inr fs"
  using assms(2,3)
proof (induction fs arbitrary: n)
  case Nil
  then obtain k where "n = Suc k" by (cases n) auto
  then show ?case using wire_codecD(5) [OF assms(1)] by simp
next
  case (Cons f fs)
  then obtain k where n: "n = Suc k" "length fs < k" by (cases n) auto
  have "ReadVarBytes E MaxMessagePayload (WriteVarBytes E f @ r) = Inr (f, r)" for r
    by (rule wire_codecD(4) [OF assms(1)]) (use Cons.prems in \<open>simp_all add: MaxMessagePayload_def\<close>)
  with Cons n show ?case by simp
qed

lemma length_serialized:
  assumes "wire_codec E"
  shows "length fs \<le> length (concat (map (WriteVarBytes E) fs))"
proof (induction fs)
  case (Cons f fs)
  have "0 < VarIntSerializeSize E (length f)" using assms unfolding wire_codec_def by blast
  with Cons show ?case by (simp add: length_WriteVarBytes [OF assms])
qed simp

text \<open>The filter files of a range hold the filters \<open>G cfg h\<close> of every configuration.\<close>

definition filterFilesOn :: "'h env \<Rightarrow> (customFilterConfig \<Rightarrow> int \<Rightarrow> bytes) \<Rightarrow> customFilterFiles \<Rightarrow> int \<Rightarrow> int \<Rightarrow> bool" where
  "filterFilesOn E G p a b \<longleftrightarrow>
     (\<forall>cfg\<in>set customFilterConfigs. map_of (disk p) (cuFilterFileName p (cfgName cfg) a b) =
        Some (concat (map (\<lambda>h. WriteVarBytes E (G cfg h)) [a..b])))"

definition chainAt :: "'h env \<Rightarrow> (customFilterConfig \<Rightarrow> int \<Rightarrow> bytes) \<Rightarrow> hash list \<Rightarrow> int \<Rightarrow> int \<Rightarrow> hash list" where
  "chainAt E G prevs a h = map2 (\<lambda>cfg pr. filterChain E pr (map (G cfg) [a..h])) customFilterConfigs prevs"

lemma readFilterFile_value:
  assumes "wire_codec E" "\<forall>n. ioFaults E n = None" "\<forall>h. length (g h) \<le> MaxMessagePayload"
    and "map_of (disk s) f = Some (concat (map (\<lambda>h. WriteVarBytes E (g h)) hs))"
  shows "readFilterFile E f s = (Inr (map g hs), s\<lparr>now := Suc (now s)\<rparr>)"
proof -
  let ?dat = "concat (map (WriteVarBytes E) (map g hs))"
  have "readFilters (Suc (length ?dat)) E ?dat = Inr (map g hs)"
    using assms(3) length_serialized [OF assms(1), of "map g hs"] by (intro readFilters_serialized [OF assms(1)]) auto
  moreover have "map_of (disk s) f = Some ?dat" using assms(4) by (simp add: comp_def)
  ultimately show ?thesis
    using assms(2) by (simp add: readFilterFile_def goBind_def goWrap_def goLift_def readFile_def del: map_map)
qed

lemma rebuildColumns_value:
  assumes "wire_codec E" "\<forall>n. ioFaults E n = None" "\<forall>cfg h. length (G cfg h) \<le> MaxMessagePayload"
    and "\<forall>cfg\<in>set cfgs. map_of (disk p) (cuFilterFileName p (cfgName cfg) a b) =
        Some (concat (map (\<lambda>h. WriteVarBytes E (G cfg h)) [a..b]))"
    and "entriesPerFile p = b - a + 1" "a \<le> b" "length cfgs = length prevs"
  shows "\<exists>n. rebuildColumns E cfgs a b prevs p =
    (Inr (map2 (\<lambda>cfg pr. chainHeaders E pr (map (G cfg) [a..b])) cfgs prevs), p\<lparr>now := n\<rparr>)"
  using assms(7,4,5)
proof (induction cfgs prevs arbitrary: p rule: list_induct2)
  case Nil
  have "p = p\<lparr>now := now p\<rparr>" by simp
  then show ?case by (metis list.simps(8) rebuildColumns.simps(2) zip_Nil)
next
  case (Cons cfg cfgs pr prs)
  let ?q = "p\<lparr>now := Suc (now p)\<rparr>"
  have r: "readFilterFile E (cuFilterFileName p (cfgName cfg) a b) p = (Inr (map (G cfg) [a..b]), ?q)"
    using assms(1-3) Cons.prems(1) by (intro readFilterFile_value) simp_all
  have "cuFilterFileName ?q = cuFilterFileName p" by (simp add: cuFilterFileName_def fun_eq_iff)
  then have "\<exists>n. rebuildColumns E cfgs a b prs ?q =
      (Inr (map2 (\<lambda>cfg pr. chainHeaders E pr (map (G cfg) [a..b])) cfgs prs), ?q\<lparr>now := n\<rparr>)"
    using Cons.prems by (intro Cons.IH) simp_all
  moreover have "int (length [a..b]) = entriesPerFile p" using Cons.prems(2) assms(6) by simp
  ultimately show ?case using r by (auto simp: goBind_def goWrap_def goRet_def)
qed

lemma storeRows_apply:
  assumes "0 \<le> a" "a + int n \<le> 2147483647"
  shows "cuFilterHeaders (storeRows a n cols m) h =
    (if a \<le> h \<and> h < a + int n then Some (columnRow cols (nat (h - a))) else cuFilterHeaders m h)"
proof -
  have "fold (\<lambda>r hs. hs(add32 a (int r) \<mapsto> columnRow cols r)) [0..<n] M h =
      (if a \<le> h \<and> h < a + int n then Some (columnRow cols (nat (h - a))) else M h)" for M
    using assms
  proof (induction n)
    case (Suc n)
    have "add32 a (int n) = a + int n" using Suc.prems by (simp add: add32_id)
    with Suc show ?case by auto
  qed auto
  then show ?thesis by (simp add: storeRows_def)
qed

lemma filterChain_append: "filterChain E prev (fs @ gs) = filterChain E (filterChain E prev fs) gs"
  by (simp add: filterChain_def)

lemma columns_row:
  assumes "a \<le> h" "h \<le> b"
  shows "columnRow (map2 (\<lambda>cfg pr. chainHeaders E pr (map (G cfg) [a..b])) customFilterConfigs prevs) (nat (h - a)) =
    chainAt E G prevs a h"
proof -
  have "[a..b] = [a..h] @ [h + 1..b]" using assms by (rule upto_split2)
  then have "take (Suc (nat (h - a))) (map g [a..b]) = map g [a..h]" for g :: "int \<Rightarrow> bytes"
    using assms by simp
  then show ?thesis
    using assms by (simp add: columnRow_def chainAt_def chainHeaders_nth comp_def case_prod_beta)
qed

lemma columns_last:
  assumes "a \<le> b" "length prevs = length customFilterConfigs"
  shows "map2 (\<lambda>old col. if col = [] then old else last col) prevs
      (map2 (\<lambda>cfg pr. chainHeaders E pr (map (G cfg) [a..b])) customFilterConfigs prevs) = chainAt E G prevs a b"
proof -
  have "chainHeaders E pr (map (G cfg) [a..b]) \<noteq> []" for pr cfg
    using assms(1) by (metis length_0_conv length_chainHeaders length_map upto_Nil2 not_le)
  then show ?thesis
    using assms by (intro nth_equalityI) (auto simp: chainAt_def chainHeaders_last)
qed

lemma chainAt_chain:
  assumes "a \<le> b + 1" "b \<le> h" "length prevs = length customFilterConfigs"
  shows "chainAt E G (chainAt E G prevs a b) (b + 1) h = chainAt E G prevs a h"
proof -
  have "[a..h] = [a..b] @ [b + 1..h]"
  proof (cases "a \<le> b")
    case True
    then show ?thesis using assms by (intro upto_split2) simp_all
  next
    case False
    with assms have "a = b + 1" by simp
    then show ?thesis by simp
  qed
  then show ?thesis using assms(3) by (intro nth_equalityI) (auto simp: chainAt_def filterChain_append)
qed

lemma length_chainAt: "length prevs = length customFilterConfigs \<Longrightarrow> length (chainAt E G prevs a h) = length customFilterConfigs"
  by (simp add: chainAt_def)

lemma chainAt_none: "length prevs = length customFilterConfigs \<Longrightarrow> h < a \<Longrightarrow> chainAt E G prevs a h = prevs"
  by (intro nth_equalityI) (auto simp: chainAt_def filterChain_def)

lemma rebuildLoop_value:
  assumes env: "wire_codec E" "\<forall>n. ioFaults E n = None" "\<forall>cfg h. length (G cfg h) \<le> MaxMessagePayload"
    and n: "0 < entriesPerFile p" "entriesPerFile p = n" and a: "0 \<le> a" "a + int j * n \<le> heightBound"
    and "length prevs = length customFilterConfigs"
    and "\<forall>i<j. filterFilesOn E G p (a + int i * n) (a + int i * n + n - 1)" "j < k"
  shows "\<exists>p'. rebuildLoop k E prevs a (a + int j * n - 1) p = (Inr (chainAt E G prevs a (a + int j * n - 1)), p') \<and>
    (\<forall>h. cuFilterHeaders (mem p') h =
       (if a \<le> h \<and> h < a + int j * n then Some (chainAt E G prevs a h) else cuFilterHeaders (mem p) h))"
  using n a assms(8-)
proof (induction j arbitrary: a prevs p k)
  case 0
  then obtain k' where "k = Suc k'" by (cases k) auto
  with 0 show ?case by (auto simp: chainAt_none)
next
  case (Suc j)
  from Suc.prems obtain k' where k: "k = Suc k'" "j < k'" by (cases k) auto
  let ?b = "a + n - 1" and ?e = "a + int (Suc j) * n - 1"
  let ?cols = "map2 (\<lambda>cfg pr. chainHeaders E pr (map (G cfg) [a..?b])) customFilterConfigs prevs"
  have n0: "0 < n" using Suc.prems(1,2) by simp
  have jn: "0 \<le> int j * n" using n0 by simp
  have e: "?e = (a + n) + int j * n - 1" by (simp add: algebra_simps)
  have sj: "int (Suc j) * n = n + int j * n" by (simp add: algebra_simps)
  have hb: "a + n \<le> heightBound" using Suc.prems(4) jn sj by linarith
  then have add: "add32 a n = a + n" "sub32 (add32 a n) 1 = ?b"
    using Suc.prems by (simp_all add: add32_id sub32_id heightBound_def)
  have file0: "filterFilesOn E G p a ?b" using Suc.prems(6) by force
  have "\<exists>t. rebuildColumns E customFilterConfigs a ?b prevs p = (Inr ?cols, p\<lparr>now := t\<rparr>)"
    by (rule rebuildColumns_value [OF env]) (use file0 Suc.prems in \<open>simp_all add: filterFilesOn_def\<close>)
  then obtain t where cols: "rebuildColumns E customFilterConfigs a ?b prevs p = (Inr ?cols, p\<lparr>now := t\<rparr>)" ..
  let ?q = "p\<lparr>now := t, mem := storeRows a (nat n) ?cols (mem p)\<rparr>"
  have "a \<le> ?e" using jn Suc.prems(1,2) e by linarith
  moreover have "rebuildLoop k E prevs a z p = rebuildLoop k' E (chainAt E G prevs a ?b) (a + n) z ?q" if "a \<le> z" for z
    using that cols k add Suc.prems columns_last [of a ?b prevs E G]
    by (simp add: goBind_def goModify_def)
  ultimately have step: "rebuildLoop k E prevs a ?e p = rebuildLoop k' E (chainAt E G prevs a ?b) (a + n) ?e ?q" by blast
  have same: "filterFilesOn E G ?q x y = filterFilesOn E G p x y" for x y
    by (simp add: filterFilesOn_def cuFilterFileName_def)
  have files: "\<forall>i<j. filterFilesOn E G ?q ((a + n) + int i * n) ((a + n) + int i * n + n - 1)"
    unfolding same
  proof (intro allI impI)
    fix i assume "i < j"
    then have "filterFilesOn E G p (a + int (Suc i) * n) (a + int (Suc i) * n + n - 1)" using Suc.prems(6) by blast
    moreover have "a + int (Suc i) * n = (a + n) + int i * n" by (simp add: algebra_simps)
    ultimately show "filterFilesOn E G p ((a + n) + int i * n) ((a + n) + int i * n + n - 1)" by metis
  qed
  have "\<exists>p'. rebuildLoop k' E (chainAt E G prevs a ?b) (a + n) (a + n + int j * n - 1) ?q =
      (Inr (chainAt E G (chainAt E G prevs a ?b) (a + n) (a + n + int j * n - 1)), p') \<and>
    (\<forall>h. cuFilterHeaders (mem p') h = (if a + n \<le> h \<and> h < a + n + int j * n
       then Some (chainAt E G (chainAt E G prevs a ?b) (a + n) h) else cuFilterHeaders (mem ?q) h))"
    by (rule Suc.IH) (use Suc.prems hb files k e in \<open>simp_all add: length_chainAt algebra_simps\<close>)
  then obtain p' where run: "rebuildLoop k E prevs a ?e p = (Inr (chainAt E G (chainAt E G prevs a ?b) (a + n) ?e), p')"
    and mem: "\<And>h. cuFilterHeaders (mem p') h = (if a + n \<le> h \<and> h < a + n + int j * n
       then Some (chainAt E G (chainAt E G prevs a ?b) (a + n) h) else cuFilterHeaders (mem ?q) h)"
    unfolding e step [unfolded e] by blast
  have join: "chainAt E G (chainAt E G prevs a ?b) (a + n) h = chainAt E G prevs a h" if "?b \<le> h" for h
    using chainAt_chain [of a ?b h prevs E G] that Suc.prems by simp
  have row: "cuFilterHeaders (mem ?q) h = (if a \<le> h \<and> h < a + n then Some (chainAt E G prevs a h) else cuFilterHeaders (mem p) h)" for h
  proof -
    have "a + int (nat n) \<le> 2147483647" using hb Suc.prems by (simp add: heightBound_def)
    from storeRows_apply [OF Suc.prems(3) this, of ?cols "mem p" h] Suc.prems columns_row [of a h ?b E G prevs]
    show ?thesis by (auto simp: heightBound_def)
  qed
  show ?case
  proof (intro exI conjI allI)
    have "?b \<le> ?e" using jn sj by linarith
    from run [unfolded join [OF this]] show "rebuildLoop k E prevs a ?e p = (Inr (chainAt E G prevs a ?e), p')" .
    fix h
    show "cuFilterHeaders (mem p') h = (if a \<le> h \<and> h < a + int (Suc j) * n then Some (chainAt E G prevs a h) else cuFilterHeaders (mem p) h)"
      unfolding mem row sj using join [of h] jn n0 by (smt (verit))
  qed
qed

text \<open>
  Claim C27. A restart loses nothing of the header chain: from the headers before \<open>a\<close> and the
  sealed filter files of the following \<open>j\<close> ranges, \<open>rebuildFilterHeaders\<close> returns, and puts
  back into memory for every height of those ranges, exactly the filter headers the chain of
  the filters has there.
\<close>

theorem restart_rebuilds_headers:
  assumes "wire_codec E" "\<forall>n. ioFaults E n = None" "\<forall>cfg h. length (G cfg h) \<le> MaxMessagePayload"
    and "0 < entriesPerFile p" "0 \<le> a" "a + int j * entriesPerFile p \<le> heightBound"
    and "length prevs = length customFilterConfigs"
    and "\<forall>i<j. filterFilesOn E G p (a + int i * entriesPerFile p) (a + int i * entriesPerFile p + entriesPerFile p - 1)"
  shows "\<exists>p'. rebuildFilterHeaders E prevs a (a + int j * entriesPerFile p - 1) p =
      (Inr (chainAt E G prevs a (a + int j * entriesPerFile p - 1)), p') \<and>
    (\<forall>h. a \<le> h \<and> h < a + int j * entriesPerFile p \<longrightarrow> cuFilterHeaders (mem p') h = Some (chainAt E G prevs a h))"
proof -
  have "int j * 1 \<le> int j * entriesPerFile p" using assms(4) by (intro mult_left_mono) simp_all
  then have "j < nat (a + int j * entriesPerFile p - 1 - a + 1) + 1" by simp
  from rebuildLoop_value [OF assms(1-4) refl assms(5-8) this] show ?thesis
    unfolding rebuildFilterHeaders_def by fastforce
qed

subsection \<open>The order of a batch\<close>

text \<open>
  Claim C29. The file a restart of the custom producer resumes from is the last of its batch: at
  whatever point \<open>customFilterFiles.writeSealedFile\<close> stops, if the first configuration's
  filter file of the range appeared or changed, the filter files of the other configurations
  are complete, and so are the header files of all four configurations where the range completes
  their span.
\<close>

theorem custom_resume_file_last:
  assumes run: "customWriteSealedFile E a b p = (r, p')"
    and changed: "map_of (disk p') (cuFilterFileName p ''segwit'' a b) \<noteq> map_of (disk p) (cuFilterFileName p ''segwit'' a b)"
    and i: "i \<in> {1, 2, 3}"
  shows "map_of (disk p') (cuFilterFileName p (cfgName (customFilterConfigs ! i)) a b) =
      Some (fst (cuSerializeFilters E (mem p) i a b)) \<and>
    (add32 b 1 mod headersPerFile (mem p) = 0 \<longrightarrow>
       (\<forall>j<4. map_of (disk p') (cuHeaderFileName p (cfgName (customFilterConfigs ! j)) (sub32 (add32 b 1) (headersPerFile (mem p))) b) =
          Some (fst (cuSerializeFilterHeaders (mem p) j (sub32 (add32 b 1) (headersPerFile (mem p))) b))))"
proof -
  have last: "map_of (disk p') (cuFilterFileName q (cfgName (customFilterConfigs ! i)) a b) =
      Some (fst (cuSerializeFilters E (mem q) i a b))"
    if "writeBatch E (cuFilterBatch E q a b) q = (r, p')"
      "map_of (disk p') (cuFilterFileName q ''segwit'' a b) \<noteq> map_of (disk q) (cuFilterFileName q ''segwit'' a b)" for q
  proof (rule writeBatch_last)
    let ?jobs = "map (\<lambda>i. (cuFilterFileName q (cfgName (customFilterConfigs ! i)) a b, cuSerializeFilters E (mem q) i a b)) [3, 2, 1]"
    have split: "cuFilterBatch E q a b = ?jobs @ [(cuFilterFileName q ''segwit'' a b, cuSerializeFilters E (mem q) 0 a b)]"
      by (simp add: cuFilterBatch_def customFilterConfigs_def numeral_2_eq_2 numeral_3_eq_3)
    show "writeBatch E (?jobs @ [(cuFilterFileName q ''segwit'' a b, cuSerializeFilters E (mem q) 0 a b)]) q = (r, p')"
      using that(1) unfolding split .
    show "distinct (map fst (?jobs @ [(cuFilterFileName q ''segwit'' a b, cuSerializeFilters E (mem q) 0 a b)]))"
      using cuBatch_distinct(1) [of E q a b] unfolding split .
  qed (use that(2) i in auto)
  from run show ?thesis
  proof (cases rule: customWrite_cases)
    case direct
    with last [OF direct(2) changed] show ?thesis by simp
  next
    case (stopped e)
    have "cuFilterFileName p ''segwit'' a b \<notin> set (map fst (cuHeaderBatch p (sub32 (add32 b 1) (headersPerFile (mem p))) b))"
      unfolding cuHeaderBatch_files by (auto simp: cuNames_differ [symmetric])
    with keepsD [OF writeBatch_wrote [OF order_refl] stopped(3)] changed show ?thesis by (simp add: wrote_def)
  next
    case (both q)
    let ?s = "sub32 (add32 b 1) (headersPerFile (mem p))"
    let ?q = "q\<lparr>mem := (mem q)\<lparr>cuFilterHeaders := deleteRange ?s b (cuFilterHeaders (mem q))\<rparr>\<rparr>"
    have w: "wrote E (fst ` set (cuHeaderBatch p ?s b)) p q" by (rule keepsD [OF writeBatch_wrote [OF order_refl] both(2)])
    then have c: "conf ?q = conf p" and m: "mem q = mem p" by (simp_all add: wrote_def sameBase_def conf_def)
    have "cuFilterFileName p ''segwit'' a b \<notin> set (map fst (cuHeaderBatch p ?s b))"
      unfolding cuHeaderBatch_files by (auto simp: cuNames_differ [symmetric])
    then have "map_of (disk ?q) (cuFilterFileName p ''segwit'' a b) = map_of (disk p) (cuFilterFileName p ''segwit'' a b)"
      using w by (simp add: wrote_def)
    with last [OF both(3)] changed cuNames_cong [OF c] m
    have "map_of (disk p') (cuFilterFileName p (cfgName (customFilterConfigs ! i)) a b) = Some (fst (cuSerializeFilters E (mem p) i a b))"
      by (simp add: cuSerializeFilters_def)
    moreover have "length customFilterConfigs = 4" by (simp add: customFilterConfigs_def)
    ultimately show ?thesis using headers_before_filters [OF both(2,3)] by simp
  qed
qed

subsection \<open>Concrete runs\<close>

text \<open>One output of each type, and a taproot output spent.\<close>

definition cuBlocks :: blockEnv where
  "cuBlocks = miniBlocks\<lparr>IsPayToWitnessPubKeyHash := (\<lambda>s. s = [80]), IsPayToWitnessScriptHash := (\<lambda>s. s = [82]),
     IsPayToTaproot := (\<lambda>s. s = [81] \<or> s = [83]), rangeScripts := (\<lambda>_. [[83]])\<rparr>"

definition cuBlock :: blockWithPrevOuts where
  "cuBlock = \<lparr>txs = [\<lparr>TxIn = [], TxOut = [\<lparr>Value = 1, PkScript = [80]\<rparr>, \<lparr>Value = 2, PkScript = [81]\<rparr>, \<lparr>Value = 3, PkScript = [82]\<rparr>]\<rparr>],
     prevOutScripts = Map.empty\<rparr>"

lemma custom_filter_elements_witness:
  "buildCustomFilters cuBlocks zeroHash cuBlock = Inr [[80, 81, 82, 83], [80], [82], [81, 83]]"
proof -
  have "templatesDiffer cuBlocks" by (auto simp: templatesDiffer_def cuBlocks_def)
  note law = custom_filter_elements [OF this refl, of zeroHash cuBlock "[[80, 81, 82, 83], [80], [82], [81, 83]]", THEN conjunct1]
  have g: "GCSBuild cuBlocks x ys = Inr (concat (remdups ys))" for x ys by (simp add: cuBlocks_def miniBlocks_def)
  show ?thesis unfolding law g by (simp add: cuBlocks_def cuBlock_def)
qed

definition idlePrefetch :: prefetch where
  "idlePrefetch = \<lparr>probed = True, useREST = False, pending = Map.empty\<rparr>"

text \<open>A producer with files of two filters and of four headers; its filters are all empty.\<close>

definition miniCustom :: customFilterFiles where
  "miniCustom = (newCustomFilterFiles 2 4 0 ''/d'' idlePrefetch miniShared)
     \<lparr>mem := \<lparr>cuFilters = [0 \<mapsto> [[], [], [], []], 1 \<mapsto> [[], [], [], []]], cuFilterHeaders = [0 \<mapsto> zeroHeaders], headersPerFile = 4,
        cuHeightToHash = [0 \<mapsto> miniBlockHash 0], cuFetcher = idlePrefetch\<rparr>\<rparr>"

lemma mini_ingest_fetch:
  assumes "heightToHash (cache p) 2 = None"
  shows "fst (fetchBlock (miniEnv 1) miniBlocks 1 x (idlePrefetch, p :: customFilterFiles)) = Inr (miniBlock x)"
proof -
  have "[2..9] = 2 # [2 + 1..9 :: int]" by (rule upto_rec1) simp
  then have "scheduleAhead (miniEnv 1) miniBlocks 1 (idlePrefetch, p) = (idlePrefetch, p\<lparr>now := Suc (now p)\<rparr>)"
    using assms by (simp add: scheduleAhead_def add32_id prefetchDepth_def idlePrefetch_def getBlockHash_def rpcCall_def
        miniEnv_def miniChain_def)
  then show ?thesis by (simp add: fetchBlock_def idlePrefetch_def mini_fetchSingle)
qed

lemma mini_custom_ingest: "\<exists>p'. customIngest (miniEnv 1) miniBlocks 1 miniCustom = (Inr (), p')"
proof -
  obtain x q where g: "getBlockHash (miniEnv 1) 1 miniCustom = (Inr x, q)"
    and q: "mem q = mem miniCustom" "heightToHash (cache q) 2 = None"
    by (simp add: getBlockHash_def miniCustom_def newCustomFilterFiles_def miniShared_def newH2HCache_def rpcCall_def
        miniEnv_def miniChain_def Let_def)
  have pr: "prevFilterHeaders (miniEnv 1) 1 q = (Inr zeroHeaders, q)"
    using q by (simp add: prevFilterHeaders_def sub32_id miniCustom_def)
  obtain q' s' where "fetchBlock (miniEnv 1) miniBlocks 1 x (idlePrefetch, q) = (Inr (miniBlock x), (q', s'))"
    using mini_ingest_fetch [OF q(2), of x] by (metis prod.collapse)
  moreover have "cuFetcher (mem q) = idlePrefetch" using q(1) by (simp add: miniCustom_def)
  ultimately obtain q2 where fe: "runFetch cuFetcher (\<lambda>q m. m\<lparr>cuFetcher := q\<rparr>) (fetchBlock (miniEnv 1) miniBlocks 1 x) q = (Inr (miniBlock x), q2)"
    by (intro that) (simp add: runFetch_def)
  have "buildCustomFilters miniBlocks x (miniBlock x) = Inr [[], [], [], []]"
    unfolding buildCustomFilters_eq
    by (simp add: customFilterConfigs_def blockScripts_def miniBlock_def miniBlocks_def)
  moreover have "\<exists>xs. serializeAll (miniEnv 1) miniBlocks [[], [], [], []] zeroHeaders = Inr xs"
    by (simp add: zeroHeaders_def customFilterConfigs_def miniBlocks_def)
  ultimately show ?thesis using g pr fe
    by (auto simp: customIngest_def goBind_def goWrap_def goLift_def goModify_def)
qed

lemma custom_header_chain_example:
  "\<exists>fs. cuFilters (mem (snd (customIngest (miniEnv 1) miniBlocks 1 miniCustom))) 1 = Some fs \<and>
     cuFilterHeaders (mem (snd (customIngest (miniEnv 1) miniBlocks 1 miniCustom))) 1 =
       Some (map2 (filterHeaderFromBytes (miniEnv 1)) fs zeroHeaders)"
proof -
  obtain p' where run: "customIngest (miniEnv 1) miniBlocks 1 miniCustom = (Inr (), p')" using mini_custom_ingest by blast
  show ?thesis using custom_header_chain [OF run, of zeroHeaders]
    by (simp add: run sub32_id) (simp add: miniCustom_def zeroHeaders_def customFilterConfigs_def)
qed

definition restartedCustom :: customFilterFiles where
  "restartedCustom = miniCustom\<lparr>disk := map (\<lambda>cfg. (cuFilterFileName miniCustom (cfgName cfg) 0 1, [0, 0])) customFilterConfigs\<rparr>"

lemma restart_rebuilds_headers_witness:
  "\<exists>p'. rebuildFilterHeaders (miniEnv 1) zeroHeaders 0 1 restartedCustom =
      (Inr (chainAt (miniEnv 1) (\<lambda>_ _. []) zeroHeaders 0 1), p') \<and>
    cuFilterHeaders (mem p') 0 = Some (chainAt (miniEnv 1) (\<lambda>_ _. []) zeroHeaders 0 0)"
proof -
  have same: "cuFilterFileName restartedCustom = cuFilterFileName miniCustom"
    by (simp add: restartedCustom_def cuFilterFileName_def fun_eq_iff)
  have files: "filterFilesOn (miniEnv 1) (\<lambda>_ _. []) restartedCustom 0 1"
    unfolding filterFilesOn_def same
    by (simp add: restartedCustom_def customFilterConfigs_def cuNames_inj upto_01)
      (simp add: miniEnv_def compactSize_def)
  have n: "entriesPerFile restartedCustom = 2"
    by (simp add: restartedCustom_def miniCustom_def newCustomFilterFiles_def)
  have io: "\<forall>n. ioFaults (miniEnv 1) n = None" by (simp add: miniEnv_def)
  have z: "length zeroHeaders = length customFilterConfigs" by (simp add: zeroHeaders_def)
  obtain p' where p': "rebuildFilterHeaders (miniEnv 1) zeroHeaders 0 1 restartedCustom =
      (Inr (chainAt (miniEnv 1) (\<lambda>_ _. []) zeroHeaders 0 1), p')"
    and mem: "\<forall>h. 0 \<le> h \<and> h < 2 \<longrightarrow> cuFilterHeaders (mem p') h = Some (chainAt (miniEnv 1) (\<lambda>_ _. []) zeroHeaders 0 h)"
    using restart_rebuilds_headers [OF mini_wire_codec [of 1] io _ _ _ _ z, of "\<lambda>_ _. []" restartedCustom 0 1] files n
    by (auto simp: heightBound_def)
  with mem [rule_format, of 0] show ?thesis by auto
qed

text \<open>Two filters and two headers per file: sealing heights 0 and 1 completes a span of headers.\<close>

definition spanCustom :: customFilterFiles where
  "spanCustom = (newCustomFilterFiles 2 2 0 ''/d'' idlePrefetch miniShared)
     \<lparr>mem := \<lparr>cuFilters = [0 \<mapsto> [[1], [2], [3], [4]], 1 \<mapsto> [[5], [6], [7], [8]]], cuFilterHeaders = [0 \<mapsto> zeroHeaders, 1 \<mapsto> zeroHeaders],
        headersPerFile = 2, cuHeightToHash = [0 \<mapsto> miniBlockHash 0, 1 \<mapsto> miniBlockHash 1], cuFetcher = idlePrefetch\<rparr>\<rparr>"

lemma custom_resume_file_last_witness:
  "map_of (disk (snd (customWriteSealedFile (miniEnv 1) 0 1 spanCustom))) (cuFilterFileName spanCustom ''p2tr'' 0 1) = Some [1, 4, 1, 8] \<and>
   map_of (disk (snd (customWriteSealedFile (miniEnv 1) 0 1 spanCustom))) (cuHeaderFileName spanCustom ''segwit'' 0 1) = Some (zeroHash @ zeroHash)"
proof -
  have run: "fst (customWriteSealedFile (miniEnv 1) 0 1 spanCustom) = Inr ()" by code_simp
  then obtain p' where w: "customWriteSealedFile (miniEnv 1) 0 1 spanCustom = (Inr (), p')" by (metis prod.collapse)
  have "map_of (disk p') (cuFilterFileName spanCustom ''segwit'' 0 1) \<noteq> map_of (disk spanCustom) (cuFilterFileName spanCustom ''segwit'' 0 1)"
    using customWrite_ok [OF w, of 0]
    by (simp add: customFilterConfigs_def) (simp add: spanCustom_def newCustomFilterFiles_def miniShared_def)
  note law = custom_resume_file_last [OF w this, of 3]
  have n: "headersPerFile (mem spanCustom) = 2" by (simp add: spanCustom_def)
  have f: "fst (cuSerializeFilters (miniEnv 1) (mem spanCustom) 3 0 1) = [1, 4, 1, 8]" by code_simp
  have h: "fst (cuSerializeFilterHeaders (mem spanCustom) 0 0 1) = zeroHash @ zeroHash" by code_simp
  have names: "cfgName (customFilterConfigs ! 3) = ''p2tr''" "cfgName (customFilterConfigs ! 0) = ''segwit''" by (simp_all add: customFilterConfigs_def)
  have a: "add32 1 1 = 2" "sub32 2 2 = 0" by (simp_all add: add32_id sub32_id)
  have "map_of (disk p') (cuFilterFileName spanCustom ''p2tr'' 0 1) = Some [1, 4, 1, 8]" using law f names by simp
  moreover have "map_of (disk p') (cuHeaderFileName spanCustom ''segwit'' 0 1) = Some (zeroHash @ zeroHash)"
    using law [THEN conjunct2] h names(2) by (simp add: n a) (metis zero_less_numeral)
  ultimately show ?thesis by (simp add: w)
qed

end
