(* ===== verification/Http.thy ===== *)
theory Http
  imports CustomFilters
begin

text \<open>
  The part of \<open>net/http\<close>, \<open>encoding/json\<close> and \<open>strconv\<close> the request handlers
  use, and the helpers at the end of \<open>handlers.go\<close> that are written on top of it
  (\<open>sendError\<close>, \<open>sendJSON\<close>, \<open>sendRawBytes\<close>, the cache headers, the parameter
  parsers), the routes of \<open>createRouter\<close>, and the two structs of \<open>models.go\<close>.

  A response is built through a \<open>writer\<close>, the \<open>http.ResponseWriter\<close>: header fields
  may be set until the status line is sent, the first status sent is the one the client
  sees, and everything written is appended to the body. A handler that blocks for ever leaves
  its writer \<open>hung\<close>: what it wrote before may have reached the client, but the request is
  never answered. A client that goes away is not modelled: a write always succeeds.
\<close>

subsection \<open>Responses\<close>

type_synonym fields = "(string \<times> string list) list"

record writer =
  hfields :: fields
  sent :: "(int \<times> fields) option"
  body :: bytes
  hung :: bool

definition newWriter :: writer where "newWriter = \<lparr>hfields = [], sent = None, body = [], hung = False\<rparr>"

definition headerSet :: "string \<Rightarrow> string \<Rightarrow> writer \<Rightarrow> writer" where
  "headerSet k v w = w\<lparr>hfields := AList.update k [v] (hfields w)\<rparr>"

definition headerAdd :: "string \<Rightarrow> string \<Rightarrow> writer \<Rightarrow> writer" where
  "headerAdd k v w =
     w\<lparr>hfields := AList.update k ((case map_of (hfields w) k of None \<Rightarrow> [] | Some vs \<Rightarrow> vs) @ [v]) (hfields w)\<rparr>"

definition writeHeader :: "int \<Rightarrow> writer \<Rightarrow> writer" where
  "writeHeader code w = (case sent w of None \<Rightarrow> w\<lparr>sent := Some (code, hfields w)\<rparr> | Some _ \<Rightarrow> w)"

definition writeBody :: "bytes \<Rightarrow> writer \<Rightarrow> writer" where
  "writeBody bs w = (let w1 = writeHeader 200 w in w1\<lparr>body := body w1 @ bs\<rparr>)"

text \<open>What the client sees.\<close>

definition statusOf :: "writer \<Rightarrow> int" where
  "statusOf w = (case sent w of None \<Rightarrow> 200 | Some (code, _) \<Rightarrow> code)"

definition fieldOf :: "string \<Rightarrow> writer \<Rightarrow> string list" where
  "fieldOf k w = (case map_of (case sent w of None \<Rightarrow> hfields w | Some (_, fs) \<Rightarrow> fs) k of None \<Rightarrow> [] | Some vs \<Rightarrow> vs)"

definition strBytes :: "string \<Rightarrow> bytes" where
  "strBytes s = map (\<lambda>c. of_nat (of_char c)) s"

subsection \<open>Requests\<close>

text \<open>
  The route variables \<open>mux.Vars(r)\<close>, the query parameters, and a \<open>Range\<close> header with
  one range \<open>a-b\<close> or \<open>a-\<close>.
\<close>

record request =
  vars :: "(string \<times> string) list"
  query :: "(string \<times> string) list"
  rangeHeader :: "(nat \<times> nat option) option"

definition lookupStr :: "(string \<times> string) list \<Rightarrow> string \<Rightarrow> string" where
  "lookupStr m k = (case map_of m k of None \<Rightarrow> '''' | Some v \<Rightarrow> v)"

text \<open>\<open>strconv.ParseInt(s, 10, 64)\<close>\<close>

definition max64 :: int where "max64 = 9223372036854775807"

definition i64 :: "int \<Rightarrow> int" where
  "i64 x = (x + 9223372036854775808) mod 18446744073709551616 - 9223372036854775808"

definition parseUint :: "string \<Rightarrow> int option" where
  "parseUint s = (if s \<noteq> [] \<and> list_all isDigit s then Some (int (decVal 0 s)) else None)"

definition parseInt64 :: "string \<Rightarrow> int option" where
  "parseInt64 s =
     (case s of
        CHR ''-'' # cs \<Rightarrow> (case parseUint cs of None \<Rightarrow> None | Some v \<Rightarrow> if v \<le> max64 + 1 then Some (- v) else None)
      | CHR ''+'' # cs \<Rightarrow> (case parseUint cs of None \<Rightarrow> None | Some v \<Rightarrow> if v \<le> max64 then Some v else None)
      | cs \<Rightarrow> (case parseUint cs of None \<Rightarrow> None | Some v \<Rightarrow> if v \<le> max64 then Some v else None))"

definition parseRequestParamInt64 :: "request \<Rightarrow> string \<Rightarrow> err + int" where
  "parseRequestParamInt64 r name =
     (let paramStr = lookupStr (vars r) name in
      if length paramStr = 0 then Inl (Errf (''invalid value for parameter '' @ name) [])
      else case parseInt64 paramStr of
             None \<Rightarrow> Inl (Errf (''invalid value for parameter '' @ name) [])
           | Some paramValue \<Rightarrow> Inr paramValue)"

definition errInvalidHashLength :: err where "errInvalidHashLength = Errf ''invalid hash length'' []"

definition parseRequestParamChainHash :: "'h env \<Rightarrow> request \<Rightarrow> string \<Rightarrow> err + hash" where
  "parseRequestParamChainHash E r name =
     (let blockHash = lookupStr (vars r) name in
      if length blockHash \<noteq> 2 * HashSize then Inl errInvalidHashLength
      else NewHashFromStr E blockHash)"

subsection \<open>Sending\<close>

text \<open>Durations in seconds.\<close>

definition maxAgeTemporary :: nat where "maxAgeTemporary = 1"
definition maxAgeMemory :: nat where "maxAgeMemory = 60"
definition maxAgeDisk :: nat where "maxAgeDisk = 60 * 60 * 24 * 365"

definition HeaderCache :: string where "HeaderCache = ''Cache-Control''"
definition HeaderCORS :: string where "HeaderCORS = ''Access-Control-Allow-Origin''"
definition HeaderCORSMethods :: string where "HeaderCORSMethods = ''Access-Control-Allow-Methods''"
definition contentTypeBinary :: string where "contentTypeBinary = ''application/octet-stream''"

definition cacheControl :: "nat \<Rightarrow> string" where
  "cacheControl maxAge =
     (if maxAge = 0 then ''no-cache''
      else if maxAge \<ge> maxAgeDisk then ''public, max-age='' @ decimal maxAge @ '', stale-while-revalidate=86400''
      else ''public, max-age='' @ decimal maxAge)"

definition addCacheHeaders :: "nat \<Rightarrow> writer \<Rightarrow> writer" where
  "addCacheHeaders maxAge w = headerSet HeaderCache (cacheControl maxAge) w"

definition addCorsHeaders :: "writer \<Rightarrow> writer" where
  "addCorsHeaders w = headerAdd HeaderCORSMethods ''GET, POST, OPTIONS'' (headerAdd HeaderCORS ''*'' w)"

definition intString :: "int \<Rightarrow> string" where
  "intString n = (if n < 0 then CHR ''-'' # decimal (nat (- n)) else decimal (nat n))"

text \<open>
  \<open>err.Error()\<close>: the format of a message with its numbers put in place of the
  \<open>%d\<close>; a wrapped error follows the message after a colon.
\<close>

fun sprintf :: "string \<Rightarrow> int list \<Rightarrow> string" where
  "sprintf [] args = []"
| "sprintf [c] args = [c]"
| "sprintf (c # d # cs) args =
     (if c = CHR ''%'' \<and> d = CHR ''d'' \<and> args \<noteq> [] then intString (hd args) @ sprintf cs (tl args)
      else c # sprintf (d # cs) args)"

fun errText :: "err \<Rightarrow> string" where
  "errText (Errf msg args) = sprintf msg args"
| "errText (Wrapf msg args e) = sprintf msg args @ '': '' @ errText e"
| "errText ErrEOF = ''EOF''"
| "errText ErrUnexpectedEOF = ''unexpected EOF''"
| "errText ErrServerShutdown = ''server shutting down''"
| "errText ErrDeepReorg = ''deep reorg''"
| "errText ErrOutOfFuel = ''''"

definition sendError :: "int \<Rightarrow> err \<Rightarrow> writer \<Rightarrow> writer" where
  "sendError status e w =
     (let maxAge = (if status \<ge> 400 \<and> status < 500 then maxAgeMemory else 0) in
      writeBody (strBytes (errText e)) (writeHeader status (addCorsHeaders (addCacheHeaders maxAge w))))"

definition sendJSON :: "string \<Rightarrow> nat \<Rightarrow> writer \<Rightarrow> writer" where
  "sendJSON json maxAge w =
     writeBody (strBytes json)
       (writeHeader 200 (headerSet ''Content-Type'' ''application/json'' (addCorsHeaders (addCacheHeaders maxAge w))))"

definition sendBinary :: "stream \<Rightarrow> nat \<Rightarrow> writer \<Rightarrow> writer" where
  "sendBinary v maxAge w =
     writeBody (fst v) (writeHeader 200 (addCorsHeaders (addCacheHeaders maxAge w)))"

definition sendRawBytes :: "bytes \<Rightarrow> nat \<Rightarrow> writer \<Rightarrow> writer" where
  "sendRawBytes payload maxAge w =
     writeBody payload (writeHeader 200
       (headerSet ''Content-Length'' (decimal (length payload)) (addCorsHeaders (addCacheHeaders maxAge w))))"

definition sendJsonCopy :: "stream \<Rightarrow> nat \<Rightarrow> writer \<Rightarrow> writer" where
  "sendJsonCopy v maxAge w =
     writeBody (fst v)
       (writeHeader 200 (headerSet ''Content-Type'' ''application/json'' (addCorsHeaders (addCacheHeaders maxAge w))))"

text \<open>
  \<open>http.ServeContent\<close> for a request without conditions: the whole content, one range of it
  with status 206, or 416 when the range starts beyond the end.
\<close>

definition serveContent :: "(nat \<times> nat option) option \<Rightarrow> bytes \<Rightarrow> writer \<Rightarrow> writer" where
  "serveContent rng content w =
     (let size = length content; w1 = headerSet ''Accept-Ranges'' ''bytes'' w;
          whole = writeBody content (writeHeader 200 (headerSet ''Content-Length'' (decimal size) w1));
          refuse = (\<lambda>msg w. writeBody (strBytes (msg @ [CHR 0x0A])) (writeHeader 416 (headerSet ''Content-Type'' ''text/plain; charset=utf-8'' w)))
      in case rng of
           None \<Rightarrow> whole
         | Some (a, e) \<Rightarrow>
             if a \<ge> size
             then if size = 0 then whole
                  else refuse ''invalid range: failed to overlap'' (headerSet ''Content-Range'' (''bytes */'' @ decimal size) w)
             else let stop = (case e of None \<Rightarrow> size - 1 | Some b \<Rightarrow> min b (size - 1)) in
                  if e \<noteq> None \<and> the e < a then refuse ''invalid range'' w
                  else writeBody (take (stop + 1 - a) (drop a content))
                         (writeHeader 206
                           (headerSet ''Content-Length'' (decimal (stop + 1 - a))
                             (headerSet ''Content-Range''
                               (''bytes '' @ decimal a @ ''-'' @ decimal stop @ ''/'' @ decimal size) w1))))"

subsection \<open>JSON\<close>

datatype jsonVal = JStr string | JInt int | JBool bool

definition hex4 :: "nat \<Rightarrow> string" where
  "hex4 n = map (\<lambda>k. let d = (n div k) mod 16 in if d < 10 then char_of (48 + d) else char_of (87 + d)) [4096, 256, 16, 1]"

definition jsonChar :: "char \<Rightarrow> string" where
  "jsonChar c =
     (let n = (of_char c :: nat) in
      if c = CHR 0x22 \<or> c = CHR 0x5C then [CHR 0x5C, c]
      else if n = 10 then [CHR 0x5C, CHR ''n''] else if n = 13 then [CHR 0x5C, CHR ''r'']
      else if n = 9 then [CHR 0x5C, CHR ''t''] else if n = 8 then [CHR 0x5C, CHR ''b'']
      else if n = 12 then [CHR 0x5C, CHR ''f'']
      else if n < 32 \<or> c = CHR ''<'' \<or> c = CHR ''>'' \<or> c = CHR ''&'' then [CHR 0x5C, CHR ''u''] @ hex4 n
      else [c])"

definition jsonString :: "string \<Rightarrow> string" where
  "jsonString s = CHR 0x22 # concat (map jsonChar s) @ [CHR 0x22]"

fun jsonValue :: "jsonVal \<Rightarrow> string" where
  "jsonValue (JStr s) = jsonString s"
| "jsonValue (JInt n) = intString n"
| "jsonValue (JBool b) = (if b then ''true'' else ''false'')"

fun jsonFields :: "(string \<times> jsonVal) list \<Rightarrow> string" where
  "jsonFields [] = ''''"
| "jsonFields [(k, v)] = jsonString k @ '':'' @ jsonValue v"
| "jsonFields ((k, v) # fs) = jsonString k @ '':'' @ jsonValue v @ '','' @ jsonFields fs"

text \<open>\<open>json.NewEncoder(w).Encode\<close> of a struct: its fields in order, then a newline.\<close>

definition jsonEncode :: "(string \<times> jsonVal) list \<Rightarrow> string" where
  "jsonEncode fs = ''{'' @ jsonFields fs @ ''}'' @ [CHR 0x0A]"

record Status =
  Version :: string
  StCommit :: string
  ChainGenesisHash :: string
  ChainName :: string
  BestBlockHeight :: int
  BestBlockHash :: string
  BestFilterHeader :: string
  BestFilterHeight :: int
  BestSPTweakHeight :: int
  CustomFiltersAvailable :: bool
  BestCustomFilterHeight :: int
  AllFilesSynced :: bool
  EntriesPerHeaderFile :: int
  EntriesPerFilterFile :: int
  EntriesPerSPTweakFile :: int

definition statusJSON :: "Status \<Rightarrow> string" where
  "statusJSON st = jsonEncode
     [(''version'', JStr (Version st)), (''commit'', JStr (StCommit st)),
      (''chain_genesis_hash'', JStr (ChainGenesisHash st)), (''chain_name'', JStr (ChainName st)),
      (''best_block_height'', JInt (BestBlockHeight st)), (''best_block_hash'', JStr (BestBlockHash st)),
      (''best_filter_header'', JStr (BestFilterHeader st)), (''best_filter_height'', JInt (BestFilterHeight st)),
      (''best_sptweak_height'', JInt (BestSPTweakHeight st)),
      (''custom_filters_available'', JBool (CustomFiltersAvailable st)),
      (''best_custom_filter_height'', JInt (BestCustomFilterHeight st)),
      (''all_files_synced'', JBool (AllFilesSynced st)),
      (''entries_per_header_file'', JInt (EntriesPerHeaderFile st)),
      (''entries_per_filter_file'', JInt (EntriesPerFilterFile st)),
      (''entries_per_sptweak_file'', JInt (EntriesPerSPTweakFile st))]"

record FeeRate =
  FeeSatPerKVByte :: int
  FeeSatPerKWeight :: int
  FeeSatPerVByte :: int

definition feeRateJSON :: "FeeRate \<Rightarrow> string" where
  "feeRateJSON f = jsonEncode [(''fee_sat_per_kvbyte'', JInt (FeeSatPerKVByte f)),
     (''fee_sat_per_kweight'', JInt (FeeSatPerKWeight f)), (''fee_sat_per_vbyte'', JInt (FeeSatPerVByte f))]"

end
