(* ===== verification/HeaderFiles.thy ===== *)
theory HeaderFiles
  imports FileProducer Demo
begin

text \<open>
  \<open>header-files.go\<close>: the producer of block-header and filter-header files. Its memory
  is \<open>headerMem\<close>; \<open>headerHooks\<close> is the set of hooks \<open>newHeaderFiles\<close>
  installs, one definition per method. The interpretation \<open>hf\<close> discharges the laws of
  \<open>file_producer\<close> for them.

  The lemmas show that \<open>verifyHeaders\<close> accepts exactly the headers that form one chain
  ending in the backend's block, that such a chain is the backend's own, what the two files
  of a sealed range contain, and that the size functions give the length of what is
  written.
\<close>

record 'h headerMem =
  headers :: "int \<rightharpoonup> 'h"
  filterHeaders :: "int \<rightharpoonup> hash"

type_synonym 'h headerFiles = "'h headerMem producer"

definition headerIngest :: "'h env \<Rightarrow> int \<Rightarrow> ('h headerFiles, unit) go" where
  "headerIngest E height =
     goBind (goWrap ''error getting block hash for height'' [height] (getBlockHash E height)) (\<lambda>hash.
     goBind (goWrap ''error getting block header for hash'' [] (rpcCall E (\<lambda>V. GetBlockHeader V hash))) (\<lambda>header.
     goBind (goWrap ''error getting block filter for hash'' [] (rpcCall E (\<lambda>V. GetBlockFilter V hash))) (\<lambda>bfilter.
     goBind (goWrap ''error parsing filter header for hash'' [] (goLift (NewHashFromStr E (bfHeader bfilter))))
       (\<lambda>filterHeader.
     goModify (\<lambda>p. p\<lparr>mem := (mem p)\<lparr>headers := (headers (mem p))(height \<mapsto> header),
       filterHeaders := (filterHeaders (mem p))(height \<mapsto> filterHeader)\<rparr>\<rparr>)))))"

text \<open>The loop of \<open>verifyHeaders\<close>; \<open>running\<close> is the hash of the header before.\<close>

fun verifyHeadersLoop :: "'h env \<Rightarrow> (int \<rightharpoonup> 'h) \<Rightarrow> int \<Rightarrow> int list \<Rightarrow> hash \<Rightarrow> err + hash" where
  "verifyHeadersLoop E m fileStart [] running = Inr running"
| "verifyHeadersLoop E m fileStart (height # heights) running =
     (case m height of
        None \<Rightarrow> Inl (Errf ''missing header at height'' [height])
      | Some header \<Rightarrow>
          if height > fileStart \<and> PrevBlock E header \<noteq> running
          then Inl (Errf ''header at height does not link to its predecessor'' [height])
          else verifyHeadersLoop E m fileStart heights (BlockHash E header))"

definition verifyHeaders :: "'h env \<Rightarrow> int \<Rightarrow> int \<Rightarrow> ('h headerFiles, unit) go" where
  "verifyHeaders E fileStart fileEnd =
     goBind (goWrap ''error getting block hash at'' [fileEnd] (rpcCall E (\<lambda>V. GetBlockHash V fileEnd))) (\<lambda>endHash p.
       case verifyHeadersLoop E (headers (mem p)) fileStart [fileStart..fileEnd] zeroHash of
         Inl e \<Rightarrow> (Inl e, p)
       | Inr running \<Rightarrow>
           if running \<noteq> endHash
           then (Inl (Errf ''header chain of heights does not end in the backend's block'' [fileStart, fileEnd]), p)
           else (Inr (), p))"

subsection \<open>Serialization\<close>

definition serializeHeaders :: "'h env \<Rightarrow> 'h headerMem \<Rightarrow> int \<Rightarrow> int \<Rightarrow> stream" where
  "serializeHeaders E m startIndex endIndex =
     streamEach ''missing header at height'' (headers m) (SerializeHeader E) [startIndex..endIndex]"

definition serializeFilterHeaders :: "'h headerMem \<Rightarrow> int \<Rightarrow> int \<Rightarrow> stream" where
  "serializeFilterHeaders m startIndex endIndex =
     streamEach ''missing filter header at height'' (filterHeaders m) (\<lambda>h. h) [startIndex..endIndex]"

text \<open>The size and whether it is known; the difference of the two \<open>int32\<close> may wrap.\<close>

definition headersSize :: "int \<Rightarrow> int \<Rightarrow> int \<times> bool" where
  "headersSize startIndex endIndex =
     (if endIndex < startIndex then (0, False)
      else (add32 (sub32 endIndex startIndex) 1 * int MaxBlockHeaderPayload, True))"

definition filterHeadersSize :: "int \<Rightarrow> int \<Rightarrow> int \<times> bool" where
  "filterHeadersSize startIndex endIndex =
     (if endIndex < startIndex then (0, False)
      else (add32 (sub32 endIndex startIndex) 1 * int HashSize, True))"

definition filterHeaderAtHeight :: "'h headerMem \<Rightarrow> int \<Rightarrow> hash option" where
  "filterHeaderAtHeight m hgt = filterHeaders m hgt"

subsection \<open>The hooks\<close>

definition writeHeaders :: "'h env \<Rightarrow> string \<Rightarrow> int \<Rightarrow> int \<Rightarrow> ('h headerFiles, unit) go" where
  "writeHeaders E fileName startIndex endIndex p =
     createAndWrite E fileName (serializeHeaders E (mem p) startIndex endIndex) p"

definition writeFilterHeaders :: "'h env \<Rightarrow> string \<Rightarrow> int \<Rightarrow> int \<Rightarrow> ('h headerFiles, unit) go" where
  "writeFilterHeaders E fileName startIndex endIndex p =
     createAndWrite E fileName (serializeFilterHeaders (mem p) startIndex endIndex) p"

definition headerFileName :: "'h headerFiles \<Rightarrow> int \<Rightarrow> int \<Rightarrow> string" where
  "headerFileName p = blockFileName HeaderFileSuffix (joinPath (baseDir p) (subDir p))"

definition filterHeaderFileName :: "'h headerFiles \<Rightarrow> int \<Rightarrow> int \<Rightarrow> string" where
  "filterHeaderFileName p = blockFileName FilterHeaderFileSuffix (joinPath (baseDir p) (subDir p))"

definition headerWriteSealedFile :: "'h env \<Rightarrow> int \<Rightarrow> int \<Rightarrow> ('h headerFiles, unit) go" where
  "headerWriteSealedFile E fileStart fileEnd =
     goBind (goWrap ''refusing to seal headers'' [fileStart, fileEnd] (verifyHeaders E fileStart fileEnd)) (\<lambda>_ p.
     goBind (writeHeaders E (headerFileName p fileStart fileEnd) fileStart fileEnd) (\<lambda>_.
       writeFilterHeaders E (filterHeaderFileName p fileStart fileEnd) fileStart fileEnd) p)"

definition headerPrune :: "int \<Rightarrow> int \<Rightarrow> 'h headerMem \<Rightarrow> 'h headerMem" where
  "headerPrune start end m =
     m\<lparr>headers := deleteRange start end (headers m), filterHeaders := deleteRange start end (filterHeaders m)\<rparr>"

definition headerCachedHash :: "'h env \<Rightarrow> 'h headerMem \<Rightarrow> int \<Rightarrow> hash option" where
  "headerCachedHash E m height =
     (case headers m height of None \<Rightarrow> None | Some header \<Rightarrow> Some (BlockHash E header))"

definition headerHooks :: "'h env \<Rightarrow> 'h headerMem producerHooks" where
  "headerHooks E = \<lparr>ingest = headerIngest E, writeSealedFile = headerWriteSealedFile E,
     pruneLocked = headerPrune, cachedHash = headerCachedHash E, afterCatchUp = None\<rparr>"

definition newHeaderFiles :: "int \<Rightarrow> int \<Rightarrow> string \<Rightarrow> shared \<Rightarrow> 'h headerFiles" where
  "newHeaderFiles headersPerFile depth dir s =
     \<lparr>now = now s, disk = disk s, cache = cache s, pname = ''header'', baseDir = dir, subDir = HeaderFileDir,
      fileSuffix = HeaderFileSuffix, extractSuffix = HeaderFileSuffix, entriesPerFile = headersPerFile,
      reOrgSafeDepth = depth, startupComplete = False, currentHeight = 0, lastSealedHeight = -1,
      mem = \<lparr>headers = Map.empty, filterHeaders = Map.empty\<rparr>\<rparr>"

subsection \<open>The laws of the base\<close>

definition headerRangeFiles :: "'h headerFiles \<Rightarrow> int \<Rightarrow> int \<Rightarrow> string list" where
  "headerRangeFiles p a b = [headerFileName p a b, filterHeaderFileName p a b]"

lemma headerIngest_quiet: "keeps (quiet E) (headerIngest E h)"
  unfolding headerIngest_def by (intro keeps_intros quiet_preorder)

lemma headerIngest_looks: "headerIngest E h p = (Inr u, p') \<Longrightarrow> heightToHash (cache p') h \<noteq> None"
  unfolding headerIngest_def by (erule lookup_first) (intro keeps_intros quiet_preorder)

lemma headerIngest_ok:
  assumes "headerIngest E h p = (Inr u, p')"
  obtains x q n hd fh where "getBlockHash E h p = (Inr x, q)" "GetBlockHeader (rpc E n) x = Inr hd"
    "mem p' = \<lparr>headers = (headers (mem p))(h \<mapsto> hd), filterHeaders = (filterHeaders (mem p))(h \<mapsto> fh)\<rparr>"
proof -
  from assms obtain x q hd bf fh where g: "getBlockHash E h p = (Inr x, q)"
    and hd: "GetBlockHeader (rpc E (now q)) x = Inr hd"
    and m: "mem p' = (mem q)\<lparr>headers := (headers (mem q))(h \<mapsto> hd), filterHeaders := (filterHeaders (mem q))(h \<mapsto> fh)\<rparr>"
    by (auto simp: headerIngest_def go_simps)
  have "mem q = mem p" using getBlockHash_quiet [OF g] by (simp add: wrote_def)
  with m have "mem p' = \<lparr>headers = (headers (mem p))(h \<mapsto> hd), filterHeaders = (filterHeaders (mem p))(h \<mapsto> fh)\<rparr>" by simp
  with g hd show thesis by (rule that)
qed

lemma verifyHeaders_frame: "verifyHeaders E a b p = (r, p') \<Longrightarrow> p' = p\<lparr>now := Suc (now p)\<rparr>"
  by (auto simp: verifyHeaders_def goBind_def goWrap_def rpcCall_def split: sum.splits if_splits)

lemma headerFileName_cong: "conf q = conf p \<Longrightarrow> headerFileName q = headerFileName p \<and>
    filterHeaderFileName q = filterHeaderFileName p \<and> headerRangeFiles q = headerRangeFiles p"
  by (simp add: headerFileName_def filterHeaderFileName_def headerRangeFiles_def conf_def fun_eq_iff)

lemma headerWrite_wrote:
  assumes "headerWriteSealedFile E a b p = (r, p')"
  shows "wrote E (set (headerRangeFiles p a b)) p p'"
proof -
  let ?q = "p\<lparr>now := Suc (now p)\<rparr>" and ?F = "set (headerRangeFiles p a b)"
  have q: "wrote E ?F p ?q" by (rule tick_quiet) simp
  have "keeps (wrote E ?F) (goBind (writeHeaders E (headerFileName ?q a b) a b)
      (\<lambda>_. writeFilterHeaders E (filterHeaderFileName ?q a b) a b))"
    unfolding writeHeaders_def writeFilterHeaders_def
    by (intro keeps_intros wrote_preorder)
      (simp_all add: headerRangeFiles_def headerFileName_def filterHeaderFileName_def)
  moreover have "(\<exists>e. verifyHeaders E a b p = (Inl e, p')) \<or>
      goBind (writeHeaders E (headerFileName ?q a b) a b)
        (\<lambda>_. writeFilterHeaders E (filterHeaderFileName ?q a b) a b) ?q = (r, p')"
    using assms verifyHeaders_frame [of E a b p]
    by (cases r; auto simp: headerWriteSealedFile_def go_simps dest: verifyHeaders_frame)
  ultimately show ?thesis using q by (auto dest: keepsD verifyHeaders_frame transpD [OF wrote_preorder(2)])
qed

text \<open>A successful seal: the checks passed and both files hold the whole range.\<close>

lemma headerWrite_ok:
  assumes "headerWriteSealedFile E a b p = (Inr u, p')"
  shows "verifyHeaders E a b p = (Inr (), p\<lparr>now := Suc (now p)\<rparr>) \<and>
    snd (serializeHeaders E (mem p) a b) = None \<and> snd (serializeFilterHeaders (mem p) a b) = None \<and>
    map_of (disk p') = (map_of (disk p))(headerFileName p a b \<mapsto> fst (serializeHeaders E (mem p) a b),
      filterHeaderFileName p a b \<mapsto> fst (serializeFilterHeaders (mem p) a b))"
proof -
  from assms obtain q s where v: "verifyHeaders E a b p = (Inr (), q)"
    and w1: "createAndWrite E (headerFileName q a b) (serializeHeaders E (mem q) a b) q = (Inr (), s)"
    and w2: "createAndWrite E (filterHeaderFileName q a b) (serializeFilterHeaders (mem s) a b) s = (Inr u, p')"
    by (auto simp: headerWriteSealedFile_def go_simps writeHeaders_def writeFilterHeaders_def)
  have q: "q = p\<lparr>now := Suc (now p)\<rparr>" using v by (rule verifyHeaders_frame)
  from createAndWrite_ok [OF w1] createAndWrite_ok [OF w2] v show ?thesis
    by (simp add: q headerFileName_def filterHeaderFileName_def update_conv')
qed

interpretation hf: file_producer headerHooks headerRangeFiles
proof unfold_locales
  fix E :: "'a env" and h :: int and a b a' b' u and r :: "err + unit" and p p' q :: "'a headerFiles" and f m
  show "ingest (headerHooks E) h p = (r, p') \<Longrightarrow>
      sameBase p p' \<and> headerRangeFiles p' = headerRangeFiles p \<and> cacheGrows E p p' \<and> disk p' = disk p"
    using keepsD [OF headerIngest_quiet, of E h p r p'] headerFileName_cong [of p' p]
    by (simp add: headerHooks_def quiet_def sameBase_def)
  show "\<exists>x. cachedHash (headerHooks E) (mem p') = (cachedHash (headerHooks E) (mem p))(h \<mapsto> x)"
    if "ingest (headerHooks E) h p = (Inr u, p')"
    using that by (auto simp: headerHooks_def headerCachedHash_def fun_eq_iff elim!: headerIngest_ok)
  show "\<exists>x q. getBlockHash E h p = (Inr x, q) \<and> cachedHash (headerHooks E) (mem p') h = Some x"
    if "header_by_hash E" "ingest (headerHooks E) h p = (Inr u, p')"
    using that by (auto simp: headerHooks_def headerCachedHash_def header_by_hash_def elim!: headerIngest_ok)
  show "cacheStays p p' \<and> heightToHash (cache p') h \<noteq> None" if "ingest (headerHooks E) h p = (Inr u, p')"
    using that keepsD [OF headerIngest_quiet, of E h p "Inr u" p'] headerIngest_looks [of E h p u p'] by (simp add: headerHooks_def quiet_def)
  show "writeSealedFile (headerHooks E) a b p = (r, p') \<Longrightarrow> cacheStays p p'"
    using headerWrite_wrote [of E a b p r p'] by (simp add: headerHooks_def wrote_def)
  show "writeSealedFile (headerHooks E) a b p = (r, p') \<Longrightarrow>
      sameBase p p' \<and> headerRangeFiles p' = headerRangeFiles p \<and> cacheGrows E p p' \<and>
      cachedHash (headerHooks E) (mem p') = cachedHash (headerHooks E) (mem p)"
    using headerWrite_wrote [of E a b p r p'] headerFileName_cong [of p' p]
    by (simp add: headerHooks_def wrote_def sameBase_def)
  show "writeSealedFile (headerHooks E) a b p = (r, p') \<Longrightarrow> f \<notin> set (headerRangeFiles p a b) \<Longrightarrow>
      map_of (disk p') f = map_of (disk p) f"
    using headerWrite_wrote [of E a b p r p'] by (simp add: headerHooks_def wrote_def)
  show "writeSealedFile (headerHooks E) a b p = (Inr u, p') \<Longrightarrow> f \<in> set (headerRangeFiles p a b) \<Longrightarrow>
      fileExists (disk p') f"
    using headerWrite_ok [of E a b p u p'] by (auto simp: headerHooks_def fileExists_def headerRangeFiles_def)
  show "cachedHash (headerHooks E) (pruneLocked (headerHooks E) a b m) h =
      (if a \<le> h \<and> h \<le> b then None else cachedHash (headerHooks E) m h)"
    by (simp add: headerHooks_def headerCachedHash_def headerPrune_def deleteRange_apply)
  show "conf q = conf p \<Longrightarrow> headerRangeFiles q = headerRangeFiles p"
    using headerFileName_cong [of q p] by simp
  show "0 \<le> a \<Longrightarrow> 0 \<le> b \<Longrightarrow> 0 \<le> a' \<Longrightarrow> 0 \<le> b' \<Longrightarrow> b \<noteq> b' \<Longrightarrow>
      set (headerRangeFiles p a b) \<inter> set (headerRangeFiles p a' b') = {}"
    by (simp add: headerRangeFiles_def headerFileName_def filterHeaderFileName_def blockFileName_eq_iff)
  show "afterCatchUp (headerHooks E) = None"
    by (simp add: headerHooks_def)
qed

subsection \<open>What \<open>verifyHeaders\<close> proves\<close>

fun linkedHeaders :: "'h env \<Rightarrow> 'h list \<Rightarrow> bool" where
  "linkedHeaders E (x # y # hs) \<longleftrightarrow> PrevBlock E y = BlockHash E x \<and> linkedHeaders E (y # hs)"
| "linkedHeaders E hs \<longleftrightarrow> True"

lemma verifyHeadersLoop_tail:
  "(\<forall>j\<in>set js. a < j) \<Longrightarrow>
   verifyHeadersLoop E m a js (BlockHash E h) = Inr r \<longleftrightarrow>
   (\<exists>hs. collect m js = Inr hs \<and> linkedHeaders E (h # hs) \<and> r = BlockHash E (last (h # hs)))"
proof (induction js arbitrary: h)
  case (Cons j js)
  show ?case
  proof (cases "m j")
    case (Some y)
    with Cons show ?thesis by (auto split: sum.splits)
  qed simp
qed auto

lemma verifyHeadersLoop_iff:
  assumes "a \<le> b"
  shows "verifyHeadersLoop E m a [a..b] z = Inr r \<longleftrightarrow>
    (\<exists>hs. collect m [a..b] = Inr hs \<and> linkedHeaders E hs \<and> r = BlockHash E (last hs))"
proof -
  have ab: "[a..b] = a # [a + 1..b]" using assms by (rule upto_rec1)
  show ?thesis
  proof (cases "m a")
    case (Some h)
    have "verifyHeadersLoop E m a [a + 1..b] (BlockHash E h) = Inr r \<longleftrightarrow>
        (\<exists>hs. collect m [a + 1..b] = Inr hs \<and> linkedHeaders E (h # hs) \<and> r = BlockHash E (last (h # hs)))"
      by (rule verifyHeadersLoop_tail) simp
    with Some show ?thesis unfolding ab by (auto split: sum.splits)
  qed (simp add: ab)
qed

lemma linkedHeaders_snoc:
  "linkedHeaders E (hs @ [x, y]) \<longleftrightarrow> PrevBlock E y = BlockHash E x \<and> linkedHeaders E (hs @ [x])"
proof (induction hs)
  case (Cons h hs)
  then show ?case by (cases hs) auto
qed simp

text \<open>Two chains of one length that end in the same block are the same chain.\<close>

lemma SerializeHeader_inj: "header_codec E \<Longrightarrow> SerializeHeader E x = SerializeHeader E y \<Longrightarrow> x = y"
  unfolding header_codec_def by (metis Inr_inject Pair_inject)

lemma linkedHeaders_unique:
  assumes "header_codec E" "length hs = length bs" "linkedHeaders E hs" "linkedHeaders E bs"
    and "hs \<noteq> []" "BlockHash E (last hs) = BlockHash E (last bs)"
    and "inj_on (DoubleHash E) (SerializeHeader E ` (set hs \<union> set bs))"
  shows "hs = bs"
  using assms(2-)
proof (induction hs arbitrary: bs rule: rev_induct)
  case (snoc x hs)
  from snoc.prems(1) obtain bs' y where bs: "bs = bs' @ [y]" by (cases bs rule: rev_cases) auto
  have len: "length hs = length bs'" using snoc.prems(1) bs by simp
  have "DoubleHash E (SerializeHeader E x) = DoubleHash E (SerializeHeader E y)"
    using snoc.prems(5) bs assms(1) by (simp add: header_codec_def)
  then have "SerializeHeader E x = SerializeHeader E y"
    by (rule inj_onD [OF snoc.prems(6)]) (simp_all add: bs)
  with assms(1) have xy: "x = y" by (rule SerializeHeader_inj)
  show ?case
  proof (cases hs rule: rev_cases)
    case Nil
    with len bs xy show ?thesis by simp
  next
    case (snoc hs0 u)
    with len obtain bs0 v where b0: "bs' = bs0 @ [v]" by (cases bs' rule: rev_cases) auto
    have "linkedHeaders E hs" "PrevBlock E x = BlockHash E u" "linkedHeaders E bs'" "PrevBlock E y = BlockHash E v"
      using snoc.prems(2,3) snoc b0 bs by (simp_all add: linkedHeaders_snoc)
    moreover have "inj_on (DoubleHash E) (SerializeHeader E ` (set hs \<union> set bs'))"
      by (rule inj_on_subset [OF snoc.prems(6)]) (auto simp: bs)
    ultimately have "hs = bs'" using len snoc b0 xy by (intro snoc.IH) simp_all
    with bs xy show ?thesis by simp
  qed
qed simp

lemma verifyHeaders_iff:
  assumes "a \<le> b"
  shows "fst (verifyHeaders E a b p) = Inr () \<longleftrightarrow>
    (\<exists>hs. collect (headers (mem p)) [a..b] = Inr hs \<and> linkedHeaders E hs \<and>
       GetBlockHash (rpc E (now p)) b = Inr (BlockHash E (last hs)))"
  using verifyHeadersLoop_iff [OF assms, of E "headers (mem p)" zeroHash]
  by (auto simp: verifyHeaders_def goBind_def goWrap_def rpcCall_def split: sum.splits) blast

subsection \<open>Sealed files\<close>

text \<open>Two heights of the miniature chain in memory.\<close>

definition miniHeaderFiles :: "miniHeader headerFiles" where
  "miniHeaderFiles =
     (newHeaderFiles 2 0 ''/d'' \<lparr>now = 0, disk = [], cache = newH2HCache\<rparr>)
       \<lparr>currentHeight := 1,
        mem := \<lparr>headers = [0 \<mapsto> (0, 255), 1 \<mapsto> (1, 0)],
                filterHeaders = [0 \<mapsto> miniFilterHeader 0, 1 \<mapsto> miniFilterHeader 1]\<rparr>\<rparr>"

lemmas mini_defs = miniHeaderFiles_def newHeaderFiles_def miniEnv_def miniChain_def miniBlockHash_def

text \<open>
  Claim C24. Whenever \<open>headerFiles.writeSealedFile\<close> succeeds, the block-header file on disk
  is the concatenation of the serialized headers of the backend's own chain: of any linked
  sequence of headers, as long as the range, that ends in the block the backend reports at
  the end of the range. A header of a reorged-away block cannot be sealed, unless two of the
  headers involved collide under the hash.
\<close>

theorem sealed_headers_are_best_chain:
  assumes "header_codec E" "a \<le> b" "headerWriteSealedFile E a b p = (Inr u, p')"
    and best: "int (length bs) = b - a + 1" "linkedHeaders E bs"
      "GetBlockHash (rpc E (now p)) b = Inr (BlockHash E (last bs))"
    and "inj_on (DoubleHash E) (SerializeHeader E ` (ran (headers (mem p)) \<union> set bs))"
  shows "map_of (disk p') (headerFileName p a b) = Some (concat (map (SerializeHeader E) bs))"
proof -
  note w = headerWrite_ok [OF assms(3)]
  then have "fst (verifyHeaders E a b p) = Inr ()" by simp
  then obtain hs where hs: "collect (headers (mem p)) [a..b] = Inr hs" "linkedHeaders E hs"
    "BlockHash E (last hs) = BlockHash E (last bs)"
    unfolding verifyHeaders_iff [OF assms(2)] using best(3) by auto
  from hs(1) have m: "map (headers (mem p)) [a..b] = map Some hs" by (simp add: collect_Inr)
  from arg_cong [OF m, of length] have "nat (b - a + 1) = length hs" by simp
  then have len: "length hs = length bs" unfolding best(1) [symmetric] by simp
  have "y \<in> ran (headers (mem p))" if "y \<in> set hs" for y
  proof -
    have "Some y \<in> set (map Some hs)" using that by simp
    then show ?thesis unfolding m [symmetric] by (auto intro: ranI)
  qed
  then have "inj_on (DoubleHash E) (SerializeHeader E ` (set hs \<union> set bs))"
    by (intro inj_on_subset [OF assms(7)]) auto
  moreover have "hs \<noteq> []" using len best(1) assms(2) by auto
  ultimately have "hs = bs" by (intro linkedHeaders_unique [OF assms(1) len hs(2) best(2) _ hs(3)])
  then have "fst (serializeHeaders E (mem p) a b) = concat (map (SerializeHeader E) bs)"
    using streamEach_collect [OF hs(1)] by (simp add: serializeHeaders_def)
  with w show ?thesis by (simp add: headerFileName_def filterHeaderFileName_def blockFileName_def
      HeaderFileSuffix_def FilterHeaderFileSuffix_def)
qed

lemma mini_headers_sealed:
  "headerWriteSealedFile (miniEnv 3) 0 1 miniHeaderFiles =
     (Inr (), snd (headerWriteSealedFile (miniEnv 3) 0 1 miniHeaderFiles))"
  by (simp add: headerWriteSealedFile_def verifyHeaders_def goBind_def goWrap_def rpcCall_def upto_01
      writeHeaders_def writeFilterHeaders_def createAndWrite_def serializeHeaders_def serializeFilterHeaders_def mini_defs)

lemma sealed_headers_are_best_chain_witness:
  "map_of (disk (snd (headerWriteSealedFile (miniEnv 3) 0 1 miniHeaderFiles))) (headerFileName miniHeaderFiles 0 1)
   = Some (miniSerialize (0, 255) @ miniSerialize (1, 0))"
proof -
  have "hd (miniSerialize h) = fst h" "miniSerialize h \<noteq> []" for h by (simp_all add: miniSerialize_def)
  then have "inj_on miniHash (miniSerialize ` {(0, 255), (1, 0)})"
    by (auto simp: inj_on_def miniHash_def)
  moreover have "ran (headers (mem miniHeaderFiles)) \<union> {(0, 255), (1, 0)} = {(0, 255), (1, 0)}"
    by (auto simp: mini_defs ran_def split: if_splits)
  ultimately show ?thesis
    using sealed_headers_are_best_chain [OF mini_header_codec _ mini_headers_sealed, of "[(0, 255), (1, 0)]"]
    by (simp add: mini_defs)
qed

text \<open>
  The sizes announced to clients before the body is streamed are exact: where the
  headers of the range are in memory, \<open>headersSize\<close> and \<open>filterHeadersSize\<close> are the
  lengths of what \<open>serializeHeaders\<close> and \<open>serializeFilterHeaders\<close> write.
\<close>

theorem header_sizes_exact:
  assumes "header_codec E" "a \<le> b" "b - a < 2147483647"
    and "snd (serializeHeaders E m a b) = None" "snd (serializeFilterHeaders m a b) = None"
    and "\<forall>h\<in>ran (filterHeaders m). length h = HashSize"
  shows "headersSize a b = (int (length (fst (serializeHeaders E m a b))), True) \<and>
    filterHeadersSize a b = (int (length (fst (serializeFilterHeaders m a b))), True)"
proof -
  have n: "add32 (sub32 b a) 1 = int (length [a..b])" using assms(2,3) by (simp add: sub32_id add32_id)
  have "length (fst (serializeHeaders E m a b)) = length [a..b] * MaxBlockHeaderPayload"
    unfolding serializeHeaders_def
    by (rule streamEach_length) (use assms in \<open>simp_all add: header_codec_def serializeHeaders_def\<close>)
  moreover have "length (fst (streamEach msg (filterHeaders m) (\<lambda>h. h) js)) = length js * HashSize"
    if "snd (streamEach msg (filterHeaders m) (\<lambda>h. h) js) = None" for msg js
    using that assms(6) by (induction js) (auto split: option.splits prod.splits intro: ranI)
  ultimately show ?thesis
    using assms(2,5) n by (simp add: headersSize_def filterHeadersSize_def serializeFilterHeaders_def)
qed

lemma header_sizes_example:
  "headersSize 0 1 = (160, True) \<and> filterHeadersSize 0 1 = (64, True) \<and>
   length (fst (serializeHeaders (miniEnv 3) (mem miniHeaderFiles) 0 1)) = 160"
proof -
  have ok: "snd (serializeHeaders (miniEnv 3) (mem miniHeaderFiles) 0 1) = None"
    "snd (serializeFilterHeaders (mem miniHeaderFiles) 0 1) = None"
    by (simp_all add: serializeHeaders_def serializeFilterHeaders_def streamEach_None upto_01 mini_defs)
  have len: "\<forall>h\<in>ran (filterHeaders (mem miniHeaderFiles)). length h = HashSize"
    by (auto simp: mini_defs ran_def miniFilterHeader_def HashSize_def split: if_splits)
  show ?thesis
    using header_sizes_exact [OF mini_header_codec _ _ ok len]
    by (simp add: headersSize_def filterHeadersSize_def MaxBlockHeaderPayload_def HashSize_def sub32_id add32_id)
qed

end
