(* ===== verification/Producers.thy ===== *)
theory Producers
  imports HeaderFiles CFilterFiles SilentPayments CustomFilters
begin

text \<open>
  The life cycle of \<open>file-producer.go\<close> for the four producers of the program. Every
  property here is a law of the locale \<open>file_producer\<close>, read off the interpretations
  \<open>hf\<close> (block headers), \<open>cf\<close> (basic filters), \<open>spt\<close> (Silent Payments)
  and \<open>cuf\<close> (custom filters). Each of the following definitions states one law for one
  producer, given by its hooks and the files of a range.
\<close>

definition keepsTail :: "'h env \<Rightarrow> 'm producerHooks \<Rightarrow> ('m producer \<Rightarrow> int \<Rightarrow> int \<Rightarrow> string list) \<Rightarrow> bool" where
  "keepsTail E H files \<longleftrightarrow>
     (\<forall>k p u p'. tailInv H files p \<and> pollLoop k E H p = (Inr u, p') \<longrightarrow>
        tailInv H files p' \<and> lastSealedHeight p \<le> lastSealedHeight p')"

definition sealedForever :: "'h env \<Rightarrow> 'm producerHooks \<Rightarrow> ('m producer \<Rightarrow> int \<Rightarrow> int \<Rightarrow> string list) \<Rightarrow> bool" where
  "sealedForever E H files \<longleftrightarrow>
     (\<forall>n p r p' k f. tailInv H files p \<and> pollLoop n E H p = (r, p') \<and>
        0 \<le> k \<and> k * entriesPerFile p + entriesPerFile p - 1 \<le> lastSealedHeight p \<and> f \<in> rangeFiles files p k \<longrightarrow>
        fileExists (disk p) f \<and> map_of (disk p') f = map_of (disk p) f)"

definition sealsWholeFiles :: "'m producerHooks \<Rightarrow> ('m producer \<Rightarrow> int \<Rightarrow> int \<Rightarrow> string list) \<Rightarrow> bool" where
  "sealsWholeFiles H files \<longleftrightarrow>
     (\<forall>p r p'. tailInv H files p \<and> sealReadyFiles H p = (r, p') \<longrightarrow>
        r \<noteq> Inl ErrOutOfFuel \<and> tailInv H files p' \<and>
        (lastSealedHeight p' = lastSealedHeight p \<or> lastSealedHeight p' \<le> currentHeight p - reOrgSafeDepth p) \<and>
        (r = Inr () \<longrightarrow> currentHeight p - reOrgSafeDepth p < lastSealedHeight p' + entriesPerFile p'))"

definition rollsBack :: "'h env \<Rightarrow> 'm producerHooks \<Rightarrow> ('m producer \<Rightarrow> int \<Rightarrow> int \<Rightarrow> string list) \<Rightarrow> bool" where
  "rollsBack E H files \<longleftrightarrow>
     (\<forall>p V c. tailInv H files p \<and> stableFrom E (now p) V \<and>
        (\<forall>h. lastSealedHeight p < h \<and> h \<le> currentHeight p \<longrightarrow> (\<exists>x. GetBlockHash V h = Inr x)) \<and>
        lastSealedHeight p < c \<and> c < currentHeight p \<and> onChain V H p c \<and>
        (\<forall>h. c < h \<and> h \<le> currentHeight p \<longrightarrow> \<not> onChain V H p h) \<longrightarrow>
        (\<exists>p'. handleReorg E H p = (Inr (), p') \<and> currentHeight p' = c \<and> disk p' = disk p \<and>
           lastSealedHeight p' = lastSealedHeight p \<and> tailInv H files p' \<and>
           (cacheInv (cache p) \<longrightarrow> (\<forall>h>c. heightToHash (cache p') h = None))))"

definition refusesDeep :: "'h env \<Rightarrow> 'm producerHooks \<Rightarrow> ('m producer \<Rightarrow> int \<Rightarrow> int \<Rightarrow> string list) \<Rightarrow> bool" where
  "refusesDeep E H files \<longleftrightarrow>
     (\<forall>p V. tailInv H files p \<and> stableFrom E (now p) V \<and> lastSealedHeight p < currentHeight p \<and>
        (\<forall>h. lastSealedHeight p < h \<and> h \<le> currentHeight p \<longrightarrow>
           (\<exists>x. GetBlockHash V h = Inr x) \<and> \<not> onChain V H p h) \<longrightarrow>
        (\<exists>e p'. handleReorg E H p = (Inl e, p') \<and> errors_is e ErrDeepReorg \<and> p' = p\<lparr>now := now p'\<rparr>))"

definition followsChain :: "'h env \<Rightarrow> 'm producerHooks \<Rightarrow> ('m producer \<Rightarrow> int \<Rightarrow> int \<Rightarrow> string list) \<Rightarrow> bool" where
  "followsChain E H files \<longleftrightarrow>
     (\<forall>p V N u p'. tailInv H files p \<and> pollOnce E H p = (Inr u, p') \<and>
        GetBlockCount V = Inr N \<and> 0 \<le> N \<and> N \<le> heightBound \<and>
        (\<forall>h. 0 \<le> h \<and> h \<le> N \<longrightarrow> (\<exists>x. GetBlockHash V h = Inr x)) \<and>
        stableFrom E (now p) V \<and> linkedTo V H p \<and> cacheInv (cache p) \<and> cacheOn V (currentHeight p + 1) p \<longrightarrow>
        agrees V H p' \<and> N \<le> currentHeight p')"

definition resumesFrom :: "'h env \<Rightarrow> 'm producerHooks \<Rightarrow> ('m producer \<Rightarrow> int \<Rightarrow> int \<Rightarrow> string list) \<Rightarrow> bool" where
  "resumesFrom E H files \<longleftrightarrow>
     (\<forall>p k N u p'.
        sealedRanges (disk p) (joinPath (baseDir p) (subDir p)) (fileSuffix p) (entriesPerFile p) k \<and>
        extractSuffix p = fileSuffix p \<and> plainDir (joinPath (baseDir p) (subDir p)) \<and> confOK p \<and>
        dom (cachedHash H (mem p)) = {} \<and>
        0 \<le> k \<and> k * entriesPerFile p \<le> 10000000 \<and> k * entriesPerFile p \<noteq> 1 \<and>
        (\<forall>j f. 0 \<le> j \<and> j < k \<and> f \<in> rangeFiles files p j \<longrightarrow> fileExists (disk p) f) \<and>
        k * entriesPerFile p \<le> N \<and> N \<le> heightBound \<and> startUp E H N p = (Inr u, p') \<longrightarrow>
        tailInv H files p' \<and> currentHeight p' = N \<and> startupComplete p' \<and>
        k * entriesPerFile p - 1 \<le> lastSealedHeight p' \<and>
        (\<forall>j f. 0 \<le> j \<and> j < k \<and> f \<in> rangeFiles files p j \<longrightarrow> map_of (disk p') f = map_of (disk p) f))"

subsection \<open>The laws hold of anything with the interface\<close>

context file_producer
begin

lemma keepsTail: "boundedBackend E \<Longrightarrow> keepsTail E (H E) files"
  unfolding keepsTail_def using pollLoop_ok by (auto simp: evolves_def)

lemma sealedForever: "boundedBackend E \<Longrightarrow> sealedForever E (H E) files"
  unfolding sealedForever_def using pollLoop_evolves sealed_unchanged by metis

lemma sealsWholeFiles: "sealsWholeFiles (H E) files"
  unfolding sealsWholeFiles_def using sealReadyFiles_spec sealReadyFiles_no_fuel
  by (metis fst_conv sealPost_def)

lemma rollsBack: "rollsBack E (H E) files"
  unfolding rollsBack_def using shallow_reorg by (smt (verit))

lemma refusesDeep: "refusesDeep E (H E) files"
  unfolding refusesDeep_def using deep_reorg by (smt (verit))

lemma followsChain: "header_by_hash E \<Longrightarrow> followsChain E (H E) files"
  unfolding followsChain_def using pollOnce_follows by (smt (verit))

lemma resumesFrom: "resumesFrom E (H E) files"
  unfolding resumesFrom_def using startUp_ok by (smt (verit))

end

subsection \<open>The four producers\<close>

text \<open>
  Claim C8. A sealed file never changes again, for each of the four producers: once all of a
  range is at or below the last sealed height, its files are on disk, and any number of
  turns of the poll loop, whether it goes on or stops with an error in the middle of a
  write, through re-orgs and failing requests, leaves their contents as they are.
\<close>

theorem sealed_files_never_change:
  assumes "boundedBackend E"
  shows "sealedForever E (headerHooks E) headerRangeFiles \<and> sealedForever E (cfHooks E) cfRangeFiles \<and>
    sealedForever E (spHooks B E) spRangeFiles \<and> sealedForever E (customHooks B E) customRangeFiles"
  using assms hf.sealedForever cf.sealedForever spt.sealedForever cuf.sealedForever by blast

text \<open>
  Claim C9. The invariant of the in-memory tail holds after every turn of the poll loop, for each
  of the four producers: memory holds exactly the heights above the last sealed one up to
  the current one, the last sealed height ends a file, every file below it is on disk, and
  the last sealed height never goes back.
\<close>

theorem tail_invariant:
  assumes "boundedBackend E"
  shows "keepsTail E (headerHooks E) headerRangeFiles \<and> keepsTail E (cfHooks E) cfRangeFiles \<and>
    keepsTail E (spHooks B E) spRangeFiles \<and> keepsTail E (customHooks B E) customRangeFiles"
  using assms hf.keepsTail cf.keepsTail spt.keepsTail cuf.keepsTail by blast

text \<open>
  Claim C10. The sealing loop ends, seals whole files only, seals nothing within the re-org-safe
  depth of the tip, and when it succeeds has left no whole file unsealed below that depth.
\<close>

theorem sealing_is_safe_and_complete:
  "sealsWholeFiles (headerHooks E) headerRangeFiles \<and> sealsWholeFiles (cfHooks E) cfRangeFiles \<and>
   sealsWholeFiles (spHooks B E) spRangeFiles \<and> sealsWholeFiles (customHooks B E) customRangeFiles"
  using hf.sealsWholeFiles cf.sealsWholeFiles spt.sealsWholeFiles cuf.sealsWholeFiles by blast

text \<open>
  Claim C11. A re-org above the sealed files is handled: with the highest block still shared with
  the backend at \<open>c\<close>, above the last sealed height, \<open>handleReorg\<close> returns without
  error at height \<open>c\<close>, has dropped what was above from memory and from the shared
  cache of hashes, and has touched no file.
\<close>

theorem reorg_rolls_back:
  "rollsBack E (headerHooks E) headerRangeFiles \<and> rollsBack E (cfHooks E) cfRangeFiles \<and>
   rollsBack E (spHooks B E) spRangeFiles \<and> rollsBack E (customHooks B E) customRangeFiles"
  using hf.rollsBack cf.rollsBack spt.rollsBack cuf.rollsBack by blast

text \<open>
  Claim C13. When no block in memory is on the backend's chain any more, \<open>handleReorg\<close>
  stops with \<open>errDeepReorg\<close> and changes nothing, for each of the four producers.
\<close>

theorem deep_reorg_refused:
  "refusesDeep E (headerHooks E) headerRangeFiles \<and> refusesDeep E (cfHooks E) cfRangeFiles \<and>
   refusesDeep E (spHooks B E) spRangeFiles \<and> refusesDeep E (customHooks B E) customRangeFiles"
  using hf.refusesDeep cf.refusesDeep spt.refusesDeep cuf.refusesDeep by blast

text \<open>
  Claim C12. One successful poll catches up with a backend that answers from one chain: afterwards
  every block in memory is on that chain and the current height has reached its tip, whatever
  chain memory was on before. It needs that blocks in memory commit to their predecessors, that the
  header asked for by a hash has that hash, and that the shared cache of hashes holds no hash of
  another chain above the producer's own tip. The last is not always so: a producer that is ahead
  may have left the hash of a block there that a re-org has removed since, and until it has rolled
  back itself the others take that block in (\<open>stale_cache_followed\<close>).
\<close>

theorem poll_follows_backend:
  assumes "header_by_hash E"
  shows "followsChain E (headerHooks E) headerRangeFiles \<and> followsChain E (cfHooks E) cfRangeFiles \<and>
    followsChain E (spHooks B E) spRangeFiles \<and> followsChain E (customHooks B E) customRangeFiles"
  using assms hf.followsChain cf.followsChain spt.followsChain cuf.followsChain by blast

text \<open>
  Claim C17. A restart resumes where the files on disk end: a producer that finds the files of the
  first \<open>k\<close> ranges and catches up to height \<open>N\<close> has the tail invariant, has reached
  \<open>N\<close>, and has left the files it found as they were.
\<close>

theorem restart_resumes:
  "resumesFrom E (headerHooks E) headerRangeFiles \<and> resumesFrom E (cfHooks E) cfRangeFiles \<and>
   resumesFrom E (spHooks B E) spRangeFiles \<and> resumesFrom E (customHooks B E) customRangeFiles"
  using hf.resumesFrom cf.resumesFrom spt.resumesFrom cuf.resumesFrom by blast

subsection \<open>Concrete runs\<close>

text \<open>
  A header producer with files of two headers and no safety margin: in \<open>sealedMini\<close> the
  first file is sealed, in \<open>reorgedMini x y\<close> nothing is and the blocks \<open>x\<close> and
  \<open>y\<close> are in memory at heights 0 and 1.
\<close>

definition sealedMini :: "miniHeader headerFiles" where
  "sealedMini = (newHeaderFiles 2 0 ''/d'' miniShared)
     \<lparr>currentHeight := 1, lastSealedHeight := 1,
      disk := [(headerFileName (newHeaderFiles 2 0 ''/d'' miniShared :: miniHeader headerFiles) 0 1, [7]),
               (filterHeaderFileName (newHeaderFiles 2 0 ''/d'' miniShared :: miniHeader headerFiles) 0 1, [8])]\<rparr>"

definition reorgedMini :: "byte \<Rightarrow> byte \<Rightarrow> miniHeader headerFiles" where
  "reorgedMini x y = (newHeaderFiles 2 0 ''/d'' miniShared)
     \<lparr>currentHeight := 1, mem := \<lparr>headers = [0 \<mapsto> (x, 255), 1 \<mapsto> (y, 0)],
        filterHeaders = [0 \<mapsto> zeroHash, 1 \<mapsto> zeroHash]\<rparr>\<rparr>"

lemma sealedMini_names:
  "headerFileName sealedMini = headerFileName (newHeaderFiles 2 0 ''/d'' miniShared :: miniHeader headerFiles)"
  "filterHeaderFileName sealedMini = filterHeaderFileName (newHeaderFiles 2 0 ''/d'' miniShared :: miniHeader headerFiles)"
  by (simp_all add: fun_eq_iff headerFileName_def filterHeaderFileName_def sealedMini_def newHeaderFiles_def)

lemma sealedMini_tail: "tailInv (headerHooks (miniEnv n)) headerRangeFiles sealedMini"
proof -
  have "sealedOnDisk headerRangeFiles sealedMini"
    unfolding sealedOnDisk_def
  proof (intro allI impI ballI)
    fix k f
    assume k: "0 \<le> k" "k * entriesPerFile sealedMini + entriesPerFile sealedMini - 1 \<le> lastSealedHeight sealedMini"
      and f: "f \<in> rangeFiles headerRangeFiles sealedMini k"
    have n: "entriesPerFile sealedMini = 2" "lastSealedHeight sealedMini = 1" by (simp_all add: sealedMini_def newHeaderFiles_def)
    with k have "k = 0" by simp
    with f n have "f = headerFileName sealedMini 0 1 \<or> f = filterHeaderFileName sealedMini 0 1"
      by (simp add: rangeFiles_def headerRangeFiles_def)
    then show "fileExists (disk sealedMini) f" unfolding sealedMini_names by (auto simp: fileExists_def sealedMini_def)
  qed
  then show ?thesis
    by (simp add: tailInv_def tailUpto_def confOK_def aligned_def heightBound_def)
      (simp add: sealedMini_def newHeaderFiles_def headerHooks_def headerCachedHash_def fun_eq_iff)
qed

lemma reorgedMini_tail: "tailInv (headerHooks (miniEnv n)) headerRangeFiles (reorgedMini x y)"
proof -
  have "k * 2 + 1 \<le> - 1 \<Longrightarrow> \<not> 0 \<le> k" for k :: int by simp
  then have "sealedOnDisk headerRangeFiles (reorgedMini x y)"
    by (auto simp: sealedOnDisk_def reorgedMini_def newHeaderFiles_def)
  then show ?thesis
    by (simp add: tailInv_def tailUpto_def confOK_def aligned_def heightBound_def)
      (auto simp: reorgedMini_def newHeaderFiles_def headerHooks_def headerCachedHash_def split: if_splits option.splits)
qed

lemma mini_bounded: "0 \<le> n \<Longrightarrow> n \<le> heightBound \<Longrightarrow> boundedBackend (miniEnv n)"
  by (simp add: boundedBackend_def miniEnv_def miniChain_def)

lemma sealed_files_never_change_witness:
  "map_of (disk (snd (pollLoop 3 (miniEnv 5) (headerHooks (miniEnv 5)) sealedMini))) (headerFileName sealedMini 0 1) = Some [7]"
proof -
  have "boundedBackend (miniEnv 5)" by (rule mini_bounded) (simp_all add: heightBound_def)
  from sealed_files_never_change [OF this] have law: "sealedForever (miniEnv 5) (headerHooks (miniEnv 5)) headerRangeFiles" by blast
  have "headerFileName sealedMini 0 1 \<in> rangeFiles headerRangeFiles sealedMini 0"
    by (simp add: rangeFiles_def headerRangeFiles_def) (simp add: sealedMini_def newHeaderFiles_def)
  moreover have "0 * entriesPerFile sealedMini + entriesPerFile sealedMini - 1 \<le> lastSealedHeight sealedMini"
    by (simp add: sealedMini_def newHeaderFiles_def)
  moreover have "map_of (disk sealedMini) (headerFileName sealedMini 0 1) = Some [7]"
    unfolding sealedMini_names by (simp add: sealedMini_def)
  ultimately show ?thesis
    using law [unfolded sealedForever_def] sealedMini_tail [of 5] by (metis order_refl prod.collapse)
qed

lemma tail_invariant_witness:
  "tailInv (headerHooks (miniEnv 1)) headerRangeFiles (snd (pollLoop 1 (miniEnv 1) (headerHooks (miniEnv 1)) sealedMini))"
proof -
  have "boundedBackend (miniEnv 1)" by (rule mini_bounded) (simp_all add: heightBound_def)
  from tail_invariant [OF this] have law: "keepsTail (miniEnv 1) (headerHooks (miniEnv 1)) headerRangeFiles" by blast
  have "fst (pollLoop 1 (miniEnv 1) (headerHooks (miniEnv 1)) sealedMini) = Inr ()"
    by (simp add: pollOnce_def goBind_def goRet_def checkQuit_def goWrap_def rpcCall_def tipReorged_def miniEnv_def
        miniChain_def i32_id headerHooks_def headerCachedHash_def sealedMini_def newHeaderFiles_def)
  then show ?thesis using law [unfolded keepsTail_def] sealedMini_tail [of 1] by (metis prod.collapse)
qed

lemma reorg_rolls_back_witness:
  "currentHeight (snd (handleReorg (miniEnv 1) (headerHooks (miniEnv 1)) (reorgedMini 0 9))) = 0"
proof -
  let ?p = "reorgedMini 0 9" and ?H = "headerHooks (miniEnv 1)"
  have p: "lastSealedHeight ?p = -1" "currentHeight ?p = 1" by (simp_all add: reorgedMini_def newHeaderFiles_def)
  have st: "stableFrom (miniEnv 1) (now ?p) (miniChain 1)" by (simp add: stableFrom_def miniEnv_def)
  have V: "\<forall>h. - 1 < h \<and> h \<le> 1 \<longrightarrow> (\<exists>x. GetBlockHash (miniChain 1) h = Inr x)" by (simp add: miniChain_def)
  have c: "onChain (miniChain 1) ?H ?p 0"
    by (simp add: onChain_def miniChain_def headerHooks_def headerCachedHash_def reorgedMini_def miniEnv_def miniBlockHash_def)
  have "\<not> onChain (miniChain 1) ?H ?p 1"
    by (simp add: onChain_def miniChain_def headerHooks_def headerCachedHash_def reorgedMini_def miniEnv_def miniBlockHash_def)
  moreover have "h = 1" if "0 < h" "h \<le> 1" for h :: int using that by simp
  ultimately have off: "\<forall>h. 0 < h \<and> h \<le> 1 \<longrightarrow> \<not> onChain (miniChain 1) ?H ?p h" by blast
  have law: "rollsBack (miniEnv 1) ?H headerRangeFiles"
    using reorg_rolls_back [of "miniEnv 1" miniBlocks] by blast
  have "\<exists>p'. handleReorg (miniEnv 1) ?H ?p = (Inr (), p') \<and> currentHeight p' = 0"
    using law [unfolded rollsBack_def, rule_format, of ?p "miniChain 1" 0] reorgedMini_tail st V c off p by auto
  then show ?thesis by auto
qed

lemma deep_reorg_refused_witness:
  "\<exists>e. fst (handleReorg (miniEnv 1) (headerHooks (miniEnv 1)) (reorgedMini 8 9)) = Inl e \<and> errors_is e ErrDeepReorg"
proof -
  let ?p = "reorgedMini 8 9" and ?H = "headerHooks (miniEnv 1)"
  have p: "lastSealedHeight ?p = -1" "currentHeight ?p = 1" by (simp_all add: reorgedMini_def newHeaderFiles_def)
  have st: "stableFrom (miniEnv 1) (now ?p) (miniChain 1)" by (simp add: stableFrom_def miniEnv_def)
  have "\<not> onChain (miniChain 1) ?H ?p 0" "\<not> onChain (miniChain 1) ?H ?p 1"
    by (simp_all add: onChain_def miniChain_def headerHooks_def headerCachedHash_def reorgedMini_def miniEnv_def miniBlockHash_def)
  moreover have "h = 0 \<or> h = 1" if "- 1 < h" "h \<le> 1" for h :: int using that by auto
  ultimately have off: "\<forall>h. - 1 < h \<and> h \<le> 1 \<longrightarrow> (\<exists>x. GetBlockHash (miniChain 1) h = Inr x) \<and> \<not> onChain (miniChain 1) ?H ?p h"
    by (auto simp: miniChain_def)
  have law: "refusesDeep (miniEnv 1) ?H headerRangeFiles"
    using deep_reorg_refused [of "miniEnv 1" miniBlocks] by blast
  show ?thesis
    using law [unfolded refusesDeep_def, rule_format, of ?p "miniChain 1"] reorgedMini_tail st off p by auto
qed

lemma sealing_is_safe_and_complete_witness:
  "lastSealedHeight (snd (sealReadyFiles (headerHooks (miniEnv 1)) (reorgedMini 0 1))) \<le> 1 \<and>
   fst (sealReadyFiles (headerHooks (miniEnv 1)) (reorgedMini 0 1)) \<noteq> Inl ErrOutOfFuel"
proof -
  let ?p = "reorgedMini 0 1" and ?H = "headerHooks (miniEnv 1)"
  have p: "lastSealedHeight ?p = -1" "currentHeight ?p = 1" "reOrgSafeDepth ?p = 0"
    by (simp_all add: reorgedMini_def newHeaderFiles_def)
  have "sealsWholeFiles ?H headerRangeFiles" using sealing_is_safe_and_complete [of "miniEnv 1" miniBlocks] by blast
  from this [unfolded sealsWholeFiles_def, rule_format, of ?p "fst (sealReadyFiles ?H ?p)" "snd (sealReadyFiles ?H ?p)"]
  show ?thesis using reorgedMini_tail p by auto
qed

text \<open>
  Two more header producers, four blocks per file and none sealed: \<open>forkedMini\<close> has block 0
  and at height 1 a block that is not the backend's; \<open>laggingMini\<close> has block 0 only, and
  another producer has left the hash of that block in the shared cache.
\<close>

definition forkedMini :: "miniHeader headerFiles" where
  "forkedMini = (newHeaderFiles 4 0 ''/d'' miniShared)
     \<lparr>currentHeight := 1, mem := \<lparr>headers = [0 \<mapsto> (0, 255), 1 \<mapsto> (9, 0)], filterHeaders = [0 \<mapsto> zeroHash, 1 \<mapsto> zeroHash]\<rparr>\<rparr>"

definition laggingMini :: "miniHeader headerFiles" where
  "laggingMini = (newHeaderFiles 4 0 ''/d'' (miniShared\<lparr>cache := \<lparr>heightToHash = [1 \<mapsto> miniBlockHash 9], bestHeight = 1, writerWaits = False\<rparr>\<rparr>))
     \<lparr>currentHeight := 0, mem := \<lparr>headers = [0 \<mapsto> (0, 255)], filterHeaders = [0 \<mapsto> zeroHash]\<rparr>\<rparr>"

lemma forkedMini_tail: "tailInv (headerHooks (miniEnv n)) headerRangeFiles forkedMini"
proof -
  have "k * 4 + 3 \<le> - 1 \<Longrightarrow> \<not> 0 \<le> k" for k :: int by simp
  then have "sealedOnDisk headerRangeFiles forkedMini" by (auto simp: sealedOnDisk_def forkedMini_def newHeaderFiles_def)
  then show ?thesis
    by (simp add: tailInv_def tailUpto_def confOK_def aligned_def heightBound_def)
      (auto simp: forkedMini_def newHeaderFiles_def headerHooks_def headerCachedHash_def split: if_splits option.splits)
qed

lemma poll_follows_backend_witness:
  "\<exists>p'. pollOnce (miniEnv 2) (headerHooks (miniEnv 2)) forkedMini = (Inr (), p') \<and>
     \<not> agrees (miniChain 2) (headerHooks (miniEnv 2)) forkedMini \<and>
     agrees (miniChain 2) (headerHooks (miniEnv 2)) p' \<and> 2 \<le> currentHeight p'"
proof -
  let ?H = "headerHooks (miniEnv 2)" and ?p' = "snd (pollOnce (miniEnv 2) (headerHooks (miniEnv 2)) forkedMini)"
  have run: "fst (pollOnce (miniEnv 2) ?H forkedMini) = Inr ()" by code_simp
  have st: "stableFrom (miniEnv 2) (now forkedMini) (miniChain 2)" by (simp add: stableFrom_def miniEnv_def)
  have V: "GetBlockCount (miniChain 2) = Inr 2" "\<forall>h. 0 \<le> h \<and> h \<le> 2 \<longrightarrow> (\<exists>x. GetBlockHash (miniChain 2) h = Inr x)"
    by (simp_all add: miniChain_def)
  have off: "\<not> agrees (miniChain 2) ?H forkedMini"
    by (auto simp: agrees_def forkedMini_def headerHooks_def headerCachedHash_def miniEnv_def miniChain_def miniBlockHash_def
        intro!: exI [of _ "1 :: int"])
  have "linkedTo (miniChain 2) ?H forkedMini"
    by (auto simp: linkedTo_def onChain_def forkedMini_def headerHooks_def headerCachedHash_def miniEnv_def miniChain_def miniBlockHash_def
        split: if_splits)
  moreover have "cacheInv (cache forkedMini)" "cacheOn (miniChain 2) (currentHeight forkedMini + 1) forkedMini"
    by (simp_all add: cacheInv_def cacheOn_def forkedMini_def newHeaderFiles_def miniShared_def newH2HCache_def)
  moreover have law: "followsChain (miniEnv 2) ?H headerRangeFiles"
    using poll_follows_backend [OF mini_header_by_hash [of 2], of miniBlocks] by blast
  moreover note law [unfolded followsChain_def, rule_format, of forkedMini "()" ?p' "miniChain 2" 2]
  ultimately have "agrees (miniChain 2) ?H ?p' \<and> 2 \<le> currentHeight ?p'"
    using forkedMini_tail run st V by (auto simp: heightBound_def prod_eq_iff)
  with run off show ?thesis by (intro exI [of _ ?p']) (simp add: prod_eq_iff)
qed

text \<open>The poll of the producer that lags behind succeeds and takes in the abandoned block.\<close>

lemma stale_cache_followed:
  "fst (pollOnce (miniEnv 1) (headerHooks (miniEnv 1)) laggingMini) = Inr () \<and>
   headers (mem (snd (pollOnce (miniEnv 1) (headerHooks (miniEnv 1)) laggingMini))) 1 = Some (9, 8) \<and>
   GetBlockHash (miniChain 1) 1 \<noteq> Inr (BlockHash (miniEnv 1) (9, 8))"
  by code_simp

end
