(* ===== verification/Faithful.thy ===== *)
theory Faithful
  imports Producers
begin

text \<open>
  What the producers promise to whoever downloads their files, as a function of the block
  chain alone: the files of every whole range below the re-org-safe depth, with contents that
  depend on nothing but the chain. The locale \<open>faithful_producer\<close> extends
  \<open>file_producer\<close> by the laws under which the base keeps that promise: where the backend
  serves one chain and the disk works, ingesting and sealing succeed and a sealed range has
  the contents the chain prescribes. It is interpreted by the header producer and the filter
  producer here, by the other two in \<open>SPFaithful\<close> and \<open>CustomFaithful\<close>; the refinement theorems say that catching up from any earlier point succeeds and
  ends with exactly the prescribed files.
\<close>

text \<open>A chain: per height the block's hash, header, basic filter and filter header.\<close>

record 'h chainData =
  cHash :: "int \<Rightarrow> hash"
  cHeader :: "int \<Rightarrow> 'h"
  cFilter :: "int \<Rightarrow> bytes"
  cFilterHeader :: "int \<Rightarrow> hash"

text \<open>Blocks commit to their predecessors, filter headers to the filters (BIP157).\<close>

definition validChain :: "'h env \<Rightarrow> 'h chainData \<Rightarrow> int \<Rightarrow> bool" where
  "validChain E C N \<longleftrightarrow>
     (\<forall>h. 0 \<le> h \<and> h \<le> N \<longrightarrow> BlockHash E (cHeader C h) = cHash C h \<and>
        (0 < h \<longrightarrow> PrevBlock E (cHeader C h) = cHash C (h - 1)) \<and>
        cFilterHeader C h = DoubleHash E (DoubleHash E (cFilter C h) @
          (if h = 0 then zeroHash else cFilterHeader C (h - 1))))"

lemma validChainD:
  assumes "validChain E C N"
  shows "0 \<le> h \<Longrightarrow> h \<le> N \<Longrightarrow> cFilterHeader C h = DoubleHash E (DoubleHash E (cFilter C h) @
    (if h = 0 then zeroHash else cFilterHeader C (h - 1)))"
  using assms unfolding validChain_def by blast

text \<open>The backend answers every request with the chain up to height \<open>N\<close>, and nothing fails.\<close>

definition serves :: "'h env \<Rightarrow> 'h chainData \<Rightarrow> int \<Rightarrow> bool" where
  "serves E C N \<longleftrightarrow>
     (\<forall>n. \<not> quitClosed E n \<and> ioFaults E n = None \<and>
       (\<forall>h. 0 \<le> h \<and> h \<le> N \<longrightarrow> GetBlockHash (rpc E n) h = Inr (cHash C h) \<and>
          GetBlockHeader (rpc E n) (cHash C h) = Inr (cHeader C h) \<and>
          (\<exists>bf. GetBlockFilter (rpc E n) (cHash C h) = Inr bf \<and> hex_decode (bfFilter bf) = Some (cFilter C h) \<and>
             NewHashFromStr E (bfHeader bf) = Inr (cFilterHeader C h))))"

definition cacheRight :: "'h chainData \<Rightarrow> int \<Rightarrow> h2hCache \<Rightarrow> bool" where
  "cacheRight C N c \<longleftrightarrow> (\<forall>h x. 0 \<le> h \<and> h \<le> N \<and> heightToHash c h = Some x \<longrightarrow> x = cHash C h)"

lemma servesD:
  assumes "serves E C N"
  shows "\<not> quitClosed E n" "ioFaults E n = None"
    and "0 \<le> h \<Longrightarrow> h \<le> N \<Longrightarrow> GetBlockHash (rpc E n) h = Inr (cHash C h)"
    and "0 \<le> h \<Longrightarrow> h \<le> N \<Longrightarrow> GetBlockHeader (rpc E n) (cHash C h) = Inr (cHeader C h)"
    and "0 \<le> h \<Longrightarrow> h \<le> N \<Longrightarrow> \<exists>bf. GetBlockFilter (rpc E n) (cHash C h) = Inr bf \<and>
       hex_decode (bfFilter bf) = Some (cFilter C h) \<and> NewHashFromStr E (bfHeader bf) = Inr (cFilterHeader C h)"
  using assms unfolding serves_def by blast+

text \<open>A lookup in the shared cache then gives the chain's hash.\<close>

lemma getBlockHash_served:
  assumes "serves E C N" "cacheRight C N (cache s)" "0 \<le> h" "h \<le> N"
  obtains s' where "getBlockHash E h s = (Inr (cHash C h), s')" "cacheRight C N (cache s')"
proof (cases "heightToHash (cache s) h")
  case None
  with servesD(3) [OF assms(1,3,4)] assms(2) show thesis
    by (intro that [of "snd (getBlockHash E h s)"])
      (auto simp: getBlockHash_def rpcCall_def Let_def cacheRight_def split: if_splits)
next
  case (Some x)
  with assms have "x = cHash C h" by (simp add: cacheRight_def)
  with Some assms(2) show thesis by (intro that [of s]) (simp_all add: getBlockHash_def)
qed

lemma cacheRight_grows:
  assumes s: "serves E C N" and c: "cacheRight C N (cache p)" and g: "cacheGrows E p q"
  shows "cacheRight C N (cache q)"
  unfolding cacheRight_def
proof (intro allI impI)
  fix h x
  assume h: "0 \<le> h \<and> h \<le> N \<and> heightToHash (cache q) h = Some x"
  then have "heightToHash (cache p) h = Some x \<or> (\<exists>n. GetBlockHash (rpc E n) h = Inr x)"
    using g unfolding cacheGrows_def by blast
  with h c servesD(3) [OF s] show "x = cHash C h" by (auto simp: cacheRight_def)
qed

text \<open>The range a producer seals next, once the safe tip has passed it.\<close>

context file_producer
begin

lemma seal_range:
  assumes inv: "tailInv (H E) files p" and "a = lastSealedHeight p + 1" "b = lastSealedHeight p + entriesPerFile p"
    and "b \<le> currentHeight p" "currentHeight p \<le> N"
  shows "0 \<le> a" "a \<le> b" "b \<le> N" "{a..b} \<subseteq> dom (cachedHash (H E) (mem p))"
  using tailInvD [OF inv] assms(2-) by (auto simp: confOK_def)

lemma tailUpto_cong:
  assumes T: "tailUpto (H E) files i p" and c: "conf q = conf p" and m: "mem q = mem p"
    and d: "lastSealedHeight q = lastSealedHeight p" "disk q = disk p"
  shows "tailUpto (H E) files i q"
proof -
  have f: "files q = files p" by (rule files_static [OF c disjI1 [OF m]])
  show ?thesis
    using T confOK_cong [OF c] aligned_cong [OF c d(1)] rangeFiles_cong [OF c f] confD(1) [OF c] m d
    by (simp add: tailUpto_def sealedOnDisk_def)
qed

end

text \<open>The abstract specification: every sealed range has the prescribed contents.\<close>

definition contentsRight :: "('m producer \<Rightarrow> int \<Rightarrow> int \<Rightarrow> (string \<times> bytes) list) \<Rightarrow> 'm producer \<Rightarrow> bool" where
  "contentsRight expected p \<longleftrightarrow>
     (\<forall>k\<ge>0. k * entriesPerFile p + entriesPerFile p - 1 \<le> lastSealedHeight p \<longrightarrow>
        (\<forall>(f, bs)\<in>set (expected p (k * entriesPerFile p) (k * entriesPerFile p + entriesPerFile p - 1)).
           map_of (disk p) f = Some bs))"

text \<open>
  The laws of a producer that keeps the promise. \<open>healthy\<close> is what it has to know of its
  memory, the shared cache and its environment; a hook may rely on the invariant of the base
  and on the files sealed so far.
\<close>

locale faithful_producer = file_producer H files
  for H :: "'h env \<Rightarrow> 'm producerHooks" and files :: "'m producer \<Rightarrow> int \<Rightarrow> int \<Rightarrow> string list" +
  fixes healthy :: "'h env \<Rightarrow> int \<Rightarrow> 'm producer \<Rightarrow> bool"
    and expected :: "'h env \<Rightarrow> 'm producer \<Rightarrow> int \<Rightarrow> int \<Rightarrow> (string \<times> bytes) list"
  assumes healthy_env: "healthy E N p \<Longrightarrow> \<not> quitClosed E n \<and> ioFaults E n = None"
    and healthy_cong: "healthy E N p \<Longrightarrow> conf q = conf p \<Longrightarrow> mem q = mem p \<Longrightarrow> cache q = cache p \<Longrightarrow>
        lastSealedHeight q = lastSealedHeight p \<Longrightarrow> healthy E N q"
    and healthy_ingest: "healthy E N p \<Longrightarrow> tailUpto (H E) files h p \<Longrightarrow> contentsRight (expected E) p \<Longrightarrow>
        0 \<le> h \<Longrightarrow> h \<le> N \<Longrightarrow> h \<le> heightBound \<Longrightarrow>
        \<exists>p'. ingest (H E) h p = (Inr (), p') \<and> healthy E N p'"
    and healthy_write: "healthy E N p \<Longrightarrow> tailInv (H E) files p \<Longrightarrow> contentsRight (expected E) p \<Longrightarrow>
        a = lastSealedHeight p + 1 \<Longrightarrow> b = lastSealedHeight p + entriesPerFile p \<Longrightarrow> b \<le> currentHeight p \<Longrightarrow> currentHeight p \<le> N \<Longrightarrow>
        \<exists>p'. writeSealedFile (H E) a b p = (Inr (), p') \<and>
             (\<forall>(f, bs)\<in>set (expected E p a b). map_of (disk p') f = Some bs) \<and>
             healthy E N (p'\<lparr>mem := pruneLocked (H E) a b (mem p'), lastSealedHeight := b\<rparr>)"
    and expected_static: "conf q = conf p \<Longrightarrow> expected E q = expected E p"
    and expected_files: "healthy E N p \<Longrightarrow> fst ` set (expected E p a b) = set (files p a b)"

lemma updateFiles_none: "updateFiles E H N 0 = startUp E H N"
  by (auto simp: updateFiles_def goBind_def goRet_def fun_eq_iff split: prod.split sum.split)

lemma mkdirs_ok:
  assumes "\<forall>t. ioFaults E t = None"
  obtains n where "goForEach xs (\<lambda>_. goWrap m ys (mkdirAll E)) p = (Inr (), p\<lparr>now := n\<rparr>)"
proof -
  have "\<exists>n. goForEach xs (\<lambda>_. goWrap m ys (mkdirAll E)) p = (Inr (), p\<lparr>now := n\<rparr>)"
  proof (induction xs arbitrary: p)
    case Nil
    then show ?case by (intro exI [of _ "now p"]) (simp add: goRet_def)
  next
    case (Cons x xs)
    from Cons [of "p\<lparr>now := Suc (now p)\<rparr>"] show ?case using assms by (simp add: goBind_def goWrap_def mkdirAll_def)
  qed
  then show thesis using that by blast
qed

context faithful_producer
begin

lemma contentsRight_cong:
  assumes "conf q = conf p" "lastSealedHeight q = lastSealedHeight p" "disk q = disk p"
  shows "contentsRight (expected E) q = contentsRight (expected E) p"
  using assms(2,3) confD(1) [OF assms(1)] expected_static [OF assms(1)] by (simp add: contentsRight_def)

text \<open>Ranges sealed before keep their contents while the next one is written.\<close>

lemma contentsRight_seal:
  assumes inv: "tailInv (H E) files p" and safe: "nextSealEnd p \<le> safeTip p" and R: "contentsRight (expected E) p"
    and h: "healthy E N p"
    and w: "writeSealedFile (H E) (lastSealedHeight p + 1) (lastSealedHeight p + entriesPerFile p) p = (Inr u, p1)"
    and new: "\<forall>(f, bs)\<in>set (expected E p (lastSealedHeight p + 1) (lastSealedHeight p + entriesPerFile p)).
       map_of (disk p1) f = Some bs"
    and q: "q = p1\<lparr>mem := pruneLocked (H E) (lastSealedHeight p + 1) (lastSealedHeight p + entriesPerFile p) (mem p1),
                   lastSealedHeight := lastSealedHeight p + entriesPerFile p\<rparr>"
  shows "contentsRight (expected E) q"
  unfolding contentsRight_def
proof (intro allI impI, clarify)
  fix k f bs
  assume k: "0 \<le> k" "k * entriesPerFile q + entriesPerFile q - 1 \<le> lastSealedHeight q"
    and f: "(f, bs) \<in> set (expected E q (k * entriesPerFile q) (k * entriesPerFile q + entriesPerFile q - 1))"
  note D = tailInvD [OF inv] and st = seal_step [OF inv safe w q]
  have c: "conf q = conf p" using st(2) by (simp add: evolves_def)
  note n = confD(1) [OF c]
  have n0: "0 < entriesPerFile p" using D(1) by (simp add: confOK_def)
  from next_range [OF D(1,2)] obtain j where j: "j * entriesPerFile p = lastSealedHeight p + 1" by blast
  have f': "(f, bs) \<in> set (expected E p (k * entriesPerFile p) (k * entriesPerFile p + entriesPerFile p - 1))"
    using f n expected_static [OF c] by simp
  show "map_of (disk q) f = Some bs"
  proof (cases "k * entriesPerFile p + entriesPerFile p - 1 \<le> lastSealedHeight p")
    case True
    have "f \<in> rangeFiles files p k"
      using image_eqI [OF _ f', of f fst] expected_files [OF h] by (simp add: rangeFiles_def)
    with sealed_unchanged [OF inv st(2) k(1) True] have "map_of (disk q) f = map_of (disk p) f" by blast
    with R k(1) True f' show ?thesis unfolding contentsRight_def by fastforce
  next
    case False
    have "k * entriesPerFile p + entriesPerFile p - 1 \<le> lastSealedHeight p + entriesPerFile p"
      using k(2) n st(6) by simp
    with False j have "k * entriesPerFile p \<le> j * entriesPerFile p" "j * entriesPerFile p < (k + 1) * entriesPerFile p"
      by (simp_all add: algebra_simps)
    then have "k = j" using n0 by (simp add: mult_less_cancel_right)
    with new f' j q show ?thesis by (auto simp: algebra_simps)
  qed
qed

lemma sealLoop_faithful:
  assumes "tailInv (H E) files p" "healthy E N p" "contentsRight (expected E) p" "currentHeight p \<le> N"
    and "nat (safeTip p - lastSealedHeight p) < m"
  shows "\<exists>p'. sealLoop m (H E) p = (Inr (), p') \<and> healthy E N p' \<and> contentsRight (expected E) p'"
  using assms
proof (induction m arbitrary: p)
  case (Suc m)
  note D = tailInvD [OF Suc.prems(1)]
  have ls: "lastSealedHeight p \<le> heightBound" using D(4,5) by simp
  note num = seal_numbers [OF D(1,2) ls] and tip = tailInv_safeTip [OF Suc.prems(1)]
  show ?case
  proof (cases "nextSealEnd p > safeTip p")
    case True
    with Suc.prems show ?thesis by simp
  next
    case False
    let ?a = "lastSealedHeight p + 1" and ?b = "lastSealedHeight p + entriesPerFile p"
    have n0: "0 < entriesPerFile p" "0 \<le> reOrgSafeDepth p" using D(1) by (simp_all add: confOK_def)
    have safe: "nextSealEnd p \<le> safeTip p" using False by simp
    then have b: "?b \<le> currentHeight p" using num(1) tip n0 by simp
    from healthy_write [OF Suc.prems(2,1,3) refl refl this Suc.prems(4)] obtain p1 where w: "writeSealedFile (H E) ?a ?b p = (Inr (), p1)"
      and new: "\<forall>(f, bs)\<in>set (expected E p ?a ?b). map_of (disk p1) f = Some bs"
      and h: "healthy E N (p1\<lparr>mem := pruneLocked (H E) ?a ?b (mem p1), lastSealedHeight := ?b\<rparr>)"
      by blast
    define q where "q = p1\<lparr>mem := pruneLocked (H E) ?a ?b (mem p1), lastSealedHeight := ?b\<rparr>"
    note st = seal_step [OF Suc.prems(1) safe w q_def]
    have "conf q = conf p" using st(2) by (simp add: evolves_def)
    then have tq: "safeTip q = safeTip p" using tailInv_safeTip [OF st(1)] tip st(3) confD(2) by metis
    have hq: "healthy E N q" using h by (simp add: q_def)
    have "nat (safeTip q - lastSealedHeight q) < m" using Suc.prems(5) st(6) safe num(1) tq n0 by simp
    with Suc.IH [OF st(1) hq contentsRight_seal [OF Suc.prems(1) safe Suc.prems(3,2) w new q_def]] st(3) Suc.prems(4)
    have "\<exists>p'. sealLoop m (H E) q = (Inr (), p') \<and> healthy E N p' \<and> contentsRight (expected E) p'" by simp
    with False w num show ?thesis by (simp add: Let_def q_def)
  qed
qed simp

lemma ingestAndSeal_faithful:
  assumes inv: "tailUpto (H E) files i p" and i: "0 \<le> i" "i \<le> heightBound" "i \<le> N"
    and h: "healthy E N p" and R: "contentsRight (expected E) p"
  shows "\<exists>p'. ingestAndSeal E (H E) i p = (Inr (), p') \<and> healthy E N p' \<and> contentsRight (expected E) p'"
proof -
  define q where "q = p\<lparr>now := Suc (now p)\<rparr>"
  have cq: "conf q = conf p" "mem q = mem p" "cache q = cache p" "lastSealedHeight q = lastSealedHeight p" "disk q = disk p"
    by (simp_all add: q_def conf_def)
  have hq: "healthy E N q" by (rule healthy_cong [OF h cq(1-4)])
  have Rq: "contentsRight (expected E) q" using R by (subst contentsRight_cong [OF cq(1,4,5)])
  have Tq: "tailUpto (H E) files i q" by (rule tailUpto_cong [OF inv cq(1,2,4,5)])
  from healthy_ingest [OF hq Tq Rq i(1,3,2)] obtain q1 where ing: "ingest (H E) i q = (Inr (), q1)"
    and h1: "healthy E N q1" by blast
  let ?q2 = "q1\<lparr>currentHeight := i\<rparr>"
  have h2: "healthy E N ?q2" by (rule healthy_cong [OF h1]) (simp_all add: conf_def)
  note tail = ingest_tail [OF inv i(1,2) q_def ing]
  have c: "conf ?q2 = conf p" using tail(2) by (simp add: evolves_def)
  have "disk q1 = disk p" using ingest_base [OF ing] by (simp add: q_def)
  with R tail(3) have "contentsRight (expected E) ?q2" by (subst contentsRight_cong [OF c]) simp_all
  with sealLoop_faithful [OF tail(1), of N "nat (safeTip ?q2 - lastSealedHeight ?q2) + 1"] h2 i(3)
  obtain p' where "sealReadyFiles (H E) ?q2 = (Inr (), p')" "healthy E N p'" "contentsRight (expected E) p'"
    by (auto simp: sealReadyFiles_def simp del: sealLoop.simps)
  with ing healthy_env [OF h, of "now p"] show ?thesis
    by (simp add: ingestAndSeal_def goBind_def checkQuit_def goModify_def q_def)
qed

lemma updateCacheAndFiles_faithful:
  assumes "tailUpto (H E) files a p" "0 \<le> a" "b \<le> heightBound" "b \<le> N"
    and "healthy E N p" "contentsRight (expected E) p"
  shows "\<exists>p'. updateCacheAndFiles E (H E) a b p = (Inr (), p') \<and> healthy E N p' \<and> contentsRight (expected E) p'"
  using assms
proof (induction "nat (b + 1 - a)" arbitrary: a p)
  case 0
  then show ?case by (simp add: updateCacheAndFiles_def goRet_def)
next
  case (Suc n)
  then have ab: "a \<le> b" by simp
  then have split: "[a..b] = a # [a + 1..b]" by (rule upto_rec1)
  have ha: "a \<le> heightBound" "a \<le> N" using ab Suc.prems(3,4) by simp_all
  from ingestAndSeal_faithful [OF Suc.prems(1,2) ha Suc.prems(5,6)] obtain p1 where
    step: "ingestAndSeal E (H E) a p = (Inr (), p1)" "healthy E N p1" "contentsRight (expected E) p1" by blast
  from ingestAndSeal_ok [OF Suc.prems(1,2) ha(1) step(1)] have st: "tailInv (H E) files p1" "currentHeight p1 = a" by metis+
  have "tailUpto (H E) files (a + 1) p1" using tailInv_upto [OF st(1)] st(2) by simp
  moreover have "n = nat (b + 1 - (a + 1))" using Suc.hyps(2) by simp
  ultimately obtain p' where "updateCacheAndFiles E (H E) (a + 1) b p1 = (Inr (), p')" "healthy E N p'"
    "contentsRight (expected E) p'"
    using Suc.hyps(1) [of "a + 1" p1] Suc.prems(2-4) step(2,3) by auto
  with step(1) show ?case by (simp add: updateCacheAndFiles_def split goBind_def)
qed

lemma startUp_faithful:
  assumes d: "sealedRanges (disk p) (joinPath (baseDir p) (subDir p)) (fileSuffix p) (entriesPerFile p) k"
    "extractSuffix p = fileSuffix p" "plainDir (joinPath (baseDir p) (subDir p))"
    and ok: "confOK p" and fresh: "dom (cachedHash (H E) (mem p)) = {}"
    and k: "0 \<le> k" "k * entriesPerFile p \<le> 10000000" "k * entriesPerFile p \<noteq> 1"
    and N: "k * entriesPerFile p \<le> N" "N \<le> heightBound"
    and h: "healthy E N (p\<lparr>lastSealedHeight := k * entriesPerFile p - 1\<rparr>)"
    and there: "contentsRight (expected E) (p\<lparr>lastSealedHeight := k * entriesPerFile p - 1\<rparr>)"
  shows "\<exists>p'. startUp E (H E) N p = (Inr (), p') \<and> tailInv (H E) files p' \<and> startupComplete p' \<and> currentHeight p' = N \<and>
    conf p' = conf p \<and> contentsRight (expected E) p' \<and> N - reOrgSafeDepth p < lastSealedHeight p' + entriesPerFile p \<and>
    healthy E N p' \<and> k * entriesPerFile p - 1 \<le> lastSealedHeight p' \<and>
    (lastSealedHeight p' = k * entriesPerFile p - 1 \<or> lastSealedHeight p' \<le> N - reOrgSafeDepth p) \<and>
    wroteOnly files (k * entriesPerFile p - 1) (N - reOrgSafeDepth p) p p' \<and>
    cacheStays p p' \<and> {k * entriesPerFile p..N} \<subseteq> dom (heightToHash (cache p'))"
proof -
  let ?n = "entriesPerFile p" and ?p0 = "p\<lparr>now := Suc (now p)\<rparr>"
  have n: "0 < ?n" using ok by (simp add: confOK_def)
  obtain L where L: "lastFile (disk ?p0) (joinPath (baseDir ?p0) (subDir ?p0)) (fileSuffix ?p0) (extractSuffix ?p0) = Inr L"
    "lastSealedHeight (resumeHeights L ?p0) = k * ?n - 1"
    by (rule resume_at [of ?p0 k]) (use d n k in simp_all)
  define q where "q = resumeHeights L ?p0"
  have q: "conf q = conf p" "mem q = mem p" "disk q = disk p" "lastSealedHeight q = k * ?n - 1" "cache q = cache p"
    using L(2) by (simp_all add: q_def resumeHeights_def conf_def)
  have kn: "0 \<le> k * ?n" using k n by simp
  have a: "add32 (lastSealedHeight q) 1 = k * ?n" using q(4) kn k by (simp add: add32_id)
  let ?p1 = "p\<lparr>lastSealedHeight := k * ?n - 1\<rparr>"
  have cq: "conf q = conf ?p1" using q(1) by (simp add: conf_def)
  then have R: "contentsRight (expected E) q"
    using there by (subst contentsRight_cong [of q ?p1]) (use q in simp_all)
  have hq: "healthy E N q" by (rule healthy_cong [OF h cq]) (use q in simp_all)
  have T: "tailUpto (H E) files (k * ?n) q"
  proof -
    have "fileExists (disk q) f" if "0 \<le> j" "j * entriesPerFile q + entriesPerFile q - 1 \<le> lastSealedHeight q"
      "f \<in> rangeFiles files q j" for j f
    proof -
      from that(3) obtain bs where "(f, bs) \<in> set (expected E q (j * entriesPerFile q) (j * entriesPerFile q + entriesPerFile q - 1))"
        using expected_files [OF hq] unfolding rangeFiles_def by fastforce
      with R that(1,2) show ?thesis unfolding contentsRight_def fileExists_def by fastforce
    qed
    then have "sealedOnDisk files q" by (auto simp: sealedOnDisk_def)
    then show ?thesis using confOK_cong [OF q(1)] ok fresh kn N q(2,4) confD(1) [OF q(1)]
      by (simp add: tailUpto_def aligned_def)
  qed
  obtain p1 where up: "updateCacheAndFiles E (H E) (k * ?n) N q = (Inr (), p1)" and R1: "contentsRight (expected E) p1"
    and h1: "healthy E N p1"
    using updateCacheAndFiles_faithful [OF T kn N(2) order_refl hq R] by auto
  have io: "ioFaults E (now p) = None" using healthy_env [OF h] by simp
  have run: "startUp E (H E) N p = (Inr (), p1\<lparr>startupComplete := True\<rparr>)"
    using L(1) up a io by (simp add: startUp_def goBind_def goWrap_def goLift_def goModify_def mkdirAll_def no_afterCatchUp
        q_def [symmetric])
  note res = updateCacheAndFiles_ok [OF T kn N up]
  have c: "conf p1 = conf p" "conf (p1\<lparr>startupComplete := True\<rparr>) = conf p1"
    using res q(1) by (auto simp: evolves_def conf_def)
  have fs: "files (p1\<lparr>startupComplete := True\<rparr>) = files p1" by (rule files_static [OF c(2), where E = E]) simp
  have "tailInv (H E) files (p1\<lparr>startupComplete := True\<rparr>)"
    using res rangeFiles_cong [OF c(2) fs]
    by (simp add: tailInv_def tailUpto_def confOK_def aligned_def sealedOnDisk_def)
  moreover have "healthy E N (p1\<lparr>startupComplete := True\<rparr>)" by (rule healthy_cong [OF h1 c(2)]) simp_all
  moreover have "contentsRight (expected E) (p1\<lparr>startupComplete := True\<rparr>)"
    using R1 by (subst contentsRight_cong [OF c(2)]) simp_all
  moreover have "wroteOnly files (k * ?n - 1) (N - reOrgSafeDepth p) p (p1\<lparr>startupComplete := True\<rparr>)"
  proof -
    have "files q = files p" by (rule files_static [OF q(1) disjI1 [OF q(2)]])
    then have "rangeFiles files q = rangeFiles files p" by (rule rangeFiles_cong [OF q(1)])
    then show ?thesis using res q(3,4) confD [OF q(1)] by (simp add: evolves_def wroteOnly_def)
  qed
  moreover have "lastSealedHeight p1 = k * ?n - 1 \<or> lastSealedHeight p1 \<le> N - reOrgSafeDepth p"
    using res q(4) confD [OF q(1)] by simp
  moreover have "k * ?n - 1 \<le> lastSealedHeight p1" using res q(4) by (simp add: evolves_def)
  moreover have "cacheStays p (p1\<lparr>startupComplete := True\<rparr>)"
    using updateCacheAndFiles_looks(1) [OF up] q(5) by (simp add: cacheStays_def)
  moreover have "{k * ?n..N} \<subseteq> dom (heightToHash (cache (p1\<lparr>startupComplete := True\<rparr>)))"
    using updateCacheAndFiles_looks(2) [OF up] by simp
  ultimately show ?thesis
    using run res confD [OF q(1)] c by (intro exI [of _ "p1\<lparr>startupComplete := True\<rparr>"] conjI) simp_all
qed

text \<open>Every whole range below the safe depth is on disk with the prescribed contents.\<close>

lemma contents_of_whole_ranges:
  assumes inv: "tailInv (H E) files p'" and c: "conf p' = conf p" and R: "contentsRight (expected E) p'"
    and tip: "T < lastSealedHeight p' + entriesPerFile p" and j: "0 \<le> j" "j * entriesPerFile p + entriesPerFile p - 1 \<le> T"
    and f: "(f, bs) \<in> set (expected E p (j * entriesPerFile p) (j * entriesPerFile p + entriesPerFile p - 1))"
  shows "map_of (disk p') f = Some bs"
proof -
  note D = tailInvD [OF inv] and n = confD(1) [OF c]
  from next_range [OF D(1,2)] obtain i where i: "i * entriesPerFile p' = lastSealedHeight p' + 1" by blast
  have n0: "0 < entriesPerFile p" using D(1) n by (simp add: confOK_def)
  have "(j + 1) * entriesPerFile p < (i + 1) * entriesPerFile p" using j(2) tip i n by (simp add: algebra_simps)
  then have "j + 1 \<le> i" using n0 by (simp add: mult_less_cancel_right)
  then have "(j + 1) * entriesPerFile p \<le> i * entriesPerFile p" using n0 by simp
  then have "j * entriesPerFile p' + entriesPerFile p' - 1 \<le> lastSealedHeight p'" using i n by (simp add: algebra_simps)
  with R j(1) f n expected_static [OF c] show ?thesis unfolding contentsRight_def by fastforce
qed

end

subsection \<open>The header producer\<close>

definition headerHealthy :: "'h chainData \<Rightarrow> 'h env \<Rightarrow> int \<Rightarrow> h2hCache \<Rightarrow> 'h headerMem \<Rightarrow> bool" where
  "headerHealthy C E N c m \<longleftrightarrow> serves E C N \<and> validChain E C N \<and> cacheRight C N c \<and>
     (\<forall>h hd. headers m h = Some hd \<longrightarrow> hd = cHeader C h) \<and>
     (\<forall>h fh. filterHeaders m h = Some fh \<longrightarrow> fh = cFilterHeader C h) \<and> dom (filterHeaders m) = dom (headers m)"

definition headerExpected :: "'h chainData \<Rightarrow> 'h env \<Rightarrow> 'h headerFiles \<Rightarrow> int \<Rightarrow> int \<Rightarrow> (string \<times> bytes) list" where
  "headerExpected C E p a b =
     [(headerFileName p a b, concat (map (\<lambda>h. SerializeHeader E (cHeader C h)) [a..b])),
      (filterHeaderFileName p a b, concat (map (cFilterHeader C) [a..b]))]"

lemma collect_chain:
  assumes "\<And>h v. m h = Some v \<Longrightarrow> v = g h" "set js \<subseteq> dom m"
  shows "collect m js = Inr (map g js)"
proof -
  have "map m js = map (\<lambda>j. Some (g j)) js"
  proof (rule map_cong [OF refl])
    fix j assume "j \<in> set js"
    with assms(2) obtain v where "m j = Some v" by blast
    with assms(1) [OF this] show "m j = Some (g j)" by simp
  qed
  then show ?thesis by (simp add: collect_Inr comp_def)
qed

lemma upto_snoc: "a \<le> b \<Longrightarrow> [a..b] = [a..b - 1] @ [b :: int]"
  by (rule upto_rec2)

lemma linkedHeaders_chain:
  assumes "validChain E C N" "0 \<le> a" "b \<le> N"
  shows "linkedHeaders E (map (cHeader C) [a..b])"
  using assms
proof (induction "nat (b + 1 - a)" arbitrary: a)
  case 0
  then show ?case by simp
next
  case (Suc n)
  then have ab: "[a..b] = a # [a + 1..b]" by (intro upto_rec1) simp
  have IH: "linkedHeaders E (map (cHeader C) [a + 1..b])" using Suc by simp
  show ?case
  proof (cases "a + 1 \<le> b")
    case True
    then have "[a + 1..b] = (a + 1) # [a + 1 + 1..b]" by (rule upto_rec1)
    with IH ab True Suc.prems show ?thesis by (simp add: validChain_def)
  next
    case False
    with ab show ?thesis by simp
  qed
qed

lemma headerIngest_served:
  assumes "headerHealthy C E N (cache p) (mem p)" "0 \<le> h" "h \<le> N"
  shows "\<exists>p'. headerIngest E h p = (Inr (), p') \<and> headerHealthy C E N (cache p') (mem p')"
proof -
  note S = assms(1) [unfolded headerHealthy_def]
  from S assms(2,3) obtain q where g: "getBlockHash E h p = (Inr (cHash C h), q)" "cacheRight C N (cache q)"
    by (blast elim: getBlockHash_served)
  have m: "mem q = mem p" using getBlockHash_quiet [OF g(1)] by (simp add: wrote_def)
  have s: "serves E C N" using S by blast
  note hd = servesD(4) [OF s assms(2,3)]
  obtain bf where bf: "GetBlockFilter (rpc E (Suc (now q))) (cHash C h) = Inr bf" "NewHashFromStr E (bfHeader bf) = Inr (cFilterHeader C h)"
    using servesD(5) [OF s assms(2,3)] by blast
  have "headerIngest E h p = (Inr (), q\<lparr>now := Suc (Suc (now q)), mem := (mem q)\<lparr>headers := (headers (mem q))(h \<mapsto> cHeader C h),
       filterHeaders := (filterHeaders (mem q))(h \<mapsto> cFilterHeader C h)\<rparr>\<rparr>)"
    using g(1) hd bf by (simp add: headerIngest_def goBind_def goWrap_def goLift_def goModify_def rpcCall_def)
  with S m g(2) show ?thesis by (auto simp: headerHealthy_def)
qed

lemma headerWrite_served:
  assumes H: "headerHealthy C E N (cache p) (mem p)" and ab: "0 \<le> a" "a \<le> b" "b \<le> N" "{a..b} \<subseteq> dom (headers (mem p))"
  shows "\<exists>p'. headerWriteSealedFile E a b p = (Inr (), p') \<and> headerHealthy C E N (cache p') (mem p') \<and>
    (\<forall>(f, bs)\<in>set (headerExpected C E p a b). map_of (disk p') f = Some bs)"
proof -
  note S = H [unfolded headerHealthy_def]
  have s: "serves E C N" and v: "validChain E C N" using S by blast+
  have hs: "collect (headers (mem p)) [a..b] = Inr (map (cHeader C) [a..b])"
    by (rule collect_chain) (use S ab in auto)
  have fh: "collect (filterHeaders (mem p)) [a..b] = Inr (map (cFilterHeader C) [a..b])"
    by (rule collect_chain) (use S ab in auto)
  have last: "last (map (cHeader C) [a..b]) = cHeader C b" using upto_snoc [OF ab(2)] by simp
  have "fst (verifyHeaders E a b p) = Inr ()"
    unfolding verifyHeaders_iff [OF ab(2)] using hs last linkedHeaders_chain [OF v ab(1,3)] servesD(3) [OF s] v ab
    by (simp add: validChain_def)
  then have ver: "verifyHeaders E a b p = (Inr (), p\<lparr>now := Suc (now p)\<rparr>)"
    using verifyHeaders_frame [of E a b p "fst (verifyHeaders E a b p)" "snd (verifyHeaders E a b p)"]
    by (metis prod.collapse)
  have out: "serializeHeaders E (mem p) a b = (concat (map (\<lambda>h. SerializeHeader E (cHeader C h)) [a..b]), None)"
    "serializeFilterHeaders (mem p) a b = (concat (map (cFilterHeader C) [a..b]), None)"
    using streamEach_collect [OF hs] streamEach_collect [OF fh]
    by (simp_all add: serializeHeaders_def serializeFilterHeaders_def comp_def)
  have "\<exists>p'. headerWriteSealedFile E a b p = (Inr (), p')"
    using ver servesD(2) [OF s] by (simp add: headerWriteSealedFile_def goBind_def goWrap_def writeHeaders_def writeFilterHeaders_def
        createAndWrite_succeeds out)
  then obtain p' where run: "headerWriteSealedFile E a b p = (Inr (), p')" ..
  have w: "wrote E (set (headerRangeFiles p a b)) p p'" by (rule headerWrite_wrote [OF run])
  have "cacheRight C N (cache p')" by (rule cacheRight_grows [OF s, of p]) (use S w in \<open>simp_all add: wrote_def\<close>)
  moreover have "mem p' = mem p" using w by (simp add: wrote_def)
  ultimately have "headerHealthy C E N (cache p') (mem p')" using S by (auto simp: headerHealthy_def)
  moreover have "map_of (disk p') = (map_of (disk p))(headerFileName p a b \<mapsto> fst (serializeHeaders E (mem p) a b),
      filterHeaderFileName p a b \<mapsto> fst (serializeFilterHeaders (mem p) a b))"
    using headerWrite_ok [OF run] by blast
  moreover have "headerFileName p a b \<noteq> filterHeaderFileName p a b"
    using ab by (simp add: headerFileName_def filterHeaderFileName_def blockFileName_eq_iff)
      (simp add: HeaderFileSuffix_def FilterHeaderFileSuffix_def)
  ultimately show ?thesis using run out by (auto simp: headerExpected_def)
qed

interpretation hff: faithful_producer headerHooks headerRangeFiles "\<lambda>E N p. headerHealthy C E N (cache p) (mem p)" "headerExpected C" for C
proof unfold_locales
  fix E :: "'a env" and N a b h :: int and n and p q :: "'a headerFiles"
  assume H: "headerHealthy C E N (cache p) (mem p)"
  show "\<not> quitClosed E n \<and> ioFaults E n = None" using H servesD(1,2) by (auto simp: headerHealthy_def)
  show "mem q = mem p \<Longrightarrow> cache q = cache p \<Longrightarrow> headerHealthy C E N (cache q) (mem q)" using H by simp
  show "0 \<le> h \<Longrightarrow> h \<le> N \<Longrightarrow> \<exists>p'. ingest (headerHooks E) h p = (Inr (), p') \<and> headerHealthy C E N (cache p') (mem p')"
    using headerIngest_served [OF H, of h] by (simp add: headerHooks_def)
  show "fst ` set (headerExpected C E p a b) = set (headerRangeFiles p a b)"
    by (simp add: headerExpected_def headerRangeFiles_def)
  show "\<exists>p'. writeSealedFile (headerHooks E) a b p = (Inr (), p') \<and>
      (\<forall>(f, bs)\<in>set (headerExpected C E p a b). map_of (disk p') f = Some bs) \<and>
      headerHealthy C E N (cache (p'\<lparr>mem := pruneLocked (headerHooks E) a b (mem p'), lastSealedHeight := b\<rparr>))
        (mem (p'\<lparr>mem := pruneLocked (headerHooks E) a b (mem p'), lastSealedHeight := b\<rparr>))"
    if inv: "tailInv (headerHooks E) headerRangeFiles p" and ab: "a = lastSealedHeight p + 1" "b = lastSealedHeight p + entriesPerFile p"
      "b \<le> currentHeight p" "currentHeight p \<le> N"
  proof -
    note R = hf.seal_range [OF inv ab]
    have "dom (cachedHash (headerHooks E) (mem p)) = dom (headers (mem p))"
      by (auto simp: headerHooks_def headerCachedHash_def split: option.splits)
    with headerWrite_served [OF H R(1-3)] R(4) obtain p' where p': "headerWriteSealedFile E a b p = (Inr (), p')"
      "headerHealthy C E N (cache p') (mem p')" "\<forall>(f, bs)\<in>set (headerExpected C E p a b). map_of (disk p') f = Some bs" by auto
    have "headerHealthy C E N (cache p') (headerPrune a b (mem p'))"
      using p'(2) by (auto simp: headerHealthy_def headerPrune_def deleteRange_apply dom_deleteRange split: if_splits)
    with p' show ?thesis by (simp add: headerHooks_def)
  qed
next
  fix E :: "'a env" and p q :: "'a headerFiles"
  show "conf q = conf p \<Longrightarrow> headerExpected C E q = headerExpected C E p"
    using headerFileName_cong [of q p] by (simp add: headerExpected_def fun_eq_iff)
qed

subsection \<open>The filter producer\<close>

definition cfHealthy :: "'h chainData \<Rightarrow> 'h env \<Rightarrow> int \<Rightarrow> h2hCache \<Rightarrow> cfMem \<Rightarrow> bool" where
  "cfHealthy C E N c m \<longleftrightarrow> serves E C N \<and> validChain E C N \<and> N \<le> heightBound \<and> cacheRight C N c \<and>
     (\<forall>h f. filters m h = Some f \<longrightarrow> f = cFilter C h) \<and> dom (cfHeightToHash m) = dom (filters m)"

definition cfExpected :: "'h chainData \<Rightarrow> 'h env \<Rightarrow> cFilterFiles \<Rightarrow> int \<Rightarrow> int \<Rightarrow> (string \<times> bytes) list" where
  "cfExpected C E p a b = [(filterFileName p a b, concat (map (\<lambda>h. WriteVarBytes E (cFilter C h)) [a..b]))]"

text \<open>The header the filters of a range are chained onto.\<close>

definition chainStart :: "'h chainData \<Rightarrow> int \<Rightarrow> hash" where
  "chainStart C a = (if a = 0 then zeroHash else cFilterHeader C (a - 1))"

lemma filterChain_chain:
  assumes "validChain E C N" "0 \<le> a" "a \<le> b" "b \<le> N"
  shows "filterChain E (chainStart C a) (map (cFilter C) [a..b]) = cFilterHeader C b"
  using assms
proof (induction "nat (b - a)" arbitrary: b)
  case 0
  then have "b = a" by simp
  with validChainD [OF 0(2), of a] 0 show ?case by (simp add: filterChain_def chainStart_def)
next
  case (Suc n)
  then have IH: "filterChain E (chainStart C a) (map (cFilter C) [a..b - 1]) = cFilterHeader C (b - 1)" by simp
  have "[a..b] = [a..b - 1] @ [b]" using Suc by (intro upto_snoc) simp
  moreover have "b \<noteq> 0" "0 \<le> b" using Suc by auto
  then have "cFilterHeader C b = DoubleHash E (DoubleHash E (cFilter C b) @ cFilterHeader C (b - 1))"
    using validChainD [OF Suc.prems(1), of b] Suc.prems(4) by simp
  ultimately show ?case using IH by (simp add: filterChain_def)
qed

lemma authHeader_served:
  assumes "serves E C N" "cacheRight C N (cache p)" "0 \<le> h" "h \<le> N"
  obtains q where "authHeader E h p = (Inr (cFilterHeader C h), q)" "cacheRight C N (cache q)"
proof -
  from assms obtain q where g: "getBlockHash E h p = (Inr (cHash C h), q)" "cacheRight C N (cache q)"
    by (blast elim: getBlockHash_served)
  obtain bf where bf: "GetBlockFilter (rpc E (now q)) (cHash C h) = Inr bf" "NewHashFromStr E (bfHeader bf) = Inr (cFilterHeader C h)"
    using servesD(5) [OF assms(1,3,4)] by blast
  have "authHeader E h p = (Inr (cFilterHeader C h), q\<lparr>now := Suc (now q)\<rparr>)"
    using g(1) bf by (simp add: authHeader_def goBind_def goWrap_def goLift_def rpcCall_def)
  with g(2) show thesis by (intro that [of "q\<lparr>now := Suc (now q)\<rparr>"]) simp_all
qed

lemma cfIngest_served:
  assumes "cfHealthy C E N (cache p) (mem p)" "0 \<le> h" "h \<le> N"
  shows "\<exists>p'. cfIngest E h p = (Inr (), p') \<and> cfHealthy C E N (cache p') (mem p')"
proof -
  note S = assms(1) [unfolded cfHealthy_def]
  from S assms(2,3) obtain q where g: "getBlockHash E h p = (Inr (cHash C h), q)" "cacheRight C N (cache q)"
    by (blast elim: getBlockHash_served)
  have m: "mem q = mem p" using getBlockHash_quiet [OF g(1)] by (simp add: wrote_def)
  have s: "serves E C N" using S by blast
  obtain bf where bf: "GetBlockFilter (rpc E (now q)) (cHash C h) = Inr bf" "hex_decode (bfFilter bf) = Some (cFilter C h)"
    using servesD(5) [OF s assms(2,3)] by blast
  have "cfIngest E h p = (Inr (), q\<lparr>now := Suc (now q), mem := (mem q)\<lparr>filters := (filters (mem q))(h \<mapsto> cFilter C h),
       cfHeightToHash := (cfHeightToHash (mem q))(h \<mapsto> cHash C h)\<rparr>\<rparr>)"
    using g(1) bf by (simp add: cfIngest_def goBind_def goWrap_def goRet_def goModify_def rpcCall_def)
  with S m g(2) show ?thesis by (auto simp: cfHealthy_def)
qed

lemma cfWrite_served:
  assumes H: "cfHealthy C E N (cache p) (mem p)" and ab: "0 \<le> a" "a \<le> b" "b \<le> N" "{a..b} \<subseteq> dom (filters (mem p))"
  shows "\<exists>p'. cfWriteSealedFile E a b p = (Inr (), p') \<and> cfHealthy C E N (cache p') (mem p') \<and>
    (\<forall>(f, bs)\<in>set (cfExpected C E p a b). map_of (disk p') f = Some bs)"
proof -
  note S = H [unfolded cfHealthy_def]
  have s: "serves E C N" and v: "validChain E C N" and N: "N \<le> heightBound" and c: "cacheRight C N (cache p)" using S by blast+
  have fs: "collect (filters (mem p)) [a..b] = Inr (map (cFilter C) [a..b])"
    by (rule collect_chain) (use S ab in auto)
  obtain q where st: "startHeader E a p = (Inr (chainStart C a), q)" "cacheRight C N (cache q)"
  proof (cases "a = 0")
    case True
    then show thesis using c by (intro that [of p]) (simp_all add: startHeader_def goRet_def chainStart_def)
  next
    case False
    then have "sub32 a 1 = a - 1" using ab N by (intro sub32_id) (simp_all add: heightBound_def)
    moreover obtain q where "authHeader E (a - 1) p = (Inr (cFilterHeader C (a - 1)), q)" "cacheRight C N (cache q)"
      using authHeader_served [OF s c, of "a - 1"] False ab by auto
    ultimately show thesis using False ab by (intro that [of q]) (simp_all add: startHeader_def chainStart_def)
  qed
  from authHeader_served [OF s st(2), of b] ab obtain q' where au: "authHeader E b q = (Inr (cFilterHeader C b), q')" by auto
  have "fst (verifyFilters E a b p) = Inr ()"
    unfolding verifyFilters_iff [OF st(1) au] using fs filterChain_chain [OF v ab(1-3)] by blast
  then obtain r where ver: "verifyFilters E a b p = (Inr (), r)" by (metis prod.collapse)
  have r: "wrote E {} p r" using ver verifyFilters_wrote by (rule keepsD [rotated])
  then have mr: "mem r = mem p" by (simp add: wrote_def)
  have out: "serializeFilters E (mem p) a b = (concat (map (\<lambda>h. WriteVarBytes E (cFilter C h)) [a..b]), None)"
    using streamEach_collect [OF fs] by (simp add: serializeFilters_def comp_def)
  have "\<exists>p'. cfWriteSealedFile E a b p = (Inr (), p')"
    using ver servesD(2) [OF s] by (simp add: cfWriteSealedFile_def goBind_def goWrap_def writeFilters_def createAndWrite_succeeds mr out)
  then obtain p' where run: "cfWriteSealedFile E a b p = (Inr (), p')" ..
  have w: "wrote E (set (cfRangeFiles p a b)) p p'" by (rule cfWrite_wrote [OF run])
  have "cacheRight C N (cache p')" by (rule cacheRight_grows [OF s c]) (use w in \<open>simp add: wrote_def\<close>)
  moreover have "mem p' = mem p" using w by (simp add: wrote_def)
  ultimately have "cfHealthy C E N (cache p') (mem p')" using S by (auto simp: cfHealthy_def)
  with run out cfWrite_ok [OF run] show ?thesis by (auto simp: cfExpected_def)
qed

interpretation cff: faithful_producer cfHooks cfRangeFiles "\<lambda>E N p. cfHealthy C E N (cache p) (mem p)" "cfExpected C" for C
proof unfold_locales
  fix E :: "'a env" and N a b h :: int and n and p q :: cFilterFiles
  assume H: "cfHealthy C E N (cache p) (mem p)"
  show "\<not> quitClosed E n \<and> ioFaults E n = None" using H servesD(1,2) by (auto simp: cfHealthy_def)
  show "mem q = mem p \<Longrightarrow> cache q = cache p \<Longrightarrow> cfHealthy C E N (cache q) (mem q)" using H by simp
  show "0 \<le> h \<Longrightarrow> h \<le> N \<Longrightarrow> \<exists>p'. ingest (cfHooks E) h p = (Inr (), p') \<and> cfHealthy C E N (cache p') (mem p')"
    using cfIngest_served [OF H, of h] by (simp add: cfHooks_def)
  show "fst ` set (cfExpected C E p a b) = set (cfRangeFiles p a b)"
    by (simp add: cfExpected_def cfRangeFiles_def)
  show "\<exists>p'. writeSealedFile (cfHooks E) a b p = (Inr (), p') \<and>
      (\<forall>(f, bs)\<in>set (cfExpected C E p a b). map_of (disk p') f = Some bs) \<and>
      cfHealthy C E N (cache (p'\<lparr>mem := pruneLocked (cfHooks E) a b (mem p'), lastSealedHeight := b\<rparr>))
        (mem (p'\<lparr>mem := pruneLocked (cfHooks E) a b (mem p'), lastSealedHeight := b\<rparr>))"
    if inv: "tailInv (cfHooks E) cfRangeFiles p" and ab: "a = lastSealedHeight p + 1" "b = lastSealedHeight p + entriesPerFile p"
      "b \<le> currentHeight p" "currentHeight p \<le> N"
  proof -
    note R = cf.seal_range [OF inv ab]
    have "cachedHash (cfHooks E) (mem p) = cfHeightToHash (mem p)" by (simp add: cfHooks_def cfCachedHash_def fun_eq_iff)
    with R(4) H have "{a..b} \<subseteq> dom (filters (mem p))" by (simp add: cfHealthy_def)
    from cfWrite_served [OF H R(1-3) this] obtain p' where p': "cfWriteSealedFile E a b p = (Inr (), p')"
      "cfHealthy C E N (cache p') (mem p')" "\<forall>(f, bs)\<in>set (cfExpected C E p a b). map_of (disk p') f = Some bs" by auto
    have "cfHealthy C E N (cache p') (cfPrune a b (mem p'))"
      using p'(2) by (auto simp: cfHealthy_def cfPrune_def deleteRange_apply dom_deleteRange split: if_splits)
    with p' show ?thesis by (simp add: cfHooks_def)
  qed
next
  fix E :: "'a env" and p q :: cFilterFiles
  show "conf q = conf p \<Longrightarrow> cfExpected C E q = cfExpected C E p"
    using filterFileName_cong [of q p] by (simp add: cfExpected_def fun_eq_iff)
qed

subsection \<open>Refinement\<close>

text \<open>
  Claim C1. The header producer refines the chain: on a backend that serves a valid chain up to
  height \<open>N\<close>, starting up on a disk with the files of the first \<open>k\<close> ranges (none of
  them at the first start) returns without error at height \<open>N\<close>, and for every whole range
  of headers at or below the re-org-safe depth the two files on disk are the serialized
  headers and filter headers of that chain, byte for byte.
\<close>

theorem header_files_refine_chain:
  assumes E: "serves E C N" "validChain E C N" and s: "cacheRight C N (cache s)"
    and n: "0 < n" "n \<le> heightBound" and d: "0 \<le> depth" "depth \<le> heightBound" and N: "k * n \<le> N" "N \<le> heightBound"
    and dir: "plainDir (joinPath dir HeaderFileDir)" "sealedRanges (disk s) (joinPath dir HeaderFileDir) HeaderFileSuffix n k"
    and k: "0 \<le> k" "k * n \<le> 10000000" "k * n \<noteq> 1"
    and p: "p = newHeaderFiles n depth dir s"
    and found: "contentsRight (headerExpected C E) (p\<lparr>lastSealedHeight := k * n - 1\<rparr>)"
  shows "\<exists>p'. startUp E (headerHooks E) N p = (Inr (), p') \<and> startupComplete p' \<and> currentHeight p' = N \<and>
    (\<forall>j. 0 \<le> j \<and> j * n + n - 1 \<le> N - depth \<longrightarrow>
       map_of (disk p') (headerFileName p (j * n) (j * n + n - 1)) =
         Some (concat (map (\<lambda>h. SerializeHeader E (cHeader C h)) [j * n..j * n + n - 1])) \<and>
       map_of (disk p') (filterHeaderFileName p (j * n) (j * n + n - 1)) =
         Some (concat (map (cFilterHeader C) [j * n..j * n + n - 1])))"
proof -
  have e: "entriesPerFile p = n" "reOrgSafeDepth p = depth" by (simp_all add: p newHeaderFiles_def)
  have H: "headerHealthy C E N (cache (p\<lparr>lastSealedHeight := k * n - 1\<rparr>)) (mem (p\<lparr>lastSealedHeight := k * n - 1\<rparr>))"
    using E s by (simp add: headerHealthy_def p newHeaderFiles_def)
  have q: "sealedRanges (disk p) (joinPath (baseDir p) (subDir p)) (fileSuffix p) (entriesPerFile p) k"
    "extractSuffix p = fileSuffix p" "plainDir (joinPath (baseDir p) (subDir p))" "confOK p" "dom (cachedHash (headerHooks E) (mem p)) = {}"
    using dir n d by (simp_all add: p newHeaderFiles_def confOK_def headerHooks_def headerCachedHash_def fun_eq_iff)
  obtain p' where r: "startUp E (headerHooks E) N p = (Inr (), p')" "tailInv (headerHooks E) headerRangeFiles p'"
    "startupComplete p'" "currentHeight p' = N" "conf p' = conf p" "contentsRight (headerExpected C E) p'"
    "N - depth < lastSealedHeight p' + n"
    using hff.startUp_faithful [OF q, of N C, unfolded e, OF k N H found] by blast
  note all = hff.contents_of_whole_ranges [OF r(2,5,6), unfolded e, OF r(7)]
  show ?thesis
    by (intro exI [of _ p'] conjI allI impI r; rule all) (auto simp: headerExpected_def)
qed

text \<open>
  Claim C2. The filter producer refines the chain in the same way: catching up returns, and the
  files of every whole range at or below the re-org-safe depth are the length-prefixed basic
  filters of the chain.
\<close>

theorem filter_files_refine_chain:
  assumes E: "serves E C N" "validChain E C N" and s: "cacheRight C N (cache s)"
    and n: "0 < n" "n \<le> heightBound" and d: "0 \<le> depth" "depth \<le> heightBound" and N: "k * n \<le> N" "N \<le> heightBound"
    and dir: "plainDir (joinPath dir FilterFileDir)" "sealedRanges (disk s) (joinPath dir FilterFileDir) FilterFileSuffix n k"
    and k: "0 \<le> k" "k * n \<le> 10000000" "k * n \<noteq> 1"
    and p: "p = newCFilterFiles n depth dir s"
    and found: "contentsRight (cfExpected C E) (p\<lparr>lastSealedHeight := k * n - 1\<rparr>)"
  shows "\<exists>p'. startUp E (cfHooks E) N p = (Inr (), p') \<and> startupComplete p' \<and> currentHeight p' = N \<and>
    (\<forall>j. 0 \<le> j \<and> j * n + n - 1 \<le> N - depth \<longrightarrow>
       map_of (disk p') (filterFileName p (j * n) (j * n + n - 1)) =
         Some (concat (map (\<lambda>h. WriteVarBytes E (cFilter C h)) [j * n..j * n + n - 1])))"
proof -
  have e: "entriesPerFile p = n" "reOrgSafeDepth p = depth" by (simp_all add: p newCFilterFiles_def)
  have H: "cfHealthy C E N (cache (p\<lparr>lastSealedHeight := k * n - 1\<rparr>)) (mem (p\<lparr>lastSealedHeight := k * n - 1\<rparr>))"
    using E s N by (simp add: cfHealthy_def p newCFilterFiles_def)
  have q: "sealedRanges (disk p) (joinPath (baseDir p) (subDir p)) (fileSuffix p) (entriesPerFile p) k"
    "extractSuffix p = fileSuffix p" "plainDir (joinPath (baseDir p) (subDir p))" "confOK p" "dom (cachedHash (cfHooks E) (mem p)) = {}"
    using dir n d by (simp_all add: p newCFilterFiles_def confOK_def cfHooks_def cfCachedHash_def fun_eq_iff)
  obtain p' where r: "startUp E (cfHooks E) N p = (Inr (), p')" "tailInv (cfHooks E) cfRangeFiles p'"
    "startupComplete p'" "currentHeight p' = N" "conf p' = conf p" "contentsRight (cfExpected C E) p'"
    "N - depth < lastSealedHeight p' + n"
    using cff.startUp_faithful [OF q, of N C, unfolded e, OF k N H found] by blast
  note all = cff.contents_of_whole_ranges [OF r(2,5,6), unfolded e, OF r(7)]
  show ?thesis
    by (intro exI [of _ p'] conjI allI impI r; rule all) (auto simp: cfExpected_def)
qed

subsection \<open>Loading the cache\<close>

text \<open>
  Loading the cache at start-up inverts what the header producer wrote: with the files of the
  first \<open>k\<close> ranges holding the serialized headers of a chain, \<open>loadFromHeaders\<close> returns
  the last height they cover, and the cache then has the block hash of that chain at every
  height up to it.
\<close>

lemma loadFromHeaders_sealed:
  assumes codec: "header_codec E" and io: "\<forall>t. ioFaults E t = None"
    and d: "sealedRanges (disk s) dir HeaderFileSuffix n k" "distinct (map fst (disk s))" and n: "0 < n" "0 \<le> k" "k * n \<le> 10000000"
    and dat: "\<forall>j. 0 \<le> j \<and> j < k \<longrightarrow> map_of (disk s) (blockFileName HeaderFileSuffix dir (j * n) (j * n + n - 1)) =
      Some (headersOf E hdrs (j * n) (j * n + n - 1))"
  shows "\<exists>s'. loadFromHeaders E dir s = (Inr (k * n - 1), s') \<and> bestHeight (cache s') = k * n - 1 \<and>
    (\<forall>h. heightToHash (cache s') h = (if 0 \<le> h \<and> h < k * n then Some (BlockHash E (hdrs h)) else heightToHash (cache s) h))"
proof -
  have "0 \<le> k * n" using n by simp
  then have sub: "sub32 (k * n) 1 = k * n - 1" using n(3) by (intro sub32_id) linarith+
  from loadHeaderFiles_ranges [OF codec io n(1,3) order_refl n(2) dat] obtain s' where
    "loadHeaderFiles E (listFiles (disk s) dir HeaderFileSuffix) 0 s = (Inr (k * n), s')"
    "\<forall>h. heightToHash (cache s') h = (if 0 \<le> h \<and> h < k * n then Some (BlockHash E (hdrs h)) else heightToHash (cache s) h)"
    unfolding listFiles_sealed [OF d n(1,3)] by auto
  with sub show ?thesis by (auto simp: loadFromHeaders_def)
qed

subsection \<open>Concrete runs\<close>

text \<open>The miniature chain as data; its first two blocks are served and valid.\<close>

definition miniData :: "miniHeader chainData" where
  "miniData = \<lparr>cHash = miniBlockHash, cHeader = (\<lambda>h. (of_int h, of_int h - 1)), cFilter = (\<lambda>h. [of_int h]),
     cFilterHeader = miniFilterHeader\<rparr>"

lemma miniData_ok: "serves (miniEnv 1) miniData 1 \<and> validChain (miniEnv 1) miniData 1"
proof -
  have two: "(0 \<le> h \<and> h \<le> 1) = (h = 0 \<or> h = 1)" for h :: int by auto
  have "serves (miniEnv 1) miniData 1"
    unfolding serves_def two
    by (auto simp: miniEnv_def miniChain_def miniData_def miniBlockHash_def miniFilterHeader_def hex_digit_def)
  moreover have "validChain (miniEnv 1) miniData 1"
    unfolding validChain_def two
    by (auto simp: miniEnv_def miniData_def miniBlockHash_def miniFilterHeader_def miniHash_def zeroHash_def)
  ultimately show ?thesis ..
qed

lemma header_files_refine_chain_witness:
  "\<exists>p'. startUp (miniEnv 1) (headerHooks (miniEnv 1)) 1 (newHeaderFiles 2 0 ''/d'' miniShared) = (Inr (), p') \<and>
     map_of (disk p') (headerFileName (newHeaderFiles 2 0 ''/d'' miniShared :: miniHeader headerFiles) 0 1) =
       Some (miniSerialize (0, - 1) @ miniSerialize (1, 0))"
proof -
  have dir: "plainDir (joinPath ''/d'' HeaderFileDir)" by (simp add: plainDir_def joinPath_def HeaderFileDir_def upt_rec)
  have sr: "sealedRanges (disk miniShared) (joinPath ''/d'' HeaderFileDir) HeaderFileSuffix 2 0"
    by (simp add: sealedRanges_def miniShared_def)
  have found: "contentsRight (headerExpected miniData (miniEnv 1))
      ((newHeaderFiles 2 0 ''/d'' miniShared)\<lparr>lastSealedHeight := 0 * 2 - 1\<rparr>)"
    by (auto simp: contentsRight_def newHeaderFiles_def)
  have c: "cacheRight miniData 1 (cache miniShared)" by (simp add: cacheRight_def miniShared_def newH2HCache_def)
  have b: "(0::int) < 2" "2 \<le> heightBound" "(0::int) \<le> 0" "0 \<le> heightBound" "0 * 2 \<le> (1::int)" "1 \<le> heightBound"
    by (simp_all add: heightBound_def)
  obtain p' where r: "startUp (miniEnv 1) (headerHooks (miniEnv 1)) 1 (newHeaderFiles 2 0 ''/d'' miniShared) = (Inr (), p')"
    and all: "\<forall>j. 0 \<le> j \<and> j * 2 + 2 - 1 \<le> 1 - 0 \<longrightarrow>
       map_of (disk p') (headerFileName (newHeaderFiles 2 0 ''/d'' miniShared :: miniHeader headerFiles) (j * 2) (j * 2 + 2 - 1)) =
         Some (concat (map (\<lambda>h. SerializeHeader (miniEnv 1) (cHeader miniData h)) [j * 2..j * 2 + 2 - 1]))"
    using header_files_refine_chain [OF conjunct1 [OF miniData_ok] conjunct2 [OF miniData_ok] c b dir sr _ _ _ refl found] by auto
  have "concat (map (\<lambda>h. SerializeHeader (miniEnv 1) (cHeader miniData h)) [0..1]) = miniSerialize (0, - 1) @ miniSerialize (1, 0)"
    by (simp add: upto_01 miniEnv_def miniData_def)
  with r all [rule_format, of 0] show ?thesis by auto
qed

lemma filter_files_refine_chain_witness:
  "\<exists>p'. startUp (miniEnv 1) (cfHooks (miniEnv 1)) 1 (newCFilterFiles 2 0 ''/d'' miniShared) = (Inr (), p') \<and>
     map_of (disk p') (filterFileName (newCFilterFiles 2 0 ''/d'' miniShared) 0 1) = Some [1, 0, 1, 1]"
proof -
  have dir: "plainDir (joinPath ''/d'' FilterFileDir)" by (simp add: plainDir_def joinPath_def FilterFileDir_def upt_rec)
  have sr: "sealedRanges (disk miniShared) (joinPath ''/d'' FilterFileDir) FilterFileSuffix 2 0"
    by (simp add: sealedRanges_def miniShared_def)
  have found: "contentsRight (cfExpected miniData (miniEnv 1))
      ((newCFilterFiles 2 0 ''/d'' miniShared)\<lparr>lastSealedHeight := 0 * 2 - 1\<rparr>)"
    by (auto simp: contentsRight_def newCFilterFiles_def)
  have c: "cacheRight miniData 1 (cache miniShared)" by (simp add: cacheRight_def miniShared_def newH2HCache_def)
  have b: "(0::int) < 2" "2 \<le> heightBound" "(0::int) \<le> 0" "0 \<le> heightBound" "0 * 2 \<le> (1::int)" "1 \<le> heightBound"
    by (simp_all add: heightBound_def)
  obtain p' where r: "startUp (miniEnv 1) (cfHooks (miniEnv 1)) 1 (newCFilterFiles 2 0 ''/d'' miniShared) = (Inr (), p')"
    and all: "\<forall>j. 0 \<le> j \<and> j * 2 + 2 - 1 \<le> 1 - 0 \<longrightarrow>
       map_of (disk p') (filterFileName (newCFilterFiles 2 0 ''/d'' miniShared) (j * 2) (j * 2 + 2 - 1)) =
         Some (concat (map (\<lambda>h. WriteVarBytes (miniEnv 1) (cFilter miniData h)) [j * 2..j * 2 + 2 - 1]))"
    using filter_files_refine_chain [OF conjunct1 [OF miniData_ok] conjunct2 [OF miniData_ok] c b dir sr _ _ _ refl found] by auto
  have "concat (map (\<lambda>h. WriteVarBytes (miniEnv 1) (cFilter miniData h)) [0..1]) = [1, 0, 1, 1]"
    by (simp add: upto_01 miniEnv_def miniData_def compactSize_def)
  with r all [rule_format, of 0] show ?thesis by auto
qed

end
