(* ===== verification/Handlers.thy ===== *)
theory Handlers
  imports Http Faithful
begin

text \<open>
  \<open>handlers.go\<close>: the HTTP endpoints. A handler takes the request, the server and the
  response writer; it changes the writer and, by looking hashes up, the shared cache. A handler
  that never returns, because it waits for the lock of the cache, leaves the writer \<open>hung\<close>. The
  \<open>server\<close> record has the fields of the struct that the handlers read; a producer that is
  not running is \<open>None\<close>. Calls of the backend that only handlers make are the record
  \<open>webEnv\<close>.

  The lemmas show which bytes a request is answered with: a sealed range by its file, the
  tail by what the producer has in memory, an import by the metadata followed by the headers
  of all heights below the requested one; that only sealed data gets the long cache life;
  that a client who asks for one range after the other gets the whole chain; and which
  requests are refused.
\<close>

record merkleBlock =
  mbBlockHash :: hash
  mbEncode :: "err + bytes"

record feeEstimate =
  feeErrors :: "string list"
  feeRate :: "int option"

text \<open>
  The answers at moment \<open>n\<close>; a block or transaction comes as what its \<open>Serialize\<close>
  writes. \<open>feeRate\<close> is the bit pattern of a \<open>float64\<close> and \<open>satPerKVByte\<close> the Go
  expression that multiplies it by \<open>SatoshiPerBitcoin\<close> and truncates; the two conversions
  after it are lnd's.
\<close>

record webEnv =
  GetBlock :: "nat \<Rightarrow> hash \<Rightarrow> err + stream"
  GetTxOutProof :: "nat \<Rightarrow> string \<Rightarrow> err + merkleBlock"
  GetBlockHeaderVerbose :: "nat \<Rightarrow> hash \<Rightarrow> err + int"
  GetRawTransaction :: "nat \<Rightarrow> hash \<Rightarrow> err + stream"
  EstimateSmartFee :: "nat \<Rightarrow> int \<Rightarrow> err + feeEstimate"
  satPerKVByte :: "int \<Rightarrow> int"
  FeePerKWeight :: "int \<Rightarrow> int"
  FeePerVByte :: "int \<Rightarrow> int"
  webGet :: "nat \<Rightarrow> string \<Rightarrow> err + int \<times> stream"
  hashToString :: "hash \<Rightarrow> string"
  CommitID :: string
  indexHTML :: string

record 'h server = shared +
  lightMode :: bool
  sBaseDir :: string
  sHeadersPerFile :: int
  sFiltersPerFile :: int
  sSPTweaksPerFile :: int
  sReOrgSafeDepth :: nat
  sNet :: nat
  sChainName :: string
  sGenesisHash :: string
  sDisableTLS :: bool
  sBackendHost :: string
  sHeaderFiles :: "'h headerFiles"
  sCFilterFiles :: cFilterFiles
  sSPTweakFiles :: "spTweakFiles option"
  sCustomFilterFiles :: "customFilterFiles option"

text \<open>The interface \<open>blockProcessor\<close>.\<close>

record blockProcessor =
  bpStartupComplete :: bool
  bpCurrentHeight :: int
  bpLastSealedHeight :: int

definition processorOf :: "'m producer \<Rightarrow> blockProcessor" where
  "processorOf p = \<lparr>bpStartupComplete = isStartupComplete p, bpCurrentHeight = getCurrentHeight p,
     bpLastSealedHeight = getLastSealedHeight p\<rparr>"

type_synonym 'h handler = "'h server \<times> writer \<Rightarrow> 'h server \<times> writer"

definition respond :: "(writer \<Rightarrow> writer) \<Rightarrow> 'h handler" where
  "respond f sw = (fst sw, f (snd sw))"

text \<open>A call that may fail; \<open>onErr\<close> sends the response of the error branch.\<close>

definition attempt :: "('h server, 'a) go \<Rightarrow> (err \<Rightarrow> writer \<Rightarrow> writer) \<Rightarrow> ('a \<Rightarrow> 'h handler) \<Rightarrow> 'h handler" where
  "attempt m onErr k sw =
     (case m (fst sw) of (Inl e, s1) \<Rightarrow> (s1, onErr e (snd sw)) | (Inr a, s1) \<Rightarrow> k a (s1, snd sw))"

text \<open>
  The read lock of the cache. \<open>statusRequestHandler\<close>, \<open>heightBasedRequestHandler\<close> and
  \<open>serveHeightBasedImport\<close> take it before they call \<open>getBlockHash\<close> and give it back when
  they return. A hash that is there is returned; a backend that fails is an error. But when the
  backend knows a hash that is not there, \<open>getBlockHash\<close> asks for the write lock while
  its caller still has the read lock: the handler waits for itself and never returns, the result
  \<open>None\<close> (\<open>CacheLock.nested_miss_never_answers\<close> proves this of the single lock
  operations, for every schedule). The write lock stays asked for from then on, which is
  \<open>writerWaits\<close>, and \<open>RWMutex\<close> admits no reader behind a waiting writer: whoever takes the
  read lock afterwards hangs as well. A request is one step here; what a writer can do between the
  two read locks of a lookup that succeeds is in \<open>CacheLock.nested_read_lock_deadlocks\<close>.
\<close>

definition getBlockHashHolding :: "'h env \<Rightarrow> int \<Rightarrow> 'h server \<Rightarrow> (err + hash) option \<times> 'h server" where
  "getBlockHashHolding E h s =
     (case getBlockHash E h s of
        (Inl e, s1) \<Rightarrow> (Some (Inl e), s1)
      | (Inr hash, s1) \<Rightarrow>
          if heightToHash (cache s) h = None
          then (None, s\<lparr>now := now s1, cache := (cache s)\<lparr>writerWaits := True\<rparr>\<rparr>)
          else (Some (Inr hash), s1))"

text \<open>A call that begins by taking the read lock.\<close>

definition attemptLocked :: "('h server \<Rightarrow> (err + 'a) option \<times> 'h server) \<Rightarrow> (err \<Rightarrow> writer \<Rightarrow> writer) \<Rightarrow>
    ('a \<Rightarrow> 'h handler) \<Rightarrow> 'h handler" where
  "attemptLocked m onErr k sw =
     (if writerWaits (cache (fst sw)) then (fst sw, (snd sw)\<lparr>hung := True\<rparr>)
      else case m (fst sw) of
             (None, s1) \<Rightarrow> (s1, (snd sw)\<lparr>hung := True\<rparr>)
           | (Some (Inl e), s1) \<Rightarrow> (s1, onErr e (snd sw))
           | (Some (Inr a), s1) \<Rightarrow> k a (s1, snd sw))"

definition webCall :: "(nat \<Rightarrow> err + 'a) \<Rightarrow> ('h server, 'a) go" where
  "webCall f s = (f (now s), s\<lparr>now := Suc (now s)\<rparr>)"

subsection \<open>Errors\<close>

definition errUnavailableInLightMode :: err where "errUnavailableInLightMode = Errf ''endpoint not available in light mode'' []"
definition errUnavailableSPTweakDataTurnedOff :: err where "errUnavailableSPTweakDataTurnedOff = Errf ''SP tweak data indexing is turned off'' []"
definition errUnknownDustLimit :: err where "errUnknownDustLimit = Errf ''unknown dust limit'' []"
definition errUnavailableCustomFiltersTurnedOff :: err where "errUnavailableCustomFiltersTurnedOff = Errf ''custom filter indexing is turned off'' []"
definition errUnknownCustomFilterType :: err where "errUnknownCustomFilterType = Errf ''unknown custom filter type'' []"
definition errStillStartingUp :: err where "errStillStartingUp = Errf ''server still starting up, please try again later'' []"
definition errInvalidSyncStatus :: err where "errInvalidSyncStatus = Errf ''invalid sync status'' []"
definition errInvalidBlockHash :: err where "errInvalidBlockHash = Errf ''invalid block hash'' []"
definition errInvalidTxHash :: err where "errInvalidTxHash = Errf ''invalid transaction hash'' []"
definition errInvalidOutputIndex :: err where "errInvalidOutputIndex = Errf ''invalid output index'' []"
definition errFeeEstimatesUnavailable :: err where "errFeeEstimatesUnavailable = Errf ''fee rate estimates unavailable'' []"

subsection \<open>Files\<close>

text \<open>\<open>fileExists\<close> says yes when \<open>os.Stat\<close> fails for another reason than a missing file.\<close>

definition statFile :: "'h env \<Rightarrow> string \<Rightarrow> 'z shared_scheme \<Rightarrow> bool \<times> 'z shared_scheme" where
  "statFile E name s = (fileExists (disk s) name \<or> ioFaults E (now s) \<noteq> None, s\<lparr>now := Suc (now s)\<rparr>)"

text \<open>\<open>streamFile\<close> copies what it can read; the flag says whether it failed.\<close>

definition streamFile :: "'h env \<Rightarrow> string \<Rightarrow> 'h server \<times> writer \<Rightarrow> bool \<times> 'h server \<times> writer" where
  "streamFile E fileName sw =
     (let s = fst sw; w = snd sw; s1 = s\<lparr>now := Suc (now s)\<rparr> in
      case (map_of (disk s) fileName, ioFaults E (now s)) of
        (None, _) \<Rightarrow> (False, s1, w)
      | (Some bs, Some OpenFault) \<Rightarrow> (False, s1, w)
      | (Some bs, Some (WriteFault k)) \<Rightarrow> (False, s1, writeBody (take k bs) w)
      | (Some bs, _) \<Rightarrow> (True, s1, writeBody bs w))"

definition serveFile :: "'h env \<Rightarrow> request \<Rightarrow> string \<Rightarrow> 'h handler" where
  "serveFile E r fileName sw =
     (case readFile E fileName (fst sw) of
        (Inl e, s1) \<Rightarrow> (s1, sendError 500 (Errf ''error reading file'' []) (snd sw))
      | (Inr bs, s1) \<Rightarrow> (s1, serveContent (rangeHeader r) bs (headerSet ''Content-Type'' contentTypeBinary (snd sw))))"

subsection \<open>Checks of the requested height\<close>

definition checkStartHeight :: "blockProcessor \<Rightarrow> int \<Rightarrow> int \<Rightarrow> err + unit" where
  "checkStartHeight processor height entries =
     (if i32 height > bpCurrentHeight processor
      then Inl (Errf ''start height %d is greater than current height %d'' [height, bpCurrentHeight processor])
      else if height \<noteq> 0 \<and> height mod entries \<noteq> 0
      then Inl (Errf ''invalid start height %d, must be zero or a multiple of %d'' [height, entries])
      else Inr ())"

definition checkEndHeight :: "blockProcessor \<Rightarrow> int \<Rightarrow> int \<Rightarrow> err + unit" where
  "checkEndHeight processor height entries =
     (if i32 height > add32 (bpCurrentHeight processor) 1
      then Inl (Errf ''end height %d is greater than current height %d'' [height, bpCurrentHeight processor])
      else if height = 0 then Inl (Errf ''invalid end height %d, must be a multiple of %d'' [height, entries])
      else Inr ())"

subsection \<open>Batched files\<close>

text \<open>
  The last part of \<open>heightBasedRequestHandler\<close>: the range is not in a file, so it is
  streamed from memory up to the current height, with the size announced when it is known.
\<close>

definition serveTail :: "(int \<Rightarrow> int \<Rightarrow> stream) \<Rightarrow> (int \<Rightarrow> int \<Rightarrow> int \<times> bool) option \<Rightarrow> blockProcessor \<Rightarrow> int \<Rightarrow> writer \<Rightarrow> writer" where
  "serveTail serializeCb sizeCb processor startHeight w =
     (let endHeight = bpCurrentHeight processor;
          w1 = headerSet ''Content-Type'' contentTypeBinary (addCacheHeaders maxAgeMemory (addCorsHeaders w));
          w2 = (case sizeCb of
                  None \<Rightarrow> w1
                | Some sz \<Rightarrow> (case sz (i32 startHeight) endHeight of
                      (n, ok) \<Rightarrow> if ok then headerSet ''Content-Length'' (intString n) w1 else w1))
      in writeBody (fst (serializeCb (i32 startHeight) endHeight)) (writeHeader 200 w2))"

definition heightBasedRequestHandler :: "'h env \<Rightarrow> request \<Rightarrow> string \<Rightarrow> string \<Rightarrow> int \<Rightarrow> (int \<Rightarrow> int \<Rightarrow> stream) \<Rightarrow>
    (int \<Rightarrow> int \<Rightarrow> int \<times> bool) option \<Rightarrow> blockProcessor \<Rightarrow> 'h handler" where
  "heightBasedRequestHandler E r subDirectory suffix entries serializeCb sizeCb processor sw =
     (if lightMode (fst sw) then respond (sendError 503 errUnavailableInLightMode) sw
      else if \<not> bpStartupComplete processor then respond (sendError 503 errStillStartingUp) sw
      else case parseRequestParamInt64 r ''height'' of
        Inl e \<Rightarrow> respond (sendError 400 e) sw
      | Inr startHeight \<Rightarrow>
          (case checkStartHeight processor startHeight (i32 entries) of
             Inl e \<Rightarrow> respond (sendError 400 e) sw
           | Inr _ \<Rightarrow>
               (let srcDir = joinPath (sBaseDir (fst sw)) subDirectory;
                    fileName = blockFileName suffix srcDir startHeight (i64 (startHeight + entries - 1))
                in case statFile E fileName (fst sw) of
                     (True, s1) \<Rightarrow> serveFile E r fileName (s1, addCacheHeaders maxAgeDisk (addCorsHeaders (snd sw)))
                   | (False, s1) \<Rightarrow>
                       attemptLocked (getBlockHashHolding E (i32 startHeight)) (\<lambda>_. sendError 400 (Errf ''invalid height'' []))
                         (\<lambda>_. respond (serveTail serializeCb sizeCb processor startHeight)) (s1, snd sw))))"

definition headersRequestHandler :: "'h env \<Rightarrow> request \<Rightarrow> 'h handler" where
  "headersRequestHandler E r sw =
     heightBasedRequestHandler E r HeaderFileDir HeaderFileSuffix (sHeadersPerFile (fst sw))
       (serializeHeaders E (mem (sHeaderFiles (fst sw)))) (Some headersSize) (processorOf (sHeaderFiles (fst sw))) sw"

definition filterHeadersRequestHandler :: "'h env \<Rightarrow> request \<Rightarrow> 'h handler" where
  "filterHeadersRequestHandler E r sw =
     heightBasedRequestHandler E r HeaderFileDir FilterHeaderFileSuffix (sHeadersPerFile (fst sw))
       (serializeFilterHeaders (mem (sHeaderFiles (fst sw)))) (Some filterHeadersSize) (processorOf (sHeaderFiles (fst sw))) sw"

definition filtersRequestHandler :: "'h env \<Rightarrow> request \<Rightarrow> 'h handler" where
  "filtersRequestHandler E r sw =
     heightBasedRequestHandler E r FilterFileDir FilterFileSuffix (sFiltersPerFile (fst sw))
       (serializeFilters E (mem (sCFilterFiles (fst sw)))) (Some (filtersSize E (mem (sCFilterFiles (fst sw)))))
       (processorOf (sCFilterFiles (fst sw))) sw"

text \<open>The method \<open>customFilterConfig\<close>: the configuration, or the error response.\<close>

definition resolveCustomFilter :: "request \<Rightarrow> 'h server \<Rightarrow> (int \<times> err) + (customFilterFiles \<times> string \<times> nat)" where
  "resolveCustomFilter r s =
     (case sCustomFilterFiles s of
        None \<Rightarrow> Inl (503, errUnavailableCustomFiltersTurnedOff)
      | Some c \<Rightarrow>
          (let filterType = lookupStr (vars r) ''filterType'' in
           case customFilterConfigIndex filterType of
             None \<Rightarrow> Inl (400, Errf (errText errUnknownCustomFilterType @ '': '' @ filterType) [])
           | Some cfgIndex \<Rightarrow> Inr (c, filterType, cfgIndex)))"

definition customFiltersRequestHandler :: "'h env \<Rightarrow> request \<Rightarrow> 'h handler" where
  "customFiltersRequestHandler E r sw =
     (case resolveCustomFilter r (fst sw) of
        Inl (code, e) \<Rightarrow> respond (sendError code e) sw
      | Inr (c, filterType, cfgIndex) \<Rightarrow>
          heightBasedRequestHandler E r (customFilterDir filterType) FilterFileSuffix (sFiltersPerFile (fst sw))
            (cuSerializeFilters E (mem c) cfgIndex) (Some (cuFiltersSize E (mem c) cfgIndex)) (processorOf c) sw)"

definition customFilterHeadersRequestHandler :: "'h env \<Rightarrow> request \<Rightarrow> 'h handler" where
  "customFilterHeadersRequestHandler E r sw =
     (case resolveCustomFilter r (fst sw) of
        Inl (code, e) \<Rightarrow> respond (sendError code e) sw
      | Inr (c, filterType, cfgIndex) \<Rightarrow>
          heightBasedRequestHandler E r (customHeaderDir filterType) FilterHeaderFileSuffix (sHeadersPerFile (fst sw))
            (cuSerializeFilterHeaders (mem c) cfgIndex) (Some cuFilterHeadersSize) (processorOf c) sw)"

definition spTweaksRequestHandler :: "'h env \<Rightarrow> request \<Rightarrow> 'h handler" where
  "spTweaksRequestHandler E r sw =
     (case sSPTweakFiles (fst sw) of
        None \<Rightarrow> respond (sendError 503 errUnavailableSPTweakDataTurnedOff) sw
      | Some f \<Rightarrow>
          (case parseRequestParamInt64 r ''dust'' of
             Inl e \<Rightarrow> respond (sendError 400 e) sw
           | Inr dust \<Rightarrow>
               (let dustLimit = nat (dust mod 18446744073709551616) in
                if \<not> isValidSPTweakDustLimit dustLimit
                then respond (sendError 400 (Errf (errText errUnknownDustLimit @ '': '' @ intString dust @
                        '', supported values: [0 600 1000 3750]'') [])) sw
                else heightBasedRequestHandler E r (spTweakDustDir dustLimit) SPTweakFileSuffix (sSPTweaksPerFile (fst sw))
                       (serializeSPTweaks E (mem f) dustLimit) (Some (spTweaksSize E (mem f) dustLimit)) (processorOf f) sw)))"

subsection \<open>A single filter\<close>

text \<open>
  The last part of \<open>filterSingleRequestHandler\<close>: the backend's filter, with the long
  cache life when the height is sealed. It looks the hash up without the lock, so only
  \<open>getBlockHash\<close> itself takes it.
\<close>

definition filterFromBackend :: "'h env \<Rightarrow> int \<Rightarrow> 'h handler" where
  "filterFromBackend E height =
     attemptLocked (\<lambda>s. apfst Some (getBlockHash E (i32 height) s)) (\<lambda>_. sendError 400 (Errf ''invalid height'' [])) (\<lambda>hash.
     attempt (rpcCall E (\<lambda>V. GetBlockFilter V hash)) (sendError 500) (\<lambda>bf sw.
       case hex_decode (bfFilter bf) of
         None \<Rightarrow> respond (sendError 500 (Errf ''encoding/hex: invalid byte'' [])) sw
       | Some filterBytes \<Rightarrow>
           respond (sendRawBytes filterBytes
             (if \<not> lightMode (fst sw) \<and> getLastSealedHeight (sCFilterFiles (fst sw)) \<ge> height then maxAgeDisk
              else maxAgeMemory)) sw))"

definition filterSingleRequestHandler :: "'h env \<Rightarrow> request \<Rightarrow> 'h handler" where
  "filterSingleRequestHandler E r sw =
     (case parseRequestParamInt64 r ''height'' of
        Inl e \<Rightarrow> respond (sendError 400 e) sw
      | Inr height \<Rightarrow>
          (let c = sCFilterFiles (fst sw) in
           if \<not> lightMode (fst sw) \<and> isStartupComplete c
           then if height > getCurrentHeight c
                then respond (sendError 400 (Errf ''start height %d is greater than current height %d'' [height, getCurrentHeight c])) sw
                else (case filterAtHeight (mem c) (i32 height) of
                        Some f \<Rightarrow> respond (sendRawBytes f maxAgeMemory) sw
                      | None \<Rightarrow> filterFromBackend E height sw)
           else filterFromBackend E height sw))"

subsection \<open>Imports\<close>

definition headerImportVersion :: byte where "headerImportVersion = 0"
definition typeBlockHeader :: byte where "typeBlockHeader = 0"
definition typeFilterHeader :: byte where "typeFilterHeader = 1"

definition importMetadata :: "nat \<Rightarrow> byte \<Rightarrow> bytes" where
  "importMetadata net fileType = le_bytes 4 net @ [headerImportVersion, fileType] @ le_bytes 4 0"

text \<open>
  The loop over the files: \<open>ImportDone\<close> when the handler returns from inside it,
  \<open>ImportTail\<close> with the height where it stops. Every turn but the last streams another
  file of the disk, so one turn more than there are files is budget enough
  (\<open>importFiles_ends\<close>).
\<close>

datatype importOutcome = ImportDone | ImportTail int | ImportStuck

fun importFiles :: "nat \<Rightarrow> 'h env \<Rightarrow> (int \<Rightarrow> string) \<Rightarrow> int \<Rightarrow> int \<Rightarrow> int \<Rightarrow> 'h server \<times> writer \<Rightarrow>
    importOutcome \<times> 'h server \<times> writer" where
  "importFiles 0 E name endHeight n lastHeight sw = (ImportStuck, sw)"
| "importFiles (Suc k) E name endHeight n lastHeight sw =
     (if lastHeight > endHeight then (ImportTail lastHeight, sw)
      else if lastHeight = endHeight then (ImportDone, sw)
      else case statFile E (name lastHeight) (fst sw) of
             (False, s1) \<Rightarrow> (ImportTail lastHeight, s1, snd sw)
           | (True, s1) \<Rightarrow>
               (case streamFile E (name lastHeight) (s1, snd sw) of
                  (False, sw2) \<Rightarrow> (ImportDone, sw2)
                | (True, sw2) \<Rightarrow> importFiles k E name endHeight n (i64 (lastHeight + n)) sw2))"

definition serveHeightBasedImport :: "'h env \<Rightarrow> string \<Rightarrow> string \<Rightarrow> int \<Rightarrow> (int \<Rightarrow> int \<Rightarrow> stream) \<Rightarrow> byte \<Rightarrow> int \<Rightarrow> 'h handler" where
  "serveHeightBasedImport E subDirectory suffix entries serializeCb fileType endHeight sw =
     (let s = fst sw; lastSealedBoundary = add32 (lastSealedHeight (sHeaderFiles s)) 1;
          onDisk = endHeight \<le> lastSealedBoundary;
          maxAge = (if onDisk then maxAgeDisk else maxAgeMemory)
      in if onDisk \<and> endHeight mod entries \<noteq> 0
         then respond (sendError 400 (Errf ''invalid end height %d, must be a multiple of %d'' [endHeight, entries])) sw
         else
           (let w1 = writeBody (importMetadata (sNet s) fileType)
                       (writeHeader 200 (addCacheHeaders maxAge (addCorsHeaders (snd sw))));
                name = (\<lambda>h. blockFileName suffix (joinPath (sBaseDir s) subDirectory) h (i64 (h + entries - 1)))
            in case importFiles (length (disk s) + 2) E name endHeight entries 0 (s, w1) of
                 (ImportTail lastHeight, sw2) \<Rightarrow>
                   attemptLocked (getBlockHashHolding E (i32 lastHeight)) (\<lambda>_. sendError 400 (Errf ''invalid height'' []))
                     (\<lambda>_. respond (writeBody (fst (serializeCb (i32 lastHeight) (sub32 (i32 endHeight) 1))))) sw2
               | (_, sw2) \<Rightarrow> sw2))"

definition checkImportPreconditions :: "'h server \<Rightarrow> (int \<times> err) option" where
  "checkImportPreconditions s =
     (if lightMode s then Some (503, errUnavailableInLightMode)
      else if \<not> startupComplete (sHeaderFiles s) then Some (503, errStillStartingUp)
      else None)"

definition heightBasedImportRequestHandler :: "'h env \<Rightarrow> request \<Rightarrow> string \<Rightarrow> string \<Rightarrow> int \<Rightarrow> (int \<Rightarrow> int \<Rightarrow> stream) \<Rightarrow>
    byte \<Rightarrow> 'h handler" where
  "heightBasedImportRequestHandler E r subDirectory suffix entries serializeCb fileType sw =
     (case checkImportPreconditions (fst sw) of
        Some (code, e) \<Rightarrow> respond (sendError code e) sw
      | None \<Rightarrow>
          (case parseRequestParamInt64 r ''height'' of
             Inl e \<Rightarrow> respond (sendError 400 e) sw
           | Inr endHeight \<Rightarrow>
               (case checkEndHeight (processorOf (sHeaderFiles (fst sw))) endHeight entries of
                  Inl e \<Rightarrow> respond (sendError 400 e) sw
                | Inr _ \<Rightarrow> serveHeightBasedImport E subDirectory suffix entries serializeCb fileType endHeight sw)))"

definition heightBasedImportLatestHandler :: "'h env \<Rightarrow> string \<Rightarrow> string \<Rightarrow> int \<Rightarrow> (int \<Rightarrow> int \<Rightarrow> stream) \<Rightarrow> byte \<Rightarrow> 'h handler" where
  "heightBasedImportLatestHandler E subDirectory suffix entries serializeCb fileType sw =
     (case checkImportPreconditions (fst sw) of
        Some (code, e) \<Rightarrow> respond (sendError code e) sw
      | None \<Rightarrow>
          serveHeightBasedImport E subDirectory suffix entries serializeCb fileType
            (currentHeight (sHeaderFiles (fst sw)) + 1) sw)"

definition headersImportRequestHandler :: "'h env \<Rightarrow> request \<Rightarrow> 'h handler" where
  "headersImportRequestHandler E r sw =
     heightBasedImportRequestHandler E r HeaderFileDir HeaderFileSuffix (sHeadersPerFile (fst sw))
       (serializeHeaders E (mem (sHeaderFiles (fst sw)))) typeBlockHeader sw"

definition headersImportLatestRequestHandler :: "'h env \<Rightarrow> 'h handler" where
  "headersImportLatestRequestHandler E sw =
     heightBasedImportLatestHandler E HeaderFileDir HeaderFileSuffix (sHeadersPerFile (fst sw))
       (serializeHeaders E (mem (sHeaderFiles (fst sw)))) typeBlockHeader sw"

definition filterHeadersImportRequestHandler :: "'h env \<Rightarrow> request \<Rightarrow> 'h handler" where
  "filterHeadersImportRequestHandler E r sw =
     heightBasedImportRequestHandler E r HeaderFileDir FilterHeaderFileSuffix (sHeadersPerFile (fst sw))
       (serializeFilterHeaders (mem (sHeaderFiles (fst sw)))) typeFilterHeader sw"

definition filterHeadersImportLatestRequestHandler :: "'h env \<Rightarrow> 'h handler" where
  "filterHeadersImportLatestRequestHandler E sw =
     heightBasedImportLatestHandler E HeaderFileDir FilterHeaderFileSuffix (sHeadersPerFile (fst sw))
       (serializeFilterHeaders (mem (sHeaderFiles (fst sw)))) typeFilterHeader sw"

subsection \<open>Status\<close>

definition version :: string where "version = ''1.4.3''"

definition currentStatus :: "'h env \<Rightarrow> webEnv \<Rightarrow> 'h server \<Rightarrow> (err + Status) option \<times> 'h server" where
  "currentStatus E W s0 =
     (let bestHeight = getCurrentHeight (sHeaderFiles s0) in
      case getBlockHashHolding E bestHeight s0 of
        (None, s) \<Rightarrow> (None, s)
      | (Some (Inl e), s) \<Rightarrow> (Some (Inl e), s)
      | (Some (Inr bestBlock), s) \<Rightarrow>
          (case filterHeaderAtHeight (mem (sHeaderFiles s)) bestHeight of
             None \<Rightarrow> (Some (Inl (Errf ''no filter header at height %d'' [bestHeight])), s)
           | Some bestFilter \<Rightarrow>
               (let filterHeight = currentHeight (sCFilterFiles s);
                    (spHeight, sync1) = (case sSPTweakFiles s of
                        None \<Rightarrow> (0, bestHeight = filterHeight)
                      | Some f \<Rightarrow> (currentHeight f, bestHeight = filterHeight \<and> bestHeight = currentHeight f));
                    (customHeight, allSynced) = (case sCustomFilterFiles s of
                        None \<Rightarrow> (0, sync1)
                      | Some c \<Rightarrow> (currentHeight c, sync1 \<and> bestHeight = currentHeight c))
                in (Some (Inr \<lparr>Version = version, StCommit = CommitID W, ChainGenesisHash = sGenesisHash s, ChainName = sChainName s,
                      BestBlockHeight = bestHeight, BestBlockHash = hashToString W bestBlock,
                      BestFilterHeader = hashToString W bestFilter, BestFilterHeight = filterHeight,
                      BestSPTweakHeight = spHeight, CustomFiltersAvailable = (sCustomFilterFiles s \<noteq> None),
                      BestCustomFilterHeight = customHeight, AllFilesSynced = allSynced,
                      EntriesPerHeaderFile = sHeadersPerFile s, EntriesPerFilterFile = sFiltersPerFile s,
                      EntriesPerSPTweakFile = sSPTweaksPerFile s\<rparr>), s))))"

definition statusRequestHandler :: "'h env \<Rightarrow> webEnv \<Rightarrow> 'h handler" where
  "statusRequestHandler E W =
     attemptLocked (currentStatus E W) (\<lambda>_. sendError 500 errInvalidSyncStatus)
       (\<lambda>st. respond (sendJSON (statusJSON st) maxAgeMemory))"

definition indexRequestHandler :: "webEnv \<Rightarrow> 'h handler" where
  "indexRequestHandler W =
     respond (\<lambda>w. writeBody (strBytes (indexHTML W))
       (writeHeader 200 (headerSet ''Content-Type'' ''text/html'' (addCorsHeaders w))))"

subsection \<open>Requests passed on to the backend\<close>

definition estimateFeeRequestHandler :: "webEnv \<Rightarrow> request \<Rightarrow> 'h handler" where
  "estimateFeeRequestHandler W r sw =
     (case parseRequestParamInt64 r ''blocks'' of
        Inl e \<Rightarrow> respond (sendError 500 errFeeEstimatesUnavailable) sw
      | Inr confTarget \<Rightarrow>
          attempt (webCall (\<lambda>n. EstimateSmartFee W n confTarget)) (\<lambda>_. sendError 500 errFeeEstimatesUnavailable) (\<lambda>res.
            respond (if feeErrors res \<noteq> [] \<or> feeRate res = None then sendError 500 errFeeEstimatesUnavailable
              else (let feeKVB = satPerKVByte W (the (feeRate res)); feeKWU = FeePerKWeight W feeKVB; feeVB = FeePerVByte W feeKWU
                    in sendJSON (feeRateJSON \<lparr>FeeSatPerKVByte = feeKVB, FeeSatPerKWeight = feeKWU, FeeSatPerVByte = feeVB\<rparr>)
                         maxAgeMemory))) sw)"

definition blockRequestHandler :: "'h env \<Rightarrow> webEnv \<Rightarrow> request \<Rightarrow> 'h handler" where
  "blockRequestHandler E W r sw =
     (case parseRequestParamChainHash E r ''hash'' of
        Inl e \<Rightarrow> respond (sendError 400 (Wrapf (errText errInvalidBlockHash) [] e)) sw
      | Inr blockHash \<Rightarrow>
          attempt (webCall (\<lambda>n. GetBlock W n blockHash)) (sendError 500) (\<lambda>block. respond (sendBinary block maxAgeDisk)) sw)"

definition headerRequestHandler :: "'h env \<Rightarrow> request \<Rightarrow> 'h handler" where
  "headerRequestHandler E r sw =
     (case parseRequestParamChainHash E r ''hash'' of
        Inl e \<Rightarrow> respond (sendError 400 (Wrapf (errText errInvalidBlockHash) [] e)) sw
      | Inr blockHash \<Rightarrow>
          attempt (rpcCall E (\<lambda>V. GetBlockHeader V blockHash)) (sendError 500)
            (\<lambda>header. respond (sendBinary (SerializeHeader E header, None) maxAgeDisk)) sw)"

text \<open>The part \<open>blockSpentTxOutsRequestHandler\<close> and \<open>utxoRequestHandler\<close> share.\<close>

definition queryFormat :: "request \<Rightarrow> string" where
  "queryFormat r =
     (let f = lookupStr (query r) ''format'' in if f = ''bin'' \<or> f = ''hex'' then f else ''json'')"

definition proxyGet :: "webEnv \<Rightarrow> string \<Rightarrow> nat \<Rightarrow> 'h handler" where
  "proxyGet W url maxAge =
     attempt (webCall (\<lambda>n. webGet W n url)) (sendError 500) (\<lambda>(status, answer).
       respond (if status \<noteq> 200 then sendError status (Errf ''upstream error: code %d'' [status])
                else sendJsonCopy answer maxAge))"

definition blockSpentTxOutsRequestHandler :: "'h env \<Rightarrow> webEnv \<Rightarrow> request \<Rightarrow> 'h handler" where
  "blockSpentTxOutsRequestHandler E W r sw =
     (case parseRequestParamChainHash E r ''hash'' of
        Inl e \<Rightarrow> respond (sendError 400 (Wrapf (errText errInvalidBlockHash) [] e)) sw
      | Inr blockHash \<Rightarrow>
          proxyGet W (backendRESTURL (sDisableTLS (fst sw)) (sBackendHost (fst sw)) @ ''/rest/spenttxouts/'' @
            hashToString W blockHash @ ''.'' @ queryFormat r) maxAgeDisk sw)"

definition txOutProofRequestHandler :: "'h env \<Rightarrow> webEnv \<Rightarrow> request \<Rightarrow> 'h handler" where
  "txOutProofRequestHandler E W r sw =
     (case parseRequestParamChainHash E r ''txid'' of
        Inl e \<Rightarrow> respond (sendError 400 (Wrapf (errText errInvalidTxHash) [] e)) sw
      | Inr txHash \<Rightarrow>
          attempt (webCall (\<lambda>n. GetTxOutProof W n (hashToString W txHash))) (sendError 500) (\<lambda>merkle.
          attempt (webCall (\<lambda>n. GetBlockHeaderVerbose W n (mbBlockHash merkle))) (sendError 500) (\<lambda>height.
          attempt (goLift (mbEncode merkle)) (sendError 500) (\<lambda>buf sw.
            let safeHeight = sub32 (currentHeight (sHeaderFiles (fst sw))) (i32 (int (sReOrgSafeDepth (fst sw)))) in
            respond (sendRawBytes buf (if height > safeHeight then maxAgeTemporary else maxAgeDisk)) sw))) sw)"

definition rawTxRequestHandler :: "'h env \<Rightarrow> webEnv \<Rightarrow> request \<Rightarrow> 'h handler" where
  "rawTxRequestHandler E W r sw =
     (case parseRequestParamChainHash E r ''txid'' of
        Inl e \<Rightarrow> respond (sendError 400 (Wrapf (errText errInvalidTxHash) [] e)) sw
      | Inr txHash \<Rightarrow>
          attempt (webCall (\<lambda>n. GetRawTransaction W n txHash)) (sendError 500) (\<lambda>tx. respond (sendBinary tx maxAgeDisk)) sw)"

definition utxoRequestHandler :: "'h env \<Rightarrow> webEnv \<Rightarrow> request \<Rightarrow> 'h handler" where
  "utxoRequestHandler E W r sw =
     (case parseRequestParamChainHash E r ''txid'' of
        Inl e \<Rightarrow> respond (sendError 400 (Wrapf (errText errInvalidBlockHash) [] e)) sw
      | Inr txHash \<Rightarrow>
          (case parseRequestParamInt64 r ''vout'' of
             Inl e \<Rightarrow> respond (sendError 400 (Wrapf (errText errInvalidOutputIndex) [] e)) sw
           | Inr vOut \<Rightarrow>
               proxyGet W (backendRESTURL (sDisableTLS (fst sw)) (sBackendHost (fst sw)) @ ''/rest/getutxos/'' @
                 (if lookupStr (query r) ''mempool'' = ''true'' then ''checkmempool/'' else '''') @
                 hashToString W txHash @ ''-'' @ intString vOut @ ''.'' @ queryFormat r) maxAgeMemory sw))"

subsection \<open>Routes\<close>

text \<open>
  The route templates of \<open>createRouter\<close>, one segment of the path at a time: a literal, a
  variable of hexadecimal or of decimal digits, a variable that takes a whole segment, or the
  pair \<open>{txid}-{vout}\<close>. \<open>gorilla/mux\<close> takes the first route that matches.
\<close>

datatype seg = Lit string | HexVar string | DecVar string | AnyVar string | PairVar string string

datatype endpoint =
    EIndex | EStatus | EBlock | EBlockSpentTxOuts | EHeader | EHeaders | EHeadersImportLatest | EHeadersImport
  | EEstimateFee | EFilterHeaders | EFilterHeadersImportLatest | EFilterHeadersImport | ECustomFilterHeaders
  | EFilters | EFilterSingle | ECustomFilters | ESPTweaks | ETxOutProof | ERawTx | EUtxo

definition isHex :: "char \<Rightarrow> bool" where
  "isHex c \<longleftrightarrow> isDigit c \<or> (97 \<le> (of_char c :: nat) \<and> (of_char c :: nat) \<le> 102)"

fun matchSeg :: "seg \<Rightarrow> string \<Rightarrow> (string \<times> string) list option" where
  "matchSeg (Lit l) t = (if t = l then Some [] else None)"
| "matchSeg (HexVar v) t = (if t \<noteq> [] \<and> list_all isHex t then Some [(v, t)] else None)"
| "matchSeg (DecVar v) t = (if t \<noteq> [] \<and> list_all isDigit t then Some [(v, t)] else None)"
| "matchSeg (AnyVar v) t = (if t \<noteq> [] then Some [(v, t)] else None)"
| "matchSeg (PairVar u v) t =
     (let a = takeWhile (\<lambda>c. c \<noteq> CHR ''-'') t; b = drop (length a + 1) t in
      if a \<noteq> [] \<and> list_all isHex a \<and> b \<noteq> [] \<and> list_all isDigit b then Some [(u, a), (v, b)] else None)"

fun matchSegs :: "seg list \<Rightarrow> string list \<Rightarrow> (string \<times> string) list option" where
  "matchSegs [] [] = Some []"
| "matchSegs (p # ps) (t # ts) =
     (case (matchSeg p t, matchSegs ps ts) of (Some xs, Some ys) \<Rightarrow> Some (xs @ ys) | _ \<Rightarrow> None)"
| "matchSegs _ _ = None"

definition createRouter :: "(seg list \<times> endpoint) list" where
  "createRouter =
     [([Lit []], EIndex),
      ([Lit ''index.html''], EIndex),
      ([Lit ''status''], EStatus),
      ([Lit ''block'', HexVar ''hash''], EBlock),
      ([Lit ''block'', HexVar ''hash'', Lit ''spenttxouts''], EBlockSpentTxOuts),
      ([Lit ''header'', HexVar ''hash''], EHeader),
      ([Lit ''headers'', DecVar ''height''], EHeaders),
      ([Lit ''headers'', Lit ''import'', Lit ''latest''], EHeadersImportLatest),
      ([Lit ''headers'', Lit ''import'', DecVar ''height''], EHeadersImport),
      ([Lit ''fees'', Lit ''estimate'', DecVar ''blocks''], EEstimateFee),
      ([Lit ''filter-headers'', DecVar ''height''], EFilterHeaders),
      ([Lit ''filter-headers'', Lit ''import'', Lit ''latest''], EFilterHeadersImportLatest),
      ([Lit ''filter-headers'', Lit ''import'', DecVar ''height''], EFilterHeadersImport),
      ([Lit ''filter-headers'', Lit ''type'', AnyVar ''filterType'', DecVar ''height''], ECustomFilterHeaders),
      ([Lit ''filters'', DecVar ''height''], EFilters),
      ([Lit ''filters'', Lit ''single'', DecVar ''height''], EFilterSingle),
      ([Lit ''filters'', Lit ''type'', AnyVar ''filterType'', DecVar ''height''], ECustomFilters),
      ([Lit ''sp'', Lit ''tweaks'', DecVar ''dust'', DecVar ''height''], ESPTweaks),
      ([Lit ''tx'', Lit ''out-proof'', HexVar ''txid''], ETxOutProof),
      ([Lit ''tx'', Lit ''raw'', HexVar ''txid''], ERawTx),
      ([Lit ''utxo'', PairVar ''txid'' ''vout''], EUtxo)]"

fun route :: "(seg list \<times> endpoint) list \<Rightarrow> string list \<Rightarrow> (endpoint \<times> (string \<times> string) list) option" where
  "route [] path = None"
| "route ((p, ep) # rs) path = (case matchSegs p path of Some vs \<Rightarrow> Some (ep, vs) | None \<Rightarrow> route rs path)"

fun handle :: "'h env \<Rightarrow> webEnv \<Rightarrow> endpoint \<Rightarrow> request \<Rightarrow> 'h handler" where
  "handle E W EIndex r = indexRequestHandler W"
| "handle E W EStatus r = statusRequestHandler E W"
| "handle E W EBlock r = blockRequestHandler E W r"
| "handle E W EBlockSpentTxOuts r = blockSpentTxOutsRequestHandler E W r"
| "handle E W EHeader r = headerRequestHandler E r"
| "handle E W EHeaders r = headersRequestHandler E r"
| "handle E W EHeadersImportLatest r = headersImportLatestRequestHandler E"
| "handle E W EHeadersImport r = headersImportRequestHandler E r"
| "handle E W EEstimateFee r = estimateFeeRequestHandler W r"
| "handle E W EFilterHeaders r = filterHeadersRequestHandler E r"
| "handle E W EFilterHeadersImportLatest r = filterHeadersImportLatestRequestHandler E"
| "handle E W EFilterHeadersImport r = filterHeadersImportRequestHandler E r"
| "handle E W ECustomFilterHeaders r = customFilterHeadersRequestHandler E r"
| "handle E W EFilters r = filtersRequestHandler E r"
| "handle E W EFilterSingle r = filterSingleRequestHandler E r"
| "handle E W ECustomFilters r = customFiltersRequestHandler E r"
| "handle E W ESPTweaks r = spTweaksRequestHandler E r"
| "handle E W ETxOutProof r = txOutProofRequestHandler E W r"
| "handle E W ERawTx r = rawTxRequestHandler E W r"
| "handle E W EUtxo r = utxoRequestHandler E W r"

text \<open>A request for a path: the handler of its route, or 404.\<close>

definition serveHTTP :: "'h env \<Rightarrow> webEnv \<Rightarrow> string list \<Rightarrow> request \<Rightarrow> 'h server \<Rightarrow> 'h server \<times> writer" where
  "serveHTTP E W path r s =
     (case route createRouter path of
        None \<Rightarrow> (s, writeBody (strBytes ''404 page not found'') (writeHeader 404 newWriter))
      | Some (ep, vs) \<Rightarrow> handle E W ep (r\<lparr>vars := vs\<rparr>) (s, newWriter))"

end
