(* ===== verification/Endpoints.thy ===== *)
theory Endpoints
  imports Handlers
begin

text \<open>
  What the endpoints of \<open>handlers.go\<close> answer. The locale \<open>batch_endpoint\<close> is the
  contract of the endpoints that serve batched files through \<open>heightBasedRequestHandler\<close>:
  which files, which entries in memory, which producer. Its lemmas say what a request is
  answered with, once for all of them; block headers, filter headers and basic filters
  interpret it.
\<close>

lemmas http_defs = statusOf_def fieldOf_def writeBody_def writeHeader_def headerSet_def headerAdd_def newWriter_def
  addCacheHeaders_def addCorsHeaders_def Let_def

lemma field_names [simp]:
  "HeaderCache \<noteq> HeaderCORS" "HeaderCache \<noteq> HeaderCORSMethods" "HeaderCache \<noteq> ''Content-Type''"
  "HeaderCache \<noteq> ''Content-Length''" "HeaderCache \<noteq> ''Accept-Ranges''" "HeaderCache \<noteq> ''Content-Range''"
  "HeaderCORS \<noteq> ''Content-Length''" "HeaderCORSMethods \<noteq> ''Content-Length''" "HeaderCORS \<noteq> HeaderCORSMethods"
  by (simp_all add: HeaderCache_def HeaderCORS_def HeaderCORSMethods_def)

lemma i64_id: "-9223372036854775808 \<le> x \<Longrightarrow> x \<le> 9223372036854775807 \<Longrightarrow> i64 x = x"
  by (simp add: i64_def)

subsection \<open>Requests for a height\<close>

definition heightRequest :: "int \<Rightarrow> request" where
  "heightRequest h = \<lparr>vars = [(''height'', decimal (nat h))], query = [], rangeHeader = None\<rparr>"

lemma decimal_digit: "decimal n \<noteq> [] \<and> isDigit (hd (decimal n))"
  using digits_decimal [of n] by (cases "decimal n") (auto simp: decimal.simps [of n] split: if_splits)

lemma parse_param:
  assumes "0 \<le> h" "h \<le> max64" "lookupStr (vars r) name = decimal (nat h)"
  shows "parseRequestParamInt64 r name = Inr h"
proof -
  obtain c cs where d: "decimal (nat h) = c # cs" "isDigit c" using decimal_digit [of "nat h"] by (cases "decimal (nat h)") auto
  then have "c \<noteq> CHR ''-''" "c \<noteq> CHR ''+''" by (auto simp: isDigit_def)
  then have "parseInt64 (c # cs) = (case parseUint (c # cs) of None \<Rightarrow> None | Some v \<Rightarrow> if v \<le> max64 then Some v else None)"
    unfolding parseInt64_def by (auto split: list.splits char.splits bool.splits)
  moreover have "parseUint (c # cs) = Some h"
    using assms digits_decimal [of "nat h"] decVal_decimal [of "nat h"] decimal_digit [of "nat h"] by (simp add: parseUint_def d(1) [symmetric])
  ultimately show ?thesis using assms d by (simp add: parseRequestParamInt64_def)
qed

lemma parse_heightRequest: "0 \<le> h \<Longrightarrow> h \<le> max64 \<Longrightarrow> parseRequestParamInt64 (heightRequest h) ''height'' = Inr h"
  by (rule parse_param) (simp_all add: heightRequest_def lookupStr_def)

subsection \<open>The shared handler\<close>

text \<open>The two ways a well-formed request is answered: from the file, or from memory.\<close>

lemma heightBased_file:
  assumes "\<not> lightMode s" "bpStartupComplete P" "parseRequestParamInt64 r ''height'' = Inr a"
    "checkStartHeight P a (i32 n) = Inr ()" "ioFaults E (Suc (now s)) = None"
    "map_of (disk s) (blockFileName sfx (joinPath (sBaseDir s) sub) a (i64 (a + n - 1))) = Some bs"
  shows "snd (heightBasedRequestHandler E r sub sfx n ser sz P (s, w)) =
    serveContent (rangeHeader r) bs (headerSet ''Content-Type'' contentTypeBinary (addCacheHeaders maxAgeDisk (addCorsHeaders w)))"
  using assms by (simp add: heightBasedRequestHandler_def statFile_def serveFile_def readFile_def fileExists_def Let_def)

lemma heightBased_memory:
  assumes "\<not> lightMode s" "bpStartupComplete P" "parseRequestParamInt64 r ''height'' = Inr a"
    "checkStartHeight P a (i32 n) = Inr ()" "ioFaults E (now s) = None"
    "\<not> fileExists (disk s) (blockFileName sfx (joinPath (sBaseDir s) sub) a (i64 (a + n - 1)))"
    "\<not> writerWaits (cache s)" "heightToHash (cache s) (i32 a) = Some x"
  shows "snd (heightBasedRequestHandler E r sub sfx n ser sz P (s, w)) = serveTail ser sz P a w"
  using assms by (simp add: heightBasedRequestHandler_def statFile_def attemptLocked_def getBlockHashHolding_def getBlockHash_def
      respond_def Let_def)

lemma serveContent_whole:
  "statusOf (serveContent None bs (headerSet ''Content-Type'' ct (addCacheHeaders age (addCorsHeaders newWriter)))) = 200"
  "body (serveContent None bs (headerSet ''Content-Type'' ct (addCacheHeaders age (addCorsHeaders newWriter)))) = bs"
  "fieldOf HeaderCache (serveContent None bs (headerSet ''Content-Type'' ct (addCacheHeaders age (addCorsHeaders newWriter)))) = [cacheControl age]"
  "fieldOf ''Content-Length'' (serveContent None bs (headerSet ''Content-Type'' ct (addCacheHeaders age (addCorsHeaders newWriter)))) =
     [decimal (length bs)]"
  "\<not> hung (serveContent None bs (headerSet ''Content-Type'' ct (addCacheHeaders age (addCorsHeaders newWriter))))"
  by (simp_all add: serveContent_def http_defs update_conv')

lemma serveTail_answer:
  assumes "sz (i32 a) (bpCurrentHeight P) = (int (length (fst (ser (i32 a) (bpCurrentHeight P)))), True)"
  shows "statusOf (serveTail ser (Some sz) P a newWriter) = 200"
    "body (serveTail ser (Some sz) P a newWriter) = fst (ser (i32 a) (bpCurrentHeight P))"
    "fieldOf HeaderCache (serveTail ser (Some sz) P a newWriter) = [cacheControl maxAgeMemory]"
    "fieldOf ''Content-Length'' (serveTail ser (Some sz) P a newWriter) = [decimal (length (fst (ser (i32 a) (bpCurrentHeight P))))]"
    "\<not> hung (serveTail ser (Some sz) P a newWriter)"
  using assms by (simp_all add: serveTail_def http_defs update_conv' intString_def)

subsection \<open>The contract of a batched endpoint\<close>

locale batch_endpoint =
  fixes handler :: "'h env \<Rightarrow> request \<Rightarrow> 'h handler"
    and sub :: "'h server \<Rightarrow> string" and sfx :: string
    and per :: "'h server \<Rightarrow> int"
    and entries :: "'h server \<Rightarrow> int \<rightharpoonup> 'v"
    and put :: "'h env \<Rightarrow> 'v \<Rightarrow> bytes"
    and proc :: "'h server \<Rightarrow> blockProcessor"
    and good :: "'h env \<Rightarrow> 'h server \<Rightarrow> bool"
  assumes handler_eq: "\<exists>msg sz. handler E r (s, w) =
        heightBasedRequestHandler E r (sub s) sfx (per s) (\<lambda>a b. streamEach msg (entries s) (put E) [a..b]) (Some sz) (proc s) (s, w) \<and>
        (good E s \<longrightarrow> (\<forall>a b. 0 \<le> a \<and> a \<le> b \<and> b \<le> heightBound \<and> {a..b} \<subseteq> dom (entries s) \<longrightarrow>
           sz a b = (int (length (fst (streamEach msg (entries s) (put E) [a..b]))), True)))"

text \<open>
  A server that is ready to answer from a chain whose entry at each height is \<open>entry\<close>: the
  files of the sealed ranges are on disk and no others, the heights above are in memory, their
  hashes are in the cache, and nobody waits for its write lock. The last two are needed: a request
  for a range in memory looks its first height up under the read lock, and without the hash it
  hangs (\<open>uncached_tail_hangs\<close>). The producers put them there before they raise the current
  height (\<open>updateCacheAndFiles_looks\<close> of \<open>FileProducer\<close>).
\<close>

definition rangeName :: "string \<Rightarrow> string \<Rightarrow> int \<Rightarrow> 'h server \<Rightarrow> int \<Rightarrow> string" where
  "rangeName subDirectory sfx n s a = blockFileName sfx (joinPath (sBaseDir s) subDirectory) a (a + n - 1)"

definition ready :: "'h env \<Rightarrow> 'h server \<Rightarrow> string \<Rightarrow> string \<Rightarrow> int \<Rightarrow> blockProcessor \<Rightarrow> (int \<Rightarrow> bytes) \<Rightarrow> (int \<Rightarrow> bytes option) \<Rightarrow> bool" where
  "ready E s subDirectory sfx n P entry inMem \<longleftrightarrow>
     \<not> lightMode s \<and> bpStartupComplete P \<and> (\<forall>t. ioFaults E t = None) \<and> 0 < n \<and> n \<le> heightBound \<and>
     -1 \<le> bpLastSealedHeight P \<and> (bpLastSealedHeight P + 1) mod n = 0 \<and>
     bpLastSealedHeight P \<le> bpCurrentHeight P \<and> bpCurrentHeight P \<le> heightBound \<and>
     (\<forall>a. 0 \<le> a \<and> a mod n = 0 \<longrightarrow>
        map_of (disk s) (rangeName subDirectory sfx n s a) =
          (if a + n - 1 \<le> bpLastSealedHeight P then Some (concat (map entry [a..a + n - 1])) else None)) \<and>
     (\<forall>h. bpLastSealedHeight P < h \<and> h \<le> bpCurrentHeight P \<longrightarrow> inMem h = Some (entry h)) \<and>
     \<not> writerWaits (cache s) \<and>
     (\<forall>h. bpLastSealedHeight P < h \<and> h \<le> bpCurrentHeight P \<longrightarrow> heightToHash (cache s) h \<noteq> None)"

lemma readyD:
  assumes "ready E s subDirectory sfx n P entry inMem"
  shows "\<not> lightMode s" "bpStartupComplete P" "ioFaults E t = None" "0 < n" "n \<le> heightBound"
    "-1 \<le> bpLastSealedHeight P" "(bpLastSealedHeight P + 1) mod n = 0"
    "bpLastSealedHeight P \<le> bpCurrentHeight P" "bpCurrentHeight P \<le> heightBound"
    "0 \<le> a \<Longrightarrow> a mod n = 0 \<Longrightarrow> map_of (disk s) (rangeName subDirectory sfx n s a) =
          (if a + n - 1 \<le> bpLastSealedHeight P then Some (concat (map entry [a..a + n - 1])) else None)"
    "bpLastSealedHeight P < h \<Longrightarrow> h \<le> bpCurrentHeight P \<Longrightarrow> inMem h = Some (entry h)"
    "\<not> writerWaits (cache s)"
    "bpLastSealedHeight P < h \<Longrightarrow> h \<le> bpCurrentHeight P \<Longrightarrow> \<exists>x. heightToHash (cache s) h = Some x"
proof -
  note A = assms [unfolded ready_def]
  show "\<not> lightMode s" "bpStartupComplete P" "ioFaults E t = None" "0 < n" "n \<le> heightBound"
    "-1 \<le> bpLastSealedHeight P" "(bpLastSealedHeight P + 1) mod n = 0"
    "bpLastSealedHeight P \<le> bpCurrentHeight P" "bpCurrentHeight P \<le> heightBound" using A by simp_all
  show "map_of (disk s) (rangeName subDirectory sfx n s a) =
      (if a + n - 1 \<le> bpLastSealedHeight P then Some (concat (map entry [a..a + n - 1])) else None)"
    if "0 \<le> a" "a mod n = 0" using A that by (elim conjE) (erule allE [of _ a], simp)
  show "inMem h = Some (entry h)" if "bpLastSealedHeight P < h" "h \<le> bpCurrentHeight P" using A that by simp
  show "\<not> writerWaits (cache s)" using A by simp
  show "\<exists>x. heightToHash (cache s) h = Some x" if "bpLastSealedHeight P < h" "h \<le> bpCurrentHeight P" using A that by auto
qed

text \<open>The last height of the answer to a request for start height \<open>a\<close>.\<close>

definition answerEnd :: "blockProcessor \<Rightarrow> int \<Rightarrow> int \<Rightarrow> int" where
  "answerEnd P n a = (if a + n - 1 \<le> bpLastSealedHeight P then a + n - 1 else bpCurrentHeight P)"

lemma checkStartHeight_ok:
  assumes "0 \<le> a" "a \<le> bpCurrentHeight P" "bpCurrentHeight P \<le> heightBound" "a mod n = 0" "0 < n" "n \<le> heightBound"
  shows "checkStartHeight P a (i32 n) = Inr ()"
proof -
  have "i32 a = a" "i32 n = n" using assms by (auto intro!: i32_id simp: heightBound_def)
  with assms show ?thesis by (simp add: checkStartHeight_def)
qed

lemma streamEach_entries:
  assumes "\<And>h. h \<in> set js \<Longrightarrow> map_option (put E) (m h) = Some (entry h)"
  shows "fst (streamEach msg m (put E) js) = concat (map entry js)" "set js \<subseteq> dom m"
proof -
  show "set js \<subseteq> dom m" using assms by force
  show "fst (streamEach msg m (put E) js) = concat (map entry js)"
    using assms
  proof (induction js)
    case (Cons j js)
    from Cons.prems [of j] obtain v where "m j = Some v" "put E v = entry j" by auto
    moreover have "fst (streamEach msg m (put E) js) = concat (map entry js)" using Cons by simp
    ultimately show ?case by (auto split: prod.splits)
  qed simp
qed

context batch_endpoint
begin

lemma answer:
  assumes R: "ready E s (sub s) sfx (per s) (proc s) entry (\<lambda>h. map_option (put E) (entries s h))" and g: "good E s"
    and a: "0 \<le> a" "a \<le> bpCurrentHeight (proc s)" "a mod per s = 0"
    and r: "parseRequestParamInt64 r ''height'' = Inr a" "rangeHeader r = None"
  shows "statusOf (snd (handler E r (s, newWriter))) = 200"
    "body (snd (handler E r (s, newWriter))) = concat (map entry [a..answerEnd (proc s) (per s) a])"
    "fieldOf HeaderCache (snd (handler E r (s, newWriter))) =
       [cacheControl (if a + per s - 1 \<le> bpLastSealedHeight (proc s) then maxAgeDisk else maxAgeMemory)]"
    "fieldOf ''Content-Length'' (snd (handler E r (s, newWriter))) = [decimal (length (body (snd (handler E r (s, newWriter)))))]"
    "\<not> hung (snd (handler E r (s, newWriter)))"
proof -
  note D = readyD [OF R]
  obtain msg sz where h: "handler E r (s, newWriter) =
      heightBasedRequestHandler E r (sub s) sfx (per s) (\<lambda>a b. streamEach msg (entries s) (put E) [a..b]) (Some sz) (proc s) (s, newWriter)"
    and sz: "\<And>a b. 0 \<le> a \<Longrightarrow> a \<le> b \<Longrightarrow> b \<le> heightBound \<Longrightarrow> {a..b} \<subseteq> dom (entries s) \<Longrightarrow>
      sz a b = (int (length (fst (streamEach msg (entries s) (put E) [a..b]))), True)"
    using handler_eq [of E r s newWriter] g by blast
  have chk: "checkStartHeight (proc s) a (i32 (per s)) = Inr ()" using a D by (intro checkStartHeight_ok)
  have ia: "i32 a = a" using a D by (auto intro!: i32_id simp: heightBound_def)
  have ib: "i64 (a + per s - 1) = a + per s - 1" using a D by (intro i64_id) (auto simp: heightBound_def)
  note dat = D(10) [OF a(1,3), unfolded rangeName_def]
  have "statusOf (snd (handler E r (s, newWriter))) = 200 \<and>
      body (snd (handler E r (s, newWriter))) = concat (map entry [a..answerEnd (proc s) (per s) a]) \<and>
      fieldOf HeaderCache (snd (handler E r (s, newWriter))) =
        [cacheControl (if a + per s - 1 \<le> bpLastSealedHeight (proc s) then maxAgeDisk else maxAgeMemory)] \<and>
      fieldOf ''Content-Length'' (snd (handler E r (s, newWriter))) = [decimal (length (body (snd (handler E r (s, newWriter)))))] \<and>
      \<not> hung (snd (handler E r (s, newWriter)))"
  proof (cases "a + per s - 1 \<le> bpLastSealedHeight (proc s)")
    case True
    have "snd (handler E r (s, newWriter)) = serveContent None (concat (map entry [a..a + per s - 1]))
        (headerSet ''Content-Type'' contentTypeBinary (addCacheHeaders maxAgeDisk (addCorsHeaders newWriter)))"
      unfolding h using dat True ib D(3) by (subst heightBased_file [OF D(1,2) r(1) chk]) (simp_all add: r(2))
    with True show ?thesis
      by (simp add: serveContent_whole answerEnd_def)
  next
    case False
    have above: "bpLastSealedHeight (proc s) < a"
    proof (rule ccontr)
      assume "\<not> bpLastSealedHeight (proc s) < a"
      moreover obtain i where "bpLastSealedHeight (proc s) + 1 = i * per s" using D(7) by (metis mod_eq_0_iff_dvd dvdE mult.commute)
      moreover obtain j where "a = j * per s" using a(3) by (metis mod_eq_0_iff_dvd dvdE mult.commute)
      moreover have "(j + 1) * per s = j * per s + per s" by (simp add: algebra_simps)
      ultimately have "j * per s < i * per s" "i * per s < (j + 1) * per s" using False by linarith+
      then show False using D(4) by (simp add: mult_less_cancel_right)
    qed
    obtain x where look: "heightToHash (cache s) (i32 a) = Some x" using D(13) [OF above a(2)] ia by auto
    let ?ser = "\<lambda>a b. streamEach msg (entries s) (put E) [a..b]"
    have ans: "snd (handler E r (s, newWriter)) = serveTail ?ser (Some sz) (proc s) a newWriter"
      unfolding h using dat False ib D(3)
      by (intro heightBased_memory [OF D(1,2) r(1) chk _ _ D(12) look]) (simp_all add: fileExists_def)
    have mem: "map_option (put E) (entries s h) = Some (entry h)" if "h \<in> set [a..bpCurrentHeight (proc s)]" for h
      using that above by (intro D(11)) simp_all
    note tail = streamEach_entries [where js = "[a..bpCurrentHeight (proc s)]" and put = put and E = E and m = "entries s" and entry = entry, OF mem]
    have "sz (i32 a) (bpCurrentHeight (proc s)) = (int (length (fst (?ser (i32 a) (bpCurrentHeight (proc s))))), True)"
      unfolding ia using a D tail(2) by (intro sz) simp_all
    note all = serveTail_answer [of sz a "proc s" ?ser, OF this]
    show ?thesis
      unfolding ans using all False tail(1) [of msg] by (simp add: ia answerEnd_def)
  qed
  then show "statusOf (snd (handler E r (s, newWriter))) = 200"
    "body (snd (handler E r (s, newWriter))) = concat (map entry [a..answerEnd (proc s) (per s) a])"
    "fieldOf HeaderCache (snd (handler E r (s, newWriter))) =
       [cacheControl (if a + per s - 1 \<le> bpLastSealedHeight (proc s) then maxAgeDisk else maxAgeMemory)]"
    "fieldOf ''Content-Length'' (snd (handler E r (s, newWriter))) = [decimal (length (body (snd (handler E r (s, newWriter)))))]"
    "\<not> hung (snd (handler E r (s, newWriter)))"
    by blast+
qed

end

text \<open>
  A client that asks for one range after the other, up to the first one that is not sealed,
  has the entries of all heights.
\<close>

lemma upto_append: "a \<le> b + 1 \<Longrightarrow> b \<le> c \<Longrightarrow> [a..b] @ [b + 1..c] = [a..c :: int]"
proof (cases "a \<le> b")
  case False
  moreover assume "a \<le> b + 1"
  ultimately have "a = b + 1" by simp
  then show ?thesis by simp
qed (simp add: upto_split2 [of a b c])

lemma concat_append_upto:
  "a \<le> b + 1 \<Longrightarrow> b \<le> c \<Longrightarrow> concat (map entry [a..b]) @ concat (map entry [b + 1..c]) = concat (map entry [a..c :: int])"
  by (simp only: concat_append [symmetric] map_append [symmetric] upto_append)

lemma ranges_concat:
  assumes "0 \<le> k" "0 < n"
  shows "concat (map (\<lambda>j. concat (map entry [j * n..j * n + n - 1])) [0..k - 1]) = concat (map entry [0..k * n - 1])"
  using assms(1)
proof (induction "nat k" arbitrary: k)
  case 0
  then show ?case by simp
next
  case (Suc i)
  then have k: "0 \<le> k - 1" by simp
  then have "[0..k - 1] = [0..k - 1 - 1] @ [k - 1]" by (rule upto_rec2)
  moreover have "concat (map (\<lambda>j. concat (map entry [j * n..j * n + n - 1])) [0..k - 1 - 1]) = concat (map entry [0..(k - 1) * n - 1])"
    using Suc.hyps(1) [of "k - 1"] Suc.hyps(2) k by simp
  moreover have "concat (map entry [0..(k - 1) * n - 1]) @ concat (map entry [(k - 1) * n..k * n - 1]) = concat (map entry [0..k * n - 1])"
  proof -
    have "0 \<le> (k - 1) * n" using k assms(2) by simp
    moreover have "(k - 1) * n \<le> k * n" using assms(2) by simp
    ultimately show ?thesis using concat_append_upto [of 0 "(k - 1) * n - 1" "k * n - 1" entry] by simp
  qed
  moreover have "(k - 1) * n + n - 1 = k * n - 1" by (simp add: algebra_simps)
  ultimately show ?case by simp
qed

context batch_endpoint
begin

lemma download:
  assumes R: "ready E s (sub s) sfx (per s) (proc s) entry (\<lambda>h. map_option (put E) (entries s h))" and g: "good E s"
    and tail: "bpLastSealedHeight (proc s) < bpCurrentHeight (proc s)"
  shows "concat (map (\<lambda>j. body (snd (handler E (heightRequest (j * per s)) (s, newWriter))))
       [0..(bpLastSealedHeight (proc s) + 1) div per s]) =
     concat (map entry [0..bpCurrentHeight (proc s)])"
    "list_all (\<lambda>j. statusOf (snd (handler E (heightRequest (j * per s)) (s, newWriter))) = 200 \<and>
         \<not> hung (snd (handler E (heightRequest (j * per s)) (s, newWriter))))
       [0..(bpLastSealedHeight (proc s) + 1) div per s]"
proof -
  note D = readyD [OF R]
  let ?L = "bpLastSealedHeight (proc s)" and ?n = "per s" and ?cur = "bpCurrentHeight (proc s)"
  define k where "k = (?L + 1) div ?n"
  have k: "k * ?n = ?L + 1" using D(7) by (simp add: k_def div_mod_decomp_int mult_div_mod_eq minus_mod_eq_div_mult [symmetric])
  have k0: "0 \<le> k" using D(4,6) by (simp add: k_def pos_imp_zdiv_nonneg_iff)
  have each: "statusOf (snd (handler E (heightRequest (j * ?n)) (s, newWriter))) = 200"
      "body (snd (handler E (heightRequest (j * ?n)) (s, newWriter))) = concat (map entry [j * ?n..answerEnd (proc s) ?n (j * ?n)])"
      "\<not> hung (snd (handler E (heightRequest (j * ?n)) (s, newWriter)))"
    if "0 \<le> j" "j \<le> k" for j
  proof -
    have "j * ?n \<le> k * ?n" using that D(4) by (intro mult_right_mono) simp_all
    with k tail have a: "j * ?n \<le> ?cur" by linarith
    have b: "0 \<le> j * ?n" "j * ?n mod ?n = 0" using that D(4) by simp_all
    then have c: "parseRequestParamInt64 (heightRequest (j * ?n)) ''height'' = Inr (j * ?n)"
      using a D(9) by (intro parse_heightRequest) (simp_all add: max64_def heightBound_def)
    have "rangeHeader (heightRequest (j * ?n)) = None" by (simp add: heightRequest_def)
    note all = answer [OF R g b(1) a b(2) c this]
    show "statusOf (snd (handler E (heightRequest (j * ?n)) (s, newWriter))) = 200"
      "body (snd (handler E (heightRequest (j * ?n)) (s, newWriter))) = concat (map entry [j * ?n..answerEnd (proc s) ?n (j * ?n)])"
      "\<not> hung (snd (handler E (heightRequest (j * ?n)) (s, newWriter)))" by (fact all)+
  qed
  have mid: "answerEnd (proc s) ?n (j * ?n) = j * ?n + ?n - 1" if "0 \<le> j" "j < k" for j
  proof -
    have "(j + 1) * ?n \<le> k * ?n" using that D(4) by (intro mult_right_mono) simp_all
    then have "j * ?n + ?n - 1 \<le> ?L" using k by (simp add: algebra_simps)
    then show ?thesis by (simp add: answerEnd_def)
  qed
  have last: "answerEnd (proc s) ?n (k * ?n) = ?cur" using k D(4) by (simp add: answerEnd_def)
  have "[0..k] = [0..k - 1] @ [k]" using k0 by (rule upto_rec2)
  then have "map (\<lambda>j. body (snd (handler E (heightRequest (j * ?n)) (s, newWriter)))) [0..k] =
      map (\<lambda>j. concat (map entry [j * ?n..j * ?n + ?n - 1])) [0..k - 1] @ [concat (map entry [k * ?n..?cur])]"
    using each(2) mid last k0 by simp
  then have "concat (map (\<lambda>j. body (snd (handler E (heightRequest (j * ?n)) (s, newWriter)))) [0..k]) =
      concat (map entry [0..k * ?n - 1]) @ concat (map entry [k * ?n..?cur])"
    using ranges_concat [OF k0 D(4), of entry] by simp
  also have "\<dots> = concat (map entry [0..?cur])"
    using concat_append_upto [of 0 ?L ?cur entry] D(6,8) by (simp add: k)
  finally show "concat (map (\<lambda>j. body (snd (handler E (heightRequest (j * ?n)) (s, newWriter)))) [0..(?L + 1) div ?n]) =
     concat (map entry [0..?cur])" by (simp add: k_def)
  show "list_all (\<lambda>j. statusOf (snd (handler E (heightRequest (j * ?n)) (s, newWriter))) = 200 \<and>
      \<not> hung (snd (handler E (heightRequest (j * ?n)) (s, newWriter)))) [0..(?L + 1) div ?n]"
    using each(1,3) by (simp add: list_all_iff k_def)
qed

end

subsection \<open>Headers, filter headers, filters\<close>

lemma present_None: "{a..b} \<subseteq> dom m \<Longrightarrow> snd (streamEach msg m put [a..b]) = None"
  by (simp add: streamEach_None)

lemma streamEach_length_ran:
  assumes "\<forall>v\<in>ran m. length (put v) = w" "snd (streamEach msg m put js) = None"
  shows "length (fst (streamEach msg m put js)) = length js * w"
  using assms by (induction js) (auto split: option.splits prod.splits intro: ranI)

lemma fixed_size:
  assumes "\<forall>v\<in>ran m. length (put v) = w" "0 \<le> a" "a \<le> b" "b \<le> heightBound" "{a..b} \<subseteq> dom m"
  shows "add32 (sub32 b a) 1 * int w = int (length (fst (streamEach msg m put [a..b])))"
proof -
  have "add32 (sub32 b a) 1 = int (length [a..b])" using assms by (simp add: sub32_id add32_id heightBound_def)
  then show ?thesis using streamEach_length_ran [OF assms(1) present_None [OF assms(5)], of msg] by simp
qed

interpretation hdr: batch_endpoint headersRequestHandler "\<lambda>_. HeaderFileDir" HeaderFileSuffix sHeadersPerFile
    "\<lambda>s. headers (mem (sHeaderFiles s))" SerializeHeader "\<lambda>s. processorOf (sHeaderFiles s)" "\<lambda>E _. header_codec E"
proof unfold_locales
  fix E :: "'a env" and r s w
  show "\<exists>msg sz. headersRequestHandler E r (s, w) =
      heightBasedRequestHandler E r HeaderFileDir HeaderFileSuffix (sHeadersPerFile s)
        (\<lambda>a b. streamEach msg (headers (mem (sHeaderFiles s))) (SerializeHeader E) [a..b]) (Some sz) (processorOf (sHeaderFiles s)) (s, w) \<and>
      (header_codec E \<longrightarrow> (\<forall>a b. 0 \<le> a \<and> a \<le> b \<and> b \<le> heightBound \<and> {a..b} \<subseteq> dom (headers (mem (sHeaderFiles s))) \<longrightarrow>
        sz a b = (int (length (fst (streamEach msg (headers (mem (sHeaderFiles s))) (SerializeHeader E) [a..b]))), True)))"
    by (rule exI [of _ "''missing header at height''"], rule exI [of _ headersSize])
      (auto simp: headersRequestHandler_def serializeHeaders_def [abs_def] headersSize_def header_codec_def intro!: fixed_size)
qed

interpretation fhd: batch_endpoint filterHeadersRequestHandler "\<lambda>_. HeaderFileDir" FilterHeaderFileSuffix sHeadersPerFile
    "\<lambda>s. filterHeaders (mem (sHeaderFiles s))" "\<lambda>_ h. h" "\<lambda>s. processorOf (sHeaderFiles s)"
    "\<lambda>_ s. \<forall>v\<in>ran (filterHeaders (mem (sHeaderFiles s))). length v = HashSize"
proof unfold_locales
  fix E :: "'a env" and r s w
  show "\<exists>msg sz. filterHeadersRequestHandler E r (s, w) =
      heightBasedRequestHandler E r HeaderFileDir FilterHeaderFileSuffix (sHeadersPerFile s)
        (\<lambda>a b. streamEach msg (filterHeaders (mem (sHeaderFiles s))) (\<lambda>h. h) [a..b]) (Some sz) (processorOf (sHeaderFiles s)) (s, w) \<and>
      ((\<forall>v\<in>ran (filterHeaders (mem (sHeaderFiles s))). length v = HashSize) \<longrightarrow>
        (\<forall>a b. 0 \<le> a \<and> a \<le> b \<and> b \<le> heightBound \<and> {a..b} \<subseteq> dom (filterHeaders (mem (sHeaderFiles s))) \<longrightarrow>
        sz a b = (int (length (fst (streamEach msg (filterHeaders (mem (sHeaderFiles s))) (\<lambda>h. h) [a..b]))), True)))"
    by (rule exI [of _ "''missing filter header at height''"], rule exI [of _ filterHeadersSize])
      (auto simp: filterHeadersRequestHandler_def serializeFilterHeaders_def [abs_def] filterHeadersSize_def intro!: fixed_size)
qed

interpretation flt: batch_endpoint filtersRequestHandler "\<lambda>_. FilterFileDir" FilterFileSuffix sFiltersPerFile
    "\<lambda>s. filters (mem (sCFilterFiles s))" WriteVarBytes "\<lambda>s. processorOf (sCFilterFiles s)" "\<lambda>E _. wire_codec E"
proof unfold_locales
  fix E :: "'a env" and r and s :: "'a server" and w
  let ?m = "filters (mem (sCFilterFiles s))" and ?msg = "''missing filter at height''"
  have "filtersSize E (mem (sCFilterFiles s)) a b = (int (length (fst (streamEach ?msg ?m (WriteVarBytes E) [a..b]))), True)"
    if "wire_codec E" "{a..b} \<subseteq> dom ?m" for a b
    using filtersSizeLoop_eq [OF that(1), of ?m "[a..b]" 0 ?msg] present_None [OF that(2)] that(2)
    by (simp add: filtersSize_def)
  then show "\<exists>msg sz. filtersRequestHandler E r (s, w) =
      heightBasedRequestHandler E r FilterFileDir FilterFileSuffix (sFiltersPerFile s)
        (\<lambda>a b. streamEach msg ?m (WriteVarBytes E) [a..b]) (Some sz) (processorOf (sCFilterFiles s)) (s, w) \<and>
      (wire_codec E \<longrightarrow> (\<forall>a b. 0 \<le> a \<and> a \<le> b \<and> b \<le> heightBound \<and> {a..b} \<subseteq> dom ?m \<longrightarrow>
        sz a b = (int (length (fst (streamEach msg ?m (WriteVarBytes E) [a..b]))), True)))"
    by (intro exI [of _ ?msg] exI [of _ "filtersSize E (mem (sCFilterFiles s))"])
      (simp add: filtersRequestHandler_def serializeFilters_def [abs_def])
qed

subsection \<open>Imports\<close>

text \<open>The file loop of an import: how many turns it can take, and what it streams.\<close>

definition importName :: "string \<Rightarrow> string \<Rightarrow> int \<Rightarrow> int \<Rightarrow> string" where
  "importName dir sfx n h = blockFileName sfx dir h (i64 (h + n - 1))"

lemma distinct_names_le:
  assumes "okSuffix sfx" "0 < n" "(m + 1) * n \<le> max64" "0 \<le> m"
    and "\<And>j. 0 \<le> j \<Longrightarrow> j < m \<Longrightarrow> fileExists d (importName dir sfx n (j * n))"
  shows "nat m \<le> length d"
proof -
  let ?f = "\<lambda>j. importName dir sfx n (j * n)"
  have b: "0 \<le> j * n" "i64 (j * n + n - 1) = j * n + n - 1" if "0 \<le> j" "j < m" for j
  proof -
    show "0 \<le> j * n" using that assms(2) by simp
    moreover have "(j + 1) * n \<le> (m + 1) * n" using that assms(2) by (intro mult_right_mono) simp_all
    moreover have "(j + 1) * n = j * n + n" by (simp add: algebra_simps)
    ultimately show "i64 (j * n + n - 1) = j * n + n - 1"
      using assms(2) assms(3) [unfolded max64_def] by (intro i64_id) linarith+
  qed
  have "inj_on ?f {0..<m}"
  proof (rule inj_onI)
    fix i j assume i: "i \<in> {0..<m}" and j: "j \<in> {0..<m}" and eq: "?f i = ?f j"
    have "0 \<le> i * n" "0 \<le> j * n" "blockFileName sfx dir (i * n) (i * n + n - 1) = blockFileName sfx dir (j * n) (j * n + n - 1)"
      using eq b [of i] b [of j] i j by (simp_all add: importName_def)
    moreover from this(1,2) have "0 \<le> i * n + n - 1" "0 \<le> j * n + n - 1" using assms(2) by linarith+
    ultimately have "i * n = j * n" using blockFileName_eq_iff assms(1) by blast
    then show "i = j" using assms(2) by simp
  qed
  moreover have "?f ` {0..<m} \<subseteq> fst ` set d"
    using assms(5) by (auto simp: fileExists_def map_of_eq_None_iff)
  ultimately have "card {0..<m} \<le> card (fst ` set d)" by (intro card_inj_on_le) simp_all
  also have "\<dots> \<le> length d" by (metis card_image_le card_length finite_set order_trans)
  finally show ?thesis by simp
qed

lemma streamFile_frame:
  "streamFile E f (s, w) = (b, s1, w1) \<Longrightarrow> disk s1 = disk s \<and> (b \<longrightarrow> fileExists (disk s) f)"
  by (auto simp: streamFile_def Let_def fileExists_def split: option.splits ioFault.splits)

lemma importFiles_stuck:
  assumes "importFiles k E (importName dir sfx n) e n (i * n) (s, w) = (ImportStuck, sw)"
    and "0 < n" "0 \<le> i" "(i + int k) * n \<le> max64" "i \<le> j" "j < i + int k"
  shows "fileExists (disk s) (importName dir sfx n (j * n))"
  using assms
proof (induction k arbitrary: i s w)
  case 0
  then show ?case by simp
next
  case (Suc k)
  obtain b s1 where st: "statFile E (importName dir sfx n (i * n)) s = (b, s1)" by fastforce
  have d1: "disk s1 = disk s" using st by (auto simp: statFile_def)
  obtain c s2 w2 where sf: "streamFile E (importName dir sfx n (i * n)) (s1, w) = (c, s2, w2)" by (metis prod.collapse)
  have cont: "b" "c" "importFiles k E (importName dir sfx n) e n (i64 (i * n + n)) (s2, w2) = (ImportStuck, sw)"
    using Suc.prems(1) st sf by (auto split: if_splits bool.splits)
  have "(i + 1) * n \<le> (i + int (Suc k)) * n" using Suc.prems by (intro mult_right_mono) simp_all
  moreover have i0: "0 \<le> i * n" using Suc.prems by simp
  moreover have e1: "(i + 1) * n = i * n + n" by (simp add: algebra_simps)
  ultimately have "i64 (i * n + n) = i * n + n"
    using Suc.prems(2) Suc.prems(4) [unfolded max64_def] by (intro i64_id) linarith+
  then have nxt: "i64 (i * n + n) = (i + 1) * n" using e1 by simp
  have fe: "fileExists (disk s) (importName dir sfx n (i * n))" using streamFile_frame [OF sf] cont(2) d1 by simp
  show ?case
  proof (cases "j = i")
    case True
    with fe show ?thesis by simp
  next
    case False
    have "disk s2 = disk s" using streamFile_frame [OF sf] d1 by simp
    with Suc.IH [of "i + 1" s2 w2] cont(3) nxt Suc.prems False show ?thesis by (simp add: algebra_simps)
  qed
qed

text \<open>The loop ends: the budget of \<open>serveHeightBasedImport\<close> is never used up.\<close>

lemma importFiles_ends:
  assumes "okSuffix sfx" "0 < n" "(int (length (disk s)) + 3) * n \<le> max64"
  shows "fst (importFiles (length (disk s) + 2) E (importName dir sfx n) e n 0 (s, w)) \<noteq> ImportStuck"
proof
  assume "fst (importFiles (length (disk s) + 2) E (importName dir sfx n) e n 0 (s, w)) = ImportStuck"
  then obtain sw where run: "importFiles (length (disk s) + 2) E (importName dir sfx n) e n (0 * n) (s, w) = (ImportStuck, sw)"
    by (metis mult_zero_left prod.collapse)
  have "(0 + int (length (disk s) + 2)) * n \<le> max64" using assms(2,3) by (simp add: algebra_simps)
  then have "fileExists (disk s) (importName dir sfx n (j * n))" if "0 \<le> j" "j < int (length (disk s)) + 2" for j
    using that by (intro importFiles_stuck [OF run assms(2)]) simp_all
  then have "nat (int (length (disk s)) + 2) \<le> length (disk s)"
    using assms by (intro distinct_names_le [OF assms(1,2)]) (simp_all add: add.assoc)
  then show False by simp
qed

lemma importFiles_run:
  assumes "\<And>j. i \<le> j \<Longrightarrow> j < m \<Longrightarrow> map_of (disk s) (importName dir sfx n (j * n)) = Some (concat (map entry [j * n..j * n + n - 1]))"
    and io: "\<And>t. ioFaults E t = None" and "0 < n" "0 \<le> i" "i \<le> m" "m * n \<le> e" "e \<le> heightBound + 1" "sent w \<noteq> None"
  shows "importFiles (k + nat (m - i)) E (importName dir sfx n) e n (i * n) (s, w) =
    importFiles k E (importName dir sfx n) e n (m * n)
      (s\<lparr>now := now s + 2 * nat (m - i)\<rparr>, w\<lparr>body := body w @ concat (map entry [i * n..m * n - 1])\<rparr>)"
  using assms(1,4-)
proof (induction "nat (m - i)" arbitrary: i s w)
  case 0
  then have "i = m" by simp
  then show ?case by simp
next
  case (Suc x)
  then have im: "i < m" by simp
  have "(i + 1) * n \<le> m * n" using im assms(3) by (intro mult_right_mono) simp_all
  then have lt: "i * n + n \<le> m * n" by (simp add: algebra_simps)
  let ?f = "importName dir sfx n (i * n)" and ?bs = "concat (map entry [i * n..i * n + n - 1])"
  let ?s = "s\<lparr>now := now s + 2\<rparr>" and ?w = "w\<lparr>body := body w @ ?bs\<rparr>"
  have f: "map_of (disk s) ?f = Some ?bs" using Suc.prems(1) im by simp
  have st: "statFile E ?f s = (True, s\<lparr>now := Suc (now s)\<rparr>)" using f by (simp add: statFile_def fileExists_def)
  have wb: "writeBody ?bs w = ?w" using Suc.prems(6) by (auto simp: writeBody_def writeHeader_def)
  have sf: "streamFile E ?f (s\<lparr>now := Suc (now s)\<rparr>, w) = (True, ?s, ?w)" using f io wb by (simp add: streamFile_def)
  have i0: "0 \<le> i * n" using Suc.prems(2) assms(3) by simp
  have nx: "i64 (i * n + n) = (i + 1) * n"
    using i0 lt Suc.prems(4,5) assms(3) by (subst i64_id) (simp_all add: heightBound_def algebra_simps)
  have "nat (m - i) = Suc (nat (m - (i + 1)))" using im by simp
  then have "importFiles (k + nat (m - i)) E (importName dir sfx n) e n (i * n) (s, w) =
      importFiles (k + nat (m - (i + 1))) E (importName dir sfx n) e n ((i + 1) * n) (?s, ?w)"
    using st sf nx lt Suc.prems(4) assms(3) by simp
  also have "\<dots> = importFiles k E (importName dir sfx n) e n (m * n)
      (?s\<lparr>now := now ?s + 2 * nat (m - (i + 1))\<rparr>, ?w\<lparr>body := body ?w @ concat (map entry [(i + 1) * n..m * n - 1])\<rparr>)"
    using Suc.hyps(2) im Suc.prems by (intro Suc.hyps(1)) simp_all
  also have "now ?s + 2 * nat (m - (i + 1)) = now s + 2 * nat (m - i)" using im by simp
  also have "body ?w @ concat (map entry [(i + 1) * n..m * n - 1]) = body w @ concat (map entry [i * n..m * n - 1])"
    using concat_append_upto [of "i * n" "i * n + n - 1" "m * n - 1" entry] lt assms(3) by (simp add: algebra_simps)
  finally show ?case by simp
qed

lemma ready_importName:
  assumes R: "ready E s subDirectory sfx n P entry inMem" and a: "0 \<le> a" "a mod n = 0" "a \<le> heightBound + 1"
  shows "map_of (disk s) (importName (joinPath (sBaseDir s) subDirectory) sfx n a) =
    (if a + n - 1 \<le> bpLastSealedHeight P then Some (concat (map entry [a..a + n - 1])) else None)"
proof -
  have "i64 (a + n - 1) = a + n - 1" using a readyD(4,5) [OF R] by (intro i64_id) (auto simp: heightBound_def)
  with readyD(10) [OF R a(1,2)] show ?thesis by (simp add: importName_def rangeName_def)
qed

text \<open>How far the files reach, in whole ranges, for an import up to \<open>e\<close>.\<close>

lemma import_ranges:
  assumes R: "ready E s subDirectory sfx n P entry inMem" and sfx: "okSuffix sfx"
    and m: "0 \<le> m" "m * n \<le> bpLastSealedHeight P + 1" "m * n \<le> e" "e \<le> heightBound + 1" and w: "sent w \<noteq> None"
  obtains k where "importFiles (length (disk s) + 2) E (importName (joinPath (sBaseDir s) subDirectory) sfx n) e n 0 (s, w) =
    importFiles (Suc k) E (importName (joinPath (sBaseDir s) subDirectory) sfx n) e n (m * n)
      (s\<lparr>now := now s + 2 * nat m\<rparr>, w\<lparr>body := body w @ concat (map entry [0..m * n - 1])\<rparr>)"
proof -
  note D = readyD [OF R]
  let ?name = "importName (joinPath (sBaseDir s) subDirectory) sfx n"
  have files: "map_of (disk s) (?name (j * n)) = Some (concat (map entry [j * n..j * n + n - 1]))" if "0 \<le> j" "j < m" for j
  proof -
    have "(j + 1) * n \<le> m * n" using that D(4) by (intro mult_right_mono) simp_all
    moreover have "(j + 1) * n = j * n + n" by (simp add: algebra_simps)
    moreover have "0 \<le> j * n" using that D(4) by simp
    ultimately show ?thesis using ready_importName [OF R, of "j * n"] m D(4,5,8,9) by simp
  qed
  have "(m + 1) * n = m * n + n" by (simp add: algebra_simps)
  then have "(m + 1) * n \<le> max64" using m D(5) by (simp add: max64_def heightBound_def)
  then have "nat m \<le> length (disk s)"
    using distinct_names_le [where d = "disk s" and dir = "joinPath (sBaseDir s) subDirectory", OF sfx D(4) _ m(1)] files
    by (simp add: fileExists_def)
  then obtain k where k: "length (disk s) + 2 = Suc k + nat m" by (metis add_Suc add_Suc_right le_add_diff_inverse2 numeral_2_eq_2 add_0_right)
  have "importFiles (Suc k + nat (m - 0)) E ?name e n (0 * n) (s, w) =
      importFiles (Suc k) E ?name e n (m * n) (s\<lparr>now := now s + 2 * nat (m - 0)\<rparr>, w\<lparr>body := body w @ concat (map entry [0 * n..m * n - 1])\<rparr>)"
    using files D m w by (intro importFiles_run) simp_all
  then show thesis using k by (intro that [of k]) simp
qed

lemma import_answer:
  assumes R: "ready E s subDirectory sfx n (processorOf (sHeaderFiles s)) entry inMem" and sfx: "okSuffix sfx"
    and ser: "\<And>a b. lastSealedHeight (sHeaderFiles s) < a \<Longrightarrow> b \<le> currentHeight (sHeaderFiles s) \<Longrightarrow> fst (ser a b) = concat (map entry [a..b])"
    and e: "0 < e" "e \<le> currentHeight (sHeaderFiles s) + 1" "e \<le> lastSealedHeight (sHeaderFiles s) + 1 \<Longrightarrow> e mod n = 0"
  shows "statusOf (snd (serveHeightBasedImport E subDirectory sfx n ser ft e (s, newWriter))) = 200 \<and>
    body (snd (serveHeightBasedImport E subDirectory sfx n ser ft e (s, newWriter))) = importMetadata (sNet s) ft @ concat (map entry [0..e - 1]) \<and>
    fieldOf HeaderCache (snd (serveHeightBasedImport E subDirectory sfx n ser ft e (s, newWriter))) =
      [cacheControl (if e \<le> lastSealedHeight (sHeaderFiles s) + 1 then maxAgeDisk else maxAgeMemory)] \<and>
    \<not> hung (snd (serveHeightBasedImport E subDirectory sfx n ser ft e (s, newWriter)))"
proof -
  let ?L = "lastSealedHeight (sHeaderFiles s)" and ?cur = "currentHeight (sHeaderFiles s)" and ?P = "processorOf (sHeaderFiles s)"
  note D = readyD [OF R]
  have P: "bpLastSealedHeight ?P = ?L" "bpCurrentHeight ?P = ?cur"
    by (simp_all add: processorOf_def getLastSealedHeight_def getCurrentHeight_def)
  have L: "add32 ?L 1 = ?L + 1" using D(6,8,9) P by (intro add32_id) (auto simp: heightBound_def)
  define age where "age = (if e \<le> ?L + 1 then maxAgeDisk else maxAgeMemory)"
  define w where "w = writeBody (importMetadata (sNet s) ft) (writeHeader 200 (addCacheHeaders age (addCorsHeaders newWriter)))"
  have w: "statusOf (w\<lparr>body := b\<rparr>) = 200 \<and> fieldOf HeaderCache (w\<lparr>body := b\<rparr>) = [cacheControl age]" "body w = importMetadata (sNet s) ft"
    "sent w \<noteq> None" "\<not> hung w" for b
    by (simp_all add: w_def http_defs update_conv')
  let ?name = "importName (joinPath (sBaseDir s) subDirectory) sfx n"
  have ok: "\<not> (e \<le> ?L + 1 \<and> e mod n \<noteq> 0)" using e(3) by blast
  have unf: "serveHeightBasedImport E subDirectory sfx n ser ft e (s, newWriter) =
      (case importFiles (length (disk s) + 2) E ?name e n 0 (s, w) of
         (ImportTail lastHeight, sw2) \<Rightarrow>
           attemptLocked (getBlockHashHolding E (i32 lastHeight)) (\<lambda>_. sendError 400 (Errf ''invalid height'' []))
             (\<lambda>_. respond (writeBody (fst (ser (i32 lastHeight) (sub32 (i32 e) 1))))) sw2
       | (_, sw2) \<Rightarrow> sw2)"
    unfolding serveHeightBasedImport_def Let_def fst_conv snd_conv L if_not_P [OF ok] importName_def [abs_def] w_def age_def ..
  define m where "m = (if e \<le> ?L + 1 then e else ?L + 1) div n"
  have mn: "m * n = (if e \<le> ?L + 1 then e else ?L + 1)"
    using e(3) D(7) P by (auto simp: m_def minus_mod_eq_div_mult [symmetric])
  have m0: "0 \<le> m" using e(1) D(4,6) P by (simp add: m_def pos_imp_zdiv_nonneg_iff)
  have eb: "e \<le> heightBound + 1" using e(2) D(9) P by simp
  obtain k where run: "importFiles (length (disk s) + 2) E ?name e n 0 (s, w) =
      importFiles (Suc k) E ?name e n (m * n) (s\<lparr>now := now s + 2 * nat m\<rparr>, w\<lparr>body := body w @ concat (map entry [0..m * n - 1])\<rparr>)"
    using import_ranges [OF R sfx m0 _ _ eb w(3)] mn P by (auto split: if_splits)
  show ?thesis
  proof (cases "e \<le> ?L + 1")
    case True
    then show ?thesis unfolding unf run using mn w by (simp add: age_def)
  next
    case False
    let ?s2 = "s\<lparr>now := now s + 2 * nat m\<rparr>" and ?w2 = "w\<lparr>body := body w @ concat (map entry [0..?L])\<rparr>"
    have a: "0 \<le> ?L + 1" "(?L + 1) mod n = 0" "?L + 1 \<le> ?cur" using D(6,7) P e(2) False by simp_all
    have "map_of (disk s) (?name (?L + 1)) = None"
      using ready_importName [OF R a(1,2)] P a(3) D(4,9) by simp
    then have tail: "importFiles (Suc k) E ?name e n (m * n) (?s2, w\<lparr>body := body w @ concat (map entry [0..m * n - 1])\<rparr>) =
        (ImportTail (?L + 1), ?s2\<lparr>now := Suc (now ?s2)\<rparr>, ?w2)"
      using False mn D(3) by (simp add: statFile_def fileExists_def)
    obtain x where look: "heightToHash (cache s) (?L + 1) = Some x" using D(13) [of "?L + 1"] a(3) P by auto
    have i: "i32 (?L + 1) = ?L + 1" "sub32 (i32 e) 1 = e - 1"
      using a(1,3) e(1) eb D(9) P by (simp_all add: i32_id sub32_id heightBound_def)
    have wb: "writeBody bs (w\<lparr>body := b\<rparr>) = w\<lparr>body := b @ bs\<rparr>" for b bs using w(3) by (auto simp: writeBody_def writeHeader_def)
    have "concat (map entry [0..?L]) @ concat (map entry [?L + 1..e - 1]) = concat (map entry [0..e - 1])"
      using False D(6) P by (intro concat_append_upto) simp_all
    moreover have "fst (ser (?L + 1) (e - 1)) = concat (map entry [?L + 1..e - 1])" using e(2) by (intro ser) simp_all
    ultimately show ?thesis
      unfolding unf run tail using look i w False D(12)
      by (simp add: attemptLocked_def getBlockHashHolding_def getBlockHash_def respond_def wb age_def)
  qed
qed

subsection \<open>What clients get\<close>

text \<open>The entries of the header producer and of the filter producer that are in memory, serialized.\<close>

definition headerTail :: "'h env \<Rightarrow> 'h server \<Rightarrow> int \<Rightarrow> bytes option" where
  "headerTail E s h = map_option (SerializeHeader E) (headers (mem (sHeaderFiles s)) h)"

definition filterTail :: "'h env \<Rightarrow> 'h server \<Rightarrow> int \<Rightarrow> bytes option" where
  "filterTail E s h = map_option (WriteVarBytes E) (filters (mem (sCFilterFiles s)) h)"

text \<open>
  Claim C15. A request for filters is answered with the filters: for every start height that is a
  multiple of the file size and not above the tip, \<open>/filters/{height}\<close> answers 200 with
  the length-prefixed filters from that height on, to the end of the file when the range is
  sealed and to the tip otherwise; \<open>Content-Length\<close> is the length of the body, and the
  long cache life is given to sealed ranges only. The handler returns. The hashes of the heights
  in memory must be in the cache, or the handler would not return (\<open>uncached_tail_hangs\<close>).
\<close>

theorem filters_request_answered:
  assumes "ready E s FilterFileDir FilterFileSuffix (sFiltersPerFile s) (processorOf (sCFilterFiles s)) entry (filterTail E s)"
    and "wire_codec E" "0 \<le> a" "a \<le> currentHeight (sCFilterFiles s)" "a mod sFiltersPerFile s = 0"
    and w: "w = snd (filtersRequestHandler E (heightRequest a) (s, newWriter))"
  shows "\<not> hung w \<and> statusOf w = 200 \<and>
    body w = concat (map entry [a..answerEnd (processorOf (sCFilterFiles s)) (sFiltersPerFile s) a]) \<and>
    fieldOf ''Content-Length'' w = [decimal (length (body w))] \<and>
    fieldOf HeaderCache w = [cacheControl
      (if a + sFiltersPerFile s - 1 \<le> lastSealedHeight (sCFilterFiles s) then maxAgeDisk else maxAgeMemory)]"
proof -
  have P: "bpCurrentHeight (processorOf (sCFilterFiles s)) = currentHeight (sCFilterFiles s)"
    "bpLastSealedHeight (processorOf (sCFilterFiles s)) = lastSealedHeight (sCFilterFiles s)"
    by (simp_all add: processorOf_def getCurrentHeight_def getLastSealedHeight_def)
  have "a \<le> max64" using assms(4) readyD(9) [OF assms(1)] P by (simp add: max64_def heightBound_def)
  note parse = parse_heightRequest [OF assms(3) this]
  have r: "rangeHeader (heightRequest a) = None" by (simp add: heightRequest_def)
  note all = flt.answer [OF assms(1) [unfolded filterTail_def [abs_def]] assms(2,3) assms(4) [folded P(1)] assms(5) parse r]
  show ?thesis unfolding w using all P by simp
qed

text \<open>
  Claim C14. Downloading is complete: the answers to \<open>/headers/0\<close>, \<open>/headers/n\<close>, and so
  on, up to the first range that is not sealed, put one after the other, are the headers of
  all heights from 0 to the tip, without a gap and without an overlap. Every one of the requests
  returns, with status 200; for the last one the hashes of the heights in memory must be in the
  cache, or its handler would not return (\<open>uncached_tail_hangs\<close>).
\<close>

theorem headers_download_complete:
  assumes "ready E s HeaderFileDir HeaderFileSuffix (sHeadersPerFile s) (processorOf (sHeaderFiles s)) entry (headerTail E s)"
    and "header_codec E" "lastSealedHeight (sHeaderFiles s) < currentHeight (sHeaderFiles s)"
  shows "concat (map (\<lambda>j. body (snd (headersRequestHandler E (heightRequest (j * sHeadersPerFile s)) (s, newWriter))))
      [0..(lastSealedHeight (sHeaderFiles s) + 1) div sHeadersPerFile s]) =
    concat (map entry [0..currentHeight (sHeaderFiles s)]) \<and>
    list_all (\<lambda>j. statusOf (snd (headersRequestHandler E (heightRequest (j * sHeadersPerFile s)) (s, newWriter))) = 200 \<and>
        \<not> hung (snd (headersRequestHandler E (heightRequest (j * sHeadersPerFile s)) (s, newWriter))))
      [0..(lastSealedHeight (sHeaderFiles s) + 1) div sHeadersPerFile s]"
  using hdr.download [of E s entry] assms
  by (simp add: headerTail_def [abs_def] processorOf_def getCurrentHeight_def getLastSealedHeight_def)

lemma ready_serializeHeaders:
  assumes R: "ready E s HeaderFileDir HeaderFileSuffix (sHeadersPerFile s) (processorOf (sHeaderFiles s)) entry (headerTail E s)"
    and "lastSealedHeight (sHeaderFiles s) < a" "b \<le> currentHeight (sHeaderFiles s)"
  shows "fst (serializeHeaders E (mem (sHeaderFiles s)) a b) = concat (map entry [a..b])"
  unfolding serializeHeaders_def
  by (rule streamEach_entries(1))
    (use assms(2,3) readyD(11) [OF R] in \<open>auto simp: headerTail_def processorOf_def getCurrentHeight_def getLastSealedHeight_def\<close>)

lemma headersImportLatest_eq:
  assumes "checkImportPreconditions s = None"
  shows "headersImportLatestRequestHandler E (s, w) =
    serveHeightBasedImport E HeaderFileDir HeaderFileSuffix (sHeadersPerFile s)
      (serializeHeaders E (mem (sHeaderFiles s))) typeBlockHeader (currentHeight (sHeaderFiles s) + 1) (s, w)"
  using assms by (simp add: headersImportLatestRequestHandler_def heightBasedImportLatestHandler_def)

text \<open>
  Claim C16. An import is complete: for an end height from 1 to one above the tip, which must be a
  multiple of the file size where everything is sealed, \<open>/headers/import/{height}\<close>
  answers 200 with the 10 bytes of metadata followed by the headers of all heights below the
  end height, and the long cache life only when all of them are sealed;
  \<open>/headers/import/latest\<close> is the import up to and including the tip, with the cache life
  of that import: also the long one when the tip itself is sealed, where the comment above the
  handler has the short one always (\<open>import_latest_disk_tier\<close>). The handler returns; for
  that the hashes of the heights in memory must be in the cache.
\<close>

theorem headers_import_complete:
  assumes R: "ready E s HeaderFileDir HeaderFileSuffix (sHeadersPerFile s) (processorOf (sHeaderFiles s)) entry (headerTail E s)"
    and e: "0 < e" "e \<le> currentHeight (sHeaderFiles s) + 1"
    and whole: "e \<le> lastSealedHeight (sHeaderFiles s) + 1 \<Longrightarrow> e mod sHeadersPerFile s = 0"
    and w: "w = snd (headersImportRequestHandler E (heightRequest e) (s, newWriter))"
  shows "\<not> hung w \<and> statusOf w = 200 \<and> body w = importMetadata (sNet s) typeBlockHeader @ concat (map entry [0..e - 1]) \<and>
    fieldOf HeaderCache w = [cacheControl (if e \<le> lastSealedHeight (sHeaderFiles s) + 1 then maxAgeDisk else maxAgeMemory)] \<and>
    (e = currentHeight (sHeaderFiles s) + 1 \<longrightarrow> snd (headersImportLatestRequestHandler E (s, newWriter)) = w)"
proof -
  note D = readyD [OF R]
  let ?p = "sHeaderFiles s"
  have P: "bpCurrentHeight (processorOf ?p) = currentHeight ?p" "bpLastSealedHeight (processorOf ?p) = lastSealedHeight ?p"
    "bpStartupComplete (processorOf ?p) = startupComplete ?p"
    by (simp_all add: processorOf_def getCurrentHeight_def getLastSealedHeight_def isStartupComplete_def)
  have parse: "parseRequestParamInt64 (heightRequest e) ''height'' = Inr e"
    using e D(9) P by (intro parse_heightRequest) (simp_all add: max64_def heightBound_def)
  have "i32 e = e" "add32 (currentHeight ?p) 1 = currentHeight ?p + 1"
    using e D(6,8,9) P by (simp_all add: i32_id add32_id heightBound_def)
  then have chk: "checkEndHeight (processorOf ?p) e (sHeadersPerFile s) = Inr ()" using e P by (simp add: checkEndHeight_def)
  have pre: "checkImportPreconditions s = None" using D(1,2) P by (simp add: checkImportPreconditions_def)
  let ?serve = "\<lambda>e. serveHeightBasedImport E HeaderFileDir HeaderFileSuffix (sHeadersPerFile s)
      (serializeHeaders E (mem ?p)) typeBlockHeader e (s, newWriter)"
  have wa: "w = snd (?serve e)"
    using parse chk pre by (simp add: w headersImportRequestHandler_def heightBasedImportRequestHandler_def)
  have "snd (headersImportLatestRequestHandler E (s, newWriter)) = snd (?serve (currentHeight ?p + 1))"
    using headersImportLatest_eq [OF pre, of E newWriter] by simp
  then show ?thesis
    unfolding wa using import_answer [OF R okSuffix_known(1) ready_serializeHeaders [OF R] e whole, of typeBlockHeader] by simp
qed

text \<open>
  An interrupted download of a sealed file can be resumed: the first \<open>k\<close> bytes by
  one range request and the rest by another are the file.
\<close>

theorem resumed_download:
  assumes "map_of (disk s) f = Some bs" "\<forall>t. ioFaults E t = None" "0 < k" "k < length bs"
  shows "body (snd (serveFile E (r\<lparr>rangeHeader := Some (0, Some (k - 1))\<rparr>) f (s, newWriter))) @
    body (snd (serveFile E (r\<lparr>rangeHeader := Some (k, None)\<rparr>) f (s, newWriter))) = bs"
  using assms by (simp add: serveFile_def readFile_def serveContent_def http_defs)

text \<open>
  Claim C35. Requests that cannot be answered are refused with the documented status and change
  nothing: 503 in light mode and while the producer is catching up, 400 for a start height
  above the tip (below 2147483648) or not at the start of a file.
\<close>

theorem bad_requests_refused:
  assumes a: "0 \<le> a" "a \<le> max32" "0 < n" "n \<le> max32"
    and bad: "lightMode s \<or> \<not> bpStartupComplete P \<or> bpCurrentHeight P < a \<or> a mod n \<noteq> 0"
    and r: "heightBasedRequestHandler E (heightRequest a) subDirectory sfx n ser sz P (s, newWriter) = (s', w)"
  shows "s' = s \<and> body w \<noteq> [] \<and> statusOf w = (if lightMode s \<or> \<not> bpStartupComplete P then 503 else 400) \<and>
    fieldOf HeaderCache w = [cacheControl (if lightMode s \<or> \<not> bpStartupComplete P then 0 else maxAgeMemory)]"
proof -
  have parse: "parseRequestParamInt64 (heightRequest a) ''height'' = Inr a"
    using a by (intro parse_heightRequest) (simp_all add: max64_def max32_def)
  have "i32 a = a" "i32 n = n" using a by (auto intro!: i32_id simp: max32_def)
  then have chk: "\<exists>e. checkStartHeight P a (i32 n) = Inl e \<and> errText e \<noteq> []" if "bpCurrentHeight P < a \<or> a mod n \<noteq> 0"
    using that by (cases "bpCurrentHeight P < a"; cases "a = 0") (auto simp: checkStartHeight_def)
  show ?thesis
  proof (cases "lightMode s \<or> \<not> bpStartupComplete P")
    case True
    with r show ?thesis
      by (auto simp: heightBasedRequestHandler_def respond_def sendError_def errUnavailableInLightMode_def errStillStartingUp_def
          http_defs update_conv' strBytes_def split: if_splits)
  next
    case False
    with bad chk obtain e where "checkStartHeight P a (i32 n) = Inl e" "errText e \<noteq> []" by blast
    with False parse r show ?thesis
      by (auto simp: heightBasedRequestHandler_def respond_def sendError_def http_defs update_conv' strBytes_def)
  qed
qed

subsection \<open>Routes do not overlap\<close>

fun overlapSeg :: "seg \<Rightarrow> seg \<Rightarrow> bool" where
  "overlapSeg (Lit a) q = (matchSeg q a \<noteq> None)"
| "overlapSeg p (Lit b) = (matchSeg p b \<noteq> None)"
| "overlapSeg _ _ = True"

fun overlap :: "seg list \<Rightarrow> seg list \<Rightarrow> bool" where
  "overlap [] [] = True"
| "overlap (p # ps) (q # qs) = (overlapSeg p q \<and> overlap ps qs)"
| "overlap _ _ = False"

lemma overlapSeg_match: "matchSeg p t \<noteq> None \<Longrightarrow> matchSeg q t \<noteq> None \<Longrightarrow> overlapSeg p q"
  by (cases p; cases q) (auto split: if_splits)

lemma overlap_match: "matchSegs p ts = Some xs \<Longrightarrow> matchSegs q ts = Some ys \<Longrightarrow> overlap p q"
proof (induction p ts arbitrary: q xs ys rule: matchSegs.induct)
  case (2 p ps t ts)
  then obtain q1 qs where q: "q = q1 # qs" by (cases q) auto
  with 2 show ?case by (auto split: option.splits intro: overlapSeg_match)
qed (auto elim: matchSegs.elims split: option.splits)

lemma createRouter_disjoint:
  "\<forall>i\<in>{0..<length createRouter}. \<forall>j\<in>{0..<i}. \<not> overlap (fst (createRouter ! i)) (fst (createRouter ! j))"
  by code_simp

text \<open>
  No request depends on the order in which the routes were registered: no path matches
  two of them.
\<close>

theorem routes_unambiguous:
  assumes "i < length createRouter" "j < length createRouter"
    and "matchSegs (fst (createRouter ! i)) path = Some xs" "matchSegs (fst (createRouter ! j)) path = Some ys"
  shows "i = j"
proof -
  have "overlap (fst (createRouter ! i)) (fst (createRouter ! j))" "overlap (fst (createRouter ! j)) (fst (createRouter ! i))"
    using assms(3,4) overlap_match by blast+
  then show ?thesis using createRouter_disjoint assms(1,2) by (metis atLeastLessThan_iff le0 linorder_neqE_nat)
qed

subsection \<open>A concrete server\<close>

text \<open>Three blocks: the first file of two headers and of two filters is sealed, block 2 is in memory.\<close>

definition miniHeaderTail :: "miniHeader headerFiles" where
  "miniHeaderTail = (newHeaderFiles 2 1 ''/d'' miniShared)\<lparr>startupComplete := True, currentHeight := 2, lastSealedHeight := 1,
     mem := \<lparr>headers = [2 \<mapsto> (2, 1)], filterHeaders = [2 \<mapsto> miniFilterHeader 2]\<rparr>\<rparr>"

definition miniFilterTail :: cFilterFiles where
  "miniFilterTail = (newCFilterFiles 2 1 ''/d'' miniShared)\<lparr>startupComplete := True, currentHeight := 2, lastSealedHeight := 1,
     mem := \<lparr>filters = [2 \<mapsto> [2]], cfHeightToHash = [2 \<mapsto> miniBlockHash 2]\<rparr>\<rparr>"

definition miniCache :: h2hCache where
  "miniCache = \<lparr>heightToHash = [0 \<mapsto> miniBlockHash 0, 1 \<mapsto> miniBlockHash 1, 2 \<mapsto> miniBlockHash 2], bestHeight = 2, writerWaits = False\<rparr>"

definition miniServer :: "miniHeader server" where
  "miniServer = \<lparr>now = 0,
     disk = [(blockFileName HeaderFileSuffix (joinPath ''/d'' HeaderFileDir) 0 1, miniSerialize (0, -1) @ miniSerialize (1, 0)),
             (blockFileName FilterFileSuffix (joinPath ''/d'' FilterFileDir) 0 1, [1, 0, 1, 1])],
     cache = miniCache, lightMode = False, sBaseDir = ''/d'', sHeadersPerFile = 2, sFiltersPerFile = 2, sSPTweaksPerFile = 2,
     sReOrgSafeDepth = 1, sNet = 1, sChainName = ''mini'', sGenesisHash = ''0'', sDisableTLS = True, sBackendHost = ''b'',
     sHeaderFiles = miniHeaderTail, sCFilterFiles = miniFilterTail, sSPTweakFiles = None, sCustomFilterFiles = None\<rparr>"

definition miniHeaderBytes :: "int \<Rightarrow> bytes" where "miniHeaderBytes h = miniSerialize (of_int h, of_int h - 1)"

definition miniFilterBytes :: "int \<Rightarrow> bytes" where "miniFilterBytes h = [1, of_int h]"

lemma miniServer_simps [simp]:
  "sHeadersPerFile miniServer = 2" "sFiltersPerFile miniServer = 2" "sBaseDir miniServer = ''/d''" "lightMode miniServer = False"
  "sHeaderFiles miniServer = miniHeaderTail" "sCFilterFiles miniServer = miniFilterTail" "cache miniServer = miniCache" "sNet miniServer = 1"
  "currentHeight miniHeaderTail = 2" "lastSealedHeight miniHeaderTail = 1" "startupComplete miniHeaderTail"
  "currentHeight miniFilterTail = 2" "lastSealedHeight miniFilterTail = 1" "startupComplete miniFilterTail"
  by (simp_all add: miniServer_def miniHeaderTail_def miniFilterTail_def newHeaderFiles_def newCFilterFiles_def)

lemma mini_disk:
  assumes "0 \<le> a" "a mod 2 = 0"
  shows "map_of (disk miniServer) (rangeName HeaderFileDir HeaderFileSuffix 2 miniServer a) =
      (if a + 2 - 1 \<le> 1 then Some (concat (map miniHeaderBytes [a..a + 2 - 1])) else None)"
    "map_of (disk miniServer) (rangeName FilterFileDir FilterFileSuffix 2 miniServer a) =
      (if a + 2 - 1 \<le> 1 then Some (concat (map miniFilterBytes [a..a + 2 - 1])) else None)"
proof -
  have s: "HeaderFileSuffix \<noteq> FilterFileSuffix" by (simp add: HeaderFileSuffix_def FilterFileSuffix_def)
  have eq: "blockFileName sfx dir a (a + 2 - 1) = blockFileName sfx' dir' 0 1 \<longleftrightarrow> dir = dir' \<and> a = 0 \<and> sfx = sfx'"
    if "okSuffix sfx" "okSuffix sfx'" for sfx sfx' dir dir'
    using blockFileName_eq_iff [OF assms(1) _ _ _ that, of "a + 2 - 1" 0 1 dir dir'] assms(1) by auto
  have e: "concat (map miniHeaderBytes [0..1]) = miniSerialize (0, -1) @ miniSerialize (1, 0)" "concat (map miniFilterBytes [0..1]) = [1, 0, 1, 1]"
    by (simp_all add: upto_01 miniHeaderBytes_def miniFilterBytes_def)
  show "map_of (disk miniServer) (rangeName HeaderFileDir HeaderFileSuffix 2 miniServer a) =
      (if a + 2 - 1 \<le> 1 then Some (concat (map miniHeaderBytes [a..a + 2 - 1])) else None)"
    using assms(1) s e eq by (auto simp: rangeName_def miniServer_def)
  show "map_of (disk miniServer) (rangeName FilterFileDir FilterFileSuffix 2 miniServer a) =
      (if a + 2 - 1 \<le> 1 then Some (concat (map miniFilterBytes [a..a + 2 - 1])) else None)"
    using assms(1) s e eq by (auto simp: rangeName_def miniServer_def)
qed

lemma mini_ready:
  "ready (miniEnv 2) miniServer HeaderFileDir HeaderFileSuffix 2 (processorOf miniHeaderTail) miniHeaderBytes (headerTail (miniEnv 2) miniServer)"
  "ready (miniEnv 2) miniServer FilterFileDir FilterFileSuffix 2 (processorOf miniFilterTail) miniFilterBytes (filterTail (miniEnv 2) miniServer)"
proof -
  have two: "1 < h \<and> h \<le> 2 \<longleftrightarrow> h = 2" for h :: int by auto
  have io: "\<forall>t. ioFaults (miniEnv 2) t = None" and gh: "\<not> writerWaits miniCache" "heightToHash miniCache 2 = Some (miniBlockHash 2)"
    by (simp_all add: miniEnv_def miniCache_def)
  have "headerTail (miniEnv 2) miniServer 2 = Some (miniHeaderBytes 2)"
    by (simp add: headerTail_def) (simp add: miniHeaderTail_def miniEnv_def miniHeaderBytes_def)
  then show "ready (miniEnv 2) miniServer HeaderFileDir HeaderFileSuffix 2 (processorOf miniHeaderTail) miniHeaderBytes (headerTail (miniEnv 2) miniServer)"
    using io gh mini_disk(1) by (simp add: ready_def processorOf_def isStartupComplete_def getCurrentHeight_def getLastSealedHeight_def heightBound_def two)
  have "filterTail (miniEnv 2) miniServer 2 = Some (miniFilterBytes 2)"
    by (simp add: filterTail_def) (simp add: miniFilterTail_def miniEnv_def miniFilterBytes_def compactSize_def)
  then show "ready (miniEnv 2) miniServer FilterFileDir FilterFileSuffix 2 (processorOf miniFilterTail) miniFilterBytes (filterTail (miniEnv 2) miniServer)"
    using io gh mini_disk(2) by (simp add: ready_def processorOf_def isStartupComplete_def getCurrentHeight_def getLastSealedHeight_def heightBound_def two)
qed

lemma filters_request_answered_witness:
  "\<not> hung (snd (filtersRequestHandler (miniEnv 2) (heightRequest 2) (miniServer, newWriter))) \<and>
   body (snd (filtersRequestHandler (miniEnv 2) (heightRequest 2) (miniServer, newWriter))) = [1, 2]"
  using filters_request_answered [of "miniEnv 2" miniServer miniFilterBytes 2, OF _ mini_wire_codec _ _ _ refl] mini_ready(2)
  by (simp add: answerEnd_def processorOf_def getCurrentHeight_def getLastSealedHeight_def miniFilterBytes_def)

lemma headers_download_complete_witness:
  "concat (map (\<lambda>j. body (snd (headersRequestHandler (miniEnv 2) (heightRequest (j * 2)) (miniServer, newWriter)))) [0..1]) =
     concat (map miniHeaderBytes [0..2])"
  using headers_download_complete [of "miniEnv 2" miniServer miniHeaderBytes] mini_ready(1) by simp

lemma headers_import_complete_witness:
  "\<not> hung (snd (headersImportRequestHandler (miniEnv 2) (heightRequest 3) (miniServer, newWriter))) \<and>
   body (snd (headersImportRequestHandler (miniEnv 2) (heightRequest 3) (miniServer, newWriter))) =
     importMetadata 1 typeBlockHeader @ concat (map miniHeaderBytes [0..2])"
  using headers_import_complete [of "miniEnv 2" miniServer miniHeaderBytes 3, OF _ _ _ _ refl] mini_ready(1) by simp

lemma resumed_download_example:
  "body (snd (serveFile (miniEnv 2) ((heightRequest 0)\<lparr>rangeHeader := Some (0, Some 0)\<rparr>)
      (blockFileName FilterFileSuffix (joinPath ''/d'' FilterFileDir) 0 1) (miniServer, newWriter))) @
   body (snd (serveFile (miniEnv 2) ((heightRequest 0)\<lparr>rangeHeader := Some (1, None)\<rparr>)
      (blockFileName FilterFileSuffix (joinPath ''/d'' FilterFileDir) 0 1) (miniServer, newWriter))) = [1, 0, 1, 1]"
proof -
  let ?f = "blockFileName FilterFileSuffix (joinPath ''/d'' FilterFileDir) 0 1"
  have "map_of (disk miniServer) ?f = Some [1, 0, 1, 1]"
    using mini_disk(2) [of 0] by (simp add: rangeName_def upto_01 miniFilterBytes_def)
  then show ?thesis using resumed_download [of miniServer ?f "[1, 0, 1, 1]" "miniEnv 2" 1 "heightRequest 0"] by (simp add: miniEnv_def)
qed

lemma bad_requests_refused_witness:
  "statusOf (snd (heightBasedRequestHandler (miniEnv 2) (heightRequest 4) HeaderFileDir HeaderFileSuffix 2
     (serializeHeaders (miniEnv 2) (mem miniHeaderTail)) (Some headersSize) (processorOf miniHeaderTail) (miniServer, newWriter))) = 400"
  using bad_requests_refused [of 4 2 miniServer "processorOf miniHeaderTail" "miniEnv 2" HeaderFileDir HeaderFileSuffix
      "serializeHeaders (miniEnv 2) (mem miniHeaderTail)" "Some headersSize", OF _ _ _ _ _ prod.collapse [symmetric]]
  by (simp add: max32_def processorOf_def isStartupComplete_def getCurrentHeight_def)

lemma routes_unambiguous_example:
  "matchSegs (fst (createRouter ! 8)) [''headers'', ''import'', ''7''] = Some [(''height'', ''7'')] \<and>
   matchSegs (fst (createRouter ! 7)) [''headers'', ''import'', ''7''] = None"
proof -
  have len: "length createRouter = 21" by (simp add: createRouter_def)
  have "createRouter ! 8 = ([Lit ''headers'', Lit ''import'', DecVar ''height''], EHeadersImport)" by code_simp
  then have m: "matchSegs (fst (createRouter ! 8)) [''headers'', ''import'', ''7''] = Some [(''height'', ''7'')]"
    by (simp add: isDigit_def)
  have "matchSegs (fst (createRouter ! 7)) [''headers'', ''import'', ''7''] = None"
    using routes_unambiguous [of 8 7 "[''headers'', ''import'', ''7'']", OF _ _ m] len
    by (cases "matchSegs (fst (createRouter ! 7)) [''headers'', ''import'', ''7'']") simp_all
  with m show ?thesis ..
qed

subsection \<open>Where the code falls short\<close>

text \<open>
  The comparison with the tip is made after the conversion to \<open>int32\<close>: with the default
  file size of 2000, a start height of 536870912000 passes the check at any tip, because it
  is a multiple of 2000 and of \<open>2 ^ 32\<close>.
\<close>

lemma start_height_truncated:
  "0 \<le> bpCurrentHeight P \<Longrightarrow> checkStartHeight P 536870912000 DefaultFiltersPerFile = Inr ()"
  by (simp add: checkStartHeight_def i32_def DefaultFiltersPerFile_def)

text \<open>
  A request for a range in memory whose first hash is not in the cache is never answered, and it
  leaves the write lock asked for: every handler that takes the read lock after it hangs too.
\<close>

lemma uncached_tail_hangs:
  assumes "\<not> lightMode s" "bpStartupComplete P" "parseRequestParamInt64 r ''height'' = Inr a"
    "checkStartHeight P a (i32 n) = Inr ()" "ioFaults E (now s) = None"
    "\<not> fileExists (disk s) (blockFileName sfx (joinPath (sBaseDir s) sub) a (i64 (a + n - 1)))"
    "heightToHash (cache s) (i32 a) = None" "GetBlockHash (rpc E (Suc (now s))) (i32 a) = Inr x"
  shows "hung (snd (heightBasedRequestHandler E r sub sfx n ser sz P (s, w)))"
    "writerWaits (cache (fst (heightBasedRequestHandler E r sub sfx n ser sz P (s, w))))"
  using assms by (simp_all add: heightBasedRequestHandler_def statFile_def attemptLocked_def getBlockHashHolding_def getBlockHash_def
      rpcCall_def Let_def)

lemma waiting_writer_blocks:
  "writerWaits (cache s) \<Longrightarrow> hung (snd (statusRequestHandler E W (s, w))) \<and> fst (statusRequestHandler E W (s, w)) = s"
  by (simp add: statusRequestHandler_def attemptLocked_def)

text \<open>
  In light mode no producer runs, so the cache is empty after the start and the first request for
  \<open>/status\<close> hangs on the hash of height 0. When a request for a single filter has put that
  hash into the cache before, \<open>/status\<close> answers 500 whatever the backend says, because the
  header producer has no filter header at any height.
\<close>

lemma light_mode_status_fails:
  assumes "sHeaderFiles s = newHeaderFiles n depth dir sh"
  shows "hung (snd (statusRequestHandler E W (s, newWriter))) \<or> statusOf (snd (statusRequestHandler E W (s, newWriter))) = 500"
    "heightToHash (cache s) 0 = None \<Longrightarrow> GetBlockHash (rpc E (now s)) 0 = Inr x \<Longrightarrow>
       hung (snd (statusRequestHandler E W (s, newWriter)))"
proof -
  obtain x s1 where g: "getBlockHashHolding E 0 s = (x, s1)" by fastforce
  have "sHeaderFiles s1 = sHeaderFiles s"
  proof -
    obtain y s2 where y: "getBlockHash E 0 s = (y, s2)" by fastforce
    have "sHeaderFiles s2 = sHeaderFiles s" using getBlockHash_frame [OF y] by (cases s; cases s2) simp
    with g y show ?thesis by (cases s) (auto simp: getBlockHashHolding_def split: sum.splits if_splits)
  qed
  then have "(\<exists>e. currentStatus E W s = (Some (Inl e), s1)) \<or> currentStatus E W s = (None, s1)"
    using g assms by (cases x) (auto simp: currentStatus_def getCurrentHeight_def newHeaderFiles_def filterHeaderAtHeight_def split: sum.splits)
  then show "hung (snd (statusRequestHandler E W (s, newWriter))) \<or> statusOf (snd (statusRequestHandler E W (s, newWriter))) = 500"
    by (auto simp: statusRequestHandler_def attemptLocked_def sendError_def http_defs)
  show "hung (snd (statusRequestHandler E W (s, newWriter)))" if "heightToHash (cache s) 0 = None" "GetBlockHash (rpc E (now s)) 0 = Inr x" for x
    using that assms by (simp add: statusRequestHandler_def attemptLocked_def currentStatus_def getBlockHashHolding_def getBlockHash_def
        rpcCall_def getCurrentHeight_def newHeaderFiles_def Let_def)
qed

text \<open>
  The comment above \<open>headersImportLatestRequestHandler\<close> says that the answer always has the
  short cache life of data in memory, since the tip is mutable. When the tip is the last sealed
  height, it has the long one of a file.
\<close>

lemma import_latest_disk_tier:
  assumes R: "ready E s HeaderFileDir HeaderFileSuffix (sHeadersPerFile s) (processorOf (sHeaderFiles s)) entry (headerTail E s)"
    and tip: "0 \<le> currentHeight (sHeaderFiles s)" "lastSealedHeight (sHeaderFiles s) = currentHeight (sHeaderFiles s)"
  shows "fieldOf HeaderCache (snd (headersImportLatestRequestHandler E (s, newWriter))) = [cacheControl maxAgeDisk]"
proof -
  let ?p = "sHeaderFiles s"
  have P: "bpLastSealedHeight (processorOf ?p) = lastSealedHeight ?p" "bpStartupComplete (processorOf ?p) = startupComplete ?p"
    by (simp_all add: processorOf_def getLastSealedHeight_def isStartupComplete_def)
  have pre: "checkImportPreconditions s = None" using readyD(1,2) [OF R] P by (simp add: checkImportPreconditions_def)
  have "(currentHeight ?p + 1) mod sHeadersPerFile s = 0" using readyD(7) [OF R] P tip by simp
  then show ?thesis
    unfolding headersImportLatest_eq [OF pre]
    using import_answer [OF R okSuffix_known(1) ready_serializeHeaders [OF R], of "currentHeight ?p + 1" typeBlockHeader] tip by simp
qed

text \<open>
  Between writing a file and recording its height as sealed, the file is on disk and the
  sealed height below it. An import that stops inside that file then gets all of it: here
  one header is asked for and two are answered, with status 200.
\<close>

definition racingServer :: "miniHeader server" where
  "racingServer = miniServer\<lparr>sHeaderFiles := miniHeaderTail\<lparr>lastSealedHeight := -1\<rparr>\<rparr>"

lemma import_race:
  "body (snd (serveHeightBasedImport (miniEnv 2) HeaderFileDir HeaderFileSuffix 2
     (serializeHeaders (miniEnv 2) (mem (sHeaderFiles racingServer))) typeBlockHeader 1 (racingServer, newWriter))) =
   importMetadata 1 typeBlockHeader @ concat (map miniHeaderBytes [0..1])"
proof -
  let ?name = "\<lambda>h. blockFileName HeaderFileSuffix (joinPath ''/d'' HeaderFileDir) h (i64 (h + 2 - 1))"
  have f: "map_of (disk miniServer) (?name 0) = Some (concat (map miniHeaderBytes [0..1]))"
    using mini_disk(1) [of 0] by (simp add: rangeName_def i64_def)
  have io: "ioFaults (miniEnv 2) t = None" for t by (simp add: miniEnv_def)
  have r: "disk racingServer = disk miniServer" "sBaseDir racingServer = ''/d''" "lastSealedHeight (sHeaderFiles racingServer) = -1"
    "sNet racingServer = 1" "cache racingServer = miniCache" by (simp_all add: racingServer_def miniServer_def)
  have len: "length (disk racingServer) + 2 = Suc (Suc 2)" by (simp add: racingServer_def miniServer_def)
  have g: "heightToHash miniCache 2 = Some (miniBlockHash 2)" "\<not> writerWaits miniCache" by (simp_all add: miniCache_def)
  have e: "[2..0] = ([] :: int list)" by simp
  have "(2::int) > 1" by simp
  then show ?thesis
    unfolding serveHeightBasedImport_def Let_def fst_conv snd_conv r len
    using f io g by (simp add: statFile_def streamFile_def fileExists_def r io add32_id i64_def attemptLocked_def getBlockHashHolding_def getBlockHash_def respond_def i32_id sub32_id
        serializeHeaders_def e http_defs)
qed

end
