(* ===== verification/Config.thy ===== *)
theory Config
  imports Http
begin

text \<open>
  \<open>main.go\<close>: the command-line settings and how they select a network
  (\<open>resolveNetwork\<close>). The parameters of a network are those of
  \<open>chaincfg\<close>, an argument of the definitions that need them.

  The lemmas show that a file of filters never straddles two files of headers on any
  network, that the sizes are those the other theories assume (positive and far from the
  largest \<open>int32\<close>), and that the test networks with long re-orgs never run with the
  depth that is the default of the main network.
\<close>

subsection \<open>Networks\<close>

record chainParams =
  pNet :: nat
  pName :: string
  pGenesisHash :: hash

definition defaultListenPort :: nat where "defaultListenPort = 8080"
definition defaultMainnetReOrgSafeDepth :: nat where "defaultMainnetReOrgSafeDepth = 6"
definition defaultTestnetReOrgSafeDepth :: nat where "defaultTestnetReOrgSafeDepth = 100"

text \<open>Timeouts are in nanoseconds, as a \<open>time.Duration\<close> is.\<close>

record mainCommand =
  testnet :: bool
  testnet4 :: bool
  regtest :: bool
  signet :: bool
  mcLightMode :: bool
  mcIndexSPTweakData :: bool
  mcIndexCustomFilters :: bool
  mcPrevOutCacheSizeMiB :: nat
  mcBaseDir :: string
  mcLogDir :: string
  mcLogLevel :: string
  mcIndexPage :: string
  mcListenAddr :: string
  mcReOrgSafeDepth :: nat
  mcReadTimeout :: int
  mcWriteTimeout :: int
  mcDisableTLS :: bool
  mcHTTPPostMode :: bool
  mcBackendHost :: string
  mcBackendUser :: string
  mcBackendPass :: string

text \<open>The network, the entries per header, filter and tweak file, and the settings with the depth adjusted.\<close>

definition resolveNetwork :: "mainCommand \<Rightarrow> (network \<times> int \<times> int \<times> int) \<times> mainCommand" where
  "resolveNetwork cc =
     (let deeper = (if mcReOrgSafeDepth cc = defaultMainnetReOrgSafeDepth
                    then cc\<lparr>mcReOrgSafeDepth := defaultTestnetReOrgSafeDepth\<rparr> else cc);
          sizes = (DefaultHeadersPerFile, DefaultFiltersPerFile, DefaultSPTweaksPerFile)
      in if testnet cc then ((TestNet3, sizes), deeper)
         else if testnet4 cc then ((TestNet4, sizes), deeper)
         else if signet cc then ((SigNet, sizes), cc)
         else if regtest cc then
           ((RegTest, DefaultRegtestHeadersPerFile, DefaultRegtestFiltersPerFile, DefaultRegtestSPTweaksPerFile), cc)
         else ((MainNet, sizes), cc))"

lemma resolveNetwork_sizes:
  assumes "resolveNetwork cc = ((net, nh, nf, nt), cc')"
  shows "0 < nf" "nf \<le> nh" "nh mod nf = 0"
    "nh \<le> 100000" "0 < nt" "nt \<le> 2000"
  using assms by (auto simp: resolveNetwork_def Let_def DefaultHeadersPerFile_def DefaultFiltersPerFile_def
      DefaultSPTweaksPerFile_def DefaultRegtestHeadersPerFile_def DefaultRegtestFiltersPerFile_def
      DefaultRegtestSPTweaksPerFile_def split: if_splits)

lemma resolveNetwork_depth:
  assumes "resolveNetwork cc = ((net, sizes), cc')"
  shows "net \<in> {TestNet3, TestNet4} \<Longrightarrow> mcReOrgSafeDepth cc' \<noteq> defaultMainnetReOrgSafeDepth"
    and "cc' = cc\<lparr>mcReOrgSafeDepth := mcReOrgSafeDepth cc'\<rparr>"
  using assms by (auto simp: resolveNetwork_def Let_def defaultMainnetReOrgSafeDepth_def defaultTestnetReOrgSafeDepth_def
      split: if_splits)

end
