(* ===== verification/Server.thy ===== *)
theory Server
  imports Endpoints Config
begin

text \<open>
  \<open>server.go\<close> and the command of \<open>main.go\<close>: creating the server, starting it,
  the background tasks it runs beside the web server, and stopping it. A started server is
  the record \<open>daemon\<close>: the server the handlers see, the tasks that are catching up, those
  that poll, and the errors reported so far. Calls of the backend that only this file makes
  are the record \<open>backendEnv\<close>.

  A goroutine is a task of the \<open>daemon\<close>; \<open>daemonStep\<close> runs one of them for one turn
  (the whole catch-up, or one turn of the poll loop) or answers one request. Turns of
  different tasks and requests interleave in any order; a turn is not interrupted. A task
  that returns an error ends and its error is queued, unless the server is shutting down.
\<close>

subsection \<open>Creating a server\<close>

record serverConf =
  cLightMode :: bool
  cIndexSPTweakData :: bool
  cIndexCustomFilters :: bool
  cBaseDir :: string
  cListenAddr :: string
  cDisableTLS :: bool
  cHost :: string
  cNetwork :: network
  cParams :: chainParams
  cReOrgSafeDepth :: nat
  cReadTimeout :: int
  cWriteTimeout :: int
  cHeadersPerFile :: int
  cFiltersPerFile :: int
  cSPTweaksPerFile :: int

definition defaultReadTimeout :: int where "defaultReadTimeout = 5 * 1000000000"
definition defaultWriteTimeout :: int where "defaultWriteTimeout = 5 * 60 * 1000000000"

definition newServer :: "bool \<Rightarrow> bool \<Rightarrow> bool \<Rightarrow> string \<Rightarrow> string \<Rightarrow> bool \<Rightarrow> string \<Rightarrow> network \<Rightarrow> chainParams \<Rightarrow> nat \<Rightarrow>
    int \<Rightarrow> int \<Rightarrow> int \<Rightarrow> int \<Rightarrow> int \<Rightarrow> serverConf" where
  "newServer light sp custom dir listenAddr tlsOff host net params depth nh nf nt readTimeout writeTimeout =
     \<lparr>cLightMode = light, cIndexSPTweakData = sp, cIndexCustomFilters = custom, cBaseDir = dir, cListenAddr = listenAddr,
      cDisableTLS = tlsOff, cHost = host, cNetwork = net, cParams = params, cReOrgSafeDepth = depth,
      cReadTimeout = (if readTimeout \<le> 0 then defaultReadTimeout else readTimeout),
      cWriteTimeout = (if writeTimeout \<le> 0 then defaultWriteTimeout else writeTimeout),
      cHeadersPerFile = nh, cFiltersPerFile = nf, cSPTweaksPerFile = nt\<rparr>"

subsection \<open>Starting it\<close>

record backendEnv =
  NewClient :: "err + unit"
  GetNetworkInfo :: "nat \<Rightarrow> err + int"
  GetBlockChainInfo :: "nat \<Rightarrow> err + int"

datatype background = HeaderUpdate | FilterUpdate | SPTweakUpdate | CustomFilterUpdate

record 'h daemon = "'h server" +
  dListenAddr :: string
  dReadTimeout :: int
  dWriteTimeout :: int
  bestBlock :: int
  catchingUp :: "background list"
  polling :: "background list"
  errQueue :: "err list"

definition backendCall :: "(nat \<Rightarrow> err + 'a) \<Rightarrow> ('z shared_scheme, 'a) go" where
  "backendCall f s = (f (now s), s\<lparr>now := Suc (now s)\<rparr>)"

definition checkPrevOutBackend :: "backendEnv \<Rightarrow> blockEnv \<Rightarrow> ('z, unit) fetch" where
  "checkPrevOutBackend X B =
     goBind (goWrap ''error querying backend version'' []
              (\<lambda>(q, s). case backendCall (GetNetworkInfo X) s of (r, s1) \<Rightarrow> (r, (q, s1)))) (\<lambda>version.
     goBind (goLift (verifyPrevOutBackendVersion version)) (\<lambda>_. requireREST B))"

text \<open>The fetcher of blocks with their previous outputs, probed when something needs it.\<close>

definition startFetcher :: "backendEnv \<Rightarrow> blockEnv \<Rightarrow> serverConf \<Rightarrow> (shared, prefetch) go" where
  "startFetcher X B c s =
     (let fetcher = newBlockPrefetcher False False in
      if (cIndexSPTweakData c \<or> cIndexCustomFilters c) \<and> \<not> cLightMode c
      then (case checkPrevOutBackend X B (fetcher, s) of
              (Inl e, (q, s1)) \<Rightarrow> (Inl e, s1)
            | (Inr _, (q, s1)) \<Rightarrow> (Inr q, s1))
      else (Inr fetcher, s))"

text \<open>The best block of the cache that was loaded must be the backend's.\<close>

definition checkBestBlock :: "'h env \<Rightarrow> webEnv \<Rightarrow> int \<Rightarrow> (shared, unit) go" where
  "checkBestBlock E W cacheBestHeight =
     goBind (goWrap ''error getting best block from cache'' [] (getBlockHash E cacheBestHeight)) (\<lambda>cacheBestBlock.
     goBind (goWrap ''error getting best block from backend'' [] (rpcCall E (\<lambda>V. GetBlockHash V cacheBestHeight))) (\<lambda>backendBlock.
       if backendBlock \<noteq> cacheBestBlock
       then goFail (Errf (''header mismatch at height %d: cache has '' @ hashToString W cacheBestBlock @
         '', backend has '' @ hashToString W backendBlock) [cacheBestHeight])
       else goRet ()))"

text \<open>The tasks started in the background; in light mode there is none.\<close>

definition backgroundTasks :: "serverConf \<Rightarrow> background list" where
  "backgroundTasks c =
     (if cLightMode c then []
      else [HeaderUpdate, FilterUpdate] @ (if cIndexSPTweakData c then [SPTweakUpdate] else []) @
           (if cIndexCustomFilters c then [CustomFilterUpdate] else []))"

definition runningServer :: "webEnv \<Rightarrow> serverConf \<Rightarrow> prefetch \<Rightarrow> int \<Rightarrow> shared \<Rightarrow> 'h daemon" where
  "runningServer W c fetcher blocks s =
     (let depth = i32 (int (cReOrgSafeDepth c)) in
      \<lparr>now = now s, disk = disk s, cache = cache s, lightMode = cLightMode c, sBaseDir = cBaseDir c,
       sHeadersPerFile = cHeadersPerFile c, sFiltersPerFile = cFiltersPerFile c, sSPTweaksPerFile = cSPTweaksPerFile c,
       sReOrgSafeDepth = cReOrgSafeDepth c, sNet = pNet (cParams c), sChainName = pName (cParams c),
       sGenesisHash = hashToString W (pGenesisHash (cParams c)), sDisableTLS = cDisableTLS c, sBackendHost = cHost c,
       sHeaderFiles = newHeaderFiles (cHeadersPerFile c) depth (cBaseDir c) s,
       sCFilterFiles = newCFilterFiles (cFiltersPerFile c) depth (cBaseDir c) s,
       sSPTweakFiles =
         (if SPTweakUpdate \<in> set (backgroundTasks c)
          then Some (newSPTweakFiles (cSPTweaksPerFile c) depth (cBaseDir c) (cNetwork c) (pNet (cParams c)) fetcher s) else None),
       sCustomFilterFiles =
         (if CustomFilterUpdate \<in> set (backgroundTasks c)
          then Some (newCustomFilterFiles (cFiltersPerFile c) (cHeadersPerFile c) depth (cBaseDir c) fetcher s) else None),
       dListenAddr = cListenAddr c, dReadTimeout = cReadTimeout c, dWriteTimeout = cWriteTimeout c, bestBlock = blocks,
       catchingUp = backgroundTasks c, polling = [], errQueue = []\<rparr>)"

definition start :: "'h env \<Rightarrow> blockEnv \<Rightarrow> webEnv \<Rightarrow> backendEnv \<Rightarrow> serverConf \<Rightarrow> (shared, 'h daemon) go" where
  "start E B W X c =
     goBind (goWrap ''error connecting to bitcoind'' [] (goLift (NewClient X))) (\<lambda>_.
     goBind (startFetcher X B c) (\<lambda>fetcher.
     goBind (goModify (\<lambda>s. s\<lparr>cache := newH2HCache\<rparr>)) (\<lambda>_.
     goBind (goWrap ''error loading headers into cache'' [] (loadFromHeaders E (joinPath (cBaseDir c) HeaderFileDir))) (\<lambda>cacheBestHeight.
     goBind (if cacheBestHeight \<ge> 0 then checkBestBlock E W cacheBestHeight else goRet ()) (\<lambda>_.
     goBind (goWrap ''error getting block chain info'' [] (backendCall (GetBlockChainInfo X))) (\<lambda>blocks.
       goGets (runningServer W c fetcher blocks)))))))"

subsection \<open>Running it\<close>

text \<open>A producer runs on the shared disk and cache.\<close>

definition withShared :: "'z shared_scheme \<Rightarrow> 'm producer \<Rightarrow> 'm producer" where
  "withShared d p = p\<lparr>now := now d, disk := disk d, cache := cache d\<rparr>"

definition runProducer :: "('m producer, unit) go \<Rightarrow> 'm producer \<Rightarrow> ('m producer \<Rightarrow> 'h daemon \<Rightarrow> 'h daemon) \<Rightarrow> ('h daemon, unit) go" where
  "runProducer m p put d =
     (case m (withShared d p) of (r, p') \<Rightarrow> (r, put p' (d\<lparr>now := now p', disk := disk p', cache := cache p'\<rparr>)))"

text \<open>
  One turn of a task: the part of its \<open>updateFiles\<close> before the poll loop, or one turn of
  that loop.
\<close>

fun taskTurn :: "'h env \<Rightarrow> blockEnv \<Rightarrow> bool \<Rightarrow> background \<Rightarrow> ('h daemon, unit) go" where
  "taskTurn E B starting HeaderUpdate d =
     runProducer (if starting then updateFiles E (headerHooks E) (bestBlock d) 0 else pollOnce E (headerHooks E))
       (sHeaderFiles d) (\<lambda>p d. d\<lparr>sHeaderFiles := p\<rparr>) d"
| "taskTurn E B starting FilterUpdate d =
     runProducer (if starting then updateFiles E (cfHooks E) (bestBlock d) 0 else pollOnce E (cfHooks E))
       (sCFilterFiles d) (\<lambda>p d. d\<lparr>sCFilterFiles := p\<rparr>) d"
| "taskTurn E B starting SPTweakUpdate d =
     (case sSPTweakFiles d of
        None \<Rightarrow> (Inr (), d)
      | Some p \<Rightarrow> runProducer (if starting then spUpdateFiles E B (bestBlock d) 0 else pollOnce E (spHooks B E))
          p (\<lambda>p d. d\<lparr>sSPTweakFiles := Some p\<rparr>) d)"
| "taskTurn E B starting CustomFilterUpdate d =
     (case sCustomFilterFiles d of
        None \<Rightarrow> (Inr (), d)
      | Some p \<Rightarrow> runProducer (if starting then customUpdateFiles E B (bestBlock d) 0 else pollOnce E (customHooks B E))
          p (\<lambda>p d. d\<lparr>sCustomFilterFiles := Some p\<rparr>) d)"

text \<open>What a task does when its \<open>updateFiles\<close> returns.\<close>

definition taskDone :: "background \<Rightarrow> err \<Rightarrow> 'h daemon \<Rightarrow> 'h daemon" where
  "taskDone b e d = d\<lparr>catchingUp := removeAll b (catchingUp d), polling := removeAll b (polling d),
     errQueue := (if errors_is e ErrServerShutdown then errQueue d else errQueue d @ [e])\<rparr>"

definition taskPolls :: "background \<Rightarrow> 'h daemon \<Rightarrow> 'h daemon" where
  "taskPolls b d = d\<lparr>catchingUp := removeAll b (catchingUp d), polling := b # polling d\<rparr>"

inductive daemonStep :: "'h env \<Rightarrow> blockEnv \<Rightarrow> webEnv \<Rightarrow> 'h daemon \<Rightarrow> 'h daemon \<Rightarrow> bool"
  for E :: "'h env" and B :: blockEnv and W :: webEnv where
  caughtUp: "b \<in> set (catchingUp d) \<Longrightarrow> taskTurn E B True b d = (Inr (), d1) \<Longrightarrow> daemonStep E B W d (taskPolls b d1)"
| polled: "b \<in> set (polling d) \<Longrightarrow> taskTurn E B False b d = (Inr (), d1) \<Longrightarrow> daemonStep E B W d d1"
| failed: "b \<in> set (if starting then catchingUp d else polling d) \<Longrightarrow> taskTurn E B starting b d = (Inl e, d1) \<Longrightarrow>
    daemonStep E B W d (taskDone b e d1)"
| webFailed: "daemonStep E B W d (d\<lparr>errQueue := errQueue d @ [e]\<rparr>)"
| request: "serveHTTP E W path r (server.truncate d) = (s1, w) \<Longrightarrow> daemonStep E B W d (server.extend s1 (server.more d))"

inductive daemonReach :: "'h env \<Rightarrow> blockEnv \<Rightarrow> webEnv \<Rightarrow> 'h daemon \<Rightarrow> 'h daemon \<Rightarrow> bool"
  for E :: "'h env" and B :: blockEnv and W :: webEnv where
  reach_refl: "daemonReach E B W d d"
| reach_step: "daemonReach E B W d d1 \<Longrightarrow> daemonStep E B W d1 d2 \<Longrightarrow> daemonReach E B W d d2"

subsection \<open>Stopping it, and the command\<close>

text \<open>
  \<open>stop\<close> closes \<open>quit\<close> and waits for the tasks; what it returns depends on the result of
  shutting the web server down and on the error the queue still gives out.
\<close>

definition stop :: "err option \<Rightarrow> err option \<Rightarrow> err + unit" where
  "stop shutdownErr queued =
     (case queued of
        Some e \<Rightarrow> Inl (Wrapf ''error shutting down'' [] e)
      | None \<Rightarrow> (case shutdownErr of Some e \<Rightarrow> Inl (Wrapf ''error shutting down web server'' [] e) | None \<Rightarrow> Inr ()))"

text \<open>The command up to the point where it waits for a signal or an error.\<close>

definition loadIndexPage :: "'h env \<Rightarrow> mainCommand \<Rightarrow> webEnv \<Rightarrow> (shared, webEnv) go" where
  "loadIndexPage E cc W =
     (if mcIndexPage cc = '''' then goRet W
      else goBind (goWrap ''Error reading index page file'' [] (readFile E (mcIndexPage cc))) (\<lambda>pageContent.
             goRet (W\<lparr>indexHTML := map (\<lambda>b. char_of (unat b)) pageContent\<rparr>)))"

definition run :: "'h env \<Rightarrow> blockEnv \<Rightarrow> webEnv \<Rightarrow> backendEnv \<Rightarrow> (network \<Rightarrow> chainParams) \<Rightarrow> mainCommand \<Rightarrow> (shared, webEnv \<times> 'h daemon) go" where
  "run E B W X paramsOf cc0 =
     (case resolveNetwork cc0 of ((net, nh, nf, nt), cc) \<Rightarrow>
        if \<not> mcLightMode cc \<and> mcBaseDir cc = ''''
        then goFail (Errf ''Base directory must be set if not running in light mode'' [])
        else goBind (loadIndexPage E cc W) (\<lambda>W1.
             goBind (goWrap ''Error starting server'' [] (start E B W1 X
               (newServer (mcLightMode cc) (mcIndexSPTweakData cc) (mcIndexCustomFilters cc) (mcBaseDir cc) (mcListenAddr cc)
                  (mcDisableTLS cc) (mcBackendHost cc) net (paramsOf net) (mcReOrgSafeDepth cc) nh nf nt
                  (mcReadTimeout cc) (mcWriteTimeout cc)))) (\<lambda>d. goRet (W1, d))))"

text \<open>
  The rest of the command. It waits for a signal or for an error of the server, whichever comes
  first (either, when both are there), and then stops the server; what it logs as errors is the
  result, for the command itself returns nothing.
\<close>

datatype wakeup = ShutdownSignal | ServerError err

inductive awakes :: "'h daemon \<Rightarrow> wakeup \<Rightarrow> 'h daemon \<Rightarrow> bool" where
  bySignal: "awakes d ShutdownSignal d"
| byError: "errQueue d = e # es \<Longrightarrow> awakes d (ServerError e) (d\<lparr>errQueue := es\<rparr>)"

inductive_simps awakes_signal: "awakes d ShutdownSignal d'"
inductive_simps awakes_error: "awakes d (ServerError e) d'"

definition awaitShutdown :: "err + unit \<Rightarrow> wakeup \<Rightarrow> err option \<Rightarrow> err option \<Rightarrow> err list" where
  "awaitShutdown intercepted wake shutdownErr queued =
     (case intercepted of
        Inl e \<Rightarrow> [Wrapf ''Error intercepting signals'' [] e]
      | Inr _ \<Rightarrow>
          (case wake of ShutdownSignal \<Rightarrow> [] | ServerError e \<Rightarrow> [Wrapf ''Error running server'' [] e]) @
          (case stop shutdownErr queued of Inl e \<Rightarrow> [Wrapf ''Error stopping server'' [] e] | Inr _ \<Rightarrow> []))"

text \<open>
  No error is lost on the way out: the command ends without logging one only on a signal, with the
  web server shut down and the queue empty; and an error a task has reported first is logged.
\<close>

lemma awaitShutdown_quiet:
  "awaitShutdown i w sd q = [] \<longleftrightarrow> i = Inr () \<and> w = ShutdownSignal \<and> sd = None \<and> q = None"
  by (auto simp: awaitShutdown_def stop_def split: sum.splits wakeup.splits option.splits)

lemma awaitShutdown_reports:
  assumes "awakes d (ServerError e) d'"
  shows "e = hd (errQueue d) \<and> errQueue d = e # errQueue d' \<and> Wrapf ''Error running server'' [] e \<in> set (awaitShutdown (Inr ()) (ServerError e) sd q)"
  using assms by (auto simp: awakes_error awaitShutdown_def)

end
