(* ===== verification/System.thy ===== *)
theory System
  imports Server
begin

text \<open>
  The whole server: what holds while its tasks and the requests interleave. Requests only read; the tasks write to disjoint sets of files, so
  the invariant of each producer and the sealed files of each producer survive whatever the
  others do.
\<close>

subsection \<open>Requests only read\<close>

text \<open>
  A request moves the clock and the cache. It may leave the write lock of the cache asked for, the
  field \<open>writerWaits\<close>, when it hangs. In the code every task blocks from then on as soon as
  it takes the lock; a step of a task is still a step of the model, which only adds states to the
  reachable ones.
\<close>

definition served :: "'h env \<Rightarrow> 'z shared_scheme \<Rightarrow> 'z shared_scheme \<Rightarrow> bool" where
  "served E s s' \<longleftrightarrow> (\<exists>n c. s' = s\<lparr>now := n, cache := c\<rparr>) \<and> cacheGrows E s s'"

lemma served_onlyReads: "onlyReads E s s' \<Longrightarrow> served E s s'"
  unfolding onlyReads_def served_def by blast

lemma served_refl [simp]: "served E s s"
  by (rule served_onlyReads) simp

lemma served_trans:
  assumes "served E s t" "served E t u"
  shows "served E s u"
proof -
  from assms obtain n c m d where "t = s\<lparr>now := n, cache := c\<rparr>" "u = t\<lparr>now := m, cache := d\<rparr>"
    by (auto simp: served_def)
  then have "u = s\<lparr>now := m, cache := d\<rparr>" by simp
  with assms show ?thesis unfolding served_def by (blast intro: cacheGrows_trans)
qed

lemma served_suc: "served E s (s\<lparr>now := Suc (now s)\<rparr>)"
  by (rule served_onlyReads, rule onlyReads_tick) simp

lemma served_waits: "now s \<le> n \<Longrightarrow> served E s (s\<lparr>now := n, cache := (cache s)\<lparr>writerWaits := True\<rparr>\<rparr>)"
  unfolding served_def by (rule conjI, blast, rule cacheGrows_shrink) (simp_all add: cacheInv_def)

definition reads :: "'h env \<Rightarrow> 'h server \<times> writer \<Rightarrow> 'h server \<times> writer \<Rightarrow> bool" where
  "reads E sw sw' \<longleftrightarrow> served E (fst sw) (fst sw')"

named_theorems reads_intros

lemma reads_same [reads_intros]: "reads E sw sw"
  by (simp add: reads_def)

lemma reads_respond [reads_intros]: "reads E sw (respond f sw)"
  by (simp add: reads_def respond_def)

lemma reads_trans: "reads E sw sw' \<Longrightarrow> reads E sw' sw'' \<Longrightarrow> reads E sw sw''"
  unfolding reads_def by (rule served_trans)

lemma reads_attempt [reads_intros]:
  assumes m: "keeps (served E) m" and k: "\<And>a sw. reads E sw (k a sw)"
  shows "reads E sw (attempt m onErr k sw)"
proof -
  obtain r s1 where run: "m (fst sw) = (r, s1)" by fastforce
  have 1: "served E (fst sw) s1" by (rule keepsD [OF m run])
  show ?thesis
  proof (cases r)
    case (Inl e)
    with run 1 show ?thesis by (simp add: attempt_def reads_def)
  next
    case (Inr a)
    have "reads E (s1, snd sw) (k a (s1, snd sw))" by (rule k)
    with run 1 Inr show ?thesis by (auto simp: attempt_def reads_def intro: served_trans)
  qed
qed

lemma reads_attemptLocked [reads_intros]:
  assumes m: "\<And>s. served E s (snd (m s))" and k: "\<And>a sw. reads E sw (k a sw)"
  shows "reads E sw (attemptLocked m onErr k sw)"
proof -
  obtain r s1 where run: "m (fst sw) = (r, s1)" by fastforce
  have 1: "served E (fst sw) s1" using m [of "fst sw"] run by simp
  have 2: "reads E (s1, snd sw) (k a (s1, snd sw))" for a by (rule k)
  then have "served E (fst sw) (fst (k a (s1, snd sw)))" for a using 1 by (auto simp: reads_def intro: served_trans)
  with run 1 show ?thesis by (auto simp: attemptLocked_def reads_def split: option.split sum.split)
qed

lemma reads_holding [reads_intros]: "served E s (snd (getBlockHashHolding E h s))"
proof -
  obtain r s1 where g: "getBlockHash E h s = (r, s1)" by fastforce
  have "served E s s1" using getBlockHash_onlyReads [OF g] by (rule served_onlyReads)
  moreover from this have "now s \<le> now s1" by (simp add: served_def cacheGrows_def)
  ultimately show ?thesis using g by (auto simp: getBlockHashHolding_def served_waits split: sum.split)
qed

lemma reads_getBlockHash [reads_intros]: "served E s (snd (apfst f (getBlockHash E h s)))"
  using getBlockHash_onlyReads [of E h s, OF prod.collapse [symmetric]] by (simp add: served_onlyReads)

lemma reads_rpcCall [reads_intros]: "keeps (served E) (rpcCall E f)"
  by (simp add: keeps_def rpcCall_def served_suc)

lemma reads_webCall [reads_intros]: "keeps (served E) (webCall f)"
  by (simp add: keeps_def webCall_def served_suc)

lemma reads_goLift [reads_intros]: "keeps (served E) (goLift x)"
  by (simp add: keeps_def goLift_def)

lemma reads_serveFile: "reads E sw (serveFile E r f sw)"
proof -
  obtain q s1 where "readFile E f (fst sw) = (q, s1)" by fastforce
  moreover from this have "s1 = (fst sw)\<lparr>now := Suc (now (fst sw))\<rparr>" by (rule readFile_frame)
  ultimately show ?thesis by (cases q) (simp_all add: serveFile_def reads_def served_suc)
qed

lemma reads_heightBased [reads_intros]: "reads E sw (heightBasedRequestHandler E r dir sfx n ser sz P sw)"
proof -
  let ?tick = "\<lambda>s. s\<lparr>now := Suc (now s)\<rparr>"
  have whole: "reads E sw (serveFile E r f (?tick (fst sw), w))" for f w
    using reads_serveFile [of E "(?tick (fst sw), w)" r f] served_trans [OF served_suc] unfolding reads_def by force
  have tail: "reads E sw (attemptLocked (getBlockHashHolding E h) onErr (\<lambda>_. respond g) (?tick (fst sw), w))" for h onErr g w
  proof -
    have "reads E (?tick (fst sw), w) (attemptLocked (getBlockHashHolding E h) onErr (\<lambda>_. respond g) (?tick (fst sw), w))"
      by (intro reads_intros)
    then show ?thesis using served_trans [OF served_suc] unfolding reads_def by force
  qed
  show ?thesis
    unfolding heightBasedRequestHandler_def
    by (auto simp: statFile_def Let_def split: sum.split bool.split intro!: reads_intros whole tail)
qed

lemma reads_importFiles: "importFiles k E name e n h sw = (oc, sw') \<Longrightarrow> reads E sw sw'"
proof (induction k arbitrary: h sw)
  case 0
  then show ?case by (simp add: reads_same)
next
  case (Suc k)
  let ?s = "(fst sw)\<lparr>now := Suc (now (fst sw))\<rparr>"
  obtain ok sw2 where st: "streamFile E (name h) (?s, snd sw) = (ok, sw2)" by (metis prod.exhaust)
  have s: "reads E sw (?s, snd sw)" by (simp add: reads_def served_suc)
  have "fst sw2 = ?s\<lparr>now := Suc (now ?s)\<rparr>"
    using st by (auto simp: streamFile_def Let_def split: option.splits ioFault.splits)
  then have "reads E (?s, snd sw) sw2" using served_suc [of E ?s] by (simp add: reads_def)
  note 2 = reads_trans [OF s this]
  show ?case
  proof (cases "h < e \<and> (fileExists (disk (fst sw)) (name h) \<or> ioFaults E (now (fst sw)) \<noteq> None) \<and> ok")
    case True
    with Suc.prems st have "importFiles k E name e n (i64 (h + n)) sw2 = (oc, sw')" by (simp add: statFile_def)
    from Suc.IH [OF this] 2 show ?thesis by (blast intro: reads_trans)
  next
    case False
    with Suc.prems st s 2 reads_same [of E sw] show ?thesis by (auto simp: statFile_def split: if_splits bool.splits)
  qed
qed

lemma if_cases: "P a \<Longrightarrow> P b \<Longrightarrow> P (if c then a else b)"
  by simp

lemma reads_import [reads_intros]: "reads E sw (serveHeightBasedImport E dir sfx n ser ft e sw)"
proof -
  have "reads E sw (case importFiles k E name e n 0 (fst sw, w1) of
                 (ImportTail h, sw2) \<Rightarrow> attemptLocked (getBlockHashHolding E (i32 h)) onErr (\<lambda>_. respond (g h)) sw2
               | (_, sw2) \<Rightarrow> sw2)" for k name w1 onErr g
  proof -
    obtain oc sw2 where run: "importFiles k E name e n 0 (fst sw, w1) = (oc, sw2)" by (metis prod.exhaust)
    have 1: "reads E sw sw2" using reads_importFiles [OF run] by (simp add: reads_def)
    have 2: "reads E sw2 (attemptLocked (getBlockHashHolding E (i32 h)) onErr (\<lambda>_. respond (g h)) sw2)" for h by (intro reads_intros)
    show ?thesis using run 1 reads_trans [OF 1 2] by (cases oc) simp_all
  qed
  note run = this
  show ?thesis unfolding serveHeightBasedImport_def Let_def by (rule if_cases) (rule reads_respond, rule run)
qed

lemma reads_status [reads_intros]: "served E s (snd (currentStatus E W s))"
proof -
  obtain q s1 where g: "getBlockHashHolding E (getCurrentHeight (sHeaderFiles s)) s = (q, s1)" by fastforce
  then have "snd (currentStatus E W s) = s1" by (auto simp: currentStatus_def Let_def split: sum.splits option.splits prod.splits)
  with g reads_holding [of E s "getCurrentHeight (sHeaderFiles s)"] show ?thesis by simp
qed

lemma reads_filterFromBackend [reads_intros]: "reads E sw (filterFromBackend E h sw)"
  unfolding filterFromBackend_def by (intro reads_intros) (auto split: option.split intro: reads_intros)

lemma reads_proxyGet [reads_intros]: "reads E sw (proxyGet W url age sw)"
  unfolding proxyGet_def by (intro reads_intros) (auto split: prod.split intro: reads_intros)

lemmas handler_defs =
  indexRequestHandler_def statusRequestHandler_def blockRequestHandler_def blockSpentTxOutsRequestHandler_def headerRequestHandler_def
  headersRequestHandler_def headersImportLatestRequestHandler_def headersImportRequestHandler_def estimateFeeRequestHandler_def
  filterHeadersRequestHandler_def filterHeadersImportLatestRequestHandler_def filterHeadersImportRequestHandler_def
  customFilterHeadersRequestHandler_def filtersRequestHandler_def filterSingleRequestHandler_def customFiltersRequestHandler_def
  spTweaksRequestHandler_def txOutProofRequestHandler_def rawTxRequestHandler_def utxoRequestHandler_def
  heightBasedImportLatestHandler_def heightBasedImportRequestHandler_def

lemma reads_handle: "reads E sw (handle E W ep r sw)"
  by (cases ep) (auto simp: handler_defs Let_def split: sum.split option.split prod.split intro!: reads_intros)

lemma serveHTTP_reads: "served E s (fst (serveHTTP E W path r s))"
  using reads_handle [of E "(s, newWriter)" W] by (auto simp: serveHTTP_def reads_def split: option.split)


subsection \<open>One turn of a producer\<close>

text \<open>
  What a task needs before it catches up: the files of the first ranges are there, and no
  other file its producer would take for one; nothing is in memory.
\<close>

definition freshProducer :: "'m producerHooks \<Rightarrow> ('m producer \<Rightarrow> int \<Rightarrow> int \<Rightarrow> string list) \<Rightarrow> int \<Rightarrow> 'm producer \<Rightarrow> bool" where
  "freshProducer H files N p \<longleftrightarrow>
     extractSuffix p = fileSuffix p \<and> plainDir (joinPath (baseDir p) (subDir p)) \<and> confOK p \<and> dom (cachedHash H (mem p)) = {} \<and>
     N \<le> heightBound \<and>
     (\<exists>k. sealedRanges (disk p) (joinPath (baseDir p) (subDir p)) (fileSuffix p) (entriesPerFile p) k \<and>
        0 \<le> k \<and> k * entriesPerFile p \<le> 10000000 \<and> k * entriesPerFile p \<noteq> 1 \<and> k * entriesPerFile p \<le> N \<and>
        (\<forall>j f. 0 \<le> j \<and> j < k \<and> f \<in> rangeFiles files p j \<longrightarrow> fileExists (disk p) f))"

definition taskReadyFor :: "'m producerHooks \<Rightarrow> ('m producer \<Rightarrow> int \<Rightarrow> int \<Rightarrow> string list) \<Rightarrow> int \<Rightarrow> bool \<Rightarrow> 'm producer \<Rightarrow> bool" where
  "taskReadyFor H files N starting p \<longleftrightarrow> (if starting then freshProducer H files N p else tailInv H files p)"

text \<open>
  The ranges that are sealed: before the catch-up those whose file to resume from is on
  disk, afterwards those up to the last sealed height.
\<close>

definition sealedRange :: "bool \<Rightarrow> 'm producer \<Rightarrow> int \<Rightarrow> bool" where
  "sealedRange starting p j \<longleftrightarrow> 0 \<le> j \<and>
     (if starting
      then fileExists (disk p) (blockFileName (fileSuffix p) (joinPath (baseDir p) (subDir p))
             (j * entriesPerFile p) (j * entriesPerFile p + entriesPerFile p - 1))
      else j * entriesPerFile p + entriesPerFile p - 1 \<le> lastSealedHeight p)"

definition sealedFilesOf :: "('m producer \<Rightarrow> int \<Rightarrow> int \<Rightarrow> string list) \<Rightarrow> bool \<Rightarrow> 'm producer \<Rightarrow> string set" where
  "sealedFilesOf files starting p = {f. \<exists>j. sealedRange starting p j \<and> f \<in> rangeFiles files p j}"

definition ownFilesOf :: "('m producer \<Rightarrow> int \<Rightarrow> int \<Rightarrow> string list) \<Rightarrow> 'm producer \<Rightarrow> string set" where
  "ownFilesOf files p = {f. \<exists>j\<ge>0. f \<in> rangeFiles files p j}"

lemma globMatch_blockFileName: "0 \<le> a \<Longrightarrow> 0 \<le> b \<Longrightarrow> okSuffix s \<Longrightarrow> globMatch dir s (blockFileName s dir a b)"
  by (rule globMatch_name) (auto simp: okSuffix_def)

lemma sealedRanges_file:
  assumes "sealedRanges d dir s n k" "okSuffix s" "0 < n" "0 \<le> j" "0 \<le> k"
  shows "fileExists d (blockFileName s dir (j * n) (j * n + n - 1)) \<longleftrightarrow> j < k"
proof -
  have n: "0 \<le> i * n" "0 \<le> i * n + n - 1" if "0 \<le> i" for i using that assms(3) by (simp, smt (verit) mult_nonneg_nonneg)
  let ?name = "\<lambda>i. blockFileName s dir (i * n) (i * n + n - 1)"
  have g: "globMatch dir s (?name j)" using globMatch_blockFileName [OF n [OF assms(4)] assms(2)] .
  have "fileExists d (?name j) \<longleftrightarrow> ?name j \<in> set (filter (globMatch dir s) (map fst d))"
    using g by (auto simp: fileExists_def map_of_eq_None_iff)
  also have "\<dots> \<longleftrightarrow> ?name j \<in> ?name ` {0..k - 1}" using assms(1) by (simp add: sealedRanges_def)
  also have "\<dots> \<longleftrightarrow> j < k"
  proof
    assume "?name j \<in> ?name ` {0..k - 1}"
    then obtain i where i: "0 \<le> i" "i \<le> k - 1" "?name j = ?name i" by auto
    with blockFileName_inj [OF n [OF assms(4)] n [OF i(1)] assms(2,2)] have "j * n = i * n" by blast
    with assms(3) i show "j < k" by simp
  next
    assume "j < k"
    with assms(4) show "?name j \<in> ?name ` {0..k - 1}" by simp
  qed
  finally show ?thesis .
qed


text \<open>What a turn does to its producer, whether it ends in an error or not.\<close>

definition turnOf :: "'m producerHooks \<Rightarrow> ('m producer \<Rightarrow> int \<Rightarrow> int \<Rightarrow> string list) \<Rightarrow> bool \<Rightarrow> 'm producer \<Rightarrow> err + unit \<Rightarrow> 'm producer \<Rightarrow> bool" where
  "turnOf H files starting p r p' \<longleftrightarrow>
     conf p' = conf p \<and> files p' = files p \<and>
     (\<forall>f. map_of (disk p') f \<noteq> map_of (disk p) f \<longrightarrow> f \<in> ownFilesOf files p) \<and>
     (\<forall>f\<in>sealedFilesOf files starting p. fileExists (disk p) f \<and> map_of (disk p') f = map_of (disk p) f) \<and>
     (r = Inr () \<longrightarrow> tailInv H files p' \<and> sealedFilesOf files starting p \<subseteq> sealedFilesOf files False p')"

context file_producer
begin

lemma evolves_own:
  assumes "evolves E files hi p q" "0 < entriesPerFile p" "-1 \<le> lastSealedHeight p" "map_of (disk q) f \<noteq> map_of (disk p) f"
  shows "f \<in> ownFilesOf files p"
proof -
  from assms(1,4) obtain k where k: "lastSealedHeight p < k * entriesPerFile p" "f \<in> rangeFiles files p k"
    by (auto simp: evolves_def wroteOnly_def)
  then have "0 \<le> k * entriesPerFile p" using assms(3) by linarith
  then have "0 \<le> k" using assms(2) by (simp add: zero_le_mult_iff)
  with k(2) show ?thesis by (auto simp: ownFilesOf_def)
qed

lemma pollOnce_turn:
  assumes inv: "tailInv (H E) files p" and bb: "boundedBackend E" and run: "pollOnce E (H E) p = (r, p')"
  shows "turnOf (H E) files False p r p'"
proof -
  note D = tailInvD [OF inv] and ev = pollOnce_evolves [OF inv bb run]
  have n: "0 < entriesPerFile p" using D(1) by (simp add: confOK_def)
  have c: "conf p' = conf p" "files p' = files p" "lastSealedHeight p \<le> lastSealedHeight p'" using ev by (auto simp: evolves_def)
  have r: "rangeFiles files p' = rangeFiles files p" by (rule rangeFiles_cong [OF c(1,2)])
  have "tailInv (H E) files p'" if "r = Inr ()" by (rule pollOnce_ok [OF inv bb run [unfolded that]])
  moreover have "sealedFilesOf files False p \<subseteq> sealedFilesOf files False p'"
    using c(3) confD(1) [OF c(1)] by (auto simp: sealedFilesOf_def sealedRange_def r)
  moreover have "f \<in> ownFilesOf files p" if "map_of (disk p') f \<noteq> map_of (disk p) f" for f
    by (rule evolves_own [OF ev n D(3) that])
  moreover have "fileExists (disk p) f \<and> map_of (disk p') f = map_of (disk p) f" if "f \<in> sealedFilesOf files False p" for f
    using that sealed_unchanged [OF inv ev] by (auto simp: sealedFilesOf_def sealedRange_def)
  ultimately show ?thesis using c by (simp add: turnOf_def)
qed

lemma startUp_turn:
  assumes F: "freshProducer (H E) files N p" and sfx: "okSuffix (fileSuffix p)" and run: "startUp E (H E) N p = (r, p')"
  shows "turnOf (H E) files True p r p'"
proof -
  let ?n = "entriesPerFile p" and ?p0 = "p\<lparr>now := Suc (now p)\<rparr>"
  from F obtain k where d: "sealedRanges (disk p) (joinPath (baseDir p) (subDir p)) (fileSuffix p) ?n k"
      "extractSuffix p = fileSuffix p" "plainDir (joinPath (baseDir p) (subDir p))"
    and ok: "confOK p" and fresh: "dom (cachedHash (H E) (mem p)) = {}"
    and k: "0 \<le> k" "k * ?n \<le> 10000000" "k * ?n \<noteq> 1"
    and there: "\<And>j f. 0 \<le> j \<Longrightarrow> j < k \<Longrightarrow> f \<in> rangeFiles files p j \<Longrightarrow> fileExists (disk p) f"
    and N: "k * ?n \<le> N" "N \<le> heightBound"
    unfolding freshProducer_def by blast
  have n: "0 < ?n" using ok by (simp add: confOK_def)
  have kn: "0 \<le> k * ?n" using k n by simp
  have old: "0 \<le> j \<and> j * ?n + ?n - 1 \<le> k * ?n - 1 \<longleftrightarrow> 0 \<le> j \<and> j < k" for j
  proof -
    have "j * ?n + ?n \<le> k * ?n \<longleftrightarrow> (j + 1) * ?n \<le> k * ?n" by (simp add: algebra_simps)
    then show ?thesis using n by auto
  qed
  have sealed: "sealedFilesOf files True p = {f. \<exists>j. 0 \<le> j \<and> j < k \<and> f \<in> rangeFiles files p j}"
    using sealedRanges_file [OF d(1) sfx n _ k(1)] by (auto simp: sealedFilesOf_def sealedRange_def)
  have "\<exists>q hi. conf q = conf p \<and> files q = files p \<and> disk q = disk p \<and> lastSealedHeight q = k * ?n - 1 \<and>
      (evolves E files hi q p' \<or> conf p' = conf p \<and> files p' = files p \<and> disk p' = disk p)" (is "\<exists>q hi. ?A q hi")
  proof -
    obtain L where L: "lastFile (disk ?p0) (joinPath (baseDir ?p0) (subDir ?p0)) (fileSuffix ?p0) (extractSuffix ?p0) = Inr L"
      "lastSealedHeight (resumeHeights L ?p0) = k * ?n - 1"
      by (rule resume_at [of ?p0 k]) (use d n k in simp_all)
    define q where "q = resumeHeights L ?p0"
    have q: "conf q = conf p" "mem q = mem p" "disk q = disk p" "lastSealedHeight q = k * ?n - 1"
      using L(2) by (simp_all add: q_def resumeHeights_def conf_def)
    have fq: "files q = files p" by (rule files_static [OF q(1) disjI1 [OF q(2)]])
    have rq: "rangeFiles files q = rangeFiles files p" by (rule rangeFiles_cong [OF q(1) fq])
    note nq = confD [OF q(1)]
    have a: "add32 (lastSealedHeight q) 1 = k * ?n" using q(4) kn k by (simp add: add32_id)
    have okq: "confOK q" using confOK_cong [OF q(1)] ok by (rule iffD2)
    have "sealedOnDisk files q" using there old unfolding sealedOnDisk_def rq nq q(3,4) by blast
    then have T: "tailUpto (H E) files (k * ?n) q"
      using okq fresh kn N q(2,4) nq by (simp add: tailUpto_def aligned_def)
    obtain r1 p1 where up: "updateCacheAndFiles E (H E) (k * ?n) N q = (r1, p1)" by fastforce
    note ev = updateCacheAndFiles_evolves [OF T kn N(2) up]
    show ?thesis
    proof (cases "ioFaults E (now p) = None")
      case False
      with run have "p' = ?p0" by (auto simp: startUp_def goBind_def mkdirAll_def)
      moreover have "conf ?p0 = conf p" by (simp add: conf_def)
      moreover have "files ?p0 = files p" by (rule files_static [where E = E]) (simp_all add: conf_def)
      ultimately show ?thesis using q fq by (intro exI [of _ q]) simp
    next
      case True
      with run L(1) up a have p': "p' = p1 \<or> p' = p1\<lparr>startupComplete := True\<rparr>"
        by (cases r1) (auto simp: startUp_def goBind_def goWrap_def goLift_def goModify_def mkdirAll_def no_afterCatchUp q_def [symmetric])
      have c1: "conf (p1\<lparr>startupComplete := True\<rparr>) = conf p1" by (simp add: conf_def)
      have "files (p1\<lparr>startupComplete := True\<rparr>) = files p1" by (rule files_static [OF c1, where E = E]) simp
      with c1 ev have "evolves E files heightBound q (p1\<lparr>startupComplete := True\<rparr>)"
        by (simp add: evolves_def wroteOnly_def cacheGrows_def)
      with ev p' q fq show ?thesis by (intro exI [of _ q] exI [of _ heightBound]) auto
    qed
  qed
  then obtain q hi where A: "?A q hi" by blast
  have fr: "rangeFiles files q = rangeFiles files p" using A rangeFiles_cong by blast
  have c: "conf p' = conf p" "files p' = files p" using A by (auto simp: evolves_def)
  have own: "f \<in> ownFilesOf files p" if "map_of (disk p') f \<noteq> map_of (disk p) f" for f
    using A that evolves_own [of E hi q p' f] n kn fr confD(1) [of q p] by (auto simp: ownFilesOf_def)
  have keep: "fileExists (disk p) f \<and> map_of (disk p') f = map_of (disk p) f" if "f \<in> sealedFilesOf files True p" for f
  proof -
    from that obtain j where j: "0 \<le> j" "j < k" "f \<in> rangeFiles files p j" by (auto simp: sealed)
    have "map_of (disk p') f = map_of (disk p) f"
    proof (cases "evolves E files hi q p'")
      case True
      have "map_of (disk p') f = map_of (disk q) f"
      proof (rule wroteOnly_unchanged)
        show "wroteOnly files (lastSealedHeight q) hi q p'" using True by (simp add: evolves_def)
        fix i assume "lastSealedHeight q < i * entriesPerFile q"
        then have "k * ?n \<le> i * ?n" using A confD(1) [of q p] by simp
        then have "j \<noteq> i" "0 \<le> i" using n j k by auto
        then show "f \<notin> rangeFiles files q i" using rangeFiles_disjoint [OF n j(1)] j(3) fr by auto
      qed
      with A show ?thesis by simp
    qed (use A in simp)
    with there [OF j] show ?thesis by blast
  qed
  have "tailInv (H E) files p' \<and> sealedFilesOf files True p \<subseteq> sealedFilesOf files False p'" if "r = Inr ()"
  proof -
    have ok': "tailInv (H E) files p'" "k * ?n - 1 \<le> lastSealedHeight p'"
      using startUp_ok [OF d ok fresh k _ N run [unfolded that]] there by blast+
    have "sealedRange False p' j" if "0 \<le> j" "j < k" for j
      using ok' that old [of j] confD(1) [OF c(1)] by (simp add: sealedRange_def)
    then show ?thesis unfolding sealed using ok' rangeFiles_cong [OF c] by (auto simp: sealedFilesOf_def)
  qed
  then show ?thesis using c own keep by (simp add: turnOf_def)
qed

end


subsection \<open>Who writes where\<close>

definition inDir :: "string \<Rightarrow> string \<Rightarrow> bool" where
  "inDir dir f \<longleftrightarrow> (\<exists>t. f = dir @ ''/'' @ t \<and> CHR ''/'' \<notin> set t)"

lemma inDir_unique:
  assumes "inDir dir f" "inDir dir' f"
  shows "dir = dir'"
proof -
  from assms obtain t t' where "f = dir @ ''/'' @ t" "f = dir' @ ''/'' @ t'" "CHR ''/'' \<notin> set t" "CHR ''/'' \<notin> set t'"
    unfolding inDir_def by blast
  then show ?thesis using dir_split [of dir t dir' t'] by simp
qed

lemma fmt07d_slash: "CHR ''/'' \<notin> set (fmt07d n)"
proof (cases "0 \<le> n")
  case False
  have "CHR ''/'' \<notin> set (decimal m)" for m 
  proof
    assume "CHR ''/'' \<in> set (decimal m)"
    then have "isDigit CHR ''/''" using digits_decimal [of m] unfolding list_all_iff by blast
    then show False by (simp add: isDigit_def)
  qed
  with False show ?thesis by (simp add: fmt07d_def zeroPad_def)
qed (rule no_slash_fmt07d)

lemma inDir_blockFileName: "okSuffix s \<Longrightarrow> inDir dir (blockFileName s dir a b)"
  unfolding inDir_def
  by (rule exI [of _ "''block-'' @ fmt07d a @ ''-'' @ fmt07d b @ s"]) (simp add: blockFileName_def fmt07d_slash okSuffix_def)

lemma globMatch_inDir: "globMatch dir s f \<Longrightarrow> inDir dir f"
  unfolding globMatch_def Let_def inDir_def
  by (rule exI [of _ "drop (length dir + 1) f"]) (metis append.assoc append_take_drop_id)

lemma sealedRanges_cong:
  assumes "\<forall>f. inDir dir f \<longrightarrow> map_of d' f = map_of d f"
  shows "sealedRanges d' dir s n k = sealedRanges d dir s n k"
proof -
  have "g \<in> fst ` set d' \<longleftrightarrow> g \<in> fst ` set d" if "globMatch dir s g" for g
    using assms globMatch_inDir [OF that] by (metis map_of_eq_None_iff)
  then have "set (filter (globMatch dir s) (map fst d')) = set (filter (globMatch dir s) (map fst d))" by auto
  then show ?thesis unfolding sealedRanges_def by simp
qed

fun taskDirs :: "background \<Rightarrow> string list" where
  "taskDirs HeaderUpdate = [HeaderFileDir]"
| "taskDirs FilterUpdate = [FilterFileDir]"
| "taskDirs SPTweakUpdate = map spTweakDustDir spTweakDustLimits"
| "taskDirs CustomFilterUpdate =
     map (\<lambda>cfg. customFilterDir (cfgName cfg)) customFilterConfigs @ map (\<lambda>cfg. customHeaderDir (cfgName cfg)) customFilterConfigs"

lemma taskDirs_disjoint: "x \<in> set (taskDirs b) \<Longrightarrow> x \<in> set (taskDirs b') \<Longrightarrow> b = b'"
  by (cases b; cases b')
    (auto simp: HeaderFileDir_def FilterFileDir_def spTweakDustDir_def SPTweakFileDir_def customFilterDir_def customHeaderDir_def joinPath_def)

definition inTask :: "string \<Rightarrow> background \<Rightarrow> string \<Rightarrow> bool" where
  "inTask base b f \<longleftrightarrow> (\<exists>dir\<in>set (taskDirs b). inDir (joinPath base dir) f)"

lemma inTask_unique:
  assumes "inTask base b f" "inTask base b' f"
  shows "b = b'"
proof -
  from assms obtain x y where "x \<in> set (taskDirs b)" "y \<in> set (taskDirs b')" "joinPath base x = joinPath base y"
    by (auto simp: inTask_def dest: inDir_unique)
  then show ?thesis using taskDirs_disjoint by (auto simp: joinPath_def)
qed

lemma own_header: "baseDir p = base \<Longrightarrow> subDir p = HeaderFileDir \<Longrightarrow> f \<in> ownFilesOf headerRangeFiles p \<Longrightarrow> inTask base HeaderUpdate f"
  by (auto simp: ownFilesOf_def rangeFiles_def headerRangeFiles_def headerFileName_def filterHeaderFileName_def inTask_def inDir_blockFileName)

lemma own_filter: "baseDir p = base \<Longrightarrow> subDir p = FilterFileDir \<Longrightarrow> f \<in> ownFilesOf cfRangeFiles p \<Longrightarrow> inTask base FilterUpdate f"
  by (auto simp: ownFilesOf_def rangeFiles_def cfRangeFiles_def filterFileName_def inTask_def inDir_blockFileName)

lemma own_sp: "baseDir p = base \<Longrightarrow> f \<in> ownFilesOf spRangeFiles p \<Longrightarrow> inTask base SPTweakUpdate f"
  by (auto simp: ownFilesOf_def rangeFiles_def spRangeFiles_def spFileName_def inTask_def intro: inDir_blockFileName okSuffix_sp)

lemma own_custom: "baseDir p = base \<Longrightarrow> f \<in> ownFilesOf customRangeFiles p \<Longrightarrow> inTask base CustomFilterUpdate f"
  by (auto simp: ownFilesOf_def rangeFiles_def customRangeFiles_def cuFilterFileName_def cuHeaderFileName_def inTask_def
      intro: inDir_blockFileName [OF okSuffix_known(2)] inDir_blockFileName [OF okSuffix_known(3)] split: if_splits)


subsection \<open>One turn of a task\<close>

text \<open>Where the producers keep their files, which no turn changes.\<close>

definition placed :: "string \<Rightarrow> background \<Rightarrow> 'm producer \<Rightarrow> bool" where
  "placed base b p \<longleftrightarrow> baseDir p = base \<and> subDir p \<in> set (taskDirs b) \<and> okSuffix (fileSuffix p)"

definition allPlaced :: "'h daemon \<Rightarrow> bool" where
  "allPlaced d \<longleftrightarrow> placed (sBaseDir d) HeaderUpdate (sHeaderFiles d) \<and> placed (sBaseDir d) FilterUpdate (sCFilterFiles d) \<and>
     (\<forall>p. sSPTweakFiles d = Some p \<longrightarrow> placed (sBaseDir d) SPTweakUpdate p) \<and>
     (\<forall>p. sCustomFilterFiles d = Some p \<longrightarrow> placed (sBaseDir d) CustomFilterUpdate p)"

fun taskReady :: "'h env \<Rightarrow> blockEnv \<Rightarrow> bool \<Rightarrow> background \<Rightarrow> 'h daemon \<Rightarrow> bool" where
  "taskReady E B st HeaderUpdate d = taskReadyFor (headerHooks E) headerRangeFiles (bestBlock d) st (withShared d (sHeaderFiles d))"
| "taskReady E B st FilterUpdate d = taskReadyFor (cfHooks E) cfRangeFiles (bestBlock d) st (withShared d (sCFilterFiles d))"
| "taskReady E B st SPTweakUpdate d =
     (\<forall>p. sSPTweakFiles d = Some p \<longrightarrow> taskReadyFor (spHooks B E) spRangeFiles (bestBlock d) st (withShared d p))"
| "taskReady E B st CustomFilterUpdate d =
     (\<forall>p. sCustomFilterFiles d = Some p \<longrightarrow> taskReadyFor (customHooks B E) customRangeFiles (bestBlock d) st (withShared d p))"

fun sealedFiles :: "bool \<Rightarrow> background \<Rightarrow> 'h daemon \<Rightarrow> string set" where
  "sealedFiles st HeaderUpdate d = sealedFilesOf headerRangeFiles st (withShared d (sHeaderFiles d))"
| "sealedFiles st FilterUpdate d = sealedFilesOf cfRangeFiles st (withShared d (sCFilterFiles d))"
| "sealedFiles st SPTweakUpdate d = {f. \<exists>p. sSPTweakFiles d = Some p \<and> f \<in> sealedFilesOf spRangeFiles st (withShared d p)}"
| "sealedFiles st CustomFilterUpdate d = {f. \<exists>p. sCustomFilterFiles d = Some p \<and> f \<in> sealedFilesOf customRangeFiles st (withShared d p)}"

lemma mkdirs_tick:
  "goForEach xs (\<lambda>_. goWrap m ys (mkdirAll E)) p = (r, q) \<Longrightarrow> \<exists>n\<ge>now p. q = p\<lparr>now := n\<rparr>"
proof (induction xs arbitrary: p)
  case Nil
  then show ?case by (auto simp: goRet_def intro!: exI [of _ "now p"])
next
  case (Cons x xs)
  let ?p = "p\<lparr>now := Suc (now p)\<rparr>"
  obtain y where "goWrap m ys (mkdirAll E) p = (y, ?p)" by (cases "ioFaults E (now p)") (auto simp: goWrap_def mkdirAll_def)
  then have "q = ?p \<or> goForEach xs (\<lambda>_. goWrap m ys (mkdirAll E)) ?p = (r, q)"
    using Cons.prems by (cases y) (auto simp: goBind_def)
  then show ?case
  proof
    assume "q = ?p"
    then show ?thesis by (intro exI [of _ "Suc (now p)"]) simp
  next
    assume "goForEach xs (\<lambda>_. goWrap m ys (mkdirAll E)) ?p = (r, q)"
    from Cons.IH [OF this] obtain n where "now ?p \<le> n" "q = ?p\<lparr>now := n\<rparr>" by blast
    then show ?thesis by (intro exI [of _ n]) simp
  qed
qed

context file_producer
begin

text \<open>A turn that starts with the clock only.\<close>

lemma turnOf_later:
  assumes "turnOf (H E) files st (p\<lparr>now := n\<rparr>) r p'"
  shows "turnOf (H E) files st p r p'"
proof -
  have c: "conf (p\<lparr>now := n\<rparr>) = conf p" by (simp add: conf_def)
  have f: "files (p\<lparr>now := n\<rparr>) = files p" by (rule files_static [OF c, where E = E]) simp
  have "rangeFiles files (p\<lparr>now := n\<rparr>) = rangeFiles files p" by (rule rangeFiles_cong [OF c f])
  then have "ownFilesOf files (p\<lparr>now := n\<rparr>) = ownFilesOf files p" "sealedFilesOf files st (p\<lparr>now := n\<rparr>) = sealedFilesOf files st p"
    by (simp_all add: ownFilesOf_def sealedFilesOf_def sealedRange_def)
  with assms c f show ?thesis by (simp add: turnOf_def)
qed

lemma turnOf_nothing:
  assumes F: "freshProducer (H E) files N p" and sfx: "okSuffix (fileSuffix p)"
    and p': "conf p' = conf p" "mem p' = mem p" "disk p' = disk p"
  shows "turnOf (H E) files True p (Inl e) p'"
proof -
  from F obtain k where d: "sealedRanges (disk p) (joinPath (baseDir p) (subDir p)) (fileSuffix p) (entriesPerFile p) k" "0 \<le> k"
    and n: "0 < entriesPerFile p" and there: "\<forall>j f. 0 \<le> j \<and> j < k \<and> f \<in> rangeFiles files p j \<longrightarrow> fileExists (disk p) f"
    unfolding freshProducer_def confOK_def by blast
  have "files p' = files p" by (rule files_static [OF p'(1), where E = E]) (simp add: p')
  then show ?thesis
    using p' there sealedRanges_file [OF d(1) sfx n _ d(2)] by (auto simp: turnOf_def sealedFilesOf_def sealedRange_def)
qed

lemma freshProducer_tick: "freshProducer (H E) files N p \<Longrightarrow> freshProducer (H E) files N (p\<lparr>now := n\<rparr>)"
proof -
  have c: "conf (p\<lparr>now := n\<rparr>) = conf p" by (simp add: conf_def)
  have f: "files (p\<lparr>now := n\<rparr>) = files p" by (rule files_static [OF c, where E = E]) simp
  show "freshProducer (H E) files N p \<Longrightarrow> freshProducer (H E) files N (p\<lparr>now := n\<rparr>)"
    using rangeFiles_cong [OF c f] by (simp add: freshProducer_def confOK_def)
qed

lemma prepared_turn:
  assumes F: "freshProducer (H E) files N p" and sfx: "okSuffix (fileSuffix p)"
    and run: "goBind (goForEach xs (\<lambda>_. goWrap m ys (mkdirAll E))) (\<lambda>_. updateFiles E (H E) N 0) p = (r, p')"
  shows "turnOf (H E) files True p r p'"
proof -
  obtain q p1 where mk: "goForEach xs (\<lambda>_. goWrap m ys (mkdirAll E)) p = (q, p1)" by fastforce
  obtain n where p1: "p1 = p\<lparr>now := n\<rparr>" using mkdirs_tick [OF mk] by blast
  show ?thesis
  proof (cases q)
    case (Inl e)
    with run mk p1 have r: "r = Inl e" "p' = p\<lparr>now := n\<rparr>" by (simp_all add: goBind_def)
    show ?thesis unfolding r by (rule turnOf_nothing [OF F sfx]) (simp_all add: conf_def)
  next
    case (Inr u)
    with run mk p1 have "startUp E (H E) N (p\<lparr>now := n\<rparr>) = (r, p')" by (simp add: goBind_def updateFiles_none)
    note st = startUp_turn [OF freshProducer_tick [OF F] _ this]
    show ?thesis by (rule turnOf_later, rule st) (use sfx in simp)
  qed
qed

end


lemma spUpdate_turn:
  assumes F: "freshProducer (spHooks B E) spRangeFiles N p" and sfx: "okSuffix (fileSuffix p)" and run: "spUpdateFiles E B N 0 p = (r, p')"
  shows "turnOf (spHooks B E) spRangeFiles True p r p'"
proof (cases "taprootSupported (mem p)")
  case True
  with run show ?thesis by (intro spt.prepared_turn [OF F sfx]) (simp add: spUpdateFiles_def)
next
  case False
  with run have r: "r = Inl ErrServerShutdown" "p' = p\<lparr>startupComplete := True\<rparr>" by (simp_all add: spUpdateFiles_def)
  show ?thesis unfolding r by (rule spt.turnOf_nothing [OF F sfx]) (simp_all add: conf_def)
qed

lemma customUpdate_turn:
  assumes F: "freshProducer (customHooks B E) customRangeFiles N p" and sfx: "okSuffix (fileSuffix p)" and run: "customUpdateFiles E B N 0 p = (r, p')"
  shows "turnOf (customHooks B E) customRangeFiles True p r p'"
proof (cases "headersPerFile (mem p) \<le> 0 \<or> headersPerFile (mem p) mod entriesPerFile p \<noteq> 0")
  case False
  with run show ?thesis by (intro cuf.prepared_turn [OF F sfx]) (simp add: customUpdateFiles_def)
next
  case True
  with run obtain e where r: "r = Inl e" "p' = p" by (auto simp: customUpdateFiles_def)
  show ?thesis unfolding r by (rule cuf.turnOf_nothing [OF F sfx]) simp_all
qed

lemma daemon_updates [simp]:
  fixes d :: "'h daemon"
  shows "now (d\<lparr>sHeaderFiles := p0\<rparr>) = now d" "disk (d\<lparr>sHeaderFiles := p0\<rparr>) = disk d" "cache (d\<lparr>sHeaderFiles := p0\<rparr>) = cache d" "lightMode (d\<lparr>sHeaderFiles := p0\<rparr>) = lightMode d"
    "sBaseDir (d\<lparr>sHeaderFiles := p0\<rparr>) = sBaseDir d" "bestBlock (d\<lparr>sHeaderFiles := p0\<rparr>) = bestBlock d" "catchingUp (d\<lparr>sHeaderFiles := p0\<rparr>) = catchingUp d" "polling (d\<lparr>sHeaderFiles := p0\<rparr>) = polling d"
    "errQueue (d\<lparr>sHeaderFiles := p0\<rparr>) = errQueue d" "sCFilterFiles (d\<lparr>sHeaderFiles := p0\<rparr>) = sCFilterFiles d" "sSPTweakFiles (d\<lparr>sHeaderFiles := p0\<rparr>) = sSPTweakFiles d" "sCustomFilterFiles (d\<lparr>sHeaderFiles := p0\<rparr>) = sCustomFilterFiles d"
    "sHeaderFiles (d\<lparr>sHeaderFiles := p0\<rparr>) = p0" "now (d\<lparr>sCFilterFiles := p1\<rparr>) = now d" "disk (d\<lparr>sCFilterFiles := p1\<rparr>) = disk d" "cache (d\<lparr>sCFilterFiles := p1\<rparr>) = cache d"
    "lightMode (d\<lparr>sCFilterFiles := p1\<rparr>) = lightMode d" "sBaseDir (d\<lparr>sCFilterFiles := p1\<rparr>) = sBaseDir d" "bestBlock (d\<lparr>sCFilterFiles := p1\<rparr>) = bestBlock d" "catchingUp (d\<lparr>sCFilterFiles := p1\<rparr>) = catchingUp d"
    "polling (d\<lparr>sCFilterFiles := p1\<rparr>) = polling d" "errQueue (d\<lparr>sCFilterFiles := p1\<rparr>) = errQueue d" "sHeaderFiles (d\<lparr>sCFilterFiles := p1\<rparr>) = sHeaderFiles d" "sSPTweakFiles (d\<lparr>sCFilterFiles := p1\<rparr>) = sSPTweakFiles d"
    "sCustomFilterFiles (d\<lparr>sCFilterFiles := p1\<rparr>) = sCustomFilterFiles d" "sCFilterFiles (d\<lparr>sCFilterFiles := p1\<rparr>) = p1" "now (d\<lparr>sSPTweakFiles := p2\<rparr>) = now d" "disk (d\<lparr>sSPTweakFiles := p2\<rparr>) = disk d"
    "cache (d\<lparr>sSPTweakFiles := p2\<rparr>) = cache d" "lightMode (d\<lparr>sSPTweakFiles := p2\<rparr>) = lightMode d" "sBaseDir (d\<lparr>sSPTweakFiles := p2\<rparr>) = sBaseDir d" "bestBlock (d\<lparr>sSPTweakFiles := p2\<rparr>) = bestBlock d"
    "catchingUp (d\<lparr>sSPTweakFiles := p2\<rparr>) = catchingUp d" "polling (d\<lparr>sSPTweakFiles := p2\<rparr>) = polling d" "errQueue (d\<lparr>sSPTweakFiles := p2\<rparr>) = errQueue d" "sHeaderFiles (d\<lparr>sSPTweakFiles := p2\<rparr>) = sHeaderFiles d"
    "sCFilterFiles (d\<lparr>sSPTweakFiles := p2\<rparr>) = sCFilterFiles d" "sCustomFilterFiles (d\<lparr>sSPTweakFiles := p2\<rparr>) = sCustomFilterFiles d" "sSPTweakFiles (d\<lparr>sSPTweakFiles := p2\<rparr>) = p2" "now (d\<lparr>sCustomFilterFiles := p3\<rparr>) = now d"
    "disk (d\<lparr>sCustomFilterFiles := p3\<rparr>) = disk d" "cache (d\<lparr>sCustomFilterFiles := p3\<rparr>) = cache d" "lightMode (d\<lparr>sCustomFilterFiles := p3\<rparr>) = lightMode d" "sBaseDir (d\<lparr>sCustomFilterFiles := p3\<rparr>) = sBaseDir d"
    "bestBlock (d\<lparr>sCustomFilterFiles := p3\<rparr>) = bestBlock d" "catchingUp (d\<lparr>sCustomFilterFiles := p3\<rparr>) = catchingUp d" "polling (d\<lparr>sCustomFilterFiles := p3\<rparr>) = polling d" "errQueue (d\<lparr>sCustomFilterFiles := p3\<rparr>) = errQueue d"
    "sHeaderFiles (d\<lparr>sCustomFilterFiles := p3\<rparr>) = sHeaderFiles d" "sCFilterFiles (d\<lparr>sCustomFilterFiles := p3\<rparr>) = sCFilterFiles d" "sSPTweakFiles (d\<lparr>sCustomFilterFiles := p3\<rparr>) = sSPTweakFiles d" "sCustomFilterFiles (d\<lparr>sCustomFilterFiles := p3\<rparr>) = p3"
    "now (d\<lparr>now := n\<rparr>) = n" "disk (d\<lparr>now := n\<rparr>) = disk d" "cache (d\<lparr>now := n\<rparr>) = cache d" "lightMode (d\<lparr>now := n\<rparr>) = lightMode d"
    "sBaseDir (d\<lparr>now := n\<rparr>) = sBaseDir d" "bestBlock (d\<lparr>now := n\<rparr>) = bestBlock d" "catchingUp (d\<lparr>now := n\<rparr>) = catchingUp d" "polling (d\<lparr>now := n\<rparr>) = polling d"
    "errQueue (d\<lparr>now := n\<rparr>) = errQueue d" "sHeaderFiles (d\<lparr>now := n\<rparr>) = sHeaderFiles d" "sCFilterFiles (d\<lparr>now := n\<rparr>) = sCFilterFiles d" "sSPTweakFiles (d\<lparr>now := n\<rparr>) = sSPTweakFiles d"
    "sCustomFilterFiles (d\<lparr>now := n\<rparr>) = sCustomFilterFiles d" "now (d\<lparr>disk := x\<rparr>) = now d" "disk (d\<lparr>disk := x\<rparr>) = x" "cache (d\<lparr>disk := x\<rparr>) = cache d"
    "lightMode (d\<lparr>disk := x\<rparr>) = lightMode d" "sBaseDir (d\<lparr>disk := x\<rparr>) = sBaseDir d" "bestBlock (d\<lparr>disk := x\<rparr>) = bestBlock d" "catchingUp (d\<lparr>disk := x\<rparr>) = catchingUp d"
    "polling (d\<lparr>disk := x\<rparr>) = polling d" "errQueue (d\<lparr>disk := x\<rparr>) = errQueue d" "sHeaderFiles (d\<lparr>disk := x\<rparr>) = sHeaderFiles d" "sCFilterFiles (d\<lparr>disk := x\<rparr>) = sCFilterFiles d"
    "sSPTweakFiles (d\<lparr>disk := x\<rparr>) = sSPTweakFiles d" "sCustomFilterFiles (d\<lparr>disk := x\<rparr>) = sCustomFilterFiles d" "now (d\<lparr>cache := c\<rparr>) = now d" "disk (d\<lparr>cache := c\<rparr>) = disk d"
    "cache (d\<lparr>cache := c\<rparr>) = c" "lightMode (d\<lparr>cache := c\<rparr>) = lightMode d" "sBaseDir (d\<lparr>cache := c\<rparr>) = sBaseDir d" "bestBlock (d\<lparr>cache := c\<rparr>) = bestBlock d"
    "catchingUp (d\<lparr>cache := c\<rparr>) = catchingUp d" "polling (d\<lparr>cache := c\<rparr>) = polling d" "errQueue (d\<lparr>cache := c\<rparr>) = errQueue d" "sHeaderFiles (d\<lparr>cache := c\<rparr>) = sHeaderFiles d"
    "sCFilterFiles (d\<lparr>cache := c\<rparr>) = sCFilterFiles d" "sSPTweakFiles (d\<lparr>cache := c\<rparr>) = sSPTweakFiles d" "sCustomFilterFiles (d\<lparr>cache := c\<rparr>) = sCustomFilterFiles d"
  by (cases d; simp)+

text \<open>The other producers, and what belongs to the server as a whole, are left alone.\<close>

definition leavesOthers :: "background \<Rightarrow> 'h daemon \<Rightarrow> 'h daemon \<Rightarrow> bool" where
  "leavesOthers b d d' \<longleftrightarrow> sBaseDir d' = sBaseDir d \<and> bestBlock d' = bestBlock d \<and> catchingUp d' = catchingUp d \<and>
     polling d' = polling d \<and> errQueue d' = errQueue d \<and> lightMode d' = lightMode d \<and>
     (b \<noteq> HeaderUpdate \<longrightarrow> sHeaderFiles d' = sHeaderFiles d) \<and> (b \<noteq> FilterUpdate \<longrightarrow> sCFilterFiles d' = sCFilterFiles d) \<and>
     (b \<noteq> SPTweakUpdate \<longrightarrow> sSPTweakFiles d' = sSPTweakFiles d) \<and> (b \<noteq> CustomFilterUpdate \<longrightarrow> sCustomFilterFiles d' = sCustomFilterFiles d)"

definition taskEffect :: "'h env \<Rightarrow> blockEnv \<Rightarrow> bool \<Rightarrow> background \<Rightarrow> 'h daemon \<Rightarrow> err + unit \<Rightarrow> 'h daemon \<Rightarrow> bool" where
  "taskEffect E B st b d r d' \<longleftrightarrow> leavesOthers b d d' \<and> allPlaced d' \<and>
     (\<forall>f. map_of (disk d') f \<noteq> map_of (disk d) f \<longrightarrow> inTask (sBaseDir d) b f) \<and>
     (\<forall>f\<in>sealedFiles st b d. fileExists (disk d) f \<and> inTask (sBaseDir d) b f \<and> map_of (disk d') f = map_of (disk d) f) \<and>
     (r = Inr () \<longrightarrow> taskReady E B False b d' \<and> sealedFiles st b d \<subseteq> sealedFiles False b d')"

lemma withShared_same: "withShared (d\<lparr>now := now p, disk := disk p, cache := cache p\<rparr>) p = p"
  by (simp add: withShared_def)

lemma withShared_conf: "conf (withShared d p) = conf p" "placed base b (withShared d p) = placed base b p"
  by (simp_all add: withShared_def conf_def placed_def)

lemma placed_conf: "conf p' = conf p \<Longrightarrow> placed base b p' = placed base b p"
  by (simp add: conf_def placed_def)

lemma sealed_own: "sealedFilesOf files st p \<subseteq> ownFilesOf files p"
  by (auto simp: sealedFilesOf_def ownFilesOf_def sealedRange_def)

lemma turnOf_disk:
  assumes "turnOf H files st p r p'" "\<And>f. f \<in> ownFilesOf files p \<Longrightarrow> inTask base b f"
  shows "\<forall>f. map_of (disk p') f \<noteq> map_of (disk p) f \<longrightarrow> inTask base b f"
    and "\<forall>f\<in>sealedFilesOf files st p. fileExists (disk p) f \<and> inTask base b f \<and> map_of (disk p') f = map_of (disk p) f"
  using assms sealed_own [of files st p] by (auto simp: turnOf_def)

lemma headerTurn_effect:
  assumes A: "allPlaced d" and R: "taskReady E B st HeaderUpdate d" and bb: "boundedBackend E"
    and run: "taskTurn E B st HeaderUpdate d = (r, d')"
  shows "taskEffect E B st HeaderUpdate d r d'"
proof -
  let ?p = "withShared d (sHeaderFiles d)"
  obtain p' where m: "(if st then updateFiles E (headerHooks E) (bestBlock d) 0 else pollOnce E (headerHooks E)) ?p = (r, p')"
    and d': "d' = d\<lparr>now := now p', disk := disk p', cache := cache p', sHeaderFiles := p'\<rparr>"
    using run by (auto simp: runProducer_def split: prod.splits)
  have pl: "placed (sBaseDir d) HeaderUpdate ?p" using A by (simp add: allPlaced_def withShared_conf)
  have T: "turnOf (headerHooks E) headerRangeFiles st ?p r p'"
    using m R pl hf.startUp_turn [of E "bestBlock d" ?p r p'] hf.pollOnce_turn [OF _ bb, of ?p r p']
    by (cases st) (simp_all add: taskReadyFor_def updateFiles_none placed_def)
  have own: "inTask (sBaseDir d) HeaderUpdate f" if "f \<in> ownFilesOf headerRangeFiles ?p" for f
    by (rule own_header [OF _ _ that]) (use pl in \<open>simp_all add: placed_def\<close>)
  have w: "withShared d' p' = p'" "disk ?p = disk d" by (simp_all add: d' withShared_def)
  show ?thesis
    using turnOf_disk [OF T own] T A w placed_conf [of p' ?p] pl
    by (auto simp: taskEffect_def turnOf_def leavesOthers_def d' allPlaced_def taskReadyFor_def)
qed

lemma filterTurn_effect:
  assumes A: "allPlaced d" and R: "taskReady E B st FilterUpdate d" and bb: "boundedBackend E"
    and run: "taskTurn E B st FilterUpdate d = (r, d')"
  shows "taskEffect E B st FilterUpdate d r d'"
proof -
  let ?p = "withShared d (sCFilterFiles d)"
  obtain p' where m: "(if st then updateFiles E (cfHooks E) (bestBlock d) 0 else pollOnce E (cfHooks E)) ?p = (r, p')"
    and d': "d' = d\<lparr>now := now p', disk := disk p', cache := cache p', sCFilterFiles := p'\<rparr>"
    using run by (auto simp: runProducer_def split: prod.splits)
  have pl: "placed (sBaseDir d) FilterUpdate ?p" using A by (simp add: allPlaced_def withShared_conf)
  have T: "turnOf (cfHooks E) cfRangeFiles st ?p r p'"
    using m R pl cf.startUp_turn [of E "bestBlock d" ?p r p'] cf.pollOnce_turn [OF _ bb, of ?p r p']
    by (cases st) (simp_all add: taskReadyFor_def updateFiles_none placed_def)
  have own: "inTask (sBaseDir d) FilterUpdate f" if "f \<in> ownFilesOf cfRangeFiles ?p" for f
    by (rule own_filter [OF _ _ that]) (use pl in \<open>simp_all add: placed_def\<close>)
  have w: "withShared d' p' = p'" "disk ?p = disk d" by (simp_all add: d' withShared_def)
  show ?thesis
    using turnOf_disk [OF T own] T A w placed_conf [of p' ?p] pl
    by (auto simp: taskEffect_def turnOf_def leavesOthers_def d' allPlaced_def taskReadyFor_def)
qed

lemma spTurn_effect:
  assumes A: "allPlaced d" and R: "taskReady E B st SPTweakUpdate d" and bb: "boundedBackend E"
    and run: "taskTurn E B st SPTweakUpdate d = (r, d')"
  shows "taskEffect E B st SPTweakUpdate d r d'"
proof (cases "sSPTweakFiles d")
  case None
  with run A show ?thesis by (simp add: taskEffect_def leavesOthers_def)
next
  case (Some p)
  let ?p = "withShared d p"
  obtain p' where m: "(if st then spUpdateFiles E B (bestBlock d) 0 else pollOnce E (spHooks B E)) ?p = (r, p')"
    and d': "d' = d\<lparr>now := now p', disk := disk p', cache := cache p', sSPTweakFiles := Some p'\<rparr>"
    using run Some by (auto simp: runProducer_def split: prod.splits)
  have pl: "placed (sBaseDir d) SPTweakUpdate ?p" using A Some by (simp add: allPlaced_def withShared_conf)
  have T: "turnOf (spHooks B E) spRangeFiles st ?p r p'"
    using m R Some pl spUpdate_turn [of B E "bestBlock d" ?p r p'] spt.pollOnce_turn [OF _ bb, of B ?p r p']
    by (cases st) (simp_all add: taskReadyFor_def placed_def)
  have own: "inTask (sBaseDir d) SPTweakUpdate f" if "f \<in> ownFilesOf spRangeFiles ?p" for f
    by (rule own_sp [OF _ that]) (use pl in \<open>simp add: placed_def\<close>)
  have w: "withShared d' p' = p'" "disk ?p = disk d" by (simp_all add: d' withShared_def)
  show ?thesis
    using turnOf_disk [OF T own] T A w placed_conf [of p' ?p] pl Some
    by (auto simp: taskEffect_def turnOf_def leavesOthers_def d' allPlaced_def taskReadyFor_def)
qed

lemma customTurn_effect:
  assumes A: "allPlaced d" and R: "taskReady E B st CustomFilterUpdate d" and bb: "boundedBackend E"
    and run: "taskTurn E B st CustomFilterUpdate d = (r, d')"
  shows "taskEffect E B st CustomFilterUpdate d r d'"
proof (cases "sCustomFilterFiles d")
  case None
  with run A show ?thesis by (simp add: taskEffect_def leavesOthers_def)
next
  case (Some p)
  let ?p = "withShared d p"
  obtain p' where m: "(if st then customUpdateFiles E B (bestBlock d) 0 else pollOnce E (customHooks B E)) ?p = (r, p')"
    and d': "d' = d\<lparr>now := now p', disk := disk p', cache := cache p', sCustomFilterFiles := Some p'\<rparr>"
    using run Some by (auto simp: runProducer_def split: prod.splits)
  have pl: "placed (sBaseDir d) CustomFilterUpdate ?p" using A Some by (simp add: allPlaced_def withShared_conf)
  have T: "turnOf (customHooks B E) customRangeFiles st ?p r p'"
    using m R Some pl customUpdate_turn [of B E "bestBlock d" ?p r p'] cuf.pollOnce_turn [OF _ bb, of B ?p r p']
    by (cases st) (simp_all add: taskReadyFor_def placed_def)
  have own: "inTask (sBaseDir d) CustomFilterUpdate f" if "f \<in> ownFilesOf customRangeFiles ?p" for f
    by (rule own_custom [OF _ that]) (use pl in \<open>simp add: placed_def\<close>)
  have w: "withShared d' p' = p'" "disk ?p = disk d" by (simp_all add: d' withShared_def)
  show ?thesis
    using turnOf_disk [OF T own] T A w placed_conf [of p' ?p] pl Some
    by (auto simp: taskEffect_def turnOf_def leavesOthers_def d' allPlaced_def taskReadyFor_def)
qed

lemma taskTurn_effect:
  "allPlaced d \<Longrightarrow> taskReady E B st b d \<Longrightarrow> boundedBackend E \<Longrightarrow> taskTurn E B st b d = (r, d') \<Longrightarrow> taskEffect E B st b d r d'"
  by (cases b) (blast intro: headerTurn_effect filterTurn_effect spTurn_effect customTurn_effect)+


subsection \<open>What the other tasks and the requests leave of a task\<close>

context file_producer
begin

lemma undisturbed_ready:
  assumes own: "\<forall>f\<in>ownFilesOf files p. map_of (disk q) f = map_of (disk p) f"
    and dir: "\<forall>f. inDir (joinPath (baseDir p) (subDir p)) f \<longrightarrow> map_of (disk q) f = map_of (disk p) f"
    and q: "q = p\<lparr>now := n, disk := x, cache := c\<rparr>" and sfx: "okSuffix (fileSuffix p)" and R: "taskReadyFor (H E) files N st p"
  shows "taskReadyFor (H E) files N st q \<and> sealedFilesOf files st q = sealedFilesOf files st p"
proof -
  have cq: "conf q = conf p" and base: "mem q = mem p" "lastSealedHeight q = lastSealedHeight p" "currentHeight q = currentHeight p"
    by (simp_all add: q conf_def)
  have f: "files q = files p" by (rule files_static [OF cq, where E = E]) (simp add: base)
  note r = rangeFiles_cong [OF cq f]
  have ex: "fileExists (disk q) g = fileExists (disk p) g" if "0 \<le> j" "g \<in> rangeFiles files p j" for j g
    using own that by (auto simp: ownFilesOf_def fileExists_def)
  have in_dir: "fileExists (disk q) g = fileExists (disk p) g" if "inDir (joinPath (baseDir p) (subDir p)) g" for g
    using dir that by (auto simp: fileExists_def)
  have "sealedRange st q j = sealedRange st p j" for j
    using in_dir [OF inDir_blockFileName [OF sfx]] by (simp add: sealedRange_def q)
  then have S: "sealedFilesOf files st q = sealedFilesOf files st p" by (simp add: sealedFilesOf_def r)
  have "taskReadyFor (H E) files N st q"
  proof (cases st)
    case False
    then have T: "tailInv (H E) files p" using R by (simp add: taskReadyFor_def)
    have "sealedOnDisk files q" using tailInvD(7) [OF T] ex confD(1) [OF cq] by (auto simp: sealedOnDisk_def r base)
    then have "tailInv (H E) files q" using T confOK_cong [OF cq] aligned_cong [OF cq base(2)] by (simp add: tailInv_def tailUpto_def base)
    with False show ?thesis by (simp add: taskReadyFor_def)
  next
    case True
    then obtain k where F: "extractSuffix p = fileSuffix p" "plainDir (joinPath (baseDir p) (subDir p))" "confOK p"
      "dom (cachedHash (H E) (mem p)) = {}" "N \<le> heightBound"
      and k: "sealedRanges (disk p) (joinPath (baseDir p) (subDir p)) (fileSuffix p) (entriesPerFile p) k"
        "0 \<le> k" "k * entriesPerFile p \<le> 10000000" "k * entriesPerFile p \<noteq> 1" "k * entriesPerFile p \<le> N"
        "\<forall>j f. 0 \<le> j \<and> j < k \<and> f \<in> rangeFiles files p j \<longrightarrow> fileExists (disk p) f"
      using R unfolding taskReadyFor_def freshProducer_def by auto
    have "sealedRanges (disk q) (joinPath (baseDir p) (subDir p)) (fileSuffix p) (entriesPerFile p) k"
      using k(1) sealedRanges_cong [OF dir] by simp
    moreover have "\<forall>j f. 0 \<le> j \<and> j < k \<and> f \<in> rangeFiles files q j \<longrightarrow> fileExists (disk q) f"
      using k(6) ex unfolding r by blast
    moreover have "confOK q" using F(3) confOK_cong [OF cq] by simp
    ultimately have "freshProducer (H E) files N q"
      unfolding freshProducer_def using F k(2-5) by (intro conjI exI [of _ k]) (simp_all add: q)
    with True show ?thesis by (simp add: taskReadyFor_def)
  qed
  with S show ?thesis by simp
qed

end

definition undisturbed :: "background \<Rightarrow> 'h daemon \<Rightarrow> 'h daemon \<Rightarrow> bool" where
  "undisturbed b d d' \<longleftrightarrow> sBaseDir d' = sBaseDir d \<and> bestBlock d' = bestBlock d \<and>
     (\<forall>f. inTask (sBaseDir d) b f \<longrightarrow> map_of (disk d') f = map_of (disk d) f) \<and>
     (b = HeaderUpdate \<longrightarrow> sHeaderFiles d' = sHeaderFiles d) \<and> (b = FilterUpdate \<longrightarrow> sCFilterFiles d' = sCFilterFiles d) \<and>
     (b = SPTweakUpdate \<longrightarrow> sSPTweakFiles d' = sSPTweakFiles d) \<and> (b = CustomFilterUpdate \<longrightarrow> sCustomFilterFiles d' = sCustomFilterFiles d)"

lemma withShared_again: "withShared d' p = (withShared d p)\<lparr>now := now d', disk := disk d', cache := cache d'\<rparr>"
  by (simp add: withShared_def)

context file_producer
begin

lemma undisturbed_producer:
  assumes U: "undisturbed b d d'" and pl: "placed (sBaseDir d) b p"
    and own: "\<And>f. f \<in> ownFilesOf files (withShared d p) \<Longrightarrow> inTask (sBaseDir d) b f"
    and R: "taskReadyFor (H E) files N st (withShared d p)"
  shows "taskReadyFor (H E) files N st (withShared d' p) \<and> sealedFilesOf files st (withShared d' p) = sealedFilesOf files st (withShared d p)"
proof (rule undisturbed_ready [OF _ _ withShared_again _ R])
  show "\<forall>f\<in>ownFilesOf files (withShared d p). map_of (disk (withShared d' p)) f = map_of (disk (withShared d p)) f"
    using U own by (auto simp: undisturbed_def withShared_def)
  show "\<forall>f. inDir (joinPath (baseDir (withShared d p)) (subDir (withShared d p))) f \<longrightarrow>
      map_of (disk (withShared d' p)) f = map_of (disk (withShared d p)) f"
    using U pl by (auto simp: undisturbed_def placed_def withShared_def inTask_def)
  show "okSuffix (fileSuffix (withShared d p))" using pl by (simp add: placed_def withShared_def)
qed

end

lemma undisturbed_task:
  assumes U: "undisturbed b d d'" and A: "allPlaced d" and R: "taskReady E B st b d"
  shows "taskReady E B st b d' \<and> sealedFiles st b d' = sealedFiles st b d"
proof (cases b)
  case HeaderUpdate
  then have pl: "placed (sBaseDir d) b (sHeaderFiles d)" using A by (simp add: allPlaced_def)
  have "f \<in> ownFilesOf headerRangeFiles (withShared d (sHeaderFiles d)) \<Longrightarrow> inTask (sBaseDir d) b f" for f
    using own_header [of "withShared d (sHeaderFiles d)"] pl HeaderUpdate by (simp add: placed_def withShared_def)
  from hf.undisturbed_producer [OF U pl this] R show ?thesis using U HeaderUpdate by (simp add: undisturbed_def)
next
  case FilterUpdate
  then have pl: "placed (sBaseDir d) b (sCFilterFiles d)" using A by (simp add: allPlaced_def)
  have "f \<in> ownFilesOf cfRangeFiles (withShared d (sCFilterFiles d)) \<Longrightarrow> inTask (sBaseDir d) b f" for f
    using own_filter [of "withShared d (sCFilterFiles d)"] pl FilterUpdate by (simp add: placed_def withShared_def)
  from cf.undisturbed_producer [OF U pl this] R show ?thesis using U FilterUpdate by (simp add: undisturbed_def)
next
  case SPTweakUpdate
  have "taskReadyFor (spHooks B E) spRangeFiles (bestBlock d) st (withShared d' p) \<and>
      sealedFilesOf spRangeFiles st (withShared d' p) = sealedFilesOf spRangeFiles st (withShared d p)" if "sSPTweakFiles d = Some p" for p
  proof (rule spt.undisturbed_producer [OF U])
    show pl: "placed (sBaseDir d) b p" using A that SPTweakUpdate by (simp add: allPlaced_def)
    show "f \<in> ownFilesOf spRangeFiles (withShared d p) \<Longrightarrow> inTask (sBaseDir d) b f" for f
      using own_sp [of "withShared d p"] pl SPTweakUpdate by (simp add: placed_def withShared_def)
  qed (use R that SPTweakUpdate in simp)
  then show ?thesis using U SPTweakUpdate by (auto simp: undisturbed_def)
next
  case CustomFilterUpdate
  have "taskReadyFor (customHooks B E) customRangeFiles (bestBlock d) st (withShared d' p) \<and>
      sealedFilesOf customRangeFiles st (withShared d' p) = sealedFilesOf customRangeFiles st (withShared d p)" if "sCustomFilterFiles d = Some p" for p
  proof (rule cuf.undisturbed_producer [OF U])
    show pl: "placed (sBaseDir d) b p" using A that CustomFilterUpdate by (simp add: allPlaced_def)
    show "f \<in> ownFilesOf customRangeFiles (withShared d p) \<Longrightarrow> inTask (sBaseDir d) b f" for f
      using own_custom [of "withShared d p"] pl CustomFilterUpdate by (simp add: placed_def withShared_def)
  qed (use R that CustomFilterUpdate in simp)
  then show ?thesis using U CustomFilterUpdate by (auto simp: undisturbed_def)
qed

lemma effect_undisturbed:
  assumes "taskEffect E B st b d r d'" "b' \<noteq> b"
  shows "undisturbed b' d d'"
  using assms inTask_unique [of "sBaseDir d" b _ b'] by (auto simp: taskEffect_def leavesOthers_def undisturbed_def)

subsection \<open>The invariant of the whole\<close>

definition daemonInv :: "'h env \<Rightarrow> blockEnv \<Rightarrow> 'h daemon \<Rightarrow> bool" where
  "daemonInv E B d \<longleftrightarrow> allPlaced d \<and> set (catchingUp d) \<inter> set (polling d) = {} \<and>
     (\<forall>b\<in>set (catchingUp d). taskReady E B True b d) \<and> (\<forall>b\<in>set (polling d). taskReady E B False b d)"

text \<open>
  Files that must not change: of a task that still runs, they are among its sealed files; of
  one that has ended, nobody writes there any more.
\<close>

definition protects :: "'h daemon \<Rightarrow> background \<Rightarrow> string set \<Rightarrow> bool" where
  "protects d b F \<longleftrightarrow> (\<forall>f\<in>F. inTask (sBaseDir d) b f) \<and>
     (b \<in> set (catchingUp d) \<longrightarrow> F \<subseteq> sealedFiles True b d) \<and> (b \<in> set (polling d) \<longrightarrow> F \<subseteq> sealedFiles False b d)"


lemma daemon_lists [simp]:
  fixes d :: "'h daemon"
  shows "taskReady E B st b (d\<lparr>catchingUp := x, polling := y, errQueue := z\<rparr>) = taskReady E B st b d"
    "sealedFiles st b (d\<lparr>catchingUp := x, polling := y, errQueue := z\<rparr>) = sealedFiles st b d"
    "allPlaced (d\<lparr>catchingUp := x, polling := y, errQueue := z\<rparr>) = allPlaced d"
    "taskReady E B st b (d\<lparr>errQueue := z\<rparr>) = taskReady E B st b d"
    "sealedFiles st b (d\<lparr>errQueue := z\<rparr>) = sealedFiles st b d" "allPlaced (d\<lparr>errQueue := z\<rparr>) = allPlaced d"
    "taskReady E B st b (d\<lparr>catchingUp := x, polling := y\<rparr>) = taskReady E B st b d"
    "sealedFiles st b (d\<lparr>catchingUp := x, polling := y\<rparr>) = sealedFiles st b d" "allPlaced (d\<lparr>catchingUp := x, polling := y\<rparr>) = allPlaced d"
  subgoal by (cases b; cases d; simp add: withShared_def)
  subgoal by (cases b; cases d; simp add: withShared_def)
  subgoal by (cases d; simp add: allPlaced_def)
  subgoal by (cases b; cases d; simp add: withShared_def)
  subgoal by (cases b; cases d; simp add: withShared_def)
  subgoal by (cases d; simp add: allPlaced_def)
  subgoal by (cases b; cases d; simp add: withShared_def)
  subgoal by (cases b; cases d; simp add: withShared_def)
  subgoal by (cases d; simp add: allPlaced_def)
  done

lemma request_update:
  fixes d :: "'h daemon"
  shows "server.extend ((server.truncate d)\<lparr>now := n, cache := c\<rparr>) (server.more d) = d\<lparr>now := n, cache := c\<rparr>"
  by (cases d) (simp add: server.defs)

text \<open>A task's turn, followed by any change of the lists that keeps the others where they are.\<close>

lemma turn_keeps:
  assumes I: "daemonInv E B d" and eff: "taskEffect E B st b d r d1" and b: "b \<in> set (if st then catchingUp d else polling d)"
    and d': "d' = d1\<lparr>catchingUp := xs, polling := ys, errQueue := es\<rparr>"
    and xs: "\<And>c. c \<in> set xs \<Longrightarrow> c \<in> set (catchingUp d) \<and> c \<noteq> b"
    and ys: "\<And>c. c \<in> set ys \<Longrightarrow> c = b \<and> r = Inr () \<or> c \<noteq> b \<and> c \<in> set (polling d)"
  shows "daemonInv E B d' \<and> sBaseDir d' = sBaseDir d \<and>
    (\<forall>c F. protects d c F \<longrightarrow> protects d' c F \<and> (\<forall>f\<in>F. map_of (disk d') f = map_of (disk d) f))"
proof -
  have A: "allPlaced d" using I by (simp add: daemonInv_def)
  have base: "sBaseDir d' = sBaseDir d" "disk d' = disk d1" "catchingUp d' = xs" "polling d' = ys"
    using eff by (simp_all add: d' taskEffect_def leavesOthers_def)
  have other: "taskReady E B st' c d1 \<and> sealedFiles st' c d1 = sealedFiles st' c d" if "c \<noteq> b" "taskReady E B st' c d" for c st'
    by (rule undisturbed_task [OF effect_undisturbed [OF eff that(1)] A that(2)])
  have rdy: "c \<in> set (catchingUp d) \<Longrightarrow> taskReady E B True c d" "c \<in> set (polling d) \<Longrightarrow> taskReady E B False c d" for c
    using I by (auto simp: daemonInv_def)
  have "daemonInv E B d'"
  proof -
    have "allPlaced d1" using eff by (simp add: taskEffect_def)
    moreover have "set xs \<inter> set ys = {}" using xs ys I b unfolding daemonInv_def by blast
    moreover have "taskReady E B True c d1" if "c \<in> set xs" for c using other rdy(1) xs [OF that] by blast
    moreover have "taskReady E B False c d1" if "c \<in> set ys" for c
      using other rdy(2) ys [OF that] eff by (auto simp: taskEffect_def)
    ultimately show ?thesis by (simp add: daemonInv_def d')
  qed
  moreover have "protects d' c F \<and> (\<forall>f\<in>F. map_of (disk d') f = map_of (disk d) f)" if P: "protects d c F" for c F
  proof (cases "c = b")
    case False
    have "\<forall>f\<in>F. map_of (disk d1) f = map_of (disk d) f"
      using effect_undisturbed [OF eff False] P by (auto simp: undisturbed_def protects_def)
    moreover have "c \<in> set xs \<Longrightarrow> F \<subseteq> sealedFiles True c d1" using other [OF False rdy(1)] xs [of c] P by (auto simp: protects_def)
    moreover have "c \<in> set ys \<Longrightarrow> F \<subseteq> sealedFiles False c d1" using other [OF False rdy(2)] ys [of c] P False by (auto simp: protects_def)
    ultimately show ?thesis using P base by (simp add: protects_def d')
  next
    case True
    have F: "F \<subseteq> sealedFiles st b d" using P b True by (auto simp: protects_def split: if_splits)
    then have "\<forall>f\<in>F. map_of (disk d1) f = map_of (disk d) f" using eff by (auto simp: taskEffect_def)
    moreover have "b \<notin> set xs" using xs [of b] by blast
    moreover have "F \<subseteq> sealedFiles False b d1" if "b \<in> set ys" using ys [OF that] eff F by (auto simp: taskEffect_def)
    ultimately show ?thesis using P base True by (simp add: protects_def d')
  qed
  ultimately show ?thesis using base(1) by blast
qed

lemma step_keeps:
  assumes "daemonStep E B W d d'" "daemonInv E B d" "boundedBackend E"
  shows "daemonInv E B d' \<and> sBaseDir d' = sBaseDir d \<and>
    (\<forall>c F. protects d c F \<longrightarrow> protects d' c F \<and> (\<forall>f\<in>F. map_of (disk d') f = map_of (disk d) f))"
  using assms(1)
proof cases
  case (caughtUp b d1)
  have eff: "taskEffect E B True b d (Inr ()) d1"
    by (rule taskTurn_effect [OF _ _ assms(3) caughtUp(3)]) (use assms(2) caughtUp(2) in \<open>auto simp: daemonInv_def\<close>)
  then have l: "catchingUp d1 = catchingUp d" "polling d1 = polling d" by (simp_all add: taskEffect_def leavesOthers_def)
  have d': "d' = d1\<lparr>catchingUp := removeAll b (catchingUp d1), polling := b # polling d1, errQueue := errQueue d1\<rparr>"
    using caughtUp(1) by (cases d1) (simp add: taskPolls_def)
  show ?thesis by (rule turn_keeps [OF assms(2) eff _ d']) (use caughtUp(2) l assms(2) in \<open>auto simp: daemonInv_def\<close>)
next
  case (polled b)
  have eff: "taskEffect E B False b d (Inr ()) d'"
    by (rule taskTurn_effect [OF _ _ assms(3) polled(2)]) (use assms(2) polled(1) in \<open>auto simp: daemonInv_def\<close>)
  then have l: "catchingUp d' = catchingUp d" "polling d' = polling d" by (simp_all add: taskEffect_def leavesOthers_def)
  have d': "d' = d'\<lparr>catchingUp := catchingUp d', polling := polling d', errQueue := errQueue d'\<rparr>" by (cases d') simp
  show ?thesis by (rule turn_keeps [OF assms(2) eff _ d']) (use polled(1) l assms(2) in \<open>auto simp: daemonInv_def\<close>)
next
  case (failed b starting e d1)
  have eff: "taskEffect E B starting b d (Inl e) d1"
    by (rule taskTurn_effect [OF _ _ assms(3) failed(3)]) (use assms(2) failed(2) in \<open>auto simp: daemonInv_def split: if_splits\<close>)
  then have l: "catchingUp d1 = catchingUp d" "polling d1 = polling d" by (simp_all add: taskEffect_def leavesOthers_def)
  show ?thesis
    by (rule turn_keeps [OF assms(2) eff failed(2) failed(1) [unfolded taskDone_def]]) (use l in auto)
next
  case (webFailed e)
  then show ?thesis using assms(2) by (simp add: daemonInv_def protects_def)
next
  case (request path r s1 w)
  obtain n c where "s1 = (server.truncate d)\<lparr>now := n, cache := c\<rparr>"
    using serveHTTP_reads [of E "server.truncate d" W path r] request(2) by (auto simp: served_def)
  then have d': "d' = d\<lparr>now := n, cache := c\<rparr>" using request(1) request_update [where d = d and n = n and c = c] by simp
  have "undisturbed b d d'" for b by (simp add: undisturbed_def d')
  note U = undisturbed_task [OF this]
  have A: "allPlaced d" "allPlaced d'" using assms(2) by (simp_all add: daemonInv_def d' allPlaced_def)
  have "taskReady E B st b d' \<and> sealedFiles st b d' = sealedFiles st b d" if "taskReady E B st b d" for st b
    by (rule U [OF A(1) that])
  then show ?thesis using assms(2) A(2) unfolding daemonInv_def protects_def by (simp add: d')
qed


context file_producer
begin

lemma ready_sealed:
  assumes R: "taskReadyFor (H E) files N st p" and sfx: "okSuffix (fileSuffix p)" and f: "f \<in> sealedFilesOf files st p"
  shows "fileExists (disk p) f"
proof (cases st)
  case True
  then obtain k where k: "sealedRanges (disk p) (joinPath (baseDir p) (subDir p)) (fileSuffix p) (entriesPerFile p) k" "0 \<le> k"
    and n: "0 < entriesPerFile p" and there: "\<forall>j f. 0 \<le> j \<and> j < k \<and> f \<in> rangeFiles files p j \<longrightarrow> fileExists (disk p) f"
    using R unfolding taskReadyFor_def freshProducer_def confOK_def by auto
  from f True obtain j where "0 \<le> j" "f \<in> rangeFiles files p j" "j < k"
    using sealedRanges_file [OF k(1) sfx n _ k(2)] by (auto simp: sealedFilesOf_def sealedRange_def)
  with there show ?thesis by blast
next
  case False
  with R f show ?thesis
    by (auto simp: taskReadyFor_def sealedFilesOf_def sealedRange_def tailInv_def tailUpto_def sealedOnDisk_def)
qed

end

lemma sealed_there:
  assumes "allPlaced d" "taskReady E B st b d" "f \<in> sealedFiles st b d"
  shows "fileExists (disk d) f \<and> inTask (sBaseDir d) b f"
proof (cases b)
  case HeaderUpdate
  let ?p = "withShared d (sHeaderFiles d)"
  have pl: "placed (sBaseDir d) b ?p" and sfx: "okSuffix (fileSuffix ?p)"
    using assms(1) HeaderUpdate by (simp_all add: allPlaced_def placed_def withShared_def)
  have f: "f \<in> sealedFilesOf headerRangeFiles st ?p" using assms(3) HeaderUpdate by simp
  have "fileExists (disk ?p) f" by (rule hf.ready_sealed [OF _ sfx f]) (use assms(2) HeaderUpdate in simp)
  moreover have "inTask (sBaseDir d) b f" using own_header [of ?p] pl HeaderUpdate subsetD [OF sealed_own f] by (simp add: placed_def)
  ultimately show ?thesis by (simp add: withShared_def)
next
  case FilterUpdate
  let ?p = "withShared d (sCFilterFiles d)"
  have pl: "placed (sBaseDir d) b ?p" and sfx: "okSuffix (fileSuffix ?p)"
    using assms(1) FilterUpdate by (simp_all add: allPlaced_def placed_def withShared_def)
  have f: "f \<in> sealedFilesOf cfRangeFiles st ?p" using assms(3) FilterUpdate by simp
  have "fileExists (disk ?p) f" by (rule cf.ready_sealed [OF _ sfx f]) (use assms(2) FilterUpdate in simp)
  moreover have "inTask (sBaseDir d) b f" using own_filter [of ?p] pl FilterUpdate subsetD [OF sealed_own f] by (simp add: placed_def)
  ultimately show ?thesis by (simp add: withShared_def)
next
  case SPTweakUpdate
  from assms(3) SPTweakUpdate obtain p where p: "sSPTweakFiles d = Some p" and f: "f \<in> sealedFilesOf spRangeFiles st (withShared d p)" by auto
  let ?p = "withShared d p"
  have pl: "placed (sBaseDir d) b ?p" and sfx: "okSuffix (fileSuffix ?p)"
    using assms(1) SPTweakUpdate p by (simp_all add: allPlaced_def placed_def withShared_def)
  have "fileExists (disk ?p) f" by (rule spt.ready_sealed [OF _ sfx f]) (use assms(2) SPTweakUpdate p in simp)
  moreover have "inTask (sBaseDir d) b f" using own_sp [of ?p] pl SPTweakUpdate subsetD [OF sealed_own f] by (simp add: placed_def)
  ultimately show ?thesis by (simp add: withShared_def)
next
  case CustomFilterUpdate
  from assms(3) CustomFilterUpdate obtain p where p: "sCustomFilterFiles d = Some p" and f: "f \<in> sealedFilesOf customRangeFiles st (withShared d p)" by auto
  let ?p = "withShared d p"
  have pl: "placed (sBaseDir d) b ?p" and sfx: "okSuffix (fileSuffix ?p)"
    using assms(1) CustomFilterUpdate p by (simp_all add: allPlaced_def placed_def withShared_def)
  have "fileExists (disk ?p) f" by (rule cuf.ready_sealed [OF _ sfx f]) (use assms(2) CustomFilterUpdate p in simp)
  moreover have "inTask (sBaseDir d) b f" using own_custom [of ?p] pl CustomFilterUpdate subsetD [OF sealed_own f] by (simp add: placed_def)
  ultimately show ?thesis by (simp add: withShared_def)
qed

text \<open>
  Claim C7. The parts of the server do not get in each other's way: in whatever order the tasks take their
  turns and requests are answered in between, with turns that fail included, the invariant of
  every task that still runs holds at every moment, and a file that was sealed at one moment is
  there and has the same contents ever after, also when its task has ended.
\<close>

theorem server_keeps_sealed_files:
  assumes "daemonReach E B W d d'" "daemonInv E B d" "boundedBackend E"
  shows "daemonInv E B d' \<and>
    (\<forall>b\<in>set (catchingUp d). \<forall>f\<in>sealedFiles True b d. fileExists (disk d) f \<and> map_of (disk d') f = map_of (disk d) f) \<and>
    (\<forall>b\<in>set (polling d). \<forall>f\<in>sealedFiles False b d. fileExists (disk d) f \<and> map_of (disk d') f = map_of (disk d) f)"
proof -
  have all: "daemonInv E B d' \<and> (\<forall>c F. protects d c F \<longrightarrow> protects d' c F \<and> (\<forall>f\<in>F. map_of (disk d') f = map_of (disk d) f))"
    using assms
  proof (induction rule: daemonReach.induct)
    case (reach_step d d1 d2)
    from reach_step.IH [OF reach_step.prems] step_keeps [OF reach_step.hyps(2) _ reach_step.prems(2)] show ?case by (metis (no_types))
  qed simp
  have A: "allPlaced d" using assms(2) by (simp add: daemonInv_def)
  have one: "fileExists (disk d) f \<and> map_of (disk d') f = map_of (disk d) f"
    if b: "b \<in> set (if st then catchingUp d else polling d)" and f: "f \<in> sealedFiles st b d" for b st f
  proof -
    have R: "taskReady E B st b d" using b assms(2) by (auto simp: daemonInv_def split: if_splits)
    have "b \<notin> set (if st then polling d else catchingUp d)" using b assms(2) by (auto simp: daemonInv_def split: if_splits)
    then have "protects d b {f}" using f sealed_there [OF A R f] by (cases st) (auto simp: protects_def)
    then show ?thesis using all sealed_there [OF A R f] by blast
  qed
  show ?thesis using all one [where st = True] one [where st = False] by simp
qed

end
