(* ===== verification/Startup.thy ===== *)
theory Startup
  imports System
begin

text \<open>
  What \<open>Server.start\<close> leads to. A start on a directory with the files of an earlier run
  loads their block hashes, compares the last of them with the backend and starts the tasks in
  a state that satisfies the invariant of \<open>System\<close>; header files of another chain end it
  with the error for that. What follows a start is in \<open>EndToEnd\<close>.
\<close>

subsection \<open>The steps of a start\<close>

definition backendReady :: "backendEnv \<Rightarrow> blockEnv \<Rightarrow> serverConf \<Rightarrow> int \<Rightarrow> bool" where
  "backendReady X B c N \<longleftrightarrow> NewClient X = Inr () \<and> (\<forall>t. GetBlockChainInfo X t = Inr N) \<and>
     ((cIndexSPTweakData c \<or> cIndexCustomFilters c) \<and> \<not> cLightMode c \<longrightarrow>
        (\<forall>t. (\<exists>v\<ge>minPrevOutBackendVersion. GetNetworkInfo X t = Inr v) \<and> (\<exists>b. httpGet B t restProbePath = Inr (200, b))))"

text \<open>Where something needs whole blocks, the fetcher has found the REST interface.\<close>

definition fetcherReady :: "serverConf \<Rightarrow> prefetch \<Rightarrow> bool" where
  "fetcherReady c q \<longleftrightarrow> ((cIndexSPTweakData c \<or> cIndexCustomFilters c) \<and> \<not> cLightMode c \<longrightarrow> q = newBlockPrefetcher True True)"

lemma startFetcher_ready:
  assumes "backendReady X B c N"
  obtains q n where "startFetcher X B c s = (Inr q, s\<lparr>now := n\<rparr>)" "fetcherReady c q"
proof (cases "(cIndexSPTweakData c \<or> cIndexCustomFilters c) \<and> \<not> cLightMode c")
  case False
  then have "startFetcher X B c s = (Inr (newBlockPrefetcher False False), s\<lparr>now := now s\<rparr>)"
    by (auto simp: startFetcher_def Let_def)
  then show thesis by (rule that) (use False in \<open>auto simp: fetcherReady_def\<close>)
next
  case True
  with assms obtain v b where v: "minPrevOutBackendVersion \<le> v" "GetNetworkInfo X (now s) = Inr v"
    and b: "httpGet B (Suc (now s)) restProbePath = Inr (200, b)"
    unfolding backendReady_def by metis
  have "checkPrevOutBackend X B (newBlockPrefetcher False False, s) =
      (Inr (), ((newBlockPrefetcher False False)\<lparr>probed := True, useREST := True\<rparr>, s\<lparr>now := Suc (Suc (now s))\<rparr>))"
    using v b by (simp add: checkPrevOutBackend_def goBind_def goWrap_def goLift_def backendCall_def verifyPrevOutBackendVersion_def
        requireREST_def probeOnce_def probeREST_def httpCall_def newBlockPrefetcher_def)
  with True show thesis
    by (intro that [of "(newBlockPrefetcher False False)\<lparr>probed := True, useREST := True\<rparr>" "Suc (Suc (now s))"])
      (simp_all add: startFetcher_def Let_def fetcherReady_def newBlockPrefetcher_def)
qed

lemma loadHeaderFiles_disk:
  "loadHeaderFiles E fs h s = (r, s') \<Longrightarrow> disk s' = disk s \<and> writerWaits (cache s') = writerWaits (cache s)"
proof (induction fs arbitrary: h s)
  case (Cons f fs)
  obtain q s1 where "readFile E f s = (q, s1)" by fastforce
  moreover from this have "disk s1 = disk s" "cache s1 = cache s" using readFile_frame by fastforce+
  ultimately show ?case using Cons by (auto simp: Let_def split: sum.splits prod.splits)
qed simp

lemma loadFromHeaders_disk:
  "loadFromHeaders E dir s = (r, s') \<Longrightarrow> disk s' = disk s \<and> writerWaits (cache s') = writerWaits (cache s)"
  by (auto simp: loadFromHeaders_def split: sum.splits prod.splits dest: loadHeaderFiles_disk)

text \<open>The files of the first \<open>k\<close> ranges hold the serialized headers \<open>hdrs\<close>.\<close>

definition storedHeaders :: "'h env \<Rightarrow> disk \<Rightarrow> string \<Rightarrow> int \<Rightarrow> int \<Rightarrow> (int \<Rightarrow> 'h) \<Rightarrow> bool" where
  "storedHeaders E dsk dir n k hdrs \<longleftrightarrow>
     sealedRanges dsk dir HeaderFileSuffix n k \<and> distinct (map fst dsk) \<and> 0 < n \<and> 0 \<le> k \<and> k * n \<le> 10000000 \<and>
     (\<forall>j. 0 \<le> j \<and> j < k \<longrightarrow> map_of dsk (blockFileName HeaderFileSuffix dir (j * n) (j * n + n - 1)) =
        Some (headersOf E hdrs (j * n) (j * n + n - 1)))"

text \<open>A start, up to the comparison with the backend.\<close>

lemma start_loads:
  fixes s :: shared
  assumes codec: "header_codec E" and io: "\<forall>t. ioFaults E t = None" and X: "backendReady X B c N"
    and st: "storedHeaders E (disk s) (joinPath (cBaseDir c) HeaderFileDir) n k hdrs"
  obtains q s1 where "disk s1 = disk s" "\<not> writerWaits (cache s1)" "bestHeight (cache s1) = k * n - 1"
    "heightToHash (cache s1) = (\<lambda>h. if 0 \<le> h \<and> h < k * n then Some (BlockHash E (hdrs h)) else None)"
    "start E B W X c s = goBind (if k * n - 1 \<ge> 0 then checkBestBlock E W (k * n - 1) else goRet ()) (\<lambda>_.
       goBind (goWrap ''error getting block chain info'' [] (backendCall (GetBlockChainInfo X))) (\<lambda>blocks.
         goGets (runningServer W c q blocks))) s1" "fetcherReady c q"
proof -
  obtain q m where f: "startFetcher X B c s = (Inr q, s\<lparr>now := m\<rparr>)" and fr: "fetcherReady c q" by (rule startFetcher_ready [OF X])
  let ?s = "s\<lparr>now := m, cache := newH2HCache\<rparr>"
  have "\<exists>s'. loadFromHeaders E (joinPath (cBaseDir c) HeaderFileDir) ?s = (Inr (k * n - 1), s') \<and> bestHeight (cache s') = k * n - 1 \<and>
    (\<forall>h. heightToHash (cache s') h = (if 0 \<le> h \<and> h < k * n then Some (BlockHash E (hdrs h)) else heightToHash (cache ?s) h))"
    by (rule loadFromHeaders_sealed [OF codec io]) (use st in \<open>simp_all add: storedHeaders_def\<close>)
  then obtain s1 where l: "loadFromHeaders E (joinPath (cBaseDir c) HeaderFileDir) ?s = (Inr (k * n - 1), s1)"
    "bestHeight (cache s1) = k * n - 1"
    "\<forall>h. heightToHash (cache s1) h = (if 0 \<le> h \<and> h < k * n then Some (BlockHash E (hdrs h)) else heightToHash (cache ?s) h)" by blast
  have c: "NewClient X = Inr ()" using X by (simp add: backendReady_def)
  show thesis
  proof (rule that [of s1 q])
    show "disk s1 = disk s" "\<not> writerWaits (cache s1)" using loadFromHeaders_disk [OF l(1)] by (simp_all add: newH2HCache_def)
    show "heightToHash (cache s1) = (\<lambda>h. if 0 \<le> h \<and> h < k * n then Some (BlockHash E (hdrs h)) else None)"
      using l(3) by (simp add: fun_eq_iff newH2HCache_def)
    show "start E B W X c s = goBind (if k * n - 1 \<ge> 0 then checkBestBlock E W (k * n - 1) else goRet ()) (\<lambda>_.
       goBind (goWrap ''error getting block chain info'' [] (backendCall (GetBlockChainInfo X))) (\<lambda>blocks.
         goGets (runningServer W c q blocks))) s1"
      unfolding start_def using c f l(1) by (simp add: goBind_def goWrap_def goLift_def goModify_def)
  qed (rule l(2), rule fr)
qed

lemma checkBestBlock_known:
  assumes "heightToHash (cache s) h = Some x" "GetBlockHash (rpc E (now s)) h = Inr y"
  shows "checkBestBlock E W h s =
    (if y = x then Inr ()
     else Inl (Errf (''header mismatch at height %d: cache has '' @ hashToString W x @ '', backend has '' @ hashToString W y) [h]), s\<lparr>now := Suc (now s)\<rparr>)"
  using assms by (simp add: checkBestBlock_def goBind_def goWrap_def goRet_def goFail_def getBlockHash_def rpcCall_def)

subsection \<open>Files of another chain\<close>

text \<open>
  Claim C19. Header files of another chain are not served: when the last header of the files an
  earlier run has left is not the backend's block at that height, the start fails with the
  error that names the height and the two hashes, and nothing on disk has changed.
\<close>

theorem start_refuses_other_chain:
  fixes s :: shared
  assumes codec: "header_codec E" and io: "\<forall>t. ioFaults E t = None" and X: "backendReady X B c N"
    and st: "storedHeaders E (disk s) (joinPath (cBaseDir c) HeaderFileDir) n k hdrs" and k: "0 < k"
    and other: "\<forall>t. \<exists>x. GetBlockHash (rpc E t) (k * n - 1) = Inr x \<and> x \<noteq> BlockHash E (hdrs (k * n - 1))"
  shows "\<exists>s' t x. GetBlockHash (rpc E t) (k * n - 1) = Inr x \<and> disk s' = disk s \<and>
    start E B W X c s = (Inl (Errf (''header mismatch at height %d: cache has '' @ hashToString W (BlockHash E (hdrs (k * n - 1))) @
      '', backend has '' @ hashToString W x) [k * n - 1]), s')"
proof -
  obtain q s1 where s1: "disk s1 = disk s"
    "heightToHash (cache s1) = (\<lambda>h. if 0 \<le> h \<and> h < k * n then Some (BlockHash E (hdrs h)) else None)"
    "start E B W X c s = goBind (if k * n - 1 \<ge> 0 then checkBestBlock E W (k * n - 1) else goRet ()) (\<lambda>_.
       goBind (goWrap ''error getting block chain info'' [] (backendCall (GetBlockChainInfo X))) (\<lambda>blocks.
         goGets (runningServer W c q blocks))) s1"
    by (rule start_loads [OF codec io X st])
  have "0 < k * n" using st k by (simp add: storedHeaders_def)
  then have best: "heightToHash (cache s1) (k * n - 1) = Some (BlockHash E (hdrs (k * n - 1)))" "0 \<le> k * n - 1" by (simp_all add: s1(2))
  from other obtain x where x: "GetBlockHash (rpc E (now s1)) (k * n - 1) = Inr x" "x \<noteq> BlockHash E (hdrs (k * n - 1))" by blast
  show ?thesis
    by (intro exI [of _ "s1\<lparr>now := Suc (now s1)\<rparr>"] exI [of _ "now s1"] exI [of _ x])
      (use checkBestBlock_known [OF best(1) x(1), of W] x best(2) s1(1) in \<open>simp add: s1(3) goBind_def\<close>)
qed

subsection \<open>Resuming\<close>

definition cDepth :: "serverConf \<Rightarrow> int" where "cDepth c = i32 (int (cReOrgSafeDepth c))"

text \<open>What the tasks find on disk is the files of the first ranges, for each of them.\<close>

definition resumable :: "'h env \<Rightarrow> blockEnv \<Rightarrow> serverConf \<Rightarrow> disk \<Rightarrow> int \<Rightarrow> bool" where
  "resumable E B c dsk N \<longleftrightarrow>
     (let s = \<lparr>now = 0, disk = dsk, cache = newH2HCache\<rparr> in
      (HeaderUpdate \<in> set (backgroundTasks c) \<longrightarrow>
         freshProducer (headerHooks E) headerRangeFiles N (newHeaderFiles (cHeadersPerFile c) (cDepth c) (cBaseDir c) s)) \<and>
      (FilterUpdate \<in> set (backgroundTasks c) \<longrightarrow>
         freshProducer (cfHooks E) cfRangeFiles N (newCFilterFiles (cFiltersPerFile c) (cDepth c) (cBaseDir c) s)) \<and>
      (SPTweakUpdate \<in> set (backgroundTasks c) \<longrightarrow> (\<forall>fetcher.
         freshProducer (spHooks B E) spRangeFiles N
           (newSPTweakFiles (cSPTweaksPerFile c) (cDepth c) (cBaseDir c) (cNetwork c) (pNet (cParams c)) fetcher s))) \<and>
      (CustomFilterUpdate \<in> set (backgroundTasks c) \<longrightarrow> (\<forall>fetcher.
         freshProducer (customHooks B E) customRangeFiles N
           (newCustomFilterFiles (cFiltersPerFile c) (cHeadersPerFile c) (cDepth c) (cBaseDir c) fetcher s))))"

context file_producer
begin

lemma freshProducer_cong:
  assumes "freshProducer (H E) files N p" and c: "conf q = conf p" and m: "mem q = mem p" and d: "disk q = disk p"
  shows "freshProducer (H E) files N q"
proof -
  have f: "files q = files p" by (rule files_static [OF c disjI1 [OF m]])
  have "rangeFiles files q = rangeFiles files p" by (rule rangeFiles_cong [OF c f])
  moreover have "extractSuffix q = extractSuffix p" "fileSuffix q = fileSuffix p" "baseDir q = baseDir p" "subDir q = subDir p"
    "entriesPerFile q = entriesPerFile p" "reOrgSafeDepth q = reOrgSafeDepth p" using c by (simp_all add: conf_def)
  ultimately show ?thesis using assms(1) m d by (simp add: freshProducer_def confOK_def)
qed

end

lemma running_simps [simp]:
  "disk (runningServer W c q N s) = disk s" "cache (runningServer W c q N s) = cache s" "bestBlock (runningServer W c q N s) = N"
  "catchingUp (runningServer W c q N s) = backgroundTasks c" "polling (runningServer W c q N s) = []"
  "errQueue (runningServer W c q N s) = []" "sBaseDir (runningServer W c q N s) = cBaseDir c"
  "lightMode (runningServer W c q N s) = cLightMode c"
  "sHeadersPerFile (runningServer W c q N s) = cHeadersPerFile c" "sFiltersPerFile (runningServer W c q N s) = cFiltersPerFile c"
  "sHeaderFiles (runningServer W c q N s) = newHeaderFiles (cHeadersPerFile c) (cDepth c) (cBaseDir c) s"
  "sCFilterFiles (runningServer W c q N s) = newCFilterFiles (cFiltersPerFile c) (cDepth c) (cBaseDir c) s"
  "sSPTweakFiles (runningServer W c q N s) = (if SPTweakUpdate \<in> set (backgroundTasks c)
     then Some (newSPTweakFiles (cSPTweaksPerFile c) (cDepth c) (cBaseDir c) (cNetwork c) (pNet (cParams c)) q s) else None)"
  "sCustomFilterFiles (runningServer W c q N s) = (if CustomFilterUpdate \<in> set (backgroundTasks c)
     then Some (newCustomFilterFiles (cFiltersPerFile c) (cHeadersPerFile c) (cDepth c) (cBaseDir c) q s) else None)"
  by (simp_all add: runningServer_def Let_def cDepth_def)

lemma running_placed: "allPlaced (runningServer W c q N s)"
  by (auto simp: allPlaced_def placed_def newHeaderFiles_def newCFilterFiles_def newSPTweakFiles_def newCustomFilterFiles_def
      spTweakDustLimits_def customFilterConfigs_def)

lemma running_inv:
  fixes E :: "'h env" and s :: shared
  assumes "resumable E B c (disk s) N"
  shows "daemonInv E B (runningServer W c q N s :: 'h daemon)"
proof -
  let ?d = "runningServer W c q N s :: 'h daemon"
  note R = assms [unfolded resumable_def Let_def]
  have "taskReady E B True b ?d" if b: "b \<in> set (backgroundTasks c)" for b
  proof (cases b)
    case HeaderUpdate
    with R b show ?thesis
      by (auto simp: taskReadyFor_def withShared_def elim!: hf.freshProducer_cong) (simp_all add: newHeaderFiles_def conf_def)
  next
    case FilterUpdate
    with R b show ?thesis
      by (auto simp: taskReadyFor_def withShared_def elim!: cf.freshProducer_cong) (simp_all add: newCFilterFiles_def conf_def)
  next
    case SPTweakUpdate
    with R b show ?thesis
      by (auto simp: taskReadyFor_def withShared_def elim!: allE [of _ q] spt.freshProducer_cong) (simp_all add: newSPTweakFiles_def conf_def)
  next
    case CustomFilterUpdate
    with R b show ?thesis
      by (auto simp: taskReadyFor_def withShared_def elim!: allE [of _ q] cuf.freshProducer_cong) (simp_all add: newCustomFilterFiles_def conf_def)
  qed
  then show ?thesis by (simp add: daemonInv_def running_placed)
qed

lemma start_running:
  fixes s :: shared and E :: "'h env"
  assumes codec: "header_codec E" and io: "\<forall>t. ioFaults E t = None" and X: "backendReady X B c N"
    and st: "storedHeaders E (disk s) (joinPath (cBaseDir c) HeaderFileDir) n k hdrs"
    and same: "\<forall>t. 0 < k \<longrightarrow> GetBlockHash (rpc E t) (k * n - 1) = Inr (BlockHash E (hdrs (k * n - 1)))"
  obtains q s' where "start E B W X c s = (Inr (runningServer W c q N s' :: 'h daemon), s')" "disk s' = disk s"
    "bestHeight (cache s') = k * n - 1"
    "heightToHash (cache s') = (\<lambda>h. if 0 \<le> h \<and> h < k * n then Some (BlockHash E (hdrs h)) else None)" "fetcherReady c q"
    "\<not> writerWaits (cache s')"
proof -
  obtain q s1 where s1: "disk s1 = disk s" "bestHeight (cache s1) = k * n - 1"
    "heightToHash (cache s1) = (\<lambda>h. if 0 \<le> h \<and> h < k * n then Some (BlockHash E (hdrs h)) else None)"
    "start E B W X c s = goBind (if k * n - 1 \<ge> 0 then checkBestBlock E W (k * n - 1) else goRet ()) (\<lambda>_.
       goBind (goWrap ''error getting block chain info'' [] (backendCall (GetBlockChainInfo X))) (\<lambda>blocks.
         goGets (runningServer W c q blocks :: shared \<Rightarrow> 'h daemon))) s1" "fetcherReady c q" "\<not> writerWaits (cache s1)"
    by (rule start_loads [OF codec io X st])
  have info: "GetBlockChainInfo X t = Inr N" for t using X by (simp add: backendReady_def)
  have "\<exists>m. (if k * n - 1 \<ge> 0 then checkBestBlock E W (k * n - 1) else goRet ()) s1 = (Inr (), s1\<lparr>now := m\<rparr>)"
  proof (cases "0 < k")
    case True
    then have "0 < k * n" using st by (simp add: storedHeaders_def)
    then have "heightToHash (cache s1) (k * n - 1) = Some (BlockHash E (hdrs (k * n - 1)))" by (simp add: s1(3))
    from checkBestBlock_known [OF this same [rule_format, OF True]] show ?thesis using \<open>0 < k * n\<close> by auto
  next
    case False
    then have "k = 0" using st by (simp add: storedHeaders_def)
    then show ?thesis by (intro exI [of _ "now s1"]) (simp add: goRet_def)
  qed
  then obtain m where "(if k * n - 1 \<ge> 0 then checkBestBlock E W (k * n - 1) else goRet ()) s1 = (Inr (), s1\<lparr>now := m\<rparr>)" ..
  then have "start E B W X c s = (Inr (runningServer W c q N (s1\<lparr>now := Suc m\<rparr>) :: 'h daemon), s1\<lparr>now := Suc m\<rparr>)"
    unfolding s1(4) using info by (simp add: goBind_def goWrap_def backendCall_def goGets_def)
  then show thesis by (rule that) (use s1 in simp_all)
qed

text \<open>
  Claim C18. A restart picks up where the last run has ended: with the header files of the first
  \<open>k\<close> ranges on disk and the backend still on that chain, the start succeeds; the cache
  then holds exactly the hashes of the stored headers, every task of the configuration is about
  to catch up to the backend's height and none has failed, nothing on disk has changed, and
  the invariant under which sealed files are safe holds.
\<close>

theorem start_resumes:
  fixes s :: shared and E :: "'h env"
  assumes codec: "header_codec E" and io: "\<forall>t. ioFaults E t = None" and X: "backendReady X B c N"
    and st: "storedHeaders E (disk s) (joinPath (cBaseDir c) HeaderFileDir) n k hdrs"
    and same: "\<forall>t. 0 < k \<longrightarrow> GetBlockHash (rpc E t) (k * n - 1) = Inr (BlockHash E (hdrs (k * n - 1)))"
    and tasks: "resumable E B c (disk s) N"
  shows "\<exists>(d :: 'h daemon) s'. start E B W X c s = (Inr d, s') \<and> disk d = disk s \<and>
    bestHeight (cache d) = k * n - 1 \<and>
    (\<forall>h. heightToHash (cache d) h = (if 0 \<le> h \<and> h < k * n then Some (BlockHash E (hdrs h)) else None)) \<and>
    bestBlock d = N \<and> catchingUp d = backgroundTasks c \<and> polling d = [] \<and> errQueue d = [] \<and> daemonInv E B d"
proof -
  obtain q s' where s': "start E B W X c s = (Inr (runningServer W c q N s' :: 'h daemon), s')" "disk s' = disk s"
    "bestHeight (cache s') = k * n - 1"
    "heightToHash (cache s') = (\<lambda>h. if 0 \<le> h \<and> h < k * n then Some (BlockHash E (hdrs h)) else None)"
    by (rule start_running [OF codec io X st same])
  have "daemonInv E B (runningServer W c q N s' :: 'h daemon)" by (rule running_inv) (use tasks s'(2) in simp)
  with s' show ?thesis by (intro exI [of _ "runningServer W c q N s'"] exI [of _ s']) simp
qed

subsection \<open>The command\<close>

lemma start_result:
  fixes s :: shared
  assumes "start E B W X c s = (Inr d, s')"
  obtains q N where "d = runningServer W c q N s'"
  using assms by (auto simp: start_def goBind_def goGets_def split: sum.splits prod.splits)

text \<open>
  Claim C37. Whatever the flags are, a server that runs has settings the rest of the program can rely
  on: positive file sizes within bounds, with whole filter files to a header file, so that the
  check of the custom-filter task cannot fail; positive timeouts, also where the flags ask for
  none; a base directory unless nothing is written; and on the test networks with long re-orgs
  never the depth that is the default of the main network.
\<close>

theorem run_well_formed:
  fixes s :: shared
  assumes "run E B W X paramsOf cc s = (Inr (W', d), s')"
  shows "0 < sFiltersPerFile d \<and> sFiltersPerFile d \<le> sHeadersPerFile d \<and> sHeadersPerFile d mod sFiltersPerFile d = 0 \<and>
    sHeadersPerFile d \<le> 100000 \<and> 0 < sSPTweaksPerFile d \<and> sSPTweaksPerFile d \<le> 2000 \<and>
    0 < dReadTimeout d \<and> 0 < dWriteTimeout d \<and> (\<not> lightMode d \<longrightarrow> sBaseDir d \<noteq> []) \<and>
    (\<forall>p. sCustomFilterFiles d = Some p \<longrightarrow> 0 < headersPerFile (mem p) \<and> headersPerFile (mem p) mod entriesPerFile p = 0) \<and>
    (testnet cc \<or> testnet4 cc \<longrightarrow> sReOrgSafeDepth d \<noteq> defaultMainnetReOrgSafeDepth)"
proof -
  obtain net nh nf nt cc1 where r: "resolveNetwork cc = ((net, nh, nf, nt), cc1)" by (metis prod.exhaust)
  let ?c = "newServer (mcLightMode cc1) (mcIndexSPTweakData cc1) (mcIndexCustomFilters cc1) (mcBaseDir cc1) (mcListenAddr cc1)
      (mcDisableTLS cc1) (mcBackendHost cc1) net (paramsOf net) (mcReOrgSafeDepth cc1) nh nf nt (mcReadTimeout cc1) (mcWriteTimeout cc1)"
  have dir: "mcLightMode cc1 \<or> mcBaseDir cc1 \<noteq> []" using assms r by (auto simp: run_def goFail_def)
  obtain s1 where "start E B W' X ?c s1 = (Inr d, s')"
    using assms r dir by (auto simp: run_def goBind_def goWrap_def goRet_def split: sum.splits prod.splits)
  then obtain q N where d: "d = runningServer W' ?c q N s'" by (rule start_result)
  have deep: "mcReOrgSafeDepth cc1 \<noteq> defaultMainnetReOrgSafeDepth" if "testnet cc \<or> testnet4 cc"
    by (rule resolveNetwork_depth(1) [OF r]) (use r that in \<open>auto simp: resolveNetwork_def Let_def split: if_splits\<close>)
  have t: "0 < dReadTimeout d" "0 < dWriteTimeout d"
    by (simp_all add: d runningServer_def Let_def newServer_def defaultReadTimeout_def defaultWriteTimeout_def)
  have sz: "sFiltersPerFile d = nf" "sHeadersPerFile d = nh" "sSPTweaksPerFile d = nt" "sReOrgSafeDepth d = mcReOrgSafeDepth cc1"
    "lightMode d = mcLightMode cc1" "sBaseDir d = mcBaseDir cc1"
    by (simp_all add: d runningServer_def Let_def newServer_def)
  have cu: "0 < headersPerFile (mem p) \<and> headersPerFile (mem p) mod entriesPerFile p = 0" if "sCustomFilterFiles d = Some p" for p
    using that resolveNetwork_sizes [OF r] by (auto simp: d newServer_def newCustomFilterFiles_def split: if_splits)
  show ?thesis using resolveNetwork_sizes [OF r] deep t sz dir cu by auto
qed

definition lightCommand :: mainCommand where
  "lightCommand = \<lparr>testnet = False, testnet4 = True, regtest = False, signet = False, mcLightMode = True, mcIndexSPTweakData = True,
     mcIndexCustomFilters = True, mcPrevOutCacheSizeMiB = 0, mcBaseDir = [], mcLogDir = [], mcLogLevel = [], mcIndexPage = [], mcListenAddr = '':8080'', mcReOrgSafeDepth = 6, mcReadTimeout = 0,
     mcWriteTimeout = - 1, mcDisableTLS = True, mcHTTPPostMode = True, mcBackendHost = ''b'', mcBackendUser = [], mcBackendPass = []\<rparr>"

definition miniWeb :: webEnv where
  "miniWeb = \<lparr>GetBlock = (\<lambda>_ _. Inl ErrEOF), GetTxOutProof = (\<lambda>_ _. Inl ErrEOF), GetBlockHeaderVerbose = (\<lambda>_ _. Inl ErrEOF),
     GetRawTransaction = (\<lambda>_ _. Inl ErrEOF), EstimateSmartFee = (\<lambda>_ _. Inl ErrEOF), satPerKVByte = (\<lambda>x. x), FeePerKWeight = (\<lambda>x. x),
     FeePerVByte = (\<lambda>x. x), webGet = (\<lambda>_ _. Inl ErrEOF), hashToString = (\<lambda>_. ''h''), CommitID = [], indexHTML = []\<rparr>"

definition lightBackend :: backendEnv where
  "lightBackend = \<lparr>NewClient = Inr (), GetNetworkInfo = (\<lambda>_. Inl ErrEOF), GetBlockChainInfo = (\<lambda>_. Inr 2)\<rparr>"

lemma light_run: "\<exists>W' (d :: miniHeader daemon) s'.
    run (miniEnv 2) miniBlocks W lightBackend (\<lambda>_. \<lparr>pNet = 1, pName = ''mini'', pGenesisHash = zeroHash\<rparr>) lightCommand miniShared = (Inr (W', d), s')"
proof -
  have r: "resolveNetwork lightCommand = ((TestNet4, DefaultHeadersPerFile, DefaultFiltersPerFile, DefaultSPTweaksPerFile),
      lightCommand\<lparr>mcReOrgSafeDepth := 100\<rparr>)"
    by (simp add: resolveNetwork_def lightCommand_def defaultMainnetReOrgSafeDepth_def defaultTestnetReOrgSafeDepth_def)
  have l: "loadFromHeaders E dir \<lparr>now = m, disk = [], cache = newH2HCache\<rparr> = (Inr (- 1), \<lparr>now = m, disk = [], cache = newH2HCache\<lparr>bestHeight := - 1\<rparr>\<rparr>)"
    for E :: "miniHeader env" and dir m
    by (simp add: loadFromHeaders_def listFiles_def sub32_def i32_def)
  have "\<exists>d s'. start (miniEnv 2) miniBlocks W lightBackend c miniShared = (Inr (d :: miniHeader daemon), s')" if "cLightMode c" for c
    using that l by (simp add: start_def lightBackend_def goBind_def goWrap_def goLift_def goModify_def goRet_def goGets_def startFetcher_def
        Let_def miniShared_def backendCall_def newH2HCache_def)
  moreover define c where "c = newServer True True True [] '':8080'' True ''b'' TestNet4 \<lparr>pNet = 1, pName = ''mini'', pGenesisHash = zeroHash\<rparr> 100
      DefaultHeadersPerFile DefaultFiltersPerFile DefaultSPTweaksPerFile 0 (- 1)"
  moreover have "cLightMode c" by (simp add: c_def newServer_def)
  ultimately obtain d s' where "start (miniEnv 2) miniBlocks W lightBackend c miniShared = (Inr (d :: miniHeader daemon), s')" by blast
  then show ?thesis
    unfolding run_def r by (simp add: lightCommand_def loadIndexPage_def goBind_def goWrap_def goRet_def c_def)
qed

lemma run_well_formed_witness:
  "\<exists>W' (d :: miniHeader daemon) s'.
     run (miniEnv 2) miniBlocks miniWeb lightBackend (\<lambda>_. \<lparr>pNet = 1, pName = ''mini'', pGenesisHash = zeroHash\<rparr>) lightCommand miniShared =
       (Inr (W', d), s') \<and> 0 < dReadTimeout d \<and> 0 < dWriteTimeout d \<and> sReOrgSafeDepth d \<noteq> 6"
proof -
  obtain W' s' and d :: "miniHeader daemon" where
    r: "run (miniEnv 2) miniBlocks miniWeb lightBackend (\<lambda>_. \<lparr>pNet = 1, pName = ''mini'', pGenesisHash = zeroHash\<rparr>) lightCommand miniShared =
      (Inr (W', d), s')"
    using light_run [of miniWeb] by blast
  from run_well_formed [OF r] have "0 < dReadTimeout d \<and> 0 < dWriteTimeout d \<and> sReOrgSafeDepth d \<noteq> 6"
    by (simp add: lightCommand_def defaultMainnetReOrgSafeDepth_def)
  with r show ?thesis by blast
qed

end
