(* ===== verification/ServedBlocks.thy ===== *)
theory ServedBlocks
  imports Faithful
begin

text \<open>
  What the block fetcher gives on a backend that serves one chain. \<open>blockData\<close> is the
  chain's blocks: per height the transactions and, for each of them, the outputs its inputs
  spend. \<open>servesBlocks\<close> is the documented behaviour of bitcoind's REST interface on it;
  \<open>fetcherRight\<close> is the invariant of the prefetcher under which every fetch returns the
  block of the height asked for, whether it was prefetched or not. The producers that index
  whole blocks rest on \<open>runFetch_served\<close>.
\<close>

record blockData =
  cTxs :: "int \<Rightarrow> msgTx list"
  cSpent :: "int \<Rightarrow> txOut list list"

definition blockAt :: "blockData \<Rightarrow> int \<Rightarrow> blockWithPrevOuts" where
  "blockAt D h = \<lparr>txs = cTxs D h, prevOutScripts = prevOutMap (tl (cTxs D h)) (map (map PkScript) (tl (cSpent D h)))\<rparr>"

text \<open>A block starts with its coinbase transaction, whose list of spent outputs is not used.\<close>

definition wellFormedBlock :: "blockData \<Rightarrow> int \<Rightarrow> bool" where
  "wellFormedBlock D h \<longleftrightarrow> cTxs D h \<noteq> [] \<and> cSpent D h \<noteq> [] \<and>
     list_all2 (\<lambda>t ss. length ss = length (TxIn t)) (tl (cTxs D h)) (tl (cSpent D h)) \<and>
     length (cSpent D h) \<le> maxSpentTxOutsPerBlock \<and>
     (\<forall>outs\<in>set (cSpent D h). length outs \<le> maxSpentTxOutsPerBlock \<and> (\<forall>out\<in>set outs. wireTxOut out))"

definition servesBlocks :: "'h env \<Rightarrow> blockEnv \<Rightarrow> 'h chainData \<Rightarrow> blockData \<Rightarrow> int \<Rightarrow> bool" where
  "servesBlocks E B C D N \<longleftrightarrow> wire_codec E \<and>
     (\<forall>h. 0 \<le> h \<and> h \<le> N \<longrightarrow> wellFormedBlock D h \<and>
        (\<forall>t. \<exists>bs. httpGet B t (''/rest/block/'' @ hashString B (cHash C h) @ ''.bin'') = Inr (200, Inr bs) \<and>
           MsgBlockDeserialize B bs = Inr (cTxs D h)) \<and>
        (\<forall>t. httpGet B t (''/rest/spenttxouts/'' @ hashString B (cHash C h) @ ''.bin'') = Inr (200, Inr (encodeSpent E (cSpent D h)))))"

lemma restGet_value:
  "httpGet B (now s) path = Inr (200, Inr bs) \<Longrightarrow> restGet B path (q, s) = (Inr bs, (q, s\<lparr>now := Suc (now s)\<rparr>))"
  by (simp add: restGet_def httpCall_def goBind_def goWrap_def)

lemma fetchBlockREST_served:
  assumes "servesBlocks E B C D N" "0 \<le> h" "h \<le> N"
  shows "fetchBlockREST E B (cHash C h) (q, s) = (Inr (blockAt D h), (q, s\<lparr>now := Suc (Suc (now s))\<rparr>))"
proof -
  let ?s = "s\<lparr>now := Suc (now s)\<rparr>"
  have wf: "wellFormedBlock D h" and wire: "wire_codec E"
    and get: "\<And>t. httpGet B t (''/rest/spenttxouts/'' @ hashString B (cHash C h) @ ''.bin'') = Inr (200, Inr (encodeSpent E (cSpent D h)))"
    using assms by (simp_all add: servesBlocks_def)
  obtain bs where bs: "httpGet B (now s) (''/rest/block/'' @ hashString B (cHash C h) @ ''.bin'') = Inr (200, Inr bs)"
    "MsgBlockDeserialize B bs = Inr (cTxs D h)" using assms unfolding servesBlocks_def by blast
  have parts: "cTxs D h = hd (cTxs D h) # tl (cTxs D h)" "cSpent D h = hd (cSpent D h) # tl (cSpent D h)"
    using wf by (simp_all add: wellFormedBlock_def)
  have parse: "parseSpentTxOuts E (encodeSpent E (cSpent D h)) = Inr (hd (cSpent D h) # tl (cSpent D h))"
    using parseSpentTxOuts_encode [OF wire, of "cSpent D h" "[]"] wf parts(2) by (simp add: wellFormedBlock_def)
  have "fetchBlockREST E B (cHash C h) (q, s) = (Inr \<lparr>txs = hd (cTxs D h) # tl (cTxs D h),
      prevOutScripts = prevOutMap (tl (cTxs D h)) (map (map PkScript) (tl (cSpent D h)))\<rparr>, (q, ?s\<lparr>now := Suc (now ?s)\<rparr>))"
    by (rule fetchBlockREST_value [OF restGet_value [OF bs(1)] _ restGet_value [OF get] parse])
      (use bs(2) parts(1) wf in \<open>simp_all add: wellFormedBlock_def\<close>)
  then show ?thesis using parts(1) by (simp add: blockAt_def)
qed

subsection \<open>The prefetcher\<close>

definition fetcherRight :: "'h chainData \<Rightarrow> blockData \<Rightarrow> int \<Rightarrow> prefetch \<Rightarrow> bool" where
  "fetcherRight C D N q \<longleftrightarrow> probed q \<and> useREST q \<and>
     (\<forall>h e. 0 \<le> h \<and> h \<le> N \<and> pending q h = Some e \<longrightarrow> pbHash e = cHash C h \<and> pbResult e = Inr (blockAt D h))"

text \<open>Once the interface has been probed, a single fetch leaves the fetcher as it is.\<close>

definition sameFetcher :: "prefetch \<times> 'z shared_scheme \<Rightarrow> prefetch \<times> 'z shared_scheme \<Rightarrow> bool" where
  "sameFetcher qs qs' \<longleftrightarrow> fst qs' = fst qs"

lemma sameFetcher_preorder [simp]: "reflp sameFetcher" "transp sameFetcher"
  by (auto simp: sameFetcher_def intro!: reflpI transpI)

lemma sameFetcher_restGet: "keeps sameFetcher (restGet B path)"
proof -
  have http: "keeps sameFetcher (httpCall B path)" by (auto simp: keeps_def httpCall_def sameFetcher_def)
  have "keeps sameFetcher (\<lambda>qs :: prefetch \<times> 'z shared_scheme. case body of
      Inl e \<Rightarrow> (Inl (e1 e), qs) | Inr bs \<Rightarrow> if status \<noteq> (200 :: int) then (Inl e2, qs) else (Inr bs, qs))"
    for body :: "err + bytes" and status e1 e2
    by (auto simp: keeps_def sameFetcher_def split: sum.splits)
  then show ?thesis unfolding restGet_def by (intro keeps_intros sameFetcher_preorder http) (auto split: prod.splits)
qed

lemma sameFetcher_REST: "keeps sameFetcher (fetchBlockREST E B hash)"
  unfolding fetchBlockREST_def
  by (intro keeps_intros sameFetcher_preorder sameFetcher_restGet) (auto intro: keeps_intros split: sum.split)

lemma fetchSingle_probed:
  assumes "probed q" "useREST q"
  shows "fetchSingle E B hash (q, s) = fetchBlockREST E B hash (q, s)"
  using assms by (simp add: fetchSingle_def goBind_def probeOnce_def)

lemma fetchSingle_served:
  assumes "servesBlocks E B C D N" "fetcherRight C D N q" "0 \<le> h" "h \<le> N"
  shows "fetchSingle E B (cHash C h) (q, s) = (Inr (blockAt D h), (q, s\<lparr>now := Suc (Suc (now s))\<rparr>))"
  using assms fetchSingle_probed fetchBlockREST_served by (metis fetcherRight_def)

lemma scheduleLoop_right:
  assumes E: "serves E C N" "servesBlocks E B C D N"
    and "fetcherRight C D N q" "cacheRight C N (cache s)" "scheduleLoop E B hs (q, s) = (q', s')"
  shows "fetcherRight C D N q' \<and> cacheRight C N (cache s')"
  using assms(3-)
proof (induction hs arbitrary: q s)
  case (Cons h hs)
  show ?case
  proof (cases "pending q h \<noteq> None")
    case True
    with Cons show ?thesis by fastforce
  next
    case False
    obtain r s1 where g: "getBlockHash E h s = (r, s1)" by fastforce
    then have c1: "cacheRight C N (cache s1)"
      using getBlockHash_onlyReads [OF g] by (intro cacheRight_grows [OF E(1) Cons.prems(2)]) (simp add: onlyReads_def)
    show ?thesis
    proof (cases r)
      case (Inl e)
      with Cons.prems False g c1 show ?thesis by auto
    next
      case (Inr hash)
      obtain res q2 s2 where f: "fetchSingle E B hash (q, s1) = (res, (q2, s2))" by (metis prod.collapse)
      have "q2 = q"
        using keepsD [OF sameFetcher_REST, of E B hash "(q, s1)" res "(q2, s2)"] f Cons.prems(1) fetchSingle_probed
        by (metis fetcherRight_def fst_conv sameFetcher_def)
      have c2: "cacheRight C N (cache s2)"
        using keepsD [OF fetchReads_single f] by (intro cacheRight_grows [OF E(1) c1]) (simp add: fetchReads_def onlyReads_def)
      let ?q = "q\<lparr>pending := (pending q)(h \<mapsto> \<lparr>pbHash = hash, pbResult = res\<rparr>)\<rparr>"
      have "hash = cHash C h \<and> res = Inr (blockAt D h)" if h: "0 \<le> h" "h \<le> N"
      proof -
        obtain s0 where "getBlockHash E h s = (Inr (cHash C h), s0)" by (rule getBlockHash_served [OF E(1) Cons.prems(2) h])
        with g Inr have "hash = cHash C h" by simp
        with f fetchSingle_served [OF E(2) Cons.prems(1) h, of s1] show ?thesis by simp
      qed
      then have "fetcherRight C D N ?q" using Cons.prems(1) by (auto simp: fetcherRight_def)
      moreover have "scheduleLoop E B hs (?q, s2) = (q', s')" using Cons.prems False g Inr f \<open>q2 = q\<close> by simp
      ultimately show ?thesis using Cons.IH c2 by blast
    qed
  qed
qed auto

lemma fetchBlock_served:
  assumes E: "serves E C N" "servesBlocks E B C D N" and h: "0 \<le> h" "h \<le> N"
    and q: "fetcherRight C D N q" and s: "cacheRight C N (cache s)"
  obtains q' s' where "fetchBlock E B h (cHash C h) (q, s) = (Inr (blockAt D h), (q', s'))"
    "fetcherRight C D N q'" "cacheRight C N (cache s')"
proof -
  obtain q1 s1 where sch: "scheduleAhead E B h (q, s) = (q1, s1)" by fastforce
  have r1: "fetcherRight C D N q1" "cacheRight C N (cache s1)"
    using scheduleLoop_right [OF E q s sch [unfolded scheduleAhead_def]] by simp_all
  show thesis
  proof (cases "pending q1 h")
    case None
    with sch fetchSingle_served [OF E(2) r1(1) h, of s1] r1 show thesis
      by (intro that [of q1 "s1\<lparr>now := Suc (Suc (now s1))\<rparr>"]) (simp_all add: fetchBlock_def)
  next
    case (Some e)
    with r1 h have "pbHash e = cHash C h" "pbResult e = Inr (blockAt D h)" by (simp_all add: fetcherRight_def)
    with Some sch r1 show thesis
      by (intro that [of "q1\<lparr>pending := (pending q1)(h := None)\<rparr>" s1]) (auto simp: fetchBlock_def fetcherRight_def)
  qed
qed

text \<open>The same for a producer, of which the prefetcher is a field.\<close>

lemma runFetch_served:
  assumes E: "serves E C N" "servesBlocks E B C D N" and h: "0 \<le> h" "h \<le> N"
    and q: "fetcherRight C D N (get (mem p))" and s: "cacheRight C N (cache p)"
  obtains q' p' where "runFetch get put (fetchBlock E B h (cHash C h)) p = (Inr (blockAt D h), p')"
    "fetcherRight C D N q'" "mem p' = put q' (mem p)" "cacheRight C N (cache p')" "quiet E p p'"
proof -
  obtain q' p1 where f: "fetchBlock E B h (cHash C h) (get (mem p), p) = (Inr (blockAt D h), (q', p1))"
    "fetcherRight C D N q'" "cacheRight C N (cache p1)" by (rule fetchBlock_served [OF E h q s])
  from fetchBlock_onlyReads [OF f(1)] obtain n c where p1: "p1 = p\<lparr>now := n, cache := c\<rparr>" by (auto simp: onlyReads_def)
  have run: "runFetch get put (fetchBlock E B h (cHash C h)) p = (Inr (blockAt D h), p1\<lparr>mem := put q' (mem p1)\<rparr>)"
    using f(1) by (simp add: runFetch_def)
  show thesis
    by (rule that [OF run f(2)]) (use f(3) keepsD [OF keeps_runFetch run] in \<open>simp_all add: p1\<close>)
qed

end
