(* ===== verification/SPFaithful.thy ===== *)
theory SPFaithful
  imports ServedBlocks
begin

text \<open>
  The Silent Payments producer keeps the promise of \<open>Faithful\<close>: on a backend that serves
  one chain with its blocks, catching up succeeds, and the tweak files of every whole range at
  or below the re-org-safe depth, at each of the four dust levels, are the ones the chain's
  transactions prescribe.
\<close>

text \<open>What the index of a height should be: nothing below the activation of Taproot.\<close>

definition tweaksAt :: "blockEnv \<Rightarrow> blockData \<Rightarrow> int \<Rightarrow> int \<Rightarrow> spTweakEntry list" where
  "tweaksAt B D tap h = (if h < tap then [] else List.map_filter (spEntryOf B (blockAt D h)) (cTxs D h))"

definition tweakFile :: "'h env \<Rightarrow> blockEnv \<Rightarrow> blockData \<Rightarrow> int \<Rightarrow> nat \<Rightarrow> nat \<Rightarrow> int \<Rightarrow> int \<Rightarrow> bytes" where
  "tweakFile E B D tap net d a b =
     writeSPTweakFileHeader net a d @ concat (map (\<lambda>h. blockTweaks E d (tweaksAt B D tap h)) [a..b])"

text \<open>The library computes the tweak of every transaction after the activation without an error.\<close>

definition tweakable :: "blockEnv \<Rightarrow> blockData \<Rightarrow> int \<Rightarrow> int \<Rightarrow> bool" where
  "tweakable B D tap N \<longleftrightarrow>
     (\<forall>h. tap \<le> h \<and> h \<le> N \<longrightarrow> (\<forall>tx\<in>set (cTxs D h). IsCoinBaseTx B tx \<or>
        (\<exists>r. TransactionTweakData B tx (fetchPrevOutScript (blockAt D h)) = Inr r)))"

definition spHealthy :: "blockEnv \<Rightarrow> 'h chainData \<Rightarrow> blockData \<Rightarrow> int \<Rightarrow> nat \<Rightarrow> 'h env \<Rightarrow> int \<Rightarrow> h2hCache \<Rightarrow> spMem \<Rightarrow> bool" where
  "spHealthy B C D tap net E N c m \<longleftrightarrow>
     serves E C N \<and> servesBlocks E B C D N \<and> tweakable B D tap N \<and> cacheRight C N c \<and>
     spNet m = net \<and> taprootStartHeight m = tap \<and> fetcherRight C D N (spFetcher m) \<and>
     (\<forall>h es. tweakData m h = Some es \<longrightarrow> es = tweaksAt B D tap h) \<and> dom (tweakData m) = dom (spHeightToHash m)"

definition spExpected :: "blockEnv \<Rightarrow> blockData \<Rightarrow> int \<Rightarrow> nat \<Rightarrow> 'h env \<Rightarrow> spTweakFiles \<Rightarrow> int \<Rightarrow> int \<Rightarrow> (string \<times> bytes) list" where
  "spExpected B D tap net E p a b = map (\<lambda>d. (spFileName p d a b, tweakFile E B D tap net d a b)) spTweakDustLimits"

lemma spEntries_total:
  assumes "\<forall>tx\<in>set ts. IsCoinBaseTx B tx \<or> (\<exists>r. TransactionTweakData B tx (fetchPrevOutScript block) = Inr r)"
  shows "spEntries B block h i ts = Inr (List.map_filter (spEntryOf B block) ts)"
proof -
  have "\<exists>es. spEntries B block h i ts = Inr es" using assms by (induction ts arbitrary: i) (force split: option.splits)+
  then show ?thesis using spEntries_map_filter by metis
qed

lemma indexBlock_served:
  assumes "tweakable B D tap N" "tap \<le> h" "h \<le> N" "tweakData (mem p) h = Some []"
  shows "\<exists>p'. indexBlockSPTweakData B h (blockAt D h) p = (Inr (), p') \<and> cache p' = cache p \<and>
    mem p' = (mem p)\<lparr>tweakData := (tweakData (mem p))(h \<mapsto> tweaksAt B D tap h)\<rparr>"
proof -
  have "spEntries B (blockAt D h) h 0 (cTxs D h) = Inr (tweaksAt B D tap h)"
    unfolding tweaksAt_def using assms(1-3) by (subst spEntries_total) (auto simp: tweakable_def)
  then have ix: "spEntries B (blockAt D h) h 0 (txs (blockAt D h)) = Inr (tweaksAt B D tap h)" by (simp add: blockAt_def)
  have "(tweakData (mem p))(h \<mapsto> []) = tweakData (mem p)" using assms(4) by (simp add: fun_upd_idem)
  with ix show ?thesis by (cases "tweaksAt B D tap h = []") (simp_all add: indexBlockSPTweakData_def)
qed

lemma spIngest_served:
  assumes H: "spHealthy B C D tap net E N (cache p) (mem p)" and h: "0 \<le> h" "h \<le> N"
  shows "\<exists>p'. spIngest E B h p = (Inr (), p') \<and> spHealthy B C D tap net E N (cache p') (mem p')"
proof -
  note S = H [unfolded spHealthy_def]
  from S h obtain q where g: "getBlockHash E h p = (Inr (cHash C h), q)" "cacheRight C N (cache q)"
    by (blast elim: getBlockHash_served)
  have m: "mem q = mem p" using getBlockHash_quiet [OF g(1)] by (simp add: wrote_def)
  define r where "r = q\<lparr>mem := (mem q)\<lparr>tweakData := (tweakData (mem q))(h \<mapsto> []),
       spHeightToHash := (spHeightToHash (mem q))(h \<mapsto> cHash C h)\<rparr>\<rparr>"
  have r: "cacheRight C N (cache r)" "taprootStartHeight (mem r) = tap" "fetcherRight C D N (spFetcher (mem r))" "tweakData (mem r) h = Some []"
    using S g(2) m by (simp_all add: r_def)
  show ?thesis
  proof (cases "h < tap")
    case True
    then have "spIngest E B h p = (Inr (), r)"
      using g(1) r(2) by (simp add: spIngest_def goBind_def goWrap_def goModify_def r_def)
    moreover have "tweaksAt B D tap h = []" using True by (simp add: tweaksAt_def)
    ultimately show ?thesis using S m g(2) by (auto simp: spHealthy_def r_def)
  next
    case False
    obtain f r1 where f: "runFetch spFetcher (\<lambda>q m. m\<lparr>spFetcher := q\<rparr>) (fetchBlock E B h (cHash C h)) r = (Inr (blockAt D h), r1)"
      "fetcherRight C D N f" "mem r1 = (mem r)\<lparr>spFetcher := f\<rparr>" "cacheRight C N (cache r1)"
      using runFetch_served [where get = spFetcher and put = "\<lambda>q m. m\<lparr>spFetcher := q\<rparr>", of E C N B D h r] S h r(1,3) by metis
    have "tweakData (mem r1) h = Some []" using f(3) r(4) by simp
    with indexBlock_served [of B D tap N h r1] S h False obtain p' where ix: "indexBlockSPTweakData B h (blockAt D h) r1 = (Inr (), p')"
      "cache p' = cache r1" "mem p' = (mem r1)\<lparr>tweakData := (tweakData (mem r1))(h \<mapsto> tweaksAt B D tap h)\<rparr>" by auto
    have "spIngest E B h p = (Inr (), p')"
      using g(1) False f(1) ix(1) r(2) by (simp add: spIngest_def goBind_def goWrap_def goModify_def r_def)
    moreover have "spHealthy B C D tap net E N (cache p') (mem p')"
      using S m f(2-4) ix(2,3) by (auto simp: spHealthy_def r_def split: if_splits)
    ultimately show ?thesis by blast
  qed
qed

lemma spWrite_served:
  assumes H: "spHealthy B C D tap net E N (cache p) (mem p)" and ab: "{a..b} \<subseteq> dom (tweakData (mem p))"
  shows "\<exists>p'. spWriteSealedFile E a b p = (Inr (), p') \<and> spHealthy B C D tap net E N (cache p') (mem p') \<and>
    (\<forall>(f, bs)\<in>set (spExpected B D tap net E p a b). map_of (disk p') f = Some bs)"
proof -
  note S = H [unfolded spHealthy_def]
  have s: "serves E C N" using S by blast
  have es: "collect (tweakData (mem p)) [a..b] = Inr (map (tweaksAt B D tap) [a..b])"
    by (rule collect_chain) (use S ab in auto)
  have out: "serializeSPTweaks E (mem p) d a b = (tweakFile E B D tap net d a b, None)" for d
    using streamEach_collect [OF es] S by (simp add: serializeSPTweaks_def tweakFile_def comp_def)
  have "\<exists>p'. writeBatch E (spBatch E p (rev spTweakDustLimits) a b) p = (Inr (), p')"
    by (rule writeBatch_succeeds) (use out servesD(2) [OF s] in \<open>auto simp: spBatch_def\<close>)
  then obtain p' where run: "spWriteSealedFile E a b p = (Inr (), p')" by (auto simp: spWriteSealedFile_def)
  have w: "wrote E (set (spRangeFiles p a b)) p p'"
    using keepsD [OF writeBatch_wrote [of "spBatch E p (rev spTweakDustLimits) a b"], of "set (spRangeFiles p a b)" E p "Inr ()" p'] run
    by (simp add: spWriteSealedFile_def flip: spBatch_files [of E])
  have "cacheRight C N (cache p')" by (rule cacheRight_grows [OF s, of p]) (use S w in \<open>simp_all add: wrote_def\<close>)
  moreover have "mem p' = mem p" using w by (simp add: wrote_def)
  ultimately have "spHealthy B C D tap net E N (cache p') (mem p')" using S by (simp add: spHealthy_def)
  with run spWrite_ok [OF run] out show ?thesis by (auto simp: spExpected_def)
qed

interpretation spf: faithful_producer "spHooks B" spRangeFiles "\<lambda>E N p. spHealthy B C D tap net E N (cache p) (mem p)" "spExpected B D tap net"
  for B C D tap net
proof unfold_locales
  fix E :: "'a env" and N a b h :: int and n and p q :: spTweakFiles
  assume H: "spHealthy B C D tap net E N (cache p) (mem p)"
  show "\<not> quitClosed E n \<and> ioFaults E n = None" using H servesD(1,2) by (auto simp: spHealthy_def)
  show "mem q = mem p \<Longrightarrow> cache q = cache p \<Longrightarrow> spHealthy B C D tap net E N (cache q) (mem q)" using H by simp
  show "0 \<le> h \<Longrightarrow> h \<le> N \<Longrightarrow> \<exists>p'. ingest (spHooks B E) h p = (Inr (), p') \<and> spHealthy B C D tap net E N (cache p') (mem p')"
    using spIngest_served [OF H, of h] by (simp add: spHooks_def)
  show "fst ` set (spExpected B D tap net E p a b) = set (spRangeFiles p a b)"
    by (simp add: spExpected_def spRangeFiles_def image_image)
  show "\<exists>p'. writeSealedFile (spHooks B E) a b p = (Inr (), p') \<and>
      (\<forall>(f, bs)\<in>set (spExpected B D tap net E p a b). map_of (disk p') f = Some bs) \<and>
      spHealthy B C D tap net E N (cache (p'\<lparr>mem := pruneLocked (spHooks B E) a b (mem p'), lastSealedHeight := b\<rparr>))
        (mem (p'\<lparr>mem := pruneLocked (spHooks B E) a b (mem p'), lastSealedHeight := b\<rparr>))"
    if inv: "tailInv (spHooks B E) spRangeFiles p" and ab: "a = lastSealedHeight p + 1" "b = lastSealedHeight p + entriesPerFile p"
      "b \<le> currentHeight p" "currentHeight p \<le> N"
  proof -
    have "cachedHash (spHooks B E) (mem p) = spHeightToHash (mem p)" by (simp add: spHooks_def spCachedHash_def fun_eq_iff)
    with spt.seal_range(4) [OF inv ab] H have "{a..b} \<subseteq> dom (tweakData (mem p))" by (simp add: spHealthy_def)
    from spWrite_served [OF H this] obtain p' where p': "spWriteSealedFile E a b p = (Inr (), p')"
      "spHealthy B C D tap net E N (cache p') (mem p')" "\<forall>(f, bs)\<in>set (spExpected B D tap net E p a b). map_of (disk p') f = Some bs" by auto
    have "spHealthy B C D tap net E N (cache p') (spPrune a b (mem p'))"
      using p'(2) by (auto simp: spHealthy_def spPrune_def deleteRange_apply dom_deleteRange split: if_splits)
    with p' show ?thesis by (simp add: spHooks_def)
  qed
next
  fix E :: "'a env" and p q :: spTweakFiles
  show "conf q = conf p \<Longrightarrow> spExpected B D tap net E q = spExpected B D tap net E p"
    using spFileName_cong [of q p] by (simp add: spExpected_def fun_eq_iff)
qed

subsection \<open>Refinement\<close>

text \<open>
  Claim C3. The Silent Payments producer refines the chain: on a backend that serves a chain and
  its blocks up to height \<open>N\<close>, its \<open>updateFiles\<close> catches up without error from a disk
  with the files of the first \<open>k\<close> ranges (none of them at the first start), and for every
  whole range at or below the re-org-safe depth and every dust level the file on disk is the
  metadata of that range followed by, for each height, the tweaks of its block above the dust
  limit, and none below the activation of Taproot.
\<close>

theorem sp_files_refine_chain:
  assumes E: "serves E C N" "servesBlocks E B C D N" "tweakable B D tap N" and s: "cacheRight C N (cache s)"
    and net: "TaprootActivationHeights net = Some tap"
    and n: "0 < n" "n \<le> heightBound" and d: "0 \<le> depth" "depth \<le> heightBound" and N: "k * n \<le> N" "N \<le> heightBound"
    and dir: "plainDir (joinPath dir (spTweakDustDir 0))" "sealedRanges (disk s) (joinPath dir (spTweakDustDir 0)) SPTweakFileSuffix n k"
    and k: "0 \<le> k" "k * n \<le> 10000000" "k * n \<noteq> 1"
    and p: "p = newSPTweakFiles n depth dir net magic (newBlockPrefetcher True True) s"
    and found: "contentsRight (spExpected B D tap magic E) (p\<lparr>lastSealedHeight := k * n - 1\<rparr>)"
  shows "\<exists>p'. spUpdateFiles E B N 0 p = (Inr (), p') \<and> startupComplete p' \<and> currentHeight p' = N \<and>
    (\<forall>j d. 0 \<le> j \<and> j * n + n - 1 \<le> N - depth \<and> d \<in> set spTweakDustLimits \<longrightarrow>
       map_of (disk p') (spFileName p d (j * n) (j * n + n - 1)) = Some (tweakFile E B D tap magic d (j * n) (j * n + n - 1)))"
proof -
  have io: "\<forall>t. ioFaults E t = None" using servesD(2) [OF E(1)] by blast
  obtain m where mk: "goForEach spTweakDustLimits (\<lambda>_. goWrap ''error creating directory'' [] (mkdirAll E)) p = (Inr (), p\<lparr>now := m\<rparr>)"
    by (rule mkdirs_ok [OF io])
  let ?p = "p\<lparr>now := m\<rparr>"
  have e: "entriesPerFile ?p = n" "reOrgSafeDepth ?p = depth" by (simp_all add: p newSPTweakFiles_def)
  have c: "conf ?p = conf p" "conf (?p\<lparr>lastSealedHeight := k * n - 1\<rparr>) = conf (p\<lparr>lastSealedHeight := k * n - 1\<rparr>)" by (simp_all add: conf_def)
  have H: "spHealthy B C D tap magic E N (cache (?p\<lparr>lastSealedHeight := k * n - 1\<rparr>)) (mem (?p\<lparr>lastSealedHeight := k * n - 1\<rparr>))"
    using E s net by (simp add: spHealthy_def p newSPTweakFiles_def fetcherRight_def newBlockPrefetcher_def)
  have found': "contentsRight (spExpected B D tap magic E) (?p\<lparr>lastSealedHeight := k * n - 1\<rparr>)"
    using found by (subst spf.contentsRight_cong [OF c(2)]) simp_all
  have q: "sealedRanges (disk ?p) (joinPath (baseDir ?p) (subDir ?p)) (fileSuffix ?p) (entriesPerFile ?p) k"
    "extractSuffix ?p = fileSuffix ?p" "plainDir (joinPath (baseDir ?p) (subDir ?p))" "confOK ?p" "dom (cachedHash (spHooks B E) (mem ?p)) = {}"
    using dir n d by (simp_all add: p newSPTweakFiles_def spTweakDustLimits_def confOK_def spHooks_def spCachedHash_def fun_eq_iff)
  obtain p' where r: "startUp E (spHooks B E) N ?p = (Inr (), p')" "tailInv (spHooks B E) spRangeFiles p'"
    "startupComplete p'" "currentHeight p' = N" "conf p' = conf ?p" "contentsRight (spExpected B D tap magic E) p'"
    "N - depth < lastSealedHeight p' + n"
    using spf.startUp_faithful [OF q, of N C D tap magic, unfolded e, OF k N H found'] by blast
  have "taprootSupported (mem p)" using net by (simp add: p newSPTweakFiles_def)
  then have run: "spUpdateFiles E B N 0 p = (Inr (), p')" using mk r(1) by (simp add: spUpdateFiles_def goBind_def updateFiles_none)
  note all = spf.contents_of_whole_ranges [OF r(2,5,6), unfolded e, OF r(7)]
  have name: "spFileName ?p = spFileName p" using spFileName_cong [OF c(1)] by simp
  have "map_of (disk p') (spFileName p d (j * n) (j * n + n - 1)) = Some (tweakFile E B D tap magic d (j * n) (j * n + n - 1))"
    if "0 \<le> j" "j * n + n - 1 \<le> N - depth" "d \<in> set spTweakDustLimits" for j d
    by (rule all [OF that(1,2)]) (use that(3) name in \<open>auto simp: spExpected_def\<close>)
  with run r(3,4) show ?thesis by blast
qed

subsection \<open>A concrete run\<close>

text \<open>
  The miniature chain with one block of two transactions per height, the second of which pays
  700 to a taproot output; Taproot is active from height 1.
\<close>

definition spentOutputs :: "txOut list list" where "spentOutputs = [[], [\<lparr>Value = 5, PkScript = [81]\<rparr>]]"

definition servedBlocks :: blockEnv where
  "servedBlocks = spBlocks\<lparr>
     httpGet := (\<lambda>_ path. Inr (200, Inr (if take 12 path = ''/rest/block/'' then [42] else encodeSpent (miniEnv 1) spentOutputs))),
     MsgBlockDeserialize := (\<lambda>_. Inr [\<lparr>TxIn = [], TxOut = []\<rparr>, spPaying 700])\<rparr>"

definition servedData :: blockData where
  "servedData = \<lparr>cTxs = (\<lambda>_. [\<lparr>TxIn = [], TxOut = []\<rparr>, spPaying 700]), cSpent = (\<lambda>_. spentOutputs)\<rparr>"

lemma served_ok: "servesBlocks (miniEnv 1) servedBlocks miniData servedData N"
  using mini_wire_codec [of 1]
  by (simp add: servesBlocks_def wellFormedBlock_def servedBlocks_def servedData_def spentOutputs_def spPaying_def
      maxSpentTxOutsPerBlock_def MaxBlockPayload_def MaxMessagePayload_def wireTxOut_def)

lemma served_tweakable: "tweakable servedBlocks servedData 1 1"
  by (simp add: tweakable_def servedBlocks_def servedData_def spBlocks_def)

lemma served_tweaks: "tweaksAt servedBlocks servedData 1 0 = []"
  "tweaksAt servedBlocks servedData 1 1 = [\<lparr>tweak = replicate 33 2, maxValue = 700\<rparr>]"
  by (simp_all add: tweaksAt_def servedData_def servedBlocks_def spBlocks_def spPaying_def spEntryOf_def map_filter_simps
      copy33_def maxTaprootValue_def u64_def)

lemma sp_files_refine_chain_witness:
  "\<exists>p'. spUpdateFiles (miniEnv 1) servedBlocks 1 0 (newSPTweakFiles 2 0 ''/d'' SigNet 77 (newBlockPrefetcher True True) miniShared) = (Inr (), p') \<and>
     map_of (disk p') (spFileName (newSPTweakFiles 2 0 ''/d'' SigNet 77 (newBlockPrefetcher True True) miniShared) 600 0 1) =
       Some (writeSPTweakFileHeader 77 0 600 @ [0, 1] @ replicate 33 2)"
proof -
  let ?p = "newSPTweakFiles 2 0 ''/d'' SigNet 77 (newBlockPrefetcher True True) miniShared"
  have dir: "plainDir (joinPath ''/d'' (spTweakDustDir 0))"
    by (simp add: plainDir_def joinPath_def spTweakDustDir_def SPTweakFileDir_def upt_rec decimal.simps)
  have sr: "sealedRanges (disk miniShared) (joinPath ''/d'' (spTweakDustDir 0)) SPTweakFileSuffix 2 0"
    by (simp add: sealedRanges_def miniShared_def)
  have found: "contentsRight (spExpected servedBlocks servedData 1 77 (miniEnv 1)) (?p\<lparr>lastSealedHeight := 0 * 2 - 1\<rparr>)"
    by (auto simp: contentsRight_def newSPTweakFiles_def)
  have c: "cacheRight miniData 1 (cache miniShared)" by (simp add: cacheRight_def miniShared_def newH2HCache_def)
  have net: "TaprootActivationHeights SigNet = Some 1" by simp
  have b: "(0::int) < 2" "2 \<le> heightBound" "(0::int) \<le> 0" "0 \<le> heightBound" "0 * 2 \<le> (1::int)" "1 \<le> heightBound"
    by (simp_all add: heightBound_def)
  obtain p' where r: "spUpdateFiles (miniEnv 1) servedBlocks 1 0 ?p = (Inr (), p')"
    and all: "\<forall>j d. 0 \<le> j \<and> j * 2 + 2 - 1 \<le> 1 - 0 \<and> d \<in> set spTweakDustLimits \<longrightarrow>
       map_of (disk p') (spFileName ?p d (j * 2) (j * 2 + 2 - 1)) = Some (tweakFile (miniEnv 1) servedBlocks servedData 1 77 d (j * 2) (j * 2 + 2 - 1))"
    using sp_files_refine_chain [OF conjunct1 [OF miniData_ok] served_ok served_tweakable c net b dir sr _ _ _ refl found] by auto
  have "tweakFile (miniEnv 1) servedBlocks servedData 1 77 600 0 1 = writeSPTweakFileHeader 77 0 600 @ [0, 1] @ replicate 33 2"
    by (simp add: tweakFile_def upto_01 served_tweaks blockTweaks_def keptTweaks_def miniEnv_def compactSize_def)
  with r all [rule_format, of 0 600] show ?thesis by (simp add: spTweakDustLimits_def)
qed

end
