(* ===== verification/CustomFaithful.thy ===== *)
theory CustomFaithful
  imports SPFaithful
begin

text \<open>
  The custom filter producer keeps the promise of \<open>Faithful\<close>. Its headers commit to all
  filters before them, so the law for ingesting a block needs the files sealed so far: after a
  restart the headers before the first block are read from the last header file and the filter
  files after it. \<open>customHealthy\<close> says which headers are in memory; the lemmas up to
  \<open>prevHeaders_served\<close> show that both ways of finding the previous headers give those of
  the chain.
\<close>

subsection \<open>The filters of a chain\<close>

text \<open>The filter of a configuration at a height, and the BIP157 header that commits to it.\<close>

definition filterAt :: "blockEnv \<Rightarrow> 'h chainData \<Rightarrow> blockData \<Rightarrow> customFilterConfig \<Rightarrow> int \<Rightarrow> bytes" where
  "filterAt B C D cfg h =
     (case GCSBuild B (cHash C h) (filter (matchesConfig B cfg) (blockScripts B (blockAt D h))) of
        Inl _ \<Rightarrow> []
      | Inr f \<Rightarrow> (case GCSNBytes B f of Inl _ \<Rightarrow> [] | Inr bs \<Rightarrow> bs))"

definition headerAt :: "'h env \<Rightarrow> blockEnv \<Rightarrow> 'h chainData \<Rightarrow> blockData \<Rightarrow> customFilterConfig \<Rightarrow> int \<Rightarrow> hash" where
  "headerAt E B C D cfg h = filterChain E zeroHash (map (filterAt B C D cfg) [0..h])"

definition filtersAt :: "blockEnv \<Rightarrow> 'h chainData \<Rightarrow> blockData \<Rightarrow> int \<Rightarrow> bytes list" where
  "filtersAt B C D h = map (\<lambda>cfg. filterAt B C D cfg h) customFilterConfigs"

definition headersAt :: "'h env \<Rightarrow> blockEnv \<Rightarrow> 'h chainData \<Rightarrow> blockData \<Rightarrow> int \<Rightarrow> hash list" where
  "headersAt E B C D h = map (\<lambda>cfg. headerAt E B C D cfg h) customFilterConfigs"

text \<open>The filter library builds every filter, and no filter exceeds the largest message.\<close>

definition filterable :: "blockEnv \<Rightarrow> 'h chainData \<Rightarrow> blockData \<Rightarrow> int \<Rightarrow> bool" where
  "filterable B C D N \<longleftrightarrow>
     (\<forall>h cfg. 0 \<le> h \<and> h \<le> N \<and> cfg \<in> set customFilterConfigs \<longrightarrow>
        (\<exists>f bs. GCSBuild B (cHash C h) (filter (matchesConfig B cfg) (blockScripts B (blockAt D h))) = Inr f \<and>
           GCSNBytes B f = Inr bs \<and> length bs \<le> MaxMessagePayload))"

lemma headersAt_before: "h < 0 \<Longrightarrow> headersAt E B C D h = zeroHeaders"
  by (simp add: headersAt_def headerAt_def filterChain_def zeroHeaders_def)

lemma headersAt_chain: "chainAt E (filterAt B C D) zeroHeaders 0 h = headersAt E B C D h"
  by (simp add: chainAt_def headersAt_def headerAt_def zeroHeaders_def customFilterConfigs_def)

lemma length_zeroHeaders [simp]: "length zeroHeaders = length customFilterConfigs"
  by (simp add: zeroHeaders_def)

lemma length_headersAt [simp]: "length (headersAt E B C D h) = length customFilterConfigs"
  by (simp add: headersAt_def)

lemma headersAt_from:
  assumes "0 \<le> a" "a - 1 \<le> h"
  shows "chainAt E (filterAt B C D) (headersAt E B C D (a - 1)) a h = headersAt E B C D h"
  using chainAt_chain [of 0 "a - 1" h zeroHeaders E "filterAt B C D"] assms
  by (simp add: headersAt_chain)

lemma headersAt_step:
  assumes "0 \<le> h"
  shows "map2 (filterHeaderFromBytes E) (filtersAt B C D h) (headersAt E B C D (h - 1)) = headersAt E B C D h"
proof -
  have "[0..h] = [0..h - 1] @ [h]" using assms by (rule upto_snoc)
  then show ?thesis by (intro nth_equalityI) (simp_all add: filtersAt_def headersAt_def headerAt_def filterChain_snoc)
qed

lemma buildCustom_served:
  assumes "filterable B C D N" "0 \<le> h" "h \<le> N"
  obtains fs where "buildCustomFilters B (cHash C h) (blockAt D h) = Inr fs"
    "\<And>prevs. length prevs = length customFilterConfigs \<Longrightarrow>
       serializeAll E B fs prevs = Inr (zip (filtersAt B C D h) (map2 (filterHeaderFromBytes E) (filtersAt B C D h) prevs))"
proof -
  let ?in = "\<lambda>cfg. filter (matchesConfig B cfg) (blockScripts B (blockAt D h))"
  have ex: "\<exists>f. GCSBuild B (cHash C h) (?in cfg) = Inr f \<and> GCSNBytes B f = Inr (filterAt B C D cfg h)"
    if cfg: "cfg \<in> set customFilterConfigs" for cfg
  proof -
    obtain f bs where "GCSBuild B (cHash C h) (?in cfg) = Inr f" "GCSNBytes B f = Inr bs"
      using assms cfg unfolding filterable_def by metis
    then show ?thesis by (simp add: filterAt_def)
  qed
  have all: "\<exists>fs. list_all2 (\<lambda>b f. GCSBuild B (cHash C h) b = Inr f) (map ?in cfgs) fs \<and>
      (\<forall>prevs. length prevs = length cfgs \<longrightarrow> serializeAll E B fs prevs =
         Inr (zip (map (\<lambda>cfg. filterAt B C D cfg h) cfgs) (map2 (filterHeaderFromBytes E) (map (\<lambda>cfg. filterAt B C D cfg h) cfgs) prevs)))"
    if "set cfgs \<subseteq> set customFilterConfigs" for cfgs
    using that
  proof (induction cfgs)
    case (Cons cfg cfgs)
    from ex [of cfg] Cons.prems obtain f where f: "GCSBuild B (cHash C h) (?in cfg) = Inr f" "GCSNBytes B f = Inr (filterAt B C D cfg h)" by auto
    from Cons obtain fs where fs: "list_all2 (\<lambda>b f. GCSBuild B (cHash C h) b = Inr f) (map ?in cfgs) fs"
      "\<And>prevs. length prevs = length cfgs \<Longrightarrow> serializeAll E B fs prevs =
         Inr (zip (map (\<lambda>cfg. filterAt B C D cfg h) cfgs) (map2 (filterHeaderFromBytes E) (map (\<lambda>cfg. filterAt B C D cfg h) cfgs) prevs))" by auto
    show ?case
    proof (intro exI [of _ "f # fs"] conjI allI impI)
      show "list_all2 (\<lambda>b f. GCSBuild B (cHash C h) b = Inr f) (map ?in (cfg # cfgs)) (f # fs)" using f fs by simp
      fix prevs :: "hash list"
      assume "length prevs = length (cfg # cfgs)"
      then obtain pr prs where "prevs = pr # prs" "length prs = length cfgs" by (cases prevs) auto
      with f fs(2) [of prs]
      show "serializeAll E B (f # fs) prevs = Inr (zip (map (\<lambda>cfg. filterAt B C D cfg h) (cfg # cfgs))
          (map2 (filterHeaderFromBytes E) (map (\<lambda>cfg. filterAt B C D cfg h) (cfg # cfgs)) prevs))" by simp
    qed
  qed simp
  from all [OF order_refl] obtain fs where fs: "list_all2 (\<lambda>b f. GCSBuild B (cHash C h) b = Inr f) (map ?in customFilterConfigs) fs"
    "\<forall>prevs. length prevs = length customFilterConfigs \<longrightarrow> serializeAll E B fs prevs =
       Inr (zip (filtersAt B C D h) (map2 (filterHeaderFromBytes E) (filtersAt B C D h) prevs))"
    unfolding filtersAt_def by blast
  show thesis by (rule that [of fs]) (use fs in \<open>simp_all add: buildCustomFilters_eq buildAll_iff\<close>)
qed

subsection \<open>The files and the memory of a healthy producer\<close>

definition customExpected :: "blockEnv \<Rightarrow> 'h chainData \<Rightarrow> blockData \<Rightarrow> int \<Rightarrow> 'h env \<Rightarrow> customFilterFiles \<Rightarrow> int \<Rightarrow> int \<Rightarrow> (string \<times> bytes) list" where
  "customExpected B C D hpf E p a b =
     map (\<lambda>cfg. (cuFilterFileName p (cfgName cfg) a b, concat (map (\<lambda>h. WriteVarBytes E (filterAt B C D cfg h)) [a..b]))) customFilterConfigs @
     (if add32 b 1 mod hpf = 0
      then map (\<lambda>cfg. (cuHeaderFileName p (cfgName cfg) (sub32 (add32 b 1) hpf) b, concat (map (headerAt E B C D cfg) [sub32 (add32 b 1) hpf..b])))
             customFilterConfigs
      else [])"

text \<open>The first height of the header file that is open after height \<open>L\<close>.\<close>

definition spanStart :: "int \<Rightarrow> int \<Rightarrow> int" where "spanStart hpf L = (L + 1) div hpf * hpf"

definition headersKept :: "blockEnv \<Rightarrow> 'h chainData \<Rightarrow> blockData \<Rightarrow> 'h env \<Rightarrow> int \<Rightarrow> customMem \<Rightarrow> bool" where
  "headersKept B C D E lo m \<longleftrightarrow>
     (\<forall>h hs. cuFilterHeaders m h = Some hs \<longrightarrow> hs = headersAt E B C D h) \<and>
     (\<forall>h\<in>dom (cuFilterHeaders m). {lo..h} \<subseteq> dom (cuFilterHeaders m))"

definition customHealthy :: "blockEnv \<Rightarrow> 'h chainData \<Rightarrow> blockData \<Rightarrow> int \<Rightarrow> 'h env \<Rightarrow> int \<Rightarrow> customFilterFiles \<Rightarrow> bool" where
  "customHealthy B C D hpf E N p \<longleftrightarrow>
     serves E C N \<and> servesBlocks E B C D N \<and> filterable B C D N \<and> hash_codec E \<and> N \<le> heightBound \<and>
     0 < hpf \<and> hpf \<le> heightBound \<and> hpf mod entriesPerFile p = 0 \<and> headersPerFile (mem p) = hpf \<and>
     cacheRight C N (cache p) \<and> fetcherRight C D N (cuFetcher (mem p)) \<and>
     (\<forall>h fs. cuFilters (mem p) h = Some fs \<longrightarrow> fs = filtersAt B C D h) \<and> dom (cuFilters (mem p)) = dom (cuHeightToHash (mem p)) \<and>
     dom (cuHeightToHash (mem p)) \<subseteq> dom (cuFilterHeaders (mem p)) \<and>
     headersKept B C D E (spanStart hpf (lastSealedHeight p)) (mem p)"

lemma files_of_range:
  assumes R: "contentsRight (customExpected B C D hpf E) p" and j: "0 \<le> j" "j * entriesPerFile p + entriesPerFile p - 1 \<le> lastSealedHeight p"
  shows "filterFilesOn E (filterAt B C D) p (j * entriesPerFile p) (j * entriesPerFile p + entriesPerFile p - 1)"
    and "\<lbrakk>(b + 1) mod hpf = 0; b = j * entriesPerFile p + entriesPerFile p - 1; 0 < hpf; hpf \<le> heightBound; 0 \<le> b; b \<le> heightBound; cfg \<in> set customFilterConfigs\<rbrakk> \<Longrightarrow>
      map_of (disk p) (cuHeaderFileName p (cfgName cfg) (b + 1 - hpf) b) = Some (concat (map (headerAt E B C D cfg) [b + 1 - hpf..b]))"
proof -
  let ?a = "j * entriesPerFile p" and ?b = "j * entriesPerFile p + entriesPerFile p - 1"
  have all: "map_of (disk p) f = Some bs" if "(f, bs) \<in> set (customExpected B C D hpf E p ?a ?b)" for f bs
    using R j that unfolding contentsRight_def by fastforce
  show "filterFilesOn E (filterAt B C D) p ?a ?b"
    unfolding filterFilesOn_def by (intro ballI all) (simp add: customExpected_def)
  assume b: "(b + 1) mod hpf = 0" "b = ?b" "0 < hpf" "hpf \<le> heightBound" "0 \<le> b" "b \<le> heightBound" "cfg \<in> set customFilterConfigs"
  have "add32 b 1 = b + 1" using b(5,6) by (simp add: add32_id heightBound_def)
  moreover from this have "sub32 (add32 b 1) hpf = b + 1 - hpf" using b(3-6) by (simp add: sub32_id heightBound_def)
  ultimately show "map_of (disk p) (cuHeaderFileName p (cfgName cfg) (b + 1 - hpf) b) = Some (concat (map (headerAt E B C D cfg) [b + 1 - hpf..b]))"
    using b by (intro all) (simp add: customExpected_def)
qed

subsection \<open>The headers before a block\<close>

lemma readAnchors_value:
  assumes io: "\<forall>n. ioFaults E n = None" and len: "\<And>cfg h. length (g cfg h) = HashSize"
    and ab: "a \<le> b" "headersPerFile (mem p) = b - a + 1"
    and dat: "\<forall>cfg\<in>set cfgs. map_of (disk p) (cuHeaderFileName p (cfgName cfg) a b) = Some (concat (map (g cfg) [a..b]))"
  shows "\<exists>n. readAnchors E cfgs a b p = (Inr (map (\<lambda>cfg. g cfg b) cfgs), p\<lparr>now := n\<rparr>)"
  using ab(2) dat
proof (induction cfgs arbitrary: p)
  case Nil
  have "p = p\<lparr>now := now p\<rparr>" by simp
  then show ?case by (metis list.simps(8) readAnchors.simps(1))
next
  case (Cons cfg cfgs)
  let ?q = "p\<lparr>now := Suc (now p)\<rparr>" and ?dat = "concat (map (g cfg) [a..b])"
  have sum: "length (concat (map (g cfg) hs)) = length hs * HashSize" for hs by (induction hs) (simp_all add: len)
  have "[a..b] = [a..b - 1] @ [b]" using ab(1) by (rule upto_snoc)
  then have dat: "?dat = concat (map (g cfg) [a..b - 1]) @ g cfg b" by simp
  have last: "drop (length ?dat - HashSize) ?dat = g cfg b" unfolding dat using len by simp
  have l: "int (length ?dat) = headersPerFile (mem p) * int HashSize" unfolding sum using Cons.prems(1) ab(1) by simp
  have r: "readFile E (cuHeaderFileName p (cfgName cfg) a b) p = (Inr ?dat, ?q)"
    using Cons.prems(2) io by (simp add: readFile_def)
  have "\<exists>n. readAnchors E cfgs a b ?q = (Inr (map (\<lambda>cfg. g cfg b) cfgs), ?q\<lparr>now := n\<rparr>)"
    by (rule Cons.IH) (use Cons.prems in \<open>simp_all add: cuHeaderFileName_def\<close>)
  then obtain n where "readAnchors E cfgs a b ?q = (Inr (map (\<lambda>cfg. g cfg b) cfgs), ?q\<lparr>now := n\<rparr>)" ..
  then show ?case using r l last by (auto simp: goBind_def goWrap_def goRet_def)
qed

lemma length_headerAt: "hash_codec E \<Longrightarrow> length (headerAt E B C D cfg h) = HashSize"
proof (cases "0 \<le> h")
  case True
  assume "hash_codec E"
  moreover have "[0..h] = [0..h - 1] @ [h]" using True by (rule upto_snoc)
  ultimately show ?thesis by (simp add: headerAt_def filterChain_snoc filterHeaderFromBytes_def hash_codec_def)
qed (simp add: headerAt_def filterChain_def zeroHash_def HashSize_def)

lemma chainAt_cong:
  assumes "\<And>cfg x. cfg \<in> set customFilterConfigs \<Longrightarrow> a \<le> x \<Longrightarrow> x \<le> h \<Longrightarrow> G cfg x = G' cfg x"
  shows "chainAt E G prevs a h = chainAt E G' prevs a h"
  unfolding chainAt_def
proof (rule map_cong [OF refl], clarify)
  fix cfg pr
  assume "(cfg, pr) \<in> set (zip customFilterConfigs prevs)"
  then have "cfg \<in> set customFilterConfigs" by (rule set_zip_leftD)
  then have "map (G cfg) [a..h] = map (G' cfg) [a..h]" using assms by simp
  then show "filterChain E pr (map (G cfg) [a..h]) = filterChain E pr (map (G' cfg) [a..h])" by (rule arg_cong)
qed

lemma filterFilesOn_cong:
  assumes "\<And>cfg x. cfg \<in> set customFilterConfigs \<Longrightarrow> a \<le> x \<Longrightarrow> x \<le> b \<Longrightarrow> G cfg x = G' cfg x"
  shows "filterFilesOn E G p a b = filterFilesOn E G' p a b"
  unfolding filterFilesOn_def
proof (rule ball_cong [OF refl])
  fix cfg
  assume "cfg \<in> set customFilterConfigs"
  then have "map (\<lambda>h. WriteVarBytes E (G cfg h)) [a..b] = map (\<lambda>h. WriteVarBytes E (G' cfg h)) [a..b]"
    by (intro map_cong [OF refl]) (simp add: assms)
  then show "(map_of (disk p) (cuFilterFileName p (cfgName cfg) a b) = Some (concat (map (\<lambda>h. WriteVarBytes E (G cfg h)) [a..b]))) =
      (map_of (disk p) (cuFilterFileName p (cfgName cfg) a b) = Some (concat (map (\<lambda>h. WriteVarBytes E (G' cfg h)) [a..b])))"
    by (rule arg_cong)
qed

text \<open>The headers up to \<open>h - 1\<close> rebuilt from those before \<open>a\<close> and the filter files since.\<close>

lemma rebuild_served:
  assumes H: "customHealthy B C D hpf E N p" and a: "0 \<le> a" "a < h" "h \<le> N" "h = a + int j * entriesPerFile p" and n: "0 < entriesPerFile p"
    and files: "\<forall>i<j. filterFilesOn E (filterAt B C D) p (a + int i * entriesPerFile p) (a + int i * entriesPerFile p + entriesPerFile p - 1)"
  shows "\<exists>p'. rebuildFilterHeaders E (headersAt E B C D (a - 1)) a (h - 1) p = (Inr (headersAt E B C D (h - 1)), p') \<and>
    (\<forall>x. cuFilterHeaders (mem p') x = (if a \<le> x \<and> x < h then Some (headersAt E B C D x) else cuFilterHeaders (mem p) x))"
proof -
  let ?n = "entriesPerFile p"
  note S = H [unfolded customHealthy_def]
  have env: "wire_codec E" "\<forall>n. ioFaults E n = None" using S servesD(2) [of E C N] by (auto simp: servesBlocks_def)
  define G where "G = (\<lambda>cfg x. if cfg \<in> set customFilterConfigs \<and> 0 \<le> x \<and> x \<le> N then filterAt B C D cfg x else [])"
  have len: "\<forall>cfg x. length (G cfg x) \<le> MaxMessagePayload"
  proof (intro allI)
    fix cfg x
    show "length (G cfg x) \<le> MaxMessagePayload"
    proof (cases "cfg \<in> set customFilterConfigs \<and> 0 \<le> x \<and> x \<le> N")
      case True
      then obtain f bs where "GCSBuild B (cHash C x) (filter (matchesConfig B cfg) (blockScripts B (blockAt D x))) = Inr f"
        "GCSNBytes B f = Inr bs" "length bs \<le> MaxMessagePayload" using S unfolding filterable_def by blast
      then show ?thesis by (simp add: G_def filterAt_def)
    qed (auto simp: G_def)
  qed
  have same: "chainAt E G prevs a x = chainAt E (filterAt B C D) prevs a x" if "x < h" for prevs x
    by (rule chainAt_cong) (use a that in \<open>simp add: G_def\<close>)
  have files': "\<forall>i<j. filterFilesOn E G p (a + int i * ?n) (a + int i * ?n + ?n - 1)"
  proof (intro allI impI)
    fix i
    assume i: "i < j"
    then have "int (Suc i) * ?n \<le> int j * ?n" using n by (intro mult_right_mono) simp_all
    moreover have "int (Suc i) * ?n = int i * ?n + ?n" by (simp add: algebra_simps)
    ultimately have top: "a + int i * ?n + ?n - 1 \<le> N" using a by linarith
    have low: "0 \<le> a + int i * ?n" using n a(1) by simp
    have "filterFilesOn E G p (a + int i * ?n) (a + int i * ?n + ?n - 1) = filterFilesOn E (filterAt B C D) p (a + int i * ?n) (a + int i * ?n + ?n - 1)"
      by (rule filterFilesOn_cong) (use top low in \<open>simp add: G_def\<close>)
    with files i show "filterFilesOn E G p (a + int i * ?n) (a + int i * ?n + ?n - 1)" by blast
  qed
  have hb: "a + int j * ?n \<le> heightBound" using a S by simp
  have "int j * 1 \<le> int j * ?n" using n by (intro mult_left_mono) simp_all
  then have k: "j < nat (h - 1 - a + 1) + 1" using a by simp
  from rebuildLoop_value [OF env len n refl a(1) hb length_headersAt [of E B C D "a - 1"] files' k, folded a(4)]
  obtain p' where p': "rebuildFilterHeaders E (headersAt E B C D (a - 1)) a (h - 1) p = (Inr (chainAt E G (headersAt E B C D (a - 1)) a (h - 1)), p')"
    "\<forall>x. cuFilterHeaders (mem p') x = (if a \<le> x \<and> x < h then Some (chainAt E G (headersAt E B C D (a - 1)) a x) else cuFilterHeaders (mem p) x)"
    unfolding rebuildFilterHeaders_def by blast
  have at: "chainAt E G (headersAt E B C D (a - 1)) a x = headersAt E B C D x" if "a - 1 \<le> x" "x < h" for x
    using same [OF that(2)] headersAt_from [OF a(1) that(1)] by simp
  show ?thesis using p' at a(2) by auto
qed

text \<open>A whole span before the sealed ranges end with one of them.\<close>

lemma span_range:
  assumes n: "0 < n" "hpf mod n = 0" "0 < hpf" and i: "0 < i"
  obtains j where "0 \<le> j" "j * n + n - 1 = i * hpf - (1 :: int)"
proof
  let ?j = "i * (hpf div n) - 1"
  have m: "hpf div n * n = hpf" using n(2) by (simp add: mod_0_imp_dvd)
  then have "0 < hpf div n * n" using n(3) by simp
  then have "0 < hpf div n" using n(1) by (simp add: zero_less_mult_iff)
  then have "0 < i * (hpf div n)" using i by simp
  then show "0 \<le> ?j" by simp
  have "?j * n = i * (hpf div n * n) - n" by (simp add: algebra_simps)
  then show "?j * n + n - 1 = i * hpf - 1" using m by simp
qed

lemma spanStart_bounds:
  assumes "0 < hpf" "-1 \<le> L"
  shows "0 \<le> spanStart hpf L" "spanStart hpf L \<le> L + 1" "L + 1 < spanStart hpf L + hpf"
proof -
  have e: "spanStart hpf L = L + 1 - (L + 1) mod hpf" by (simp add: spanStart_def minus_mod_eq_div_mult)
  have m: "0 \<le> (L + 1) mod hpf" "(L + 1) mod hpf < hpf" using assms(1) by simp_all
  show "spanStart hpf L \<le> L + 1" "L + 1 < spanStart hpf L + hpf" using e m by simp_all
  show "0 \<le> spanStart hpf L" using assms by (simp add: spanStart_def pos_imp_zdiv_nonneg_iff)
qed

text \<open>The last header file before the open span gives the headers to continue from.\<close>

lemma anchor_served:
  assumes H: "customHealthy B C D hpf E N p" and T: "tailUpto (customHooks B E) customRangeFiles h p" and L: "lastSealedHeight p \<le> N"
    and R: "contentsRight (customExpected B C D hpf E) p" and a: "a = spanStart hpf (lastSealedHeight p)"
  shows "\<exists>n. (if a > 0 then readHeaderFileAnchor E (sub32 a 1) else goRet zeroHeaders) p = (Inr (headersAt E B C D (a - 1)), p\<lparr>now := n\<rparr>)"
proof -
  note S = H [unfolded customHealthy_def]
  have n: "0 < entriesPerFile p" and L1: "-1 \<le> lastSealedHeight p" using T by (simp_all add: tailUpto_def confOK_def aligned_def)
  have hpf: "0 < hpf" "hpf \<le> heightBound" "hpf mod entriesPerFile p = 0" "headersPerFile (mem p) = hpf" "N \<le> heightBound" "hash_codec E" using S by simp_all
  have io: "\<forall>n. ioFaults E n = None" using S servesD(2) [of E C N] by blast
  note sp = spanStart_bounds [OF hpf(1) L1, folded a]
  show ?thesis
  proof (cases "0 < a")
    case False
    with sp(1) have "a = 0" by simp
    then show ?thesis by (intro exI [of _ "now p"]) (simp add: goRet_def headersAt_before)
  next
    case True
    let ?i = "(lastSealedHeight p + 1) div hpf"
    have ai: "a = ?i * hpf" by (simp add: a spanStart_def)
    with True hpf(1) have "0 < ?i" by (simp add: zero_less_mult_iff)
    from span_range [OF n hpf(3,1) this] obtain j where j: "0 \<le> j" "j * entriesPerFile p + entriesPerFile p - 1 = a - 1" unfolding ai by blast
    have jL: "j * entriesPerFile p + entriesPerFile p - 1 \<le> lastSealedHeight p" using j(2) sp(2) by simp
    have m: "(a - 1 + 1) mod hpf = 0" by (simp add: ai)
    have bounds: "0 \<le> a - 1" "a - 1 \<le> heightBound" using True sp(2) L hpf(5) by simp_all
    have dat: "\<forall>cfg\<in>set customFilterConfigs. map_of (disk p) (cuHeaderFileName p (cfgName cfg) (a - hpf) (a - 1)) =
        Some (concat (map (headerAt E B C D cfg) [a - hpf..a - 1]))"
      using files_of_range(2) [OF R j(1) jL m j(2) [symmetric] hpf(1,2) bounds] by simp
    have "sub32 a 1 = a - 1" "sub32 (add32 (a - 1) 1) hpf = a - hpf"
      using bounds True hpf(1,2) by (simp_all add: sub32_id add32_id heightBound_def)
    moreover have "\<exists>t. readAnchors E customFilterConfigs (a - hpf) (a - 1) p = (Inr (map (\<lambda>cfg. headerAt E B C D cfg (a - 1)) customFilterConfigs), p\<lparr>now := t\<rparr>)"
      by (rule readAnchors_value [OF io length_headerAt [OF hpf(6)] _ _ dat]) (use hpf in simp_all)
    ultimately show ?thesis using True by (simp add: readHeaderFileAnchor_def headersAt_def hpf(4))
  qed
qed

lemma customHealthy_tick: "customHealthy B C D hpf E N (p\<lparr>now := n\<rparr>) = customHealthy B C D hpf E N p"
  by (simp add: customHealthy_def)

lemma resume_served:
  assumes H: "customHealthy B C D hpf E N p" and T: "tailUpto (customHooks B E) customRangeFiles h p" and h: "h = lastSealedHeight p + 1" "h \<le> N"
    and R: "contentsRight (customExpected B C D hpf E) p" and a: "a = spanStart hpf (lastSealedHeight p)"
  shows "\<exists>p'. resumeFilterHeaders E h p = (Inr (headersAt E B C D (h - 1)), p') \<and>
    (\<forall>x. cuFilterHeaders (mem p') x = (if a \<le> x \<and> x < h then Some (headersAt E B C D x) else cuFilterHeaders (mem p) x))"
proof -
  note S = H [unfolded customHealthy_def]
  let ?n = "entriesPerFile p"
  have T': "confOK p" "aligned p" "-1 \<le> lastSealedHeight p" using T by (simp_all add: tailUpto_def aligned_def)
  have n: "0 < ?n" using T' by (simp add: confOK_def)
  have hpf: "0 < hpf" "hpf mod ?n = 0" "headersPerFile (mem p) = hpf" "N \<le> heightBound" using S by simp_all
  note sp = spanStart_bounds [OF hpf(1) T'(3), folded a]
  have "lastSealedHeight p \<le> N" using h by simp
  from anchor_served [OF H T this R a] obtain t where
    anchor: "(if a > 0 then readHeaderFileAnchor E (sub32 a 1) else goRet zeroHeaders) p = (Inr (headersAt E B C D (a - 1)), p\<lparr>now := t\<rparr>)" ..
  have ah: "h div headersPerFile (mem p) * headersPerFile (mem p) = a" by (simp add: h a spanStart_def hpf(3))
  have step: "resumeFilterHeaders E h p = (if a = h then goRet (headersAt E B C D (a - 1))
      else rebuildFilterHeaders E (headersAt E B C D (a - 1)) a (sub32 h 1)) (p\<lparr>now := t\<rparr>)"
    unfolding resumeFilterHeaders_def Let_def ah using anchor by (simp add: goBind_def)
  show ?thesis
  proof (cases "a = h")
    case True
    with step show ?thesis by (auto simp: goRet_def)
  next
    case False
    with sp(2) h have lt: "a < h" by simp
    from cuf.next_range [OF T'(1,2)] obtain k where k: "0 \<le> k" "k * ?n = h" using h by metis
    have dvd: "?n dvd a" unfolding a spanStart_def using hpf(2) by (simp add: mod_0_imp_dvd)
    then obtain i where i: "a = i * ?n" by (metis dvdE mult.commute)
    have "0 \<le> i" using sp(1) n unfolding i by (simp add: zero_le_mult_iff)
    have "i * ?n < k * ?n" using lt i k by simp
    then have "i < k" using n by (simp add: mult_less_cancel_right)
    define j where "j = nat (k - i)"
    have ij: "int j = k - i" using \<open>i < k\<close> by (simp add: j_def)
    have hj: "h = a + int j * ?n" unfolding ij i k(2) [symmetric] by (simp add: algebra_simps)
    have files: "\<forall>x<j. filterFilesOn E (filterAt B C D) p (a + int x * ?n) (a + int x * ?n + ?n - 1)"
    proof (intro allI impI)
      fix x
      assume "x < j"
      then have "(i + int x + 1) * ?n \<le> k * ?n" using n ij by (intro mult_right_mono) simp_all
      then have top: "(i + int x) * ?n + ?n - 1 \<le> lastSealedHeight p" using h k(2) by (simp add: algebra_simps)
      have "a + int x * ?n = (i + int x) * ?n" unfolding i by (simp add: algebra_simps)
      with files_of_range(1) [OF R _ top] \<open>0 \<le> i\<close> show "filterFilesOn E (filterAt B C D) p (a + int x * ?n) (a + int x * ?n + ?n - 1)" by simp
    qed
    have sub: "sub32 h 1 = h - 1" using h hpf(4) sp(1) lt by (simp add: sub32_id heightBound_def)
    let ?q = "p\<lparr>now := t\<rparr>"
    have "\<exists>p'. rebuildFilterHeaders E (headersAt E B C D (a - 1)) a (h - 1) ?q = (Inr (headersAt E B C D (h - 1)), p') \<and>
      (\<forall>x. cuFilterHeaders (mem p') x = (if a \<le> x \<and> x < h then Some (headersAt E B C D x) else cuFilterHeaders (mem ?q) x))"
      by (rule rebuild_served [where j = j]) (use H sp(1) lt h(2) hj n files in \<open>simp_all add: customHealthy_tick filterFilesOn_def cuFilterFileName_def\<close>)
    moreover have "mem ?q = mem p" by simp
    ultimately show ?thesis unfolding step sub using False by (simp only: if_False)
  qed
qed

lemma cu_cached: "cachedHash (customHooks B E) m = cuHeightToHash m"
  by (simp add: customHooks_def customCachedHash_def fun_eq_iff)

lemma prevHeaders_served:
  assumes H: "customHealthy B C D hpf E N p" and T: "tailUpto (customHooks B E) customRangeFiles h p" and h: "0 \<le> h" "h \<le> N"
    and R: "contentsRight (customExpected B C D hpf E) p" and a: "a = spanStart hpf (lastSealedHeight p)"
  obtains q where "prevFilterHeaders E h p = (Inr (headersAt E B C D (h - 1)), q)" "cuReads p q" "headersKept B C D E a (mem q)"
    "{a..h - 1} \<subseteq> dom (cuFilterHeaders (mem q))" "dom (cuFilterHeaders (mem p)) \<subseteq> dom (cuFilterHeaders (mem q))"
proof -
  note S = H [unfolded customHealthy_def]
  have kept: "headersKept B C D E a (mem p)" using S a by simp
  have hpf: "0 < hpf" using S by simp
  have tail: "dom (cuHeightToHash (mem p)) = {lastSealedHeight p + 1..h - 1}" and L: "-1 \<le> lastSealedHeight p" "lastSealedHeight p < h"
    using T by (simp_all add: tailUpto_def aligned_def cu_cached)
  note sp = spanStart_bounds [OF hpf L(1), folded a]
  have sub: "sub32 h 1 = h - 1" if "h \<noteq> 0" using that h S by (simp add: sub32_id heightBound_def)
  consider (zero) "h = 0" | (known) hs where "h \<noteq> 0" "cuFilterHeaders (mem p) (h - 1) = Some hs" | (resume) "h \<noteq> 0" "cuFilterHeaders (mem p) (h - 1) = None"
    by (metis not_None_eq)
  then show thesis
  proof cases
    case zero
    with kept L sp show thesis by (intro that [of p]) (simp_all add: prevFilterHeaders_def headersAt_before)
  next
    case (known hs)
    then have "hs = headersAt E B C D (h - 1)" "{a..h - 1} \<subseteq> dom (cuFilterHeaders (mem p))"
      using kept unfolding headersKept_def by blast+
    with known sub kept show thesis by (intro that [of p]) (simp_all add: prevFilterHeaders_def)
  next
    case resume
    have "h - 1 \<notin> dom (cuHeightToHash (mem p))" using S resume by blast
    then have h': "h = lastSealedHeight p + 1" using tail L by auto
    from resume_served [OF H T h' h(2) R a] obtain q where q: "resumeFilterHeaders E h p = (Inr (headersAt E B C D (h - 1)), q)"
      "\<forall>x. cuFilterHeaders (mem q) x = (if a \<le> x \<and> x < h then Some (headersAt E B C D x) else cuFilterHeaders (mem p) x)" by blast
    have run: "prevFilterHeaders E h p = (Inr (headersAt E B C D (h - 1)), q)" using q(1) resume sub by (simp add: prevFilterHeaders_def)
    have dom: "dom (cuFilterHeaders (mem q)) = dom (cuFilterHeaders (mem p)) \<union> {a..h - 1}"
      using q(2) by (auto simp: dom_def split: if_splits)
    have "headersKept B C D E a (mem q)"
      using kept q(2) unfolding headersKept_def dom by (auto split: if_splits)
    moreover have "cuReads p q" by (rule keepsD [OF cuReads_prev run])
    ultimately show thesis using run dom by (intro that [of q]) auto
  qed
qed

subsection \<open>The laws\<close>

lemma customExpected_cong: "conf q = conf p \<Longrightarrow> customExpected B C D hpf E q = customExpected B C D hpf E p"
  using cuNames_cong [of q p] by (simp add: customExpected_def fun_eq_iff)

lemma customHealthy_cong:
  "customHealthy B C D hpf E N p \<Longrightarrow> conf q = conf p \<Longrightarrow> mem q = mem p \<Longrightarrow> cacheRight C N (cache q) \<Longrightarrow>
    lastSealedHeight q = lastSealedHeight p \<Longrightarrow> customHealthy B C D hpf E N q"
  using confD(1) [of q p] by (simp add: customHealthy_def)

lemma customIngest_served:
  assumes H: "customHealthy B C D hpf E N p" and T: "tailUpto (customHooks B E) customRangeFiles h p" and h: "0 \<le> h" "h \<le> N"
    and R: "contentsRight (customExpected B C D hpf E) p"
  shows "\<exists>p'. customIngest E B h p = (Inr (), p') \<and> customHealthy B C D hpf E N p'"
proof -
  note S = H [unfolded customHealthy_def]
  let ?a = "spanStart hpf (lastSealedHeight p)"
  from S h obtain q where g: "getBlockHash E h p = (Inr (cHash C h), q)" "cacheRight C N (cache q)"
    by (blast elim: getBlockHash_served)
  have w: "wrote E {} p q" using getBlockHash_quiet [OF g(1)] by blast
  then have q: "conf q = conf p" "mem q = mem p" "lastSealedHeight q = lastSealedHeight p" "\<And>f. map_of (disk q) f = map_of (disk p) f"
    by (simp_all add: wrote_def sameBase_def)
  have dq: "disk q = disk p" using getBlockHash_onlyReads [OF g(1)] by (auto simp: onlyReads_def)
  have Hq: "customHealthy B C D hpf E N q" by (rule customHealthy_cong [OF H q(1,2) g(2) q(3)])
  have Tq: "tailUpto (customHooks B E) customRangeFiles h q" by (rule cuf.tailUpto_cong [OF T q(1-3) dq])
  have Rq: "contentsRight (customExpected B C D hpf E) q"
    using R customExpected_cong [OF q(1), of B C D hpf E] confD(1) [OF q(1)] q(3) dq by (simp add: contentsRight_def)
  obtain q1 where p1: "prevFilterHeaders E h q = (Inr (headersAt E B C D (h - 1)), q1)" "cuReads q q1"
    and k1: "headersKept B C D E ?a (mem q1)" "{?a..h - 1} \<subseteq> dom (cuFilterHeaders (mem q1))" "dom (cuFilterHeaders (mem q)) \<subseteq> dom (cuFilterHeaders (mem q1))"
    by (rule prevHeaders_served [OF Hq Tq h Rq refl]) (simp add: q(3))
  from p1(2) obtain t X where q1: "q1 = q\<lparr>now := t, mem := (mem q)\<lparr>cuFilterHeaders := X\<rparr>\<rparr>" by (auto simp: cuReads_def)
  have f1: "fetcherRight C D N (cuFetcher (mem q1))" "cacheRight C N (cache q1)" using S q(2) g(2) by (simp_all add: q1)
  obtain f q2 where f: "runFetch cuFetcher (\<lambda>q m. m\<lparr>cuFetcher := q\<rparr>) (fetchBlock E B h (cHash C h)) q1 = (Inr (blockAt D h), q2)"
    "fetcherRight C D N f" "mem q2 = (mem q1)\<lparr>cuFetcher := f\<rparr>" "cacheRight C N (cache q2)" "quiet E q1 q2"
    using runFetch_served [where get = cuFetcher and put = "\<lambda>q m. m\<lparr>cuFetcher := q\<rparr>", of E C N B D h q1] S h f1 by metis
  obtain fs where b: "buildCustomFilters B (cHash C h) (blockAt D h) = Inr fs"
    "\<And>prevs. length prevs = length customFilterConfigs \<Longrightarrow>
       serializeAll E B fs prevs = Inr (zip (filtersAt B C D h) (map2 (filterHeaderFromBytes E) (filtersAt B C D h) prevs))"
    using buildCustom_served [of B C D N h E] S h by blast
  have len: "length (filtersAt B C D h) = length (headersAt E B C D h)" by (simp add: filtersAt_def)
  have ser: "serializeAll E B fs (headersAt E B C D (h - 1)) = Inr (zip (filtersAt B C D h) (headersAt E B C D h))"
    using b(2) [OF length_headersAt [of E B C D "h - 1"]] headersAt_step [OF h(1), of E B C D] by simp
  define p' where "p' = q2\<lparr>mem := (mem q2)\<lparr>cuFilters := (cuFilters (mem q2))(h \<mapsto> filtersAt B C D h),
       cuFilterHeaders := (cuFilterHeaders (mem q2))(h \<mapsto> headersAt E B C D h), cuHeightToHash := (cuHeightToHash (mem q2))(h \<mapsto> cHash C h)\<rparr>\<rparr>"
  have run: "customIngest E B h p = (Inr (), p')"
    using g(1) p1(1) f(1) b(1) ser len by (simp add: customIngest_def goBind_def goWrap_def goLift_def goModify_def p'_def)
  have base: "entriesPerFile p' = entriesPerFile p" "lastSealedHeight p' = lastSealedHeight p" "cache p' = cache q2"
    using f(5) confD(1) [OF q(1)] q(3) by (simp_all add: p'_def quiet_def sameBase_def conf_def q1)
  have at: "cuFilterHeaders (mem p') = (cuFilterHeaders (mem q1))(h \<mapsto> headersAt E B C D h)" using f(3) by (simp add: p'_def)
  have "{?a..h} \<subseteq> insert h {?a..h - 1}" by auto
  then have "{?a..h} \<subseteq> insert h (dom (cuFilterHeaders (mem q1)))" using k1(2) by blast
  then have kept: "headersKept B C D E ?a (mem p')" using k1(1) unfolding headersKept_def at by auto
  have "dom (cuFilterHeaders (mem p)) \<subseteq> dom X" using k1(3) q(2) by (simp add: q1)
  then have "dom (cuHeightToHash (mem p)) \<subseteq> dom X" using S by blast
  then have "dom (cuHeightToHash (mem p')) \<subseteq> dom (cuFilterHeaders (mem p'))" using f(3) q(2) by (auto simp: p'_def q1)
  with S kept f(2-4) base q(2) have "customHealthy B C D hpf E N p'" by (simp add: customHealthy_def p'_def q1)
  with run show ?thesis by blast
qed

text \<open>Sealing a range either completes the open span of headers or leaves it open.\<close>

lemma span_next:
  assumes n: "0 < n" "hpf mod n = 0" "0 < hpf" and L: "-1 \<le> L" "(L + 1) mod n = 0" and b: "b = L + n"
  shows "(b + 1) mod hpf = 0 \<Longrightarrow> spanStart hpf L = b + 1 - hpf" and "(b + 1) mod hpf = 0 \<Longrightarrow> spanStart hpf b = b + 1"
    and "(b + 1) mod hpf \<noteq> 0 \<Longrightarrow> spanStart hpf b = spanStart hpf L"
proof -
  let ?x = "spanStart hpf L" and ?u = "(L + 1) div hpf"
  note sp = spanStart_bounds [OF n(3) L(1)]
  have "n dvd hpf" "n dvd L + 1" using n(2) L(2) by (simp_all add: mod_0_imp_dvd)
  then have "n dvd ?x + hpf - (L + 1)" by (simp add: spanStart_def)
  then have "n \<le> ?x + hpf - (L + 1)" using sp(3) n(1) by (intro zdvd_imp_le) simp_all
  then have le: "b + 1 \<le> ?x + hpf" using b by simp
  have lo: "?x < b + 1" using sp(2) b n(1) by simp
  show "?x = b + 1 - hpf" if m: "(b + 1) mod hpf = 0"
  proof -
    have "hpf dvd b + 1 - ?x" using m by (simp add: spanStart_def mod_0_imp_dvd)
    then have "hpf \<le> b + 1 - ?x" using lo n(3) by (intro zdvd_imp_le) simp_all
    with le show ?thesis by simp
  qed
  show "spanStart hpf b = b + 1" if "(b + 1) mod hpf = 0" using that by (simp add: spanStart_def mod_0_imp_dvd)
  show "spanStart hpf b = ?x" if m: "(b + 1) mod hpf \<noteq> 0"
  proof -
    have "b + 1 \<noteq> ?x + hpf" using m by (auto simp: spanStart_def)
    with le lo have "0 \<le> b + 1 - ?u * hpf" "b + 1 - ?u * hpf < hpf" by (simp_all add: spanStart_def)
    then have "(b + 1) div hpf = ?u" by (intro int_div_pos_eq [of _ _ _ "b + 1 - ?u * hpf"]) (simp_all add: algebra_simps)
    then show ?thesis by (simp add: spanStart_def)
  qed
qed

lemma cuSerialize_served:
  assumes H: "customHealthy B C D hpf E N p" and i: "i < length customFilterConfigs"
  shows "{a..b} \<subseteq> dom (cuFilters (mem p)) \<Longrightarrow>
      cuSerializeFilters E (mem p) i a b = (concat (map (\<lambda>h. WriteVarBytes E (filterAt B C D (customFilterConfigs ! i) h)) [a..b]), None)"
    and "{a..b} \<subseteq> dom (cuFilterHeaders (mem p)) \<Longrightarrow>
      cuSerializeFilterHeaders (mem p) i a b = (concat (map (headerAt E B C D (customFilterConfigs ! i)) [a..b]), None)"
proof -
  note S = H [unfolded customHealthy_def headersKept_def]
  assume "{a..b} \<subseteq> dom (cuFilters (mem p))"
  then have "collect (cuFilters (mem p)) [a..b] = Inr (map (filtersAt B C D) [a..b])" by (intro collect_chain) (use S in auto)
  from streamEach_collect [OF this] show "cuSerializeFilters E (mem p) i a b =
      (concat (map (\<lambda>h. WriteVarBytes E (filterAt B C D (customFilterConfigs ! i) h)) [a..b]), None)"
    using i by (simp add: cuSerializeFilters_def comp_def filtersAt_def)
next
  note S = H [unfolded customHealthy_def headersKept_def]
  assume "{a..b} \<subseteq> dom (cuFilterHeaders (mem p))"
  then have "collect (cuFilterHeaders (mem p)) [a..b] = Inr (map (headersAt E B C D) [a..b])" by (intro collect_chain) (use S in auto)
  from streamEach_collect [OF this] show "cuSerializeFilterHeaders (mem p) i a b =
      (concat (map (headerAt E B C D (customFilterConfigs ! i)) [a..b]), None)"
    using i by (simp add: cuSerializeFilterHeaders_def comp_def headersAt_def)
qed

lemma enumerate_configs: "(i, cfg) \<in> set (enumerate 0 customFilterConfigs) \<longleftrightarrow> i < length customFilterConfigs \<and> cfg = customFilterConfigs ! i"
  by (auto simp: in_set_enumerate_eq)

lemma customWrite_run:
  assumes H: "customHealthy B C D hpf E N p" and fl: "{a..b} \<subseteq> dom (cuFilters (mem p))"
    and hl: "add32 b 1 mod hpf = 0 \<Longrightarrow> {sub32 (add32 b 1) hpf..b} \<subseteq> dom (cuFilterHeaders (mem p))"
  obtains p' where "customWriteSealedFile E a b p = (Inr (), p')" "sameBase p p'" "cacheGrows E p p'"
    "mem p' = (if add32 b 1 mod hpf = 0
       then (mem p)\<lparr>cuFilterHeaders := deleteRange (sub32 (add32 b 1) hpf) b (cuFilterHeaders (mem p))\<rparr> else mem p)"
proof -
  have hpf: "headersPerFile (mem p) = hpf" using H by (simp add: customHealthy_def)
  have io: "\<forall>n. ioFaults E n = None" using H servesD(2) [of E C N] by (auto simp: customHealthy_def)
  have filt: "\<exists>p'. writeBatch E (cuFilterBatch E q a b) q = (Inr (), p')" if "cuFilters (mem q) = cuFilters (mem p)" for q
  proof (rule writeBatch_succeeds [OF io], clarsimp simp: cuFilterBatch_def enumerate_configs)
    fix i
    assume "i < length customFilterConfigs"
    from cuSerialize_served(1) [OF H this fl] that show "snd (cuSerializeFilters E (mem q) i a b) = None" by (simp add: cuSerializeFilters_def)
  qed
  have wr: "sameBase q p'" "cacheGrows E q p'" "mem p' = mem q" if "writeBatch E jobs q = (Inr (), p')" for jobs and q p' :: customFilterFiles
    using keepsD [OF writeBatch_wrote [OF order_refl] that] by (simp_all add: wrote_def)
  show thesis
  proof (cases "add32 b 1 mod hpf = 0")
    case False
    from filt [OF refl] obtain p' where "writeBatch E (cuFilterBatch E p a b) p = (Inr (), p')" ..
    with wr [OF this] False hpf show thesis by (intro that [of p']) (simp_all add: customWriteSealedFile_def goBind_def goRet_def)
  next
    case True
    let ?s = "sub32 (add32 b 1) hpf"
    have "\<exists>q. writeBatch E (cuHeaderBatch p ?s b) p = (Inr (), q)"
    proof (rule writeBatch_succeeds [OF io], clarsimp simp: cuHeaderBatch_def enumerate_configs)
      fix i
      assume "i < length customFilterConfigs"
      from cuSerialize_served(2) [OF H this hl [OF True]] show "snd (cuSerializeFilterHeaders (mem p) i ?s b) = None" by simp
    qed
    then obtain q where q: "writeBatch E (cuHeaderBatch p ?s b) p = (Inr (), q)" ..
    note wq = wr [OF q]
    let ?q = "q\<lparr>mem := (mem q)\<lparr>cuFilterHeaders := deleteRange ?s b (cuFilterHeaders (mem q))\<rparr>\<rparr>"
    from filt [of ?q] wq(3) obtain p' where p': "writeBatch E (cuFilterBatch E ?q a b) ?q = (Inr (), p')" by auto
    have run: "customWriteSealedFile E a b p = (Inr (), p')"
      using True hpf q p' by (simp add: customWriteSealedFile_def writeFilterHeaderFiles_def goBind_def goModify_def Let_def)
    have "sameBase p ?q" "cacheGrows E p ?q"
      using wq by (auto simp: sameBase_def conf_def intro: cacheGrows_trans [OF _ cacheGrows_same])
    with wr [OF p'] have "sameBase p p'" "cacheGrows E p p'" by (blast intro: sameBase_trans cacheGrows_trans)+
    with run wr(3) [OF p'] True wq(3) show thesis by (intro that [of p']) simp_all
  qed
qed

lemma customWrite_served:
  assumes H: "customHealthy B C D hpf E N p" and inv: "tailInv (customHooks B E) customRangeFiles p"
    and ab: "a = lastSealedHeight p + 1" "b = lastSealedHeight p + entriesPerFile p" "b \<le> currentHeight p" "currentHeight p \<le> N"
  shows "\<exists>p'. customWriteSealedFile E a b p = (Inr (), p') \<and>
    (\<forall>(f, bs)\<in>set (customExpected B C D hpf E p a b). map_of (disk p') f = Some bs) \<and>
    customHealthy B C D hpf E N (p'\<lparr>mem := customPrune a b (mem p'), lastSealedHeight := b\<rparr>)"
proof -
  note S = H [unfolded customHealthy_def] and I = cuf.tailInvD [OF inv]
  let ?L = "lastSealedHeight p" and ?n = "entriesPerFile p"
  have n: "0 < ?n" "(?L + 1) mod ?n = 0" using I(1,2) by (simp_all add: confOK_def aligned_def)
  have hpf: "0 < hpf" "hpf \<le> heightBound" "hpf mod ?n = 0" "headersPerFile (mem p) = hpf" "N \<le> heightBound" using S by simp_all
  note sp = span_next [OF n(1) hpf(3,1) I(3) n(2) ab(2)]
  have tail: "dom (cuHeightToHash (mem p)) = {?L + 1..currentHeight p}" using I(6) by (simp add: cu_cached)
  have b: "0 \<le> b" "b \<le> heightBound" "?L \<le> b" using I(3) ab n hpf by simp_all
  have add: "add32 b 1 = b + 1" "sub32 (b + 1) hpf = b + 1 - hpf"
    using b hpf by (simp_all add: add32_id sub32_id heightBound_def)
  have doms: "dom (cuFilters (mem p)) = dom (cuHeightToHash (mem p))" "dom (cuHeightToHash (mem p)) \<subseteq> dom (cuFilterHeaders (mem p))"
    using S by simp_all
  have fl: "{a..b} \<subseteq> dom (cuFilters (mem p))" unfolding doms(1) tail using ab by auto
  have "b \<in> dom (cuHeightToHash (mem p))" unfolding tail using ab n(1) by simp
  then have "b \<in> dom (cuFilterHeaders (mem p))" using doms(2) by blast
  then have open_span: "{spanStart hpf ?L..b} \<subseteq> dom (cuFilterHeaders (mem p))" using S unfolding headersKept_def by blast
  then have hl: "{sub32 (add32 b 1) hpf..b} \<subseteq> dom (cuFilterHeaders (mem p))" if "add32 b 1 mod hpf = 0" using that sp(1) add by simp
  obtain p' where p': "customWriteSealedFile E a b p = (Inr (), p')" "sameBase p p'" "cacheGrows E p p'"
    "mem p' = (if add32 b 1 mod hpf = 0
       then (mem p)\<lparr>cuFilterHeaders := deleteRange (sub32 (add32 b 1) hpf) b (cuFilterHeaders (mem p))\<rparr> else mem p)"
    by (rule customWrite_run [OF H fl hl])
  have files: "\<forall>(f, bs)\<in>set (customExpected B C D hpf E p a b). map_of (disk p') f = Some bs"
  proof (clarify)
    fix f bs
    assume "(f, bs) \<in> set (customExpected B C D hpf E p a b)"
    then obtain i where i: "i < length customFilterConfigs" and
      "(f, bs) = (cuFilterFileName p (cfgName (customFilterConfigs ! i)) a b, fst (cuSerializeFilters E (mem p) i a b)) \<or>
       add32 b 1 mod hpf = 0 \<and> (f, bs) = (cuHeaderFileName p (cfgName (customFilterConfigs ! i)) (sub32 (add32 b 1) hpf) b,
          fst (cuSerializeFilterHeaders (mem p) i (sub32 (add32 b 1) hpf) b))"
      using cuSerialize_served [OF H] fl hl by (fastforce simp: customExpected_def in_set_conv_nth split: if_splits)
    with customWrite_ok [OF p'(1) i] hpf(4) show "map_of (disk p') f = Some bs" by auto
  qed
  let ?q = "p'\<lparr>mem := customPrune a b (mem p'), lastSealedHeight := b\<rparr>"
  have kept: "headersKept B C D E (spanStart hpf b) (mem ?q)"
  proof (cases "add32 b 1 mod hpf = 0")
    case False
    then have "mem p' = mem p" "spanStart hpf b = spanStart hpf ?L" using p'(4) sp(3) add by simp_all
    then show ?thesis using S by (simp add: headersKept_def customPrune_def)
  next
    case True
    then have at: "cuFilterHeaders (mem ?q) = deleteRange (b + 1 - hpf) b (cuFilterHeaders (mem p))" "spanStart hpf b = b + 1"
      "spanStart hpf ?L = b + 1 - hpf" using p'(4) sp add by (simp_all add: customPrune_def)
    have "{b + 1..x} \<subseteq> dom (cuFilterHeaders (mem p)) - {b + 1 - hpf..b}" if "x \<in> dom (cuFilterHeaders (mem p))" for x
    proof -
      have "{b + 1 - hpf..x} \<subseteq> dom (cuFilterHeaders (mem p))" using S that at(3) unfolding headersKept_def by metis
      moreover have "{b + 1..x} \<subseteq> {b + 1 - hpf..x} - {b + 1 - hpf..b}" using hpf(1) by auto
      ultimately show ?thesis by blast
    qed
    then show ?thesis using S unfolding headersKept_def at by (auto simp: deleteRange_apply dom_deleteRange split: if_splits)
  qed
  have m: "cuFilters (mem ?q) = deleteRange a b (cuFilters (mem p))" "cuHeightToHash (mem ?q) = deleteRange a b (cuHeightToHash (mem p))"
    "cuFetcher (mem ?q) = cuFetcher (mem p)" "headersPerFile (mem ?q) = hpf" using p'(4) hpf(4) by (simp_all add: customPrune_def)
  have "dom (cuHeightToHash (mem ?q)) \<subseteq> dom (cuFilterHeaders (mem ?q))"
  proof
    fix x
    assume "x \<in> dom (cuHeightToHash (mem ?q))"
    then have x: "x \<in> dom (cuHeightToHash (mem p))" "x \<notin> {a..b}" unfolding m dom_deleteRange by simp_all
    then have "b < x" using tail ab by auto
    moreover have "x \<in> dom (cuFilterHeaders (mem p))" using x(1) doms(2) by blast
    ultimately show "x \<in> dom (cuFilterHeaders (mem ?q))" using p'(4) by (auto simp: customPrune_def dom_deleteRange)
  qed
  moreover have "cacheRight C N (cache ?q)" using S cacheRight_grows [of E C N p p'] p'(3) by simp
  moreover have "entriesPerFile ?q = ?n" "lastSealedHeight ?q = b" using p'(2) by (simp_all add: sameBase_def conf_def)
  moreover have "dom (cuFilters (mem ?q)) = dom (cuHeightToHash (mem ?q))" unfolding m dom_deleteRange doms(1) ..
  moreover have "\<forall>h fs. cuFilters (mem ?q) h = Some fs \<longrightarrow> fs = filtersAt B C D h" unfolding m using S by (simp add: deleteRange_apply)
  ultimately have "customHealthy B C D hpf E N ?q" unfolding customHealthy_def using S kept m(3,4) by (simp only: simp_thms)
  with p'(1) files show ?thesis by blast
qed

interpretation cuff: faithful_producer "customHooks B" customRangeFiles "customHealthy B C D hpf" "customExpected B C D hpf" for B C D hpf
proof unfold_locales
  fix E :: "'a env" and N a b h :: int and n and p q :: customFilterFiles
  assume H: "customHealthy B C D hpf E N p"
  show "\<not> quitClosed E n \<and> ioFaults E n = None" using H servesD(1,2) by (auto simp: customHealthy_def)
  show "conf q = conf p \<Longrightarrow> mem q = mem p \<Longrightarrow> cache q = cache p \<Longrightarrow> lastSealedHeight q = lastSealedHeight p \<Longrightarrow> customHealthy B C D hpf E N q"
    by (rule customHealthy_cong [OF H]) (use H in \<open>simp_all add: customHealthy_def\<close>)
  show "tailUpto (customHooks B E) customRangeFiles h p \<Longrightarrow> contentsRight (customExpected B C D hpf E) p \<Longrightarrow> 0 \<le> h \<Longrightarrow> h \<le> N \<Longrightarrow>
      \<exists>p'. ingest (customHooks B E) h p = (Inr (), p') \<and> customHealthy B C D hpf E N p'"
    using customIngest_served [OF H] by (simp add: customHooks_def)
  show "tailInv (customHooks B E) customRangeFiles p \<Longrightarrow> a = lastSealedHeight p + 1 \<Longrightarrow> b = lastSealedHeight p + entriesPerFile p \<Longrightarrow>
      b \<le> currentHeight p \<Longrightarrow> currentHeight p \<le> N \<Longrightarrow>
      \<exists>p'. writeSealedFile (customHooks B E) a b p = (Inr (), p') \<and>
        (\<forall>(f, bs)\<in>set (customExpected B C D hpf E p a b). map_of (disk p') f = Some bs) \<and>
        customHealthy B C D hpf E N (p'\<lparr>mem := pruneLocked (customHooks B E) a b (mem p'), lastSealedHeight := b\<rparr>)"
    using customWrite_served [OF H] by (simp add: customHooks_def)
  show "fst ` set (customExpected B C D hpf E p a b) = set (customRangeFiles p a b)"
    using H by (cases "add32 b 1 mod hpf = 0") (simp_all add: customExpected_def customRangeFiles_def customHealthy_def image_Un image_image)
qed (rule customExpected_cong)

subsection \<open>Refinement\<close>

text \<open>
  Claim C4. The custom filter producer refines the chain: on a backend that serves a chain and
  its blocks up to height \<open>N\<close>, its \<open>updateFiles\<close> catches up without error from a disk
  with the files of the first \<open>k\<close> ranges, whether or not they end with a whole header file,
  and for each of the four configurations the filter files of every whole range and the header
  files of every whole span at or below the re-org-safe depth are the filters of the chain's
  blocks and the BIP157 headers that chain them from the genesis block on.
\<close>

theorem custom_files_refine_chain:
  assumes E: "serves E C N" "servesBlocks E B C D N" "filterable B C D N" "hash_codec E" and s: "cacheRight C N (cache s)"
    and n: "0 < n" "n \<le> heightBound" and hpf: "0 < hpf" "hpf \<le> heightBound" "hpf mod n = 0"
    and d: "0 \<le> depth" "depth \<le> heightBound" and N: "k * n \<le> N" "N \<le> heightBound"
    and dir: "plainDir (joinPath dir (customFilterDir ''segwit''))"
      "sealedRanges (disk s) (joinPath dir (customFilterDir ''segwit'')) FilterFileSuffix n k"
    and k: "0 \<le> k" "k * n \<le> 10000000" "k * n \<noteq> 1"
    and p: "p = newCustomFilterFiles n hpf depth dir (newBlockPrefetcher True True) s"
    and found: "contentsRight (customExpected B C D hpf E) (p\<lparr>lastSealedHeight := k * n - 1\<rparr>)"
  shows "\<exists>p'. customUpdateFiles E B N 0 p = (Inr (), p') \<and> startupComplete p' \<and> currentHeight p' = N \<and>
    (\<forall>cfg\<in>set customFilterConfigs.
      (\<forall>j. 0 \<le> j \<and> j * n + n - 1 \<le> N - depth \<longrightarrow>
         map_of (disk p') (cuFilterFileName p (cfgName cfg) (j * n) (j * n + n - 1)) =
           Some (concat (map (\<lambda>h. WriteVarBytes E (filterAt B C D cfg h)) [j * n..j * n + n - 1]))) \<and>
      (\<forall>i. 0 \<le> i \<and> i * hpf + hpf - 1 \<le> N - depth \<longrightarrow>
         map_of (disk p') (cuHeaderFileName p (cfgName cfg) (i * hpf) (i * hpf + hpf - 1)) =
           Some (concat (map (headerAt E B C D cfg) [i * hpf..i * hpf + hpf - 1]))))"
proof -
  have io: "\<forall>t. ioFaults E t = None" using servesD(2) [OF E(1)] by blast
  obtain m where mk: "goForEach (concat (map (\<lambda>cfg. [customFilterDir (cfgName cfg), customHeaderDir (cfgName cfg)]) customFilterConfigs))
      (\<lambda>_. goWrap ''error creating directory'' [] (mkdirAll E)) p = (Inr (), p\<lparr>now := m\<rparr>)"
    by (rule mkdirs_ok [OF io])
  let ?p = "p\<lparr>now := m\<rparr>"
  have e: "entriesPerFile ?p = n" "reOrgSafeDepth ?p = depth" by (simp_all add: p newCustomFilterFiles_def)
  have c: "conf ?p = conf p" "conf (?p\<lparr>lastSealedHeight := k * n - 1\<rparr>) = conf (p\<lparr>lastSealedHeight := k * n - 1\<rparr>)" by (simp_all add: conf_def)
  have H: "customHealthy B C D hpf E N (?p\<lparr>lastSealedHeight := k * n - 1\<rparr>)"
    using E s hpf N by (simp add: customHealthy_def p newCustomFilterFiles_def fetcherRight_def newBlockPrefetcher_def headersKept_def)
  have found': "contentsRight (customExpected B C D hpf E) (?p\<lparr>lastSealedHeight := k * n - 1\<rparr>)"
    using found by (subst cuff.contentsRight_cong [OF c(2)]) simp_all
  have q: "sealedRanges (disk ?p) (joinPath (baseDir ?p) (subDir ?p)) (fileSuffix ?p) (entriesPerFile ?p) k"
    "extractSuffix ?p = fileSuffix ?p" "plainDir (joinPath (baseDir ?p) (subDir ?p))" "confOK ?p" "dom (cachedHash (customHooks B E) (mem ?p)) = {}"
    using dir n d by (simp_all add: p newCustomFilterFiles_def customFilterConfigs_def confOK_def cu_cached)
  obtain p' where r: "startUp E (customHooks B E) N ?p = (Inr (), p')" "tailInv (customHooks B E) customRangeFiles p'"
    "startupComplete p'" "currentHeight p' = N" "conf p' = conf ?p" "contentsRight (customExpected B C D hpf E) p'"
    "N - depth < lastSealedHeight p' + n"
    using cuff.startUp_faithful [OF q, of N C D hpf, unfolded e, OF k N H found'] by blast
  have "headersPerFile (mem p) = hpf" "entriesPerFile p = n" by (simp_all add: p newCustomFilterFiles_def)
  then have run: "customUpdateFiles E B N 0 p = (Inr (), p')" using hpf mk r(1) by (simp add: customUpdateFiles_def goBind_def updateFiles_none)
  note all = cuff.contents_of_whole_ranges [OF r(2,5,6), unfolded e, OF r(7)]
  have names: "cuFilterFileName ?p = cuFilterFileName p" "cuHeaderFileName ?p = cuHeaderFileName p" using cuNames_cong [OF c(1)] by simp_all
  have filt: "map_of (disk p') (cuFilterFileName p (cfgName cfg) (j * n) (j * n + n - 1)) =
      Some (concat (map (\<lambda>h. WriteVarBytes E (filterAt B C D cfg h)) [j * n..j * n + n - 1]))"
    if "0 \<le> j" "j * n + n - 1 \<le> N - depth" "cfg \<in> set customFilterConfigs" for cfg j
    by (rule all [OF that(1,2)]) (use that(3) names in \<open>auto simp: customExpected_def\<close>)
  have head: "map_of (disk p') (cuHeaderFileName p (cfgName cfg) (i * hpf) (i * hpf + hpf - 1)) =
      Some (concat (map (headerAt E B C D cfg) [i * hpf..i * hpf + hpf - 1]))"
    if i: "0 \<le> i" "i * hpf + hpf - 1 \<le> N - depth" "cfg \<in> set customFilterConfigs" for cfg i
  proof -
    have "0 < i + 1" using i(1) by simp
    from span_range [OF n(1) hpf(3,1) this] obtain j where j: "0 \<le> j" "j * n + n - 1 = (i + 1) * hpf - 1" .
    have next_i: "(i + 1) * hpf = i * hpf + hpf" by (simp add: algebra_simps)
    let ?b = "i * hpf + hpf - 1"
    have jb: "j * n + n - 1 = ?b" using j(2) next_i by simp
    have "0 \<le> i * hpf" using i(1) hpf(1) by simp
    then have "add32 ?b 1 = (i + 1) * hpf" "sub32 ((i + 1) * hpf) hpf = i * hpf"
      unfolding next_i using i(2) d N(2) hpf by (simp_all add: add32_id sub32_id heightBound_def)
    then have "(cuHeaderFileName p (cfgName cfg) (i * hpf) ?b, concat (map (headerAt E B C D cfg) [i * hpf..?b])) \<in>
        set (customExpected B C D hpf E ?p (j * n) ?b)"
      using i(3) names by (simp add: customExpected_def)
    with all [OF j(1), unfolded jb, OF i(2)] show ?thesis by blast
  qed
  show ?thesis using run r(3,4) filt head by blast
qed

subsection \<open>A concrete run\<close>

text \<open>
  The blocks of \<open>SPFaithful\<close>, with one filter and two headers per file: every block pays to
  one taproot script, which is the only entry of its \<open>p2tr\<close> filter.
\<close>

lemma served_filterable: "filterable servedBlocks miniData servedData 1"
  by (simp add: filterable_def servedBlocks_def spBlocks_def miniBlocks_def matchesConfig_def classifyScript_def blockScripts_def blockAt_def
      servedData_def spPaying_def customFilterConfigs_def scriptTypeP2WPKH_def scriptTypeP2WSH_def scriptTypeP2TR_def MaxMessagePayload_def)

lemma served_filter: "filterAt servedBlocks miniData servedData \<lparr>cfgName = ''p2tr'', cfgTypes = scriptTypeP2TR\<rparr> h = [81]"
  by (simp add: filterAt_def servedBlocks_def spBlocks_def miniBlocks_def matchesConfig_def classifyScript_def blockScripts_def blockAt_def
      servedData_def spPaying_def scriptTypeP2TR_def)

lemma custom_files_refine_chain_witness:
  "\<exists>p'. customUpdateFiles (miniEnv 1) servedBlocks 1 0 (newCustomFilterFiles 1 2 0 ''/d'' (newBlockPrefetcher True True) miniShared) = (Inr (), p') \<and>
     map_of (disk p') (cuFilterFileName (newCustomFilterFiles 1 2 0 ''/d'' (newBlockPrefetcher True True) miniShared) ''p2tr'' 1 1) = Some [1, 81] \<and>
     map_of (disk p') (cuHeaderFileName (newCustomFilterFiles 1 2 0 ''/d'' (newBlockPrefetcher True True) miniShared) ''p2tr'' 0 1) =
       Some (filterHeaderFromBytes (miniEnv 1) [81] zeroHash @ filterHeaderFromBytes (miniEnv 1) [81] (filterHeaderFromBytes (miniEnv 1) [81] zeroHash))"
proof -
  let ?p = "newCustomFilterFiles 1 2 0 ''/d'' (newBlockPrefetcher True True) miniShared" and ?cfg = "\<lparr>cfgName = ''p2tr'', cfgTypes = scriptTypeP2TR\<rparr>"
  have dir: "plainDir (joinPath ''/d'' (customFilterDir ''segwit''))"
    by (simp add: plainDir_def joinPath_def customFilterDir_def FilterFileDir_def upt_rec)
  have sr: "sealedRanges (disk miniShared) (joinPath ''/d'' (customFilterDir ''segwit'')) FilterFileSuffix 1 0"
    by (simp add: sealedRanges_def miniShared_def)
  have found: "contentsRight (customExpected servedBlocks miniData servedData 2 (miniEnv 1)) (?p\<lparr>lastSealedHeight := 0 * 1 - 1\<rparr>)"
    by (auto simp: contentsRight_def newCustomFilterFiles_def)
  have c: "cacheRight miniData 1 (cache miniShared)" by (simp add: cacheRight_def miniShared_def newH2HCache_def)
  have b: "(0::int) < 1" "1 \<le> heightBound" "(0::int) < 2" "2 \<le> heightBound" "(2 :: int) mod 1 = 0" "(0::int) \<le> 0" "0 \<le> heightBound"
    "0 * 1 \<le> (1::int)" "1 \<le> heightBound"
    by (simp_all add: heightBound_def)
  have cfg: "?cfg \<in> set customFilterConfigs" by (simp add: customFilterConfigs_def)
  obtain p' where r: "customUpdateFiles (miniEnv 1) servedBlocks 1 0 ?p = (Inr (), p')"
    and all: "\<forall>cfg\<in>set customFilterConfigs.
      (\<forall>j. 0 \<le> j \<and> j * 1 + 1 - 1 \<le> 1 - 0 \<longrightarrow> map_of (disk p') (cuFilterFileName ?p (cfgName cfg) (j * 1) (j * 1 + 1 - 1)) =
         Some (concat (map (\<lambda>h. WriteVarBytes (miniEnv 1) (filterAt servedBlocks miniData servedData cfg h)) [j * 1..j * 1 + 1 - 1]))) \<and>
      (\<forall>i. 0 \<le> i \<and> i * 2 + 2 - 1 \<le> 1 - 0 \<longrightarrow> map_of (disk p') (cuHeaderFileName ?p (cfgName cfg) (i * 2) (i * 2 + 2 - 1)) =
         Some (concat (map (headerAt (miniEnv 1) servedBlocks miniData servedData cfg) [i * 2..i * 2 + 2 - 1])))"
    using custom_files_refine_chain [OF conjunct1 [OF miniData_ok] served_ok served_filterable mini_hash_codec c b dir sr _ _ _ refl found] by auto
  note cf = bspec [OF all cfg]
  have "headerAt (miniEnv 1) servedBlocks miniData servedData ?cfg 0 = filterHeaderFromBytes (miniEnv 1) [81] zeroHash"
    "headerAt (miniEnv 1) servedBlocks miniData servedData ?cfg 1 =
      filterHeaderFromBytes (miniEnv 1) [81] (filterHeaderFromBytes (miniEnv 1) [81] zeroHash)"
    by (simp_all add: headerAt_def upto_01 served_filter filterChain_def filterHeaderFromBytes_def)
  then have "map_of (disk p') (cuHeaderFileName ?p ''p2tr'' 0 1) =
      Some (filterHeaderFromBytes (miniEnv 1) [81] zeroHash @ filterHeaderFromBytes (miniEnv 1) [81] (filterHeaderFromBytes (miniEnv 1) [81] zeroHash))"
    using cf [THEN conjunct2, rule_format, of 0] by (simp add: upto_01)
  moreover have "map_of (disk p') (cuFilterFileName ?p ''p2tr'' 1 1) = Some [1, 81]"
    using cf [THEN conjunct1, rule_format, of 1] by (simp add: served_filter miniEnv_def compactSize_def)
  ultimately show ?thesis using r by blast
qed

end
