(* ===== verification/EndToEnd.thy ===== *)
theory EndToEnd
  imports Startup CustomFaithful
begin

text \<open>
  All parts together, on a backend that serves one valid chain: the start, the catch-up of the
  header and filter producers as steps of the running server, and the requests of a client
  that downloads everything. \<open>resumesRight\<close> is what a producer may find on disk, the
  files of the first ranges with the contents the chain prescribes (none at the first start);
  \<open>upToDate\<close> is what its catch-up leaves behind, from which \<open>Endpoints.ready\<close> follows.
\<close>

definition mainFile :: "'m producer \<Rightarrow> int \<Rightarrow> string" where
  "mainFile p j = blockFileName (fileSuffix p) (joinPath (baseDir p) (subDir p)) (j * entriesPerFile p) (j * entriesPerFile p + entriesPerFile p - 1)"

definition resumesRight :: "'m producerHooks \<Rightarrow> ('m producer \<Rightarrow> int \<Rightarrow> int \<Rightarrow> (string \<times> bytes) list) \<Rightarrow> int \<Rightarrow> int \<Rightarrow> 'm producer \<Rightarrow> bool" where
  "resumesRight H expected N k p \<longleftrightarrow>
     sealedRanges (disk p) (joinPath (baseDir p) (subDir p)) (fileSuffix p) (entriesPerFile p) k \<and>
     extractSuffix p = fileSuffix p \<and> okSuffix (fileSuffix p) \<and> plainDir (joinPath (baseDir p) (subDir p)) \<and> confOK p \<and>
     dom (cachedHash H (mem p)) = {} \<and> 0 \<le> k \<and> k * entriesPerFile p \<le> 10000000 \<and> k * entriesPerFile p \<noteq> 1 \<and>
     k * entriesPerFile p \<le> N \<and> N \<le> heightBound \<and> contentsRight expected (p\<lparr>lastSealedHeight := k * entriesPerFile p - 1\<rparr>)"

definition upToDate :: "'m producerHooks \<Rightarrow> ('m producer \<Rightarrow> int \<Rightarrow> int \<Rightarrow> string list) \<Rightarrow> ('m producer \<Rightarrow> int \<Rightarrow> int \<Rightarrow> (string \<times> bytes) list) \<Rightarrow>
    int \<Rightarrow> 'm producer \<Rightarrow> bool" where
  "upToDate H files expected N p \<longleftrightarrow>
     tailInv H files p \<and> startupComplete p \<and> currentHeight p = N \<and> contentsRight expected p \<and>
     (0 < reOrgSafeDepth p \<longrightarrow> lastSealedHeight p < N) \<and>
     (\<forall>j. 0 \<le> j \<and> lastSealedHeight p < j * entriesPerFile p + entriesPerFile p - 1 \<longrightarrow> map_of (disk p) (mainFile p j) = None)"

lemma mainFile_conf: "conf q = conf p \<Longrightarrow> mainFile q = mainFile p"
  by (simp add: conf_def mainFile_def fun_eq_iff)

context faithful_producer
begin

text \<open>A range that starts above what was found and ends below the safe tip is sealed by the catch-up.\<close>

lemma range_sealed:
  assumes inv: "tailInv (H E) files p" and j: "j * entriesPerFile p + entriesPerFile p - 1 \<le> T" and T: "T < lastSealedHeight p + entriesPerFile p"
  shows "j * entriesPerFile p + entriesPerFile p - 1 \<le> lastSealedHeight p"
proof -
  note D = tailInvD [OF inv]
  from next_range [OF D(1,2)] obtain i where i: "i * entriesPerFile p = lastSealedHeight p + 1" by blast
  have n0: "0 < entriesPerFile p" using D(1) by (simp add: confOK_def)
  have next_j: "(j + 1) * entriesPerFile p = j * entriesPerFile p + entriesPerFile p" "(i + 1) * entriesPerFile p = i * entriesPerFile p + entriesPerFile p"
    by (simp_all add: algebra_simps)
  have "(j + 1) * entriesPerFile p < (i + 1) * entriesPerFile p" unfolding next_j using j T i by simp
  then have "j + 1 \<le> i" using n0 by (simp add: mult_less_cancel_right)
  then have "(j + 1) * entriesPerFile p \<le> i * entriesPerFile p" using n0 by simp
  then show ?thesis unfolding next_j using i by simp
qed

lemma catchUp_upToDate:
  assumes R: "resumesRight (H E) (expected E) N k p" and h: "healthy E N (p\<lparr>lastSealedHeight := k * entriesPerFile p - 1\<rparr>)"
    and main: "\<And>j. mainFile p j \<in> rangeFiles files p j"
  obtains p' where "startUp E (H E) N p = (Inr (), p')" "upToDate (H E) files (expected E) N p'" "conf p' = conf p"
    "healthy E N p'" "\<forall>f. map_of (disk p') f \<noteq> map_of (disk p) f \<longrightarrow> f \<in> ownFilesOf files p"
    "\<forall>j f. 0 \<le> j \<and> lastSealedHeight p' < j * entriesPerFile p + entriesPerFile p - 1 \<and> f \<in> rangeFiles files p j \<longrightarrow>
       map_of (disk p') f = map_of (disk p) f"
    "k * entriesPerFile p - 1 \<le> lastSealedHeight p'" "cacheStays p p'" "{lastSealedHeight p' + 1..N} \<subseteq> dom (heightToHash (cache p'))"
    "{k * entriesPerFile p..N} \<subseteq> dom (heightToHash (cache p'))"
proof -
  note A = R [unfolded resumesRight_def]
  obtain p' where r: "startUp E (H E) N p = (Inr (), p')" "tailInv (H E) files p'" "startupComplete p'" "currentHeight p' = N"
    "conf p' = conf p" "contentsRight (expected E) p'" "N - reOrgSafeDepth p < lastSealedHeight p' + entriesPerFile p"
    "healthy E N p'" "k * entriesPerFile p - 1 \<le> lastSealedHeight p'"
    "lastSealedHeight p' = k * entriesPerFile p - 1 \<or> lastSealedHeight p' \<le> N - reOrgSafeDepth p"
    "wroteOnly files (k * entriesPerFile p - 1) (N - reOrgSafeDepth p) p p'"
    "cacheStays p p'" "{k * entriesPerFile p..N} \<subseteq> dom (heightToHash (cache p'))"
  proof -
    have "\<exists>p'. startUp E (H E) N p = (Inr (), p') \<and> tailInv (H E) files p' \<and> startupComplete p' \<and> currentHeight p' = N \<and>
      conf p' = conf p \<and> contentsRight (expected E) p' \<and> N - reOrgSafeDepth p < lastSealedHeight p' + entriesPerFile p \<and>
      healthy E N p' \<and> k * entriesPerFile p - 1 \<le> lastSealedHeight p' \<and>
      (lastSealedHeight p' = k * entriesPerFile p - 1 \<or> lastSealedHeight p' \<le> N - reOrgSafeDepth p) \<and>
      wroteOnly files (k * entriesPerFile p - 1) (N - reOrgSafeDepth p) p p' \<and>
      cacheStays p p' \<and> {k * entriesPerFile p..N} \<subseteq> dom (heightToHash (cache p'))"
      by (rule startUp_faithful) (use A h in simp_all)
    then show thesis by (elim exE conjE) (rule that)
  qed
  note n = confD [OF r(5)]
  have n0: "0 < entriesPerFile p" using A by (simp add: confOK_def)
  have nonneg: "0 \<le> i" if "k * entriesPerFile p - 1 < i * entriesPerFile p" for i
  proof -
    have "0 \<le> k * entriesPerFile p" using A n0 by simp
    with that have "0 \<le> i * entriesPerFile p" by linarith
    then show ?thesis using n0 by (simp add: zero_le_mult_iff)
  qed
  have keep: "map_of (disk p') f = map_of (disk p) f"
    if j: "0 \<le> j" "lastSealedHeight p' < j * entriesPerFile p + entriesPerFile p - 1" and f: "f \<in> rangeFiles files p j" for j f
  proof (rule ccontr)
    assume "map_of (disk p') f \<noteq> map_of (disk p) f"
    then obtain i where i: "k * entriesPerFile p - 1 < i * entriesPerFile p"
      "i * entriesPerFile p + entriesPerFile p - 1 \<le> N - reOrgSafeDepth p" "f \<in> rangeFiles files p i"
      using r(11) unfolding wroteOnly_def by blast
    have "i * entriesPerFile p' + entriesPerFile p' - 1 \<le> lastSealedHeight p'"
      by (rule range_sealed [OF r(2), of _ "N - reOrgSafeDepth p"]) (use i(2) r(7) n in simp_all)
    with j n have "i \<noteq> j" by auto
    then show False using rangeFiles_disjoint [OF n0 nonneg [OF i(1)] j(1)] i(3) f by blast
  qed
  have "map_of (disk p') (mainFile p' j) = None" if j: "0 \<le> j" "lastSealedHeight p' < j * entriesPerFile p' + entriesPerFile p' - 1" for j
  proof -
    have "map_of (disk p') (mainFile p j) = map_of (disk p) (mainFile p j)"
      by (rule keep [OF j(1) _ main]) (use j(2) n in simp)
    moreover have "\<not> j < k"
    proof
      assume "j < k"
      then have "(j + 1) * entriesPerFile p \<le> k * entriesPerFile p" using n0 by (intro mult_right_mono) simp_all
      moreover have "(j + 1) * entriesPerFile p = j * entriesPerFile p + entriesPerFile p" by (simp add: algebra_simps)
      ultimately show False using j(2) r(9) n by simp
    qed
    then have "\<not> fileExists (disk p) (mainFile p j)"
      unfolding mainFile_def using sealedRanges_file [OF _ _ n0 j(1)] A by blast
    ultimately show ?thesis using mainFile_conf [OF r(5)] by (simp add: fileExists_def)
  qed
  then have "upToDate (H E) files (expected E) N p'"
    using r(2-4,6) r(10) A n by (auto simp: upToDate_def)
  moreover have "f \<in> ownFilesOf files p" if "map_of (disk p') f \<noteq> map_of (disk p) f" for f
    using r(11) that nonneg unfolding wroteOnly_def ownFilesOf_def by blast
  moreover have "\<forall>j f. 0 \<le> j \<and> lastSealedHeight p' < j * entriesPerFile p + entriesPerFile p - 1 \<and> f \<in> rangeFiles files p j \<longrightarrow>
      map_of (disk p') f = map_of (disk p) f" using keep by blast
  moreover have "{lastSealedHeight p' + 1..N} \<subseteq> {k * entriesPerFile p..N}" using r(9) by auto
  then have "{lastSealedHeight p' + 1..N} \<subseteq> dom (heightToHash (cache p'))" using r(13) by (rule subset_trans)
  ultimately show thesis using r by (intro that [of p']) simp_all
qed

lemma upToDate_ready:
  assumes U: "upToDate (H E) files (expected E) N p" and io: "\<forall>t. ioFaults E t = None" and light: "\<not> lightMode s"
    and base: "sBaseDir s = baseDir p" and dsk: "\<And>j. 0 \<le> j \<Longrightarrow> map_of (disk s) (mainFile p j) = map_of (disk p) (mainFile p j)"
    and entry: "\<And>j. (mainFile p j, concat (map entry [j * entriesPerFile p..j * entriesPerFile p + entriesPerFile p - 1])) \<in>
        set (expected E p (j * entriesPerFile p) (j * entriesPerFile p + entriesPerFile p - 1))"
    and tail: "\<And>h. h \<in> dom (cachedHash (H E) (mem p)) \<Longrightarrow> inMem h = Some (entry h)"
    and look: "\<not> writerWaits (cache s)" "{lastSealedHeight p + 1..N} \<subseteq> dom (heightToHash (cache s))"
  shows "ready E s (subDir p) (fileSuffix p) (entriesPerFile p) (processorOf p) entry inMem"
proof -
  have inv: "tailInv (H E) files p" and cur: "currentHeight p = N" and complete: "startupComplete p" and R: "contentsRight (expected E) p"
    and gone: "\<And>j. 0 \<le> j \<Longrightarrow> lastSealedHeight p < j * entriesPerFile p + entriesPerFile p - 1 \<Longrightarrow> map_of (disk p) (mainFile p j) = None"
    using U by (simp_all add: upToDate_def)
  note D = tailInvD [OF inv]
  have n: "0 < entriesPerFile p" "entriesPerFile p \<le> heightBound" using D(1) by (simp_all add: confOK_def)
  have al: "(lastSealedHeight p + 1) mod entriesPerFile p = 0" using D(2) by (simp add: aligned_def)
  have P: "bpStartupComplete (processorOf p)" "bpLastSealedHeight (processorOf p) = lastSealedHeight p"
    "bpCurrentHeight (processorOf p) = N"
    by (simp_all add: processorOf_def isStartupComplete_def getCurrentHeight_def getLastSealedHeight_def cur complete)
  have rng: "map_of (disk s) (rangeName (subDir p) (fileSuffix p) (entriesPerFile p) s a) =
      (if a + entriesPerFile p - 1 \<le> lastSealedHeight p then Some (concat (map entry [a..a + entriesPerFile p - 1])) else None)"
    if a: "0 \<le> a" "a mod entriesPerFile p = 0" for a
  proof -
    define j where "j = a div entriesPerFile p"
    have j: "a = j * entriesPerFile p" "0 \<le> j"
      using a n by (auto simp: j_def pos_imp_zdiv_nonneg_iff)
    have name: "rangeName (subDir p) (fileSuffix p) (entriesPerFile p) s a = mainFile p j"
      by (simp add: rangeName_def mainFile_def base j(1))
    show ?thesis
    proof (cases "a + entriesPerFile p - 1 \<le> lastSealedHeight p")
      case True
      then have "map_of (disk p) (mainFile p j) = Some (concat (map entry [a..a + entriesPerFile p - 1]))"
        using R entry [of j] j unfolding contentsRight_def by fastforce
      with True name dsk [OF j(2)] show ?thesis by simp
    next
      case False
      with gone [OF j(2)] j(1) name dsk [OF j(2)] show ?thesis by simp
    qed
  qed
  have mem: "inMem h = Some (entry h)" if "lastSealedHeight p < h" "h \<le> N" for h
    by (rule tail) (use that D(6) cur in auto)
  have D': "lastSealedHeight p \<le> N" "N \<le> heightBound" using D(4,5) cur by simp_all
  show ?thesis
    unfolding ready_def P(2,3)
  proof (intro conjI allI impI)
    fix a
    assume a: "0 \<le> a \<and> a mod entriesPerFile p = 0"
    show "map_of (disk s) (rangeName (subDir p) (fileSuffix p) (entriesPerFile p) s a) =
      (if a + entriesPerFile p - 1 \<le> lastSealedHeight p then Some (concat (map entry [a..a + entriesPerFile p - 1])) else None)"
      by (rule rng) (use a in blast)+
  next
    fix h
    assume "lastSealedHeight p < h \<and> h \<le> N"
    then show "inMem h = Some (entry h)" using mem by blast
  next
    fix h
    assume "lastSealedHeight p < h \<and> h \<le> N"
    then have "h \<in> {lastSealedHeight p + 1..N}" by simp
    with look(2) have "h \<in> dom (heightToHash (cache s))" by (rule subsetD)
    then show "heightToHash (cache s) h \<noteq> None" by (simp add: domIff)
  qed (use light io n D(3) D' al P(1) look(1) in simp_all)
qed

lemma resumesRight_fresh:
  assumes R: "resumesRight (H E) (expected E) N k p" and h: "healthy E N p"
  shows "freshProducer (H E) files N p"
proof -
  note A = R [unfolded resumesRight_def]
  let ?n = "entriesPerFile p" and ?q = "p\<lparr>lastSealedHeight := k * entriesPerFile p - 1\<rparr>"
  have c: "conf ?q = conf p" by (simp add: conf_def)
  have "fileExists (disk p) f" if j: "0 \<le> j" "j < k" and f: "f \<in> rangeFiles files p j" for j f
  proof -
    from f obtain bs where bs: "(f, bs) \<in> set (expected E p (j * ?n) (j * ?n + ?n - 1))"
      using expected_files [OF h] unfolding rangeFiles_def by fastforce
    have "(j + 1) * ?n \<le> k * ?n" using j A by (intro mult_right_mono) (simp_all add: confOK_def)
    then have "j * ?n + ?n - 1 \<le> k * ?n - 1" by (simp add: algebra_simps)
    with A j(1) bs expected_static [OF c] show ?thesis unfolding contentsRight_def fileExists_def by fastforce
  qed
  with A show ?thesis unfolding freshProducer_def by blast
qed

text \<open>What another task writes does not matter to a producer that has not started yet.\<close>

lemma resumesRight_shared:
  assumes R: "resumesRight (H E) (expected E) N k (withShared d p)" and h: "healthy E N (withShared d' p)"
    and dir: "\<forall>f. inDir (joinPath (baseDir p) (subDir p)) f \<longrightarrow> map_of (disk d') f = map_of (disk d) f"
    and own: "\<forall>f\<in>ownFilesOf files (withShared d p). map_of (disk d') f = map_of (disk d) f"
  shows "resumesRight (H E) (expected E) N k (withShared d' p)"
proof -
  let ?p = "withShared d p" and ?q = "withShared d' p"
  have c: "conf ?q = conf ?p" by (simp add: withShared_conf)
  have base: "mem ?q = mem ?p" "disk ?q = disk d'" "disk ?p = disk d" "baseDir ?p = baseDir p" "subDir ?p = subDir p" by (simp_all add: withShared_def)
  note n = confD [OF c]
  have names: "joinPath (baseDir ?q) (subDir ?q) = joinPath (baseDir ?p) (subDir ?p)" "fileSuffix ?q = fileSuffix ?p" "extractSuffix ?q = extractSuffix ?p"
    using c by (simp_all add: conf_def)
  note A = R [unfolded resumesRight_def]
  have "sealedRanges (disk ?q) (joinPath (baseDir ?q) (subDir ?q)) (fileSuffix ?q) (entriesPerFile ?q) k"
    using A sealedRanges_cong [of "joinPath (baseDir p) (subDir p)" "disk d'" "disk d"] dir names n base by simp
  moreover have "contentsRight (expected E) (?q\<lparr>lastSealedHeight := k * entriesPerFile ?q - 1\<rparr>)"
    unfolding contentsRight_def
  proof (intro allI impI, clarify)
    let ?q' = "?q\<lparr>lastSealedHeight := k * entriesPerFile ?q - 1\<rparr>" and ?p' = "?p\<lparr>lastSealedHeight := k * entriesPerFile ?p - 1\<rparr>"
    fix j f bs
    assume j: "0 \<le> j" "j * entriesPerFile ?q' + entriesPerFile ?q' - 1 \<le> lastSealedHeight ?q'"
      and f: "(f, bs) \<in> set (expected E ?q' (j * entriesPerFile ?q') (j * entriesPerFile ?q' + entriesPerFile ?q' - 1))"
    have e: "expected E ?q' = expected E ?p'" "expected E ?p' = expected E ?p"
      by (rule expected_static; simp add: conf_def withShared_def)+
    have f': "(f, bs) \<in> set (expected E ?p (j * entriesPerFile ?p) (j * entriesPerFile ?p + entriesPerFile ?p - 1))" using f n e by simp
    have "files ?q = files ?p" by (rule files_static [OF c disjI1 [OF base(1)]])
    then have "f \<in> rangeFiles files ?p j"
      using image_eqI [OF _ f', of f fst] expected_files [OF h] expected_static [OF c] by (simp add: rangeFiles_def)
    with j(1) own have "map_of (disk d') f = map_of (disk d) f" by (auto simp: ownFilesOf_def)
    moreover have "map_of (disk ?p') f = Some bs"
      using A j f' n e unfolding contentsRight_def by fastforce
    ultimately show "map_of (disk ?q') f = Some bs" using base by simp
  qed
  ultimately show ?thesis
    unfolding resumesRight_def using A confOK_cong [OF c] names n base by simp
qed

end


subsection \<open>The catch-up of the two producers\<close>

lemma header_mainFile: "fileSuffix p = HeaderFileSuffix \<Longrightarrow> subDir p = HeaderFileDir \<Longrightarrow> mainFile p j =
    headerFileName p (j * entriesPerFile p) (j * entriesPerFile p + entriesPerFile p - 1)"
  by (simp add: mainFile_def headerFileName_def)

lemma filter_mainFile: "fileSuffix p = FilterFileSuffix \<Longrightarrow> subDir p = FilterFileDir \<Longrightarrow> mainFile p j =
    filterFileName p (j * entriesPerFile p) (j * entriesPerFile p + entriesPerFile p - 1)"
  by (simp add: mainFile_def filterFileName_def)

lemma header_catchUp:
  assumes R: "resumesRight (headerHooks E) (headerExpected C E) (bestBlock d) k (withShared d (sHeaderFiles d))"
    and H: "headerHealthy C E (bestBlock d) (cache d) (mem (sHeaderFiles d))"
    and new: "fileSuffix (sHeaderFiles d) = HeaderFileSuffix" "subDir (sHeaderFiles d) = HeaderFileDir" "baseDir (sHeaderFiles d) = sBaseDir d"
  obtains p where
    "taskTurn E B True HeaderUpdate d = (Inr (), d\<lparr>now := now p, disk := disk p, cache := cache p, sHeaderFiles := p\<rparr>)"
    "upToDate (headerHooks E) headerRangeFiles (headerExpected C E) (bestBlock d) p" "conf p = conf (sHeaderFiles d)"
    "headerHealthy C E (bestBlock d) (cache p) (mem p)"
    "\<forall>f. map_of (disk p) f \<noteq> map_of (disk d) f \<longrightarrow> inTask (sBaseDir d) HeaderUpdate f"
    "cacheStays d p" "{lastSealedHeight p + 1..bestBlock d} \<subseteq> dom (heightToHash (cache p))"
proof -
  let ?p = "withShared d (sHeaderFiles d)"
  have w: "fileSuffix ?p = HeaderFileSuffix" "subDir ?p = HeaderFileDir" "baseDir ?p = sBaseDir d" "disk ?p = disk d"
    using new by (simp_all add: withShared_def)
  have main: "mainFile ?p j \<in> rangeFiles headerRangeFiles ?p j" for j
    using header_mainFile [OF w(1,2)] by (simp add: rangeFiles_def headerRangeFiles_def)
  have H': "headerHealthy C E (bestBlock d) (cache (?p\<lparr>lastSealedHeight := k * entriesPerFile ?p - 1\<rparr>)) (mem (?p\<lparr>lastSealedHeight := k * entriesPerFile ?p - 1\<rparr>))"
    using H by (simp add: withShared_def)
  obtain p where p: "startUp E (headerHooks E) (bestBlock d) ?p = (Inr (), p)"
    "upToDate (headerHooks E) headerRangeFiles (headerExpected C E) (bestBlock d) p" "conf p = conf ?p"
    "headerHealthy C E (bestBlock d) (cache p) (mem p)"
    "\<forall>f. map_of (disk p) f \<noteq> map_of (disk ?p) f \<longrightarrow> f \<in> ownFilesOf headerRangeFiles ?p"
    "cacheStays ?p p" "{lastSealedHeight p + 1..bestBlock d} \<subseteq> dom (heightToHash (cache p))"
    by (rule hff.catchUp_upToDate [OF R H' main])
  show thesis
  proof (rule that [of p])
    show "\<forall>f. map_of (disk p) f \<noteq> map_of (disk d) f \<longrightarrow> inTask (sBaseDir d) HeaderUpdate f"
      using p(5) w own_header [of ?p "sBaseDir d"] by auto
    show "cacheStays d p" using p(6) by (simp add: cacheStays_def withShared_def)
  qed (use p(1-4,7) in \<open>simp_all add: runProducer_def updateFiles_none withShared_conf\<close>)
qed

lemma filter_catchUp:
  assumes R: "resumesRight (cfHooks E) (cfExpected C E) (bestBlock d) k (withShared d (sCFilterFiles d))"
    and H: "cfHealthy C E (bestBlock d) (cache d) (mem (sCFilterFiles d))"
    and new: "fileSuffix (sCFilterFiles d) = FilterFileSuffix" "subDir (sCFilterFiles d) = FilterFileDir" "baseDir (sCFilterFiles d) = sBaseDir d"
  obtains p where
    "taskTurn E B True FilterUpdate d = (Inr (), d\<lparr>now := now p, disk := disk p, cache := cache p, sCFilterFiles := p\<rparr>)"
    "upToDate (cfHooks E) cfRangeFiles (cfExpected C E) (bestBlock d) p" "conf p = conf (sCFilterFiles d)"
    "cfHealthy C E (bestBlock d) (cache p) (mem p)"
    "\<forall>f. map_of (disk p) f \<noteq> map_of (disk d) f \<longrightarrow> inTask (sBaseDir d) FilterUpdate f"
    "cacheStays d p" "{lastSealedHeight p + 1..bestBlock d} \<subseteq> dom (heightToHash (cache p))"
proof -
  let ?p = "withShared d (sCFilterFiles d)"
  have w: "fileSuffix ?p = FilterFileSuffix" "subDir ?p = FilterFileDir" "baseDir ?p = sBaseDir d" "disk ?p = disk d"
    using new by (simp_all add: withShared_def)
  have main: "mainFile ?p j \<in> rangeFiles cfRangeFiles ?p j" for j
    using filter_mainFile [OF w(1,2)] by (simp add: rangeFiles_def cfRangeFiles_def)
  have H': "cfHealthy C E (bestBlock d) (cache (?p\<lparr>lastSealedHeight := k * entriesPerFile ?p - 1\<rparr>)) (mem (?p\<lparr>lastSealedHeight := k * entriesPerFile ?p - 1\<rparr>))"
    using H by (simp add: withShared_def)
  obtain p where p: "startUp E (cfHooks E) (bestBlock d) ?p = (Inr (), p)"
    "upToDate (cfHooks E) cfRangeFiles (cfExpected C E) (bestBlock d) p" "conf p = conf ?p"
    "cfHealthy C E (bestBlock d) (cache p) (mem p)"
    "\<forall>f. map_of (disk p) f \<noteq> map_of (disk ?p) f \<longrightarrow> f \<in> ownFilesOf cfRangeFiles ?p"
    "cacheStays ?p p" "{lastSealedHeight p + 1..bestBlock d} \<subseteq> dom (heightToHash (cache p))"
    by (rule cff.catchUp_upToDate [OF R H' main])
  show thesis
  proof (rule that [of p])
    show "\<forall>f. map_of (disk p) f \<noteq> map_of (disk d) f \<longrightarrow> inTask (sBaseDir d) FilterUpdate f"
      using p(5) w own_filter [of ?p "sBaseDir d"] by auto
    show "cacheStays d p" using p(6) by (simp add: cacheStays_def withShared_def)
  qed (use p(1-4,7) in \<open>simp_all add: runProducer_def updateFiles_none withShared_conf\<close>)
qed

subsection \<open>What a server then answers\<close>

lemma headers_ready:
  assumes U: "upToDate (headerHooks E) headerRangeFiles (headerExpected C E) N p" and H: "headerHealthy C E N c (mem p)"
    and s: "\<not> lightMode s" "sBaseDir s = baseDir p" "sHeaderFiles s = p"
      "\<And>j. 0 \<le> j \<Longrightarrow> map_of (disk s) (mainFile p j) = map_of (disk p) (mainFile p j)"
    and new: "fileSuffix p = HeaderFileSuffix" "subDir p = HeaderFileDir"
    and look: "\<not> writerWaits (cache s)" "{lastSealedHeight p + 1..N} \<subseteq> dom (heightToHash (cache s))"
  shows "ready E s HeaderFileDir HeaderFileSuffix (entriesPerFile p) (processorOf (sHeaderFiles s)) (\<lambda>h. SerializeHeader E (cHeader C h))
    (\<lambda>h. map_option (SerializeHeader E) (headers (mem (sHeaderFiles s)) h))"
proof -
  have sv: "serves E C N" using H by (simp add: headerHealthy_def)
  note D = servesD [OF sv]
  have tail: "map_option (SerializeHeader E) (headers (mem p) h) = Some (SerializeHeader E (cHeader C h))"
    if "h \<in> dom (cachedHash (headerHooks E) (mem p))" for h
    using that H by (auto simp: headerHealthy_def headerHooks_def headerCachedHash_def split: option.splits)
  show ?thesis
    unfolding s(3) using hff.upToDate_ready [OF U _ s(1,2) s(4) _ tail look] D(2) new
    by (simp add: header_mainFile headerExpected_def)
qed

lemma filters_ready:
  assumes U: "upToDate (cfHooks E) cfRangeFiles (cfExpected C E) N p" and H: "cfHealthy C E N c (mem p)"
    and s: "\<not> lightMode s" "sBaseDir s = baseDir p" "sCFilterFiles s = p"
      "\<And>j. 0 \<le> j \<Longrightarrow> map_of (disk s) (mainFile p j) = map_of (disk p) (mainFile p j)"
    and new: "fileSuffix p = FilterFileSuffix" "subDir p = FilterFileDir"
    and look: "\<not> writerWaits (cache s)" "{lastSealedHeight p + 1..N} \<subseteq> dom (heightToHash (cache s))"
  shows "ready E s FilterFileDir FilterFileSuffix (entriesPerFile p) (processorOf (sCFilterFiles s)) (\<lambda>h. WriteVarBytes E (cFilter C h))
    (\<lambda>h. map_option (WriteVarBytes E) (filters (mem (sCFilterFiles s)) h))"
proof -
  have sv: "serves E C N" using H by (simp add: cfHealthy_def)
  note D = servesD [OF sv]
  have tail: "map_option (WriteVarBytes E) (filters (mem p) h) = Some (WriteVarBytes E (cFilter C h))"
    if "h \<in> dom (cachedHash (cfHooks E) (mem p))" for h
  proof -
    have "h \<in> dom (filters (mem p))" using that H by (auto simp: cfHealthy_def cfHooks_def cfCachedHash_def)
    then obtain v where "filters (mem p) h = Some v" by blast
    with H show ?thesis by (auto simp: cfHealthy_def)
  qed
  show ?thesis
    unfolding s(3) using cff.upToDate_ready [OF U _ s(1,2) s(4) _ tail look] D(2) new
    by (simp add: filter_mainFile cfExpected_def)
qed

lemma polls_simps [simp]:
  fixes d :: "'h daemon"
  shows "now (taskPolls b d) = now d" "disk (taskPolls b d) = disk d" "cache (taskPolls b d) = cache d" "bestBlock (taskPolls b d) = bestBlock d"
    "sBaseDir (taskPolls b d) = sBaseDir d" "lightMode (taskPolls b d) = lightMode d" "sHeaderFiles (taskPolls b d) = sHeaderFiles d"
    "sCFilterFiles (taskPolls b d) = sCFilterFiles d" "catchingUp (taskPolls b d) = removeAll b (catchingUp d)"
    "sHeadersPerFile (taskPolls b d) = sHeadersPerFile d" "sFiltersPerFile (taskPolls b d) = sFiltersPerFile d"
    "polling (taskPolls b d) = b # polling d"
  by (cases d; simp add: taskPolls_def)+

lemma perFile_simps [simp]:
  fixes d :: "'h daemon"
  shows "sHeadersPerFile (d\<lparr>now := n, disk := x, cache := c, sHeaderFiles := p\<rparr>) = sHeadersPerFile d"
    "sFiltersPerFile (d\<lparr>now := n, disk := x, cache := c, sHeaderFiles := p\<rparr>) = sFiltersPerFile d"
    "sHeadersPerFile (d\<lparr>now := n, disk := x, cache := c, sCFilterFiles := p'\<rparr>) = sHeadersPerFile d"
    "sFiltersPerFile (d\<lparr>now := n, disk := x, cache := c, sCFilterFiles := p'\<rparr>) = sFiltersPerFile d"
  by (cases d; simp)+

lemma truncate_simps [simp]:
  fixes d :: "'h daemon"
  shows "disk (server.truncate d) = disk d" "cache (server.truncate d) = cache d" "lightMode (server.truncate d) = lightMode d" "sBaseDir (server.truncate d) = sBaseDir d"
    "sHeadersPerFile (server.truncate d) = sHeadersPerFile d" "sFiltersPerFile (server.truncate d) = sFiltersPerFile d"
    "sHeaderFiles (server.truncate d) = sHeaderFiles d" "sCFilterFiles (server.truncate d) = sCFilterFiles d"
  by (cases d; simp add: server.defs)+

text \<open>
  Two steps of a running server: the header producer catches up, then the filter producer; then
  both directories have what the chain prescribes.
\<close>

lemma both_caught_up:
  fixes d :: "'h daemon"
  assumes tasks: "HeaderUpdate \<in> set (catchingUp d)" "FilterUpdate \<in> set (catchingUp d)"
    and chain: "serves E C (bestBlock d)" "validChain E C (bestBlock d)" "bestBlock d \<le> heightBound" "cacheRight C (bestBlock d) (cache d)"
    and hp: "sHeaderFiles d = newHeaderFiles n depth (sBaseDir d) sh" and fp: "sCFilterFiles d = newCFilterFiles m depth (sBaseDir d) sh"
    and hR: "resumesRight (headerHooks E) (headerExpected C E) (bestBlock d) kh (withShared d (sHeaderFiles d))"
    and fR: "resumesRight (cfHooks E) (cfExpected C E) (bestBlock d) kf (withShared d (sCFilterFiles d))"
  obtains d' where "daemonReach E B W d d'" "sBaseDir d' = sBaseDir d" "lightMode d' = lightMode d" "bestBlock d' = bestBlock d"
    "sHeadersPerFile d' = sHeadersPerFile d" "sFiltersPerFile d' = sFiltersPerFile d"
    "conf (sHeaderFiles d') = conf (sHeaderFiles d)" "conf (sCFilterFiles d') = conf (sCFilterFiles d)"
    "upToDate (headerHooks E) headerRangeFiles (headerExpected C E) (bestBlock d) (sHeaderFiles d')"
    "headerHealthy C E (bestBlock d) (cache (sHeaderFiles d')) (mem (sHeaderFiles d'))"
    "upToDate (cfHooks E) cfRangeFiles (cfExpected C E) (bestBlock d) (sCFilterFiles d')"
    "cfHealthy C E (bestBlock d) (cache (sCFilterFiles d')) (mem (sCFilterFiles d'))"
    "disk d' = disk (sCFilterFiles d')"
    "\<forall>f. inTask (sBaseDir d) HeaderUpdate f \<longrightarrow> map_of (disk d') f = map_of (disk (sHeaderFiles d')) f"
    "cacheStays d d'" "{lastSealedHeight (sHeaderFiles d') + 1..bestBlock d} \<subseteq> dom (heightToHash (cache d'))"
    "{lastSealedHeight (sCFilterFiles d') + 1..bestBlock d} \<subseteq> dom (heightToHash (cache d'))"
proof -
  have hH: "headerHealthy C E (bestBlock d) (cache d) (mem (sHeaderFiles d))"
    using chain by (simp add: headerHealthy_def hp newHeaderFiles_def)
  obtain p where p: "taskTurn E B True HeaderUpdate d = (Inr (), d\<lparr>now := now p, disk := disk p, cache := cache p, sHeaderFiles := p\<rparr>)"
    "upToDate (headerHooks E) headerRangeFiles (headerExpected C E) (bestBlock d) p" "conf p = conf (sHeaderFiles d)"
    "headerHealthy C E (bestBlock d) (cache p) (mem p)"
    "\<forall>f. map_of (disk p) f \<noteq> map_of (disk d) f \<longrightarrow> inTask (sBaseDir d) HeaderUpdate f"
    "cacheStays d p" "{lastSealedHeight p + 1..bestBlock d} \<subseteq> dom (heightToHash (cache p))"
    by (rule header_catchUp [OF hR hH]) (simp_all add: hp newHeaderFiles_def)
  define d1 where "d1 = taskPolls HeaderUpdate (d\<lparr>now := now p, disk := disk p, cache := cache p, sHeaderFiles := p\<rparr>)"
  have s1: "daemonStep E B W d d1" unfolding d1_def by (rule caughtUp [OF tasks(1) p(1)])
  have f1: "sCFilterFiles d1 = sCFilterFiles d" "bestBlock d1 = bestBlock d" "disk d1 = disk p" "cache d1 = cache p" "sBaseDir d1 = sBaseDir d"
    "sHeaderFiles d1 = p" by (simp_all add: d1_def)
  have keep: "map_of (disk d1) f = map_of (disk d) f" if "inTask (sBaseDir d) FilterUpdate f" for f
    using p(5) inTask_unique [OF that] f1(3) by (metis background.distinct(1))
  have sub: "baseDir (sCFilterFiles d) = sBaseDir d" "subDir (sCFilterFiles d) = FilterFileDir" "fileSuffix (sCFilterFiles d) = FilterFileSuffix"
    by (simp_all add: fp newCFilterFiles_def)
  have fH: "cfHealthy C E (bestBlock d1) (cache d1) (mem (sCFilterFiles d1))"
    using chain p(4) by (simp add: cfHealthy_def headerHealthy_def f1 fp newCFilterFiles_def)
  have fR1: "resumesRight (cfHooks E) (cfExpected C E) (bestBlock d1) kf (withShared d1 (sCFilterFiles d1))"
    unfolding f1(1,2)
  proof (rule cff.resumesRight_shared [OF fR])
    show "cfHealthy C E (bestBlock d) (cache (withShared d1 (sCFilterFiles d))) (mem (withShared d1 (sCFilterFiles d)))"
      using fH f1 by (simp add: withShared_def)
    show "\<forall>f. inDir (joinPath (baseDir (sCFilterFiles d)) (subDir (sCFilterFiles d))) f \<longrightarrow> map_of (disk d1) f = map_of (disk d) f"
      using keep by (simp add: sub inTask_def)
    show "\<forall>f\<in>ownFilesOf cfRangeFiles (withShared d (sCFilterFiles d)). map_of (disk d1) f = map_of (disk d) f"
      using keep own_filter [of "withShared d (sCFilterFiles d)" "sBaseDir d"] sub by (simp add: withShared_def)
  qed
  obtain q where q: "taskTurn E B True FilterUpdate d1 = (Inr (), d1\<lparr>now := now q, disk := disk q, cache := cache q, sCFilterFiles := q\<rparr>)"
    "upToDate (cfHooks E) cfRangeFiles (cfExpected C E) (bestBlock d1) q" "conf q = conf (sCFilterFiles d1)"
    "cfHealthy C E (bestBlock d1) (cache q) (mem q)"
    "\<forall>f. map_of (disk q) f \<noteq> map_of (disk d1) f \<longrightarrow> inTask (sBaseDir d1) FilterUpdate f"
    "cacheStays d1 q" "{lastSealedHeight q + 1..bestBlock d1} \<subseteq> dom (heightToHash (cache q))"
    by (rule filter_catchUp [OF fR1 fH]) (simp_all add: f1 sub)
  define d2 where "d2 = taskPolls FilterUpdate (d1\<lparr>now := now q, disk := disk q, cache := cache q, sCFilterFiles := q\<rparr>)"
  have "FilterUpdate \<in> set (catchingUp d1)" using tasks(2) by (simp add: d1_def)
  from caughtUp [OF this q(1)] have s2: "daemonStep E B W d1 d2" unfolding d2_def .
  have "map_of (disk q) f = map_of (disk p) f" if "inTask (sBaseDir d) HeaderUpdate f" for f
    using q(5) inTask_unique [OF that] f1(3,5) by (metis background.distinct(1))
  moreover have pq: "cacheStays p q" using q(6) f1(4) by (simp add: cacheStays_def)
  moreover have "cacheStays d d2" using cacheStays_trans [OF p(6) pq] by (simp add: cacheStays_def d2_def)
  moreover have "{lastSealedHeight p + 1..bestBlock d} \<subseteq> dom (heightToHash (cache d2))"
    by (rule subset_trans [OF p(7)]) (use pq in \<open>simp add: cacheStays_def d2_def\<close>)
  moreover have "{lastSealedHeight q + 1..bestBlock d} \<subseteq> dom (heightToHash (cache d2))" using q(7) f1(2) by (simp add: d2_def)
  ultimately show thesis
    by (intro that [of d2] reach_step [OF reach_step [OF reach_refl s1] s2])
      (use p(1-5) q(1-5) f1 in \<open>simp_all add: d2_def\<close>, simp_all add: d1_def)
qed

lemma resumed_files:
  fixes s :: shared
  assumes "resumesRight (headerHooks E) (headerExpected C E) N k (newHeaderFiles n depth dir s)" "distinct (map fst (disk s))"
  shows "storedHeaders E (disk s) (joinPath dir HeaderFileDir) n k (cHeader C)" "k * n \<le> N" "N \<le> heightBound"
proof -
  have A: "sealedRanges (disk s) (joinPath dir HeaderFileDir) HeaderFileSuffix n k" "0 < n" "0 \<le> k" "k * n \<le> 10000000" "k * n \<le> N"
    "N \<le> heightBound" "contentsRight (headerExpected C E) ((newHeaderFiles n depth dir s)\<lparr>lastSealedHeight := k * n - 1\<rparr>)"
    using assms(1) by (simp_all add: resumesRight_def newHeaderFiles_def confOK_def)
  have "map_of (disk s) (blockFileName HeaderFileSuffix (joinPath dir HeaderFileDir) (j * n) (j * n + n - 1)) =
      Some (headersOf E (cHeader C) (j * n) (j * n + n - 1))" if j: "0 \<le> j" "j < k" for j
  proof -
    have "(j + 1) * n \<le> k * n" using j A(2) by (intro mult_right_mono) simp_all
    then have "j * n + n - 1 \<le> k * n - 1" by (simp add: algebra_simps)
    with A(7) j show ?thesis unfolding contentsRight_def
      by (fastforce simp: newHeaderFiles_def headerExpected_def headerFileName_def headersOf_def)
  qed
  with A assms(2) show "storedHeaders E (disk s) (joinPath dir HeaderFileDir) n k (cHeader C)" "k * n \<le> N" "N \<le> heightBound"
    by (simp_all add: storedHeaders_def)
qed

text \<open>A server whose two producers are up to date, with nothing disturbed on disk since.\<close>

lemma downloads:
  fixes d' :: "'h daemon"
  assumes U: "upToDate (headerHooks E) headerRangeFiles (headerExpected C E) N (sHeaderFiles d')"
    "headerHealthy C E N (cache (sHeaderFiles d')) (mem (sHeaderFiles d'))"
    "upToDate (cfHooks E) cfRangeFiles (cfExpected C E) N (sCFilterFiles d')"
    "cfHealthy C E N (cache (sCFilterFiles d')) (mem (sCFilterFiles d'))"
    and dsk: "disk d' = disk (sCFilterFiles d')"
      "\<forall>f. inTask (sBaseDir d') HeaderUpdate f \<longrightarrow> map_of (disk d') f = map_of (disk (sHeaderFiles d')) f"
    and look: "\<not> writerWaits (cache d')" "{lastSealedHeight (sHeaderFiles d') + 1..N} \<subseteq> dom (heightToHash (cache d'))"
      "{lastSealedHeight (sCFilterFiles d') + 1..N} \<subseteq> dom (heightToHash (cache d'))"
    and codec: "header_codec E" "wire_codec E" and light: "\<not> lightMode d'" and depth: "0 < depth"
    and hc: "conf (sHeaderFiles d') = conf (newHeaderFiles n depth (sBaseDir d') sh :: 'h headerFiles)" and n: "sHeadersPerFile d' = n"
    and fc: "conf (sCFilterFiles d') = conf (newCFilterFiles m depth (sBaseDir d') sh)" and m: "sFiltersPerFile d' = m"
  shows "concat (map (\<lambda>j. body (snd (headersRequestHandler E (heightRequest (j * n)) (server.truncate d', newWriter))))
      [0..(lastSealedHeight (sHeaderFiles d') + 1) div n]) = concat (map (\<lambda>h. SerializeHeader E (cHeader C h)) [0..N])"
    and "concat (map (\<lambda>j. body (snd (filtersRequestHandler E (heightRequest (j * m)) (server.truncate d', newWriter))))
      [0..(lastSealedHeight (sCFilterFiles d') + 1) div m]) = concat (map (\<lambda>h. WriteVarBytes E (cFilter C h)) [0..N])"
    and "list_all (\<lambda>j. statusOf (snd (headersRequestHandler E (heightRequest (j * n)) (server.truncate d', newWriter))) = 200 \<and>
        \<not> hung (snd (headersRequestHandler E (heightRequest (j * n)) (server.truncate d', newWriter))))
      [0..(lastSealedHeight (sHeaderFiles d') + 1) div n]"
    and "list_all (\<lambda>j. statusOf (snd (filtersRequestHandler E (heightRequest (j * m)) (server.truncate d', newWriter))) = 200 \<and>
        \<not> hung (snd (filtersRequestHandler E (heightRequest (j * m)) (server.truncate d', newWriter))))
      [0..(lastSealedHeight (sCFilterFiles d') + 1) div m]"
proof -
  let ?s = "server.truncate d'"
  have h: "fileSuffix (sHeaderFiles d') = HeaderFileSuffix" "subDir (sHeaderFiles d') = HeaderFileDir" "baseDir (sHeaderFiles d') = sBaseDir d'"
    "entriesPerFile (sHeaderFiles d') = n" "reOrgSafeDepth (sHeaderFiles d') = depth"
    using hc by (simp_all add: conf_def newHeaderFiles_def)
  have f: "fileSuffix (sCFilterFiles d') = FilterFileSuffix" "subDir (sCFilterFiles d') = FilterFileDir" "baseDir (sCFilterFiles d') = sBaseDir d'"
    "entriesPerFile (sCFilterFiles d') = m" "reOrgSafeDepth (sCFilterFiles d') = depth"
    using fc by (simp_all add: conf_def newCFilterFiles_def)
  have hr: "ready E ?s HeaderFileDir HeaderFileSuffix n (processorOf (sHeaderFiles ?s)) (\<lambda>h. SerializeHeader E (cHeader C h))
    (\<lambda>h. map_option (SerializeHeader E) (headers (mem (sHeaderFiles ?s)) h))"
    using headers_ready [OF U(1,2), of ?s] h light dsk(2) look by (simp add: mainFile_def inTask_def inDir_blockFileName)
  have fr: "ready E ?s FilterFileDir FilterFileSuffix m (processorOf (sCFilterFiles ?s)) (\<lambda>h. WriteVarBytes E (cFilter C h))
    (\<lambda>h. map_option (WriteVarBytes E) (filters (mem (sCFilterFiles ?s)) h))"
    using filters_ready [OF U(3,4), of ?s] f light dsk(1) look by simp
  have below: "lastSealedHeight (sHeaderFiles d') < N" "lastSealedHeight (sCFilterFiles d') < N"
    "currentHeight (sHeaderFiles d') = N" "currentHeight (sCFilterFiles d') = N"
    using U(1,3) depth h(5) f(5) by (simp_all add: upToDate_def)
  show "concat (map (\<lambda>j. body (snd (headersRequestHandler E (heightRequest (j * n)) (?s, newWriter))))
      [0..(lastSealedHeight (sHeaderFiles d') + 1) div n]) = concat (map (\<lambda>h. SerializeHeader E (cHeader C h)) [0..N])"
    "list_all (\<lambda>j. statusOf (snd (headersRequestHandler E (heightRequest (j * n)) (?s, newWriter))) = 200 \<and>
        \<not> hung (snd (headersRequestHandler E (heightRequest (j * n)) (?s, newWriter))))
      [0..(lastSealedHeight (sHeaderFiles d') + 1) div n]"
    using hdr.download [of E ?s "\<lambda>h. SerializeHeader E (cHeader C h)"] hr codec below n
    by (simp_all add: processorOf_def getCurrentHeight_def getLastSealedHeight_def)
  show "concat (map (\<lambda>j. body (snd (filtersRequestHandler E (heightRequest (j * m)) (?s, newWriter))))
      [0..(lastSealedHeight (sCFilterFiles d') + 1) div m]) = concat (map (\<lambda>h. WriteVarBytes E (cFilter C h)) [0..N])"
    "list_all (\<lambda>j. statusOf (snd (filtersRequestHandler E (heightRequest (j * m)) (?s, newWriter))) = 200 \<and>
        \<not> hung (snd (filtersRequestHandler E (heightRequest (j * m)) (?s, newWriter))))
      [0..(lastSealedHeight (sCFilterFiles d') + 1) div m]"
    using flt.download [of E ?s "\<lambda>h. WriteVarBytes E (cFilter C h)"] fr codec below m
    by (simp_all add: processorOf_def getCurrentHeight_def getLastSealedHeight_def)
qed

text \<open>On the chain the stored headers are of, the server starts, and its cache is right.\<close>

lemma started_on_chain:
  fixes s :: shared and E :: "'h env"
  assumes chain: "serves E C N" "validChain E C N" "header_codec E" and X: "backendReady X B c N"
    and st: "storedHeaders E (disk s) (joinPath (cBaseDir c) HeaderFileDir) n k (cHeader C)" "k * n \<le> N"
  obtains q s' where "start E B W X c s = (Inr (runningServer W c q N s' :: 'h daemon), s')" "disk s' = disk s" "cacheRight C N (cache s')"
    "fetcherReady c q" "\<not> writerWaits (cache s')"
proof -
  have io: "\<forall>t. ioFaults E t = None" using servesD(2) [OF chain(1)] by blast
  have hash: "BlockHash E (cHeader C h) = cHash C h" if "0 \<le> h" "h \<le> N" for h using chain(2) that by (simp add: validChain_def)
  have same: "\<forall>t. 0 < k \<longrightarrow> GetBlockHash (rpc E t) (k * n - 1) = Inr (BlockHash E (cHeader C (k * n - 1)))"
  proof (intro allI impI)
    fix t
    assume "0 < k"
    then have "0 < k * n" using st(1) by (simp add: storedHeaders_def)
    then have "0 \<le> k * n - 1" "k * n - 1 \<le> N" using st(2) by simp_all
    then show "GetBlockHash (rpc E t) (k * n - 1) = Inr (BlockHash E (cHeader C (k * n - 1)))"
      using servesD(3) [OF chain(1)] hash by simp
  qed
  obtain q s' where s': "start E B W X c s = (Inr (runningServer W c q N s' :: 'h daemon), s')" "disk s' = disk s"
    "heightToHash (cache s') = (\<lambda>h. if 0 \<le> h \<and> h < k * n then Some (BlockHash E (cHeader C h)) else None)" "fetcherReady c q"
    "\<not> writerWaits (cache s')"
    by (rule start_running [OF chain(3) io X st(1) same])
  have "cacheRight C N (cache s')" using hash by (simp add: cacheRight_def s'(3))
  with s' show thesis by (intro that)
qed

text \<open>
  Claim C5. From the start to the download: on a backend that serves a valid chain up to height
  \<open>N\<close>, with the right files of the first ranges on disk or none at all, the server starts,
  and it can reach a state (the header and then the filter producer catch up) in which the
  answers to \<open>/headers/0\<close>, \<open>/headers/n\<close>, and so on, are together the serialized
  headers of the chain from height 0 to \<open>N\<close>, and the answers to \<open>/filters/0\<close>,
  \<open>/filters/n\<close>, and so on, its basic filters, without a gap and without an overlap; every
  one of these requests returns, with status 200.
\<close>

theorem server_serves_chain:
  fixes s :: shared and E :: "'h env"
  assumes chain: "serves E C N" "validChain E C N" "header_codec E" "wire_codec E"
    and X: "backendReady X B c N" "\<not> cLightMode c" "0 < cDepth c" "distinct (map fst (disk s))"
    and hR: "resumesRight (headerHooks E) (headerExpected C E) N kh (newHeaderFiles (cHeadersPerFile c) (cDepth c) (cBaseDir c) s)"
    and fR: "resumesRight (cfHooks E) (cfExpected C E) N kf (newCFilterFiles (cFiltersPerFile c) (cDepth c) (cBaseDir c) s)"
  shows "\<exists>(d :: 'h daemon) s' d'. start E B W X c s = (Inr d, s') \<and> daemonReach E B W d d' \<and>
    concat (map (\<lambda>j. body (snd (headersRequestHandler E (heightRequest (j * cHeadersPerFile c)) (server.truncate d', newWriter))))
      [0..(lastSealedHeight (sHeaderFiles d') + 1) div cHeadersPerFile c]) = concat (map (\<lambda>h. SerializeHeader E (cHeader C h)) [0..N]) \<and>
    concat (map (\<lambda>j. body (snd (filtersRequestHandler E (heightRequest (j * cFiltersPerFile c)) (server.truncate d', newWriter))))
      [0..(lastSealedHeight (sCFilterFiles d') + 1) div cFiltersPerFile c]) = concat (map (\<lambda>h. WriteVarBytes E (cFilter C h)) [0..N]) \<and>
    list_all (\<lambda>j. statusOf (snd (headersRequestHandler E (heightRequest (j * cHeadersPerFile c)) (server.truncate d', newWriter))) = 200 \<and>
        \<not> hung (snd (headersRequestHandler E (heightRequest (j * cHeadersPerFile c)) (server.truncate d', newWriter))))
      [0..(lastSealedHeight (sHeaderFiles d') + 1) div cHeadersPerFile c] \<and>
    list_all (\<lambda>j. statusOf (snd (filtersRequestHandler E (heightRequest (j * cFiltersPerFile c)) (server.truncate d', newWriter))) = 200 \<and>
        \<not> hung (snd (filtersRequestHandler E (heightRequest (j * cFiltersPerFile c)) (server.truncate d', newWriter))))
      [0..(lastSealedHeight (sCFilterFiles d') + 1) div cFiltersPerFile c]"
proof -
  let ?n = "cHeadersPerFile c" and ?m = "cFiltersPerFile c"
  note st = resumed_files [OF hR X(4)]
  obtain q s' where s': "start E B W X c s = (Inr (runningServer W c q N s' :: 'h daemon), s')" "disk s' = disk s" "cacheRight C N (cache s')"
    "\<not> writerWaits (cache s')"
    by (rule started_on_chain [OF chain(1-3) X(1) st(1,2)])
  define d where "d = (runningServer W c q N s' :: 'h daemon)"
  have tasks: "HeaderUpdate \<in> set (catchingUp d)" "FilterUpdate \<in> set (catchingUp d)" using X(2) by (simp_all add: d_def backgroundTasks_def)
  have cr: "cacheRight C N (cache d)" using s'(3) by (simp add: d_def)
  have "withShared s (sHeaderFiles d) = newHeaderFiles ?n (cDepth c) (cBaseDir c) s"
    "withShared s (sCFilterFiles d) = newCFilterFiles ?m (cDepth c) (cBaseDir c) s"
    by (simp_all add: d_def withShared_def newHeaderFiles_def newCFilterFiles_def)
  then have R0: "resumesRight (headerHooks E) (headerExpected C E) N kh (withShared s (sHeaderFiles d))"
    "resumesRight (cfHooks E) (cfExpected C E) N kf (withShared s (sCFilterFiles d))" using hR fR by simp_all
  have R: "resumesRight (headerHooks E) (headerExpected C E) N kh (withShared d (sHeaderFiles d))"
    "resumesRight (cfHooks E) (cfExpected C E) N kf (withShared d (sCFilterFiles d))"
    by (rule hff.resumesRight_shared [OF R0(1)] cff.resumesRight_shared [OF R0(2)];
        use chain st(3) s'(3) in \<open>simp add: d_def s'(2) withShared_def headerHealthy_def cfHealthy_def newHeaderFiles_def newCFilterFiles_def\<close>)+
  have N: "bestBlock d = N" by (simp add: d_def)
  obtain d' where d': "daemonReach E B W d d'" "sBaseDir d' = sBaseDir d" "lightMode d' = lightMode d" "bestBlock d' = bestBlock d"
    "sHeadersPerFile d' = sHeadersPerFile d" "sFiltersPerFile d' = sFiltersPerFile d"
    "conf (sHeaderFiles d') = conf (sHeaderFiles d)" "conf (sCFilterFiles d') = conf (sCFilterFiles d)"
    "upToDate (headerHooks E) headerRangeFiles (headerExpected C E) N (sHeaderFiles d')"
    "headerHealthy C E N (cache (sHeaderFiles d')) (mem (sHeaderFiles d'))"
    "upToDate (cfHooks E) cfRangeFiles (cfExpected C E) N (sCFilterFiles d')"
    "cfHealthy C E N (cache (sCFilterFiles d')) (mem (sCFilterFiles d'))"
    "disk d' = disk (sCFilterFiles d')"
    "\<forall>f. inTask (sBaseDir d) HeaderUpdate f \<longrightarrow> map_of (disk d') f = map_of (disk (sHeaderFiles d')) f"
    "cacheStays d d'" "{lastSealedHeight (sHeaderFiles d') + 1..N} \<subseteq> dom (heightToHash (cache d'))"
    "{lastSealedHeight (sCFilterFiles d') + 1..N} \<subseteq> dom (heightToHash (cache d'))"
    by (rule both_caught_up [OF tasks, unfolded N, OF chain(1,2) st(3) cr _ _ R]) (simp_all add: d_def)
  have nw: "\<not> writerWaits (cache d')" using d'(15) s'(4) by (simp add: cacheStays_def d_def)
  have all: "concat (map (\<lambda>j. body (snd (headersRequestHandler E (heightRequest (j * ?n)) (server.truncate d', newWriter))))
      [0..(lastSealedHeight (sHeaderFiles d') + 1) div ?n]) = concat (map (\<lambda>h. SerializeHeader E (cHeader C h)) [0..N])"
    "concat (map (\<lambda>j. body (snd (filtersRequestHandler E (heightRequest (j * ?m)) (server.truncate d', newWriter))))
      [0..(lastSealedHeight (sCFilterFiles d') + 1) div ?m]) = concat (map (\<lambda>h. WriteVarBytes E (cFilter C h)) [0..N])"
    "list_all (\<lambda>j. statusOf (snd (headersRequestHandler E (heightRequest (j * ?n)) (server.truncate d', newWriter))) = 200 \<and>
        \<not> hung (snd (headersRequestHandler E (heightRequest (j * ?n)) (server.truncate d', newWriter))))
      [0..(lastSealedHeight (sHeaderFiles d') + 1) div ?n]"
    "list_all (\<lambda>j. statusOf (snd (filtersRequestHandler E (heightRequest (j * ?m)) (server.truncate d', newWriter))) = 200 \<and>
        \<not> hung (snd (filtersRequestHandler E (heightRequest (j * ?m)) (server.truncate d', newWriter))))
      [0..(lastSealedHeight (sCFilterFiles d') + 1) div ?m]"
    by (rule downloads [OF d'(9-13) _ nw d'(16,17) chain(3,4) _ X(3), where sh = s']; use d'(2,3,5-8,14) X(2) in \<open>simp add: d_def\<close>)+
  show ?thesis using s'(1) d'(1) all unfolding d_def by blast
qed

subsection \<open>Concrete runs\<close>

text \<open>
  The miniature chain with three blocks, two headers and two filters per file and a re-org-safe
  depth of one block; on disk are the files of the first range of headers.
\<close>

lemma miniData_ok2: "serves (miniEnv 2) miniData 2" "validChain (miniEnv 2) miniData 2"
proof -
  have three: "(0 \<le> h \<and> h \<le> 2) = (h = 0 \<or> h = 1 \<or> h = 2)" for h :: int by auto
  show "serves (miniEnv 2) miniData 2"
    unfolding serves_def three
    by (auto simp: miniEnv_def miniChain_def miniData_def miniBlockHash_def miniFilterHeader_def hex_digit_def)
  show "validChain (miniEnv 2) miniData 2"
    unfolding validChain_def three
    by (auto simp: miniEnv_def miniData_def miniBlockHash_def miniFilterHeader_def miniHash_def zeroHash_def)
qed

definition miniBackend :: backendEnv where
  "miniBackend = \<lparr>NewClient = Inr (), GetNetworkInfo = (\<lambda>_. Inr 300000), GetBlockChainInfo = (\<lambda>_. Inr 2)\<rparr>"

definition miniConf :: serverConf where
  "miniConf = newServer False False False ''/d'' '':8080'' True ''b'' RegTest \<lparr>pNet = 1, pName = ''mini'', pGenesisHash = zeroHash\<rparr> 1 2 2 2 0 0"

definition startDisk :: "(int \<Rightarrow> miniHeader) \<Rightarrow> disk" where
  "startDisk hdrs = [(blockFileName HeaderFileSuffix ''/d/headers'' 0 1, headersOf (miniEnv 2) hdrs 0 1),
     (blockFileName FilterHeaderFileSuffix ''/d/headers'' 0 1, concat (map (cFilterHeader miniData) [0..1]))]"

definition miniStart :: "(int \<Rightarrow> miniHeader) \<Rightarrow> shared" where "miniStart hdrs = \<lparr>now = 0, disk = startDisk hdrs, cache = newH2HCache\<rparr>"

lemma miniConf_simps [simp]:
  "cHeadersPerFile miniConf = 2" "cFiltersPerFile miniConf = 2" "cDepth miniConf = 1" "cBaseDir miniConf = ''/d''" "\<not> cLightMode miniConf"
  "backgroundTasks miniConf = [HeaderUpdate, FilterUpdate]"
  by (simp_all add: miniConf_def newServer_def cDepth_def i32_def backgroundTasks_def)

lemma mini_dirs: "joinPath ''/d'' HeaderFileDir = ''/d/headers''" "joinPath ''/d'' FilterFileDir = ''/d/filters''"
  "plainDir ''/d/headers''" "plainDir ''/d/filters''"
  by (simp_all add: joinPath_def HeaderFileDir_def FilterFileDir_def plainDir_def upt_rec)

lemma miniBackend_ready: "backendReady miniBackend miniBlocks miniConf 2"
  by (simp add: backendReady_def miniBackend_def miniConf_def newServer_def)

lemma start_names: "blockFileName HeaderFileSuffix ''/d/headers'' 0 1 \<noteq> blockFileName FilterHeaderFileSuffix ''/d/headers'' 0 1"
  by (simp add: blockFileName_eq_iff) (simp add: HeaderFileSuffix_def FilterHeaderFileSuffix_def)

lemma startDisk_sealed:
  "sealedRanges (startDisk hdrs) ''/d/headers'' HeaderFileSuffix 2 1" "sealedRanges (startDisk hdrs) ''/d/filters'' FilterFileSuffix 2 0" "distinct (map fst (startDisk hdrs))"
proof -
  have g: "globMatch ''/d/headers'' HeaderFileSuffix (blockFileName HeaderFileSuffix ''/d/headers'' 0 1)"
    by (rule globMatch_blockFileName) simp_all
  have "\<not> globMatch ''/d/headers'' HeaderFileSuffix (blockFileName FilterHeaderFileSuffix ''/d/headers'' 0 1)"
    by (simp add: globMatch_def blockFileName_def HeaderFileSuffix_def FilterHeaderFileSuffix_def Let_def length_fmt07d)
  with g show "sealedRanges (startDisk hdrs) ''/d/headers'' HeaderFileSuffix 2 1" by (simp add: sealedRanges_def startDisk_def)
  have "\<not> globMatch ''/d/filters'' FilterFileSuffix (blockFileName s ''/d/headers'' 0 1)" if "okSuffix s" for s
  proof
    assume "globMatch ''/d/filters'' FilterFileSuffix (blockFileName s ''/d/headers'' 0 1)"
    from inDir_unique [OF globMatch_inDir [OF this] inDir_blockFileName [OF that]] show False by simp
  qed
  then show "sealedRanges (startDisk hdrs) ''/d/filters'' FilterFileSuffix 2 0" by (simp add: sealedRanges_def startDisk_def)
  show "distinct (map fst (startDisk hdrs))" using start_names by (simp add: startDisk_def)
qed

lemma miniStart_resumes:
  "resumesRight (headerHooks (miniEnv 2)) (headerExpected miniData (miniEnv 2)) 2 1 (newHeaderFiles 2 1 ''/d'' (miniStart (cHeader miniData)))"
  "resumesRight (cfHooks (miniEnv 2)) (cfExpected miniData (miniEnv 2)) 2 0 (newCFilterFiles 2 1 ''/d'' (miniStart (cHeader miniData)))"
proof -
  let ?p = "newHeaderFiles 2 1 ''/d'' (miniStart (cHeader miniData)) :: miniHeader headerFiles"
  have zero: "0 \<le> j \<and> j * 2 + 2 - 1 \<le> 1 \<longleftrightarrow> j = 0" for j :: int by auto
  have "contentsRight (headerExpected miniData (miniEnv 2)) (?p\<lparr>lastSealedHeight := 1\<rparr>)"
    unfolding contentsRight_def
  proof (intro allI impI)
    fix j
    assume "0 \<le> j" "j * entriesPerFile (?p\<lparr>lastSealedHeight := 1\<rparr>) + entriesPerFile (?p\<lparr>lastSealedHeight := 1\<rparr>) - 1 \<le> lastSealedHeight (?p\<lparr>lastSealedHeight := 1\<rparr>)"
    then have "j = 0" by (simp add: newHeaderFiles_def)
    then show "\<forall>(f, bs)\<in>set (headerExpected miniData (miniEnv 2) (?p\<lparr>lastSealedHeight := 1\<rparr>) (j * entriesPerFile (?p\<lparr>lastSealedHeight := 1\<rparr>))
        (j * entriesPerFile (?p\<lparr>lastSealedHeight := 1\<rparr>) + entriesPerFile (?p\<lparr>lastSealedHeight := 1\<rparr>) - 1)).
        map_of (disk (?p\<lparr>lastSealedHeight := 1\<rparr>)) f = Some bs"
      using start_names by (auto simp: newHeaderFiles_def headerExpected_def headerFileName_def filterHeaderFileName_def miniStart_def startDisk_def
          headersOf_def mini_dirs)
  qed
  then show "resumesRight (headerHooks (miniEnv 2)) (headerExpected miniData (miniEnv 2)) 2 1 ?p"
    using startDisk_sealed(1) mini_dirs
    by (simp add: resumesRight_def newHeaderFiles_def miniStart_def confOK_def heightBound_def headerHooks_def headerCachedHash_def fun_eq_iff)
  have "\<not> (0 \<le> j \<and> j * 2 + 1 \<le> - 1)" for j :: int by auto
  then have "contentsRight (cfExpected miniData (miniEnv 2)) ((newCFilterFiles 2 1 ''/d'' (miniStart (cHeader miniData)))\<lparr>lastSealedHeight := - 1\<rparr>)"
    by (auto simp: contentsRight_def newCFilterFiles_def)
  then show "resumesRight (cfHooks (miniEnv 2)) (cfExpected miniData (miniEnv 2)) 2 0 (newCFilterFiles 2 1 ''/d'' (miniStart (cHeader miniData)))"
    using startDisk_sealed(2) mini_dirs
    by (simp add: resumesRight_def newCFilterFiles_def miniStart_def confOK_def heightBound_def cfHooks_def cfCachedHash_def fun_eq_iff)
qed

lemma miniStart_stored: "storedHeaders (miniEnv 2) (disk (miniStart hdrs)) ''/d/headers'' 2 1 hdrs"
proof -
  have one: "0 \<le> j \<and> j < 1 \<longleftrightarrow> j = 0" for j :: int by auto
  show ?thesis
    unfolding storedHeaders_def one using startDisk_sealed(1,3) [of hdrs] by (simp add: miniStart_def startDisk_def)
qed

lemma server_serves_chain_witness:
  "\<exists>(d :: miniHeader daemon) s' d'. start (miniEnv 2) miniBlocks miniWeb miniBackend miniConf (miniStart (cHeader miniData)) = (Inr d, s') \<and>
     daemonReach (miniEnv 2) miniBlocks miniWeb d d' \<and>
     concat (map (\<lambda>j. body (snd (filtersRequestHandler (miniEnv 2) (heightRequest (j * 2)) (server.truncate d', newWriter))))
       [0..(lastSealedHeight (sCFilterFiles d') + 1) div 2]) = [1, 0, 1, 1, 1, 2]"
proof -
  have "concat (map (\<lambda>h. WriteVarBytes (miniEnv 2) (cFilter miniData h)) [0..2]) = [1, 0, 1, 1, 1, 2]"
    by (simp add: upto.simps miniEnv_def miniData_def compactSize_def)
  then show ?thesis
    using server_serves_chain [OF miniData_ok2 mini_header_codec mini_wire_codec miniBackend_ready, of "miniStart (cHeader miniData)" 1 0 miniWeb]
      miniStart_resumes startDisk_sealed(3) by (simp add: miniStart_def) blast
qed

lemma start_refuses_other_chain_witness:
  "fst (start (miniEnv 2) miniBlocks miniWeb miniBackend miniConf (miniStart (\<lambda>_. (9, 9))) :: (err + miniHeader daemon) \<times> shared) =
     Inl (Errf (''header mismatch at height %d: cache has '' @ hashToString miniWeb (BlockHash (miniEnv 2) (9, 9)) @
       '', backend has '' @ hashToString miniWeb (miniBlockHash 1)) [1])"
proof -
  have io: "\<forall>t. ioFaults (miniEnv 2) t = None" by (simp add: miniEnv_def)
  have "\<forall>t. \<exists>x. GetBlockHash (rpc (miniEnv 2) t) (1 * 2 - 1) = Inr x \<and> x \<noteq> BlockHash (miniEnv 2) (9, 9)"
    by (simp add: miniEnv_def miniChain_def miniBlockHash_def)
  moreover have "x = miniBlockHash 1" if "GetBlockHash (rpc (miniEnv 2) t) 1 = Inr x" for t x using that by (simp add: miniEnv_def miniChain_def)
  ultimately show ?thesis
    using start_refuses_other_chain [OF mini_header_codec io miniBackend_ready, of "miniStart (\<lambda>_. (9, 9))" 2 1 "\<lambda>_. (9, 9)" miniWeb]
      miniStart_stored mini_dirs(1) by auto
qed

lemma miniStart_resumable: "resumable (miniEnv 2) miniBlocks miniConf (disk (miniStart (cHeader miniData))) 2"
proof -
  let ?p = "newHeaderFiles 2 1 ''/d'' (miniStart (cHeader miniData)) :: miniHeader headerFiles" and ?q = "newCFilterFiles 2 1 ''/d'' (miniStart (cHeader miniData))"
  have "headerHealthy miniData (miniEnv 2) 2 (cache ?p) (mem ?p)" "cfHealthy miniData (miniEnv 2) 2 (cache ?q) (mem ?q)"
    using miniData_ok2 by (simp_all add: headerHealthy_def cfHealthy_def newHeaderFiles_def newCFilterFiles_def miniStart_def cacheRight_def
        newH2HCache_def heightBound_def)
  from hff.resumesRight_fresh [OF miniStart_resumes(1) this(1)] cff.resumesRight_fresh [OF miniStart_resumes(2) this(2)]
  show ?thesis by (simp add: resumable_def miniStart_def)
qed

lemma start_resumes_witness:
  "\<exists>(d :: miniHeader daemon) s'. start (miniEnv 2) miniBlocks miniWeb miniBackend miniConf (miniStart (cHeader miniData)) = (Inr d, s') \<and>
     heightToHash (cache d) 1 = Some (miniBlockHash 1) \<and> heightToHash (cache d) 2 = None \<and> bestBlock d = 2 \<and>
     catchingUp d = [HeaderUpdate, FilterUpdate] \<and> daemonInv (miniEnv 2) miniBlocks d"
proof -
  have io: "\<forall>t. ioFaults (miniEnv 2) t = None" by (simp add: miniEnv_def)
  have st: "storedHeaders (miniEnv 2) (disk (miniStart (cHeader miniData))) (joinPath (cBaseDir miniConf) HeaderFileDir) 2 1 (cHeader miniData)"
    using miniStart_stored mini_dirs(1) by simp
  have b: "BlockHash (miniEnv 2) (cHeader miniData 1) = miniBlockHash 1" by (simp add: miniEnv_def miniData_def miniBlockHash_def)
  then have "\<forall>t. 0 < (1 :: int) \<longrightarrow> GetBlockHash (rpc (miniEnv 2) t) (1 * 2 - 1) = Inr (BlockHash (miniEnv 2) (cHeader miniData (1 * 2 - 1)))"
    by (simp add: miniEnv_def miniChain_def)
  from start_resumes [OF mini_header_codec io miniBackend_ready st this miniStart_resumable, of miniWeb] b show ?thesis by auto
qed

text \<open>The started server, for any fetcher; its two producers catch up, and the sealed file is still there.\<close>

lemma server_keeps_sealed_files_witness:
  "\<exists>d' :: miniHeader daemon. daemonReach (miniEnv 2) miniBlocks miniWeb
       (runningServer miniWeb miniConf (newBlockPrefetcher False False) 2 (miniStart (cHeader miniData))) d' \<and>
     startupComplete (sHeaderFiles d') \<and> startupComplete (sCFilterFiles d') \<and> daemonInv (miniEnv 2) miniBlocks d' \<and>
     map_of (disk d') (blockFileName HeaderFileSuffix ''/d/headers'' 0 1) = Some (headersOf (miniEnv 2) (cHeader miniData) 0 1)"
proof -
  let ?E = "miniEnv 2" and ?s = "miniStart (cHeader miniData)" and ?f = "blockFileName HeaderFileSuffix ''/d/headers'' 0 1"
  define d :: "miniHeader daemon" where "d = runningServer miniWeb miniConf (newBlockPrefetcher False False) 2 ?s"
  have inv: "daemonInv ?E miniBlocks d" unfolding d_def by (rule running_inv [OF miniStart_resumable])
  have N: "bestBlock d = 2" "(2 :: int) \<le> heightBound" and tasks: "HeaderUpdate \<in> set (catchingUp d)" "FilterUpdate \<in> set (catchingUp d)"
    by (simp_all add: d_def heightBound_def)
  have cr: "cacheRight miniData 2 (cache d)" by (simp add: d_def cacheRight_def miniStart_def newH2HCache_def)
  have new: "sHeaderFiles d = newHeaderFiles 2 1 (sBaseDir d) ?s" "sCFilterFiles d = newCFilterFiles 2 1 (sBaseDir d) ?s" by (simp_all add: d_def)
  have w: "withShared d (sHeaderFiles d) = newHeaderFiles 2 1 ''/d'' (?s\<lparr>now := now d\<rparr>)"
    "withShared d (sCFilterFiles d) = newCFilterFiles 2 1 ''/d'' (?s\<lparr>now := now d\<rparr>)"
    by (simp_all add: d_def withShared_def newHeaderFiles_def newCFilterFiles_def)
  have "?s\<lparr>now := now d\<rparr> = ?s" by (simp add: d_def runningServer_def Let_def)
  then have R: "resumesRight (headerHooks ?E) (headerExpected miniData ?E) 2 1 (withShared d (sHeaderFiles d))"
    "resumesRight (cfHooks ?E) (cfExpected miniData ?E) 2 0 (withShared d (sCFilterFiles d))"
    unfolding w using miniStart_resumes by simp_all
  obtain d' where d': "daemonReach ?E miniBlocks miniWeb d d'"
    "upToDate (headerHooks ?E) headerRangeFiles (headerExpected miniData ?E) 2 (sHeaderFiles d')"
    "upToDate (cfHooks ?E) cfRangeFiles (cfExpected miniData ?E) 2 (sCFilterFiles d')"
    by (rule both_caught_up [OF tasks, unfolded N(1), OF miniData_ok2 N(2) cr new R])
  have f: "map_of (disk d) ?f = Some (headersOf ?E (cHeader miniData) 0 1)" by (simp add: d_def miniStart_def startDisk_def)
  have "sealedRange True (withShared d (sHeaderFiles d)) 0 \<and> ?f \<in> rangeFiles headerRangeFiles (withShared d (sHeaderFiles d)) 0"
    by (simp add: w sealedRange_def rangeFiles_def headerRangeFiles_def headerFileName_def newHeaderFiles_def mini_dirs fileExists_def miniStart_def startDisk_def)
  then have "?f \<in> sealedFiles True HeaderUpdate d" by (auto simp: sealedFilesOf_def)
  moreover have "boundedBackend ?E" by (rule mini_bounded) (simp_all add: heightBound_def)
  ultimately have "daemonInv ?E miniBlocks d' \<and> map_of (disk d') ?f = map_of (disk d) ?f"
    using server_keeps_sealed_files [OF d'(1) inv] tasks by blast
  with d' f show ?thesis unfolding d_def upToDate_def by auto
qed

end
