(* ===== verification/IndexServer.thy ===== *)
theory IndexServer
  imports EndToEnd
begin

text \<open>
  The two optional indexes, from the start of the server to the answers: with Silent Payments
  tweaks and custom filters turned on, on a backend that serves one chain with its blocks, the
  server starts, the two producers catch up as steps of the running server, and every request
  for tweaks, custom filters or custom filter headers is answered with what the chain
  prescribes, whether the range is sealed in a file or still in memory.
\<close>

subsection \<open>Requests of a range\<close>

text \<open>A complete answer: the handler returns, with status, body, and the length announced for it.\<close>

definition answeredWith :: "bytes \<Rightarrow> writer \<Rightarrow> bool" where
  "answeredWith bs w \<longleftrightarrow> \<not> hung w \<and> statusOf w = 200 \<and> body w = bs \<and> fieldOf ''Content-Length'' w = [decimal (length bs)]"

definition tweakRequest :: "nat \<Rightarrow> int \<Rightarrow> request" where
  "tweakRequest dust h = \<lparr>vars = [(''dust'', decimal dust), (''height'', decimal (nat h))], query = [], rangeHeader = None\<rparr>"

definition customRequest :: "string \<Rightarrow> int \<Rightarrow> request" where
  "customRequest name h = \<lparr>vars = [(''filterType'', name), (''height'', decimal (nat h))], query = [], rangeHeader = None\<rparr>"

lemma content_answer:
  assumes s: "\<not> lightMode s" "bpStartupComplete P" "\<forall>t. ioFaults E t = None" and n: "0 < n" "n \<le> heightBound"
    and N: "bpCurrentHeight P = N" "N \<le> heightBound" and a: "0 \<le> a" "a \<le> N" "a mod n = 0"
    and r: "parseRequestParamInt64 r ''height'' = Inr a" "rangeHeader r = None"
    and dat: "map_of (disk s) (rangeName sub sfx n s a) = (if a + n - 1 \<le> L then Some (content a (a + n - 1)) else None)"
    and tail: "L < a + n - 1 \<Longrightarrow> fst (ser a N) = content a N \<and> sz a N = (int (length (content a N)), True)"
    and look: "\<not> writerWaits (cache s)" "L < a + n - 1 \<Longrightarrow> a \<in> dom (heightToHash (cache s))"
  shows "answeredWith (content a (if a + n - 1 \<le> L then a + n - 1 else N))
    (snd (heightBasedRequestHandler E r sub sfx n ser (Some sz) P (s, newWriter)))"
proof -
  have chk: "checkStartHeight P a (i32 n) = Inr ()" using a n N by (intro checkStartHeight_ok) simp_all
  have ia: "i32 a = a" using a N by (auto intro!: i32_id simp: heightBound_def)
  have ib: "i64 (a + n - 1) = a + n - 1" using a n N by (intro i64_id) (auto simp: heightBound_def)
  note dat' = dat [unfolded rangeName_def]
  show ?thesis
  proof (cases "a + n - 1 \<le> L")
    case True
    have "snd (heightBasedRequestHandler E r sub sfx n ser (Some sz) P (s, newWriter)) = serveContent None (content a (a + n - 1))
        (headerSet ''Content-Type'' contentTypeBinary (addCacheHeaders maxAgeDisk (addCorsHeaders newWriter)))"
      using dat' True ib s(3) by (subst heightBased_file [OF s(1,2) r(1) chk]) (simp_all add: r(2))
    with True show ?thesis by (simp add: serveContent_whole answeredWith_def)
  next
    case False
    obtain x where look': "heightToHash (cache s) (i32 a) = Some x" using look(2) False ia by (auto simp: domIff)
    have ans: "snd (heightBasedRequestHandler E r sub sfx n ser (Some sz) P (s, newWriter)) = serveTail ser (Some sz) P a newWriter"
      using dat' False ib s(3) by (intro heightBased_memory [OF s(1,2) r(1) chk _ _ look(1) look']) (simp_all add: fileExists_def)
    have "sz (i32 a) (bpCurrentHeight P) = (int (length (fst (ser (i32 a) (bpCurrentHeight P)))), True)" using tail False ia N(1) by simp
    note all = serveTail_answer [of sz a P ser, OF this]
    show ?thesis unfolding ans using all False tail N(1) by (simp add: answeredWith_def ia)
  qed
qed

text \<open>A start height that is not sealed with its range is above all sealed heights.\<close>

lemma start_above:
  assumes "(L + 1) mod n = 0" "a mod n = 0" "0 < n" "L < a + n - (1 :: int)"
  shows "L < a"
proof (rule ccontr)
  assume "\<not> L < a"
  moreover obtain i where "L + 1 = i * n" using assms(1) by (metis mod_eq_0_iff_dvd dvdE mult.commute)
  moreover obtain j where "a = j * n" using assms(2) by (metis mod_eq_0_iff_dvd dvdE mult.commute)
  moreover have "(j + 1) * n = j * n + n" by (simp add: algebra_simps)
  ultimately have "j * n < i * n" "i * n < (j + 1) * n" using assms(4) by linarith+
  then show False using assms(3) by (simp add: mult_less_cancel_right)
qed

subsection \<open>Tweaks\<close>

lemma tweaksAt_33: "e \<in> set (tweaksAt B D tap h) \<Longrightarrow> length (tweak e) = 33"
  by (auto simp: tweaksAt_def map_filter_def spEntryOf_def copy33_def split: if_splits sum.splits option.splits)

lemma tweaks_in_memory:
  assumes H: "spHealthy B C D tap net E N c m" and ab: "{a..b} \<subseteq> dom (tweakData m)"
  shows "serializeSPTweaks E m d a b = (tweakFile E B D tap net d a b, None)"
    "spTweaksSize E m d a b = (int (length (tweakFile E B D tap net d a b)), True)"
proof -
  note S = H [unfolded spHealthy_def]
  have es: "collect (tweakData m) [a..b] = Inr (map (tweaksAt B D tap) [a..b])"
    by (rule collect_chain) (use S ab in auto)
  show out: "serializeSPTweaks E m d a b = (tweakFile E B D tap net d a b, None)"
    using streamEach_collect [OF es] S by (simp add: serializeSPTweaks_def tweakFile_def comp_def)
  have "\<forall>es\<in>ran (tweakData m). \<forall>e\<in>set es. length (tweak e) = 33" using S by (fastforce simp: ran_def dest: tweaksAt_33)
  from spTweaksSize_exact [OF _ this, of E d a b] out S show "spTweaksSize E m d a b = (int (length (tweakFile E B D tap net d a b)), True)"
    by (simp add: servesBlocks_def)
qed

lemma tweaks_answered:
  assumes U: "upToDate (spHooks B E) spRangeFiles (spExpected B D tap net E) N p" and H: "spHealthy B C D tap net E N c (mem p)"
    and s: "sSPTweakFiles s = Some p" "\<not> lightMode s" "sBaseDir s = baseDir p" "sSPTweaksPerFile s = entriesPerFile p"
    and dsk: "\<And>j f. 0 \<le> j \<Longrightarrow> f \<in> rangeFiles spRangeFiles p j \<Longrightarrow> map_of (disk s) f = map_of (disk p) f"
    and gone: "\<And>j f. 0 \<le> j \<Longrightarrow> lastSealedHeight p < j * entriesPerFile p + entriesPerFile p - 1 \<Longrightarrow>
        f \<in> rangeFiles spRangeFiles p j \<Longrightarrow> map_of (disk p) f = None"
    and look: "\<not> writerWaits (cache s)" "{lastSealedHeight p + 1..N} \<subseteq> dom (heightToHash (cache s))"
    and a: "0 \<le> a" "a \<le> N" "a mod entriesPerFile p = 0" and d: "d \<in> set spTweakDustLimits"
  shows "answeredWith (tweakFile E B D tap net d a (if a + entriesPerFile p - 1 \<le> lastSealedHeight p then a + entriesPerFile p - 1 else N))
    (snd (spTweaksRequestHandler E (tweakRequest d a) (s, newWriter)))"
proof -
  let ?n = "entriesPerFile p" and ?L = "lastSealedHeight p"
  have inv: "tailInv (spHooks B E) spRangeFiles p" and cur: "currentHeight p = N" and complete: "startupComplete p"
    and R: "contentsRight (spExpected B D tap net E) p" using U by (simp_all add: upToDate_def)
  note I = spt.tailInvD [OF inv]
  have n: "0 < ?n" "?n \<le> heightBound" "(?L + 1) mod ?n = 0" using I(1,2) by (simp_all add: confOK_def aligned_def)
  have sv: "serves E C N" using H by (simp add: spHealthy_def)
  have P: "bpStartupComplete (processorOf p)" "bpCurrentHeight (processorOf p) = N"
    by (simp_all add: processorOf_def isStartupComplete_def getCurrentHeight_def complete cur)
  define j where "j = a div ?n"
  have j: "a = j * ?n" "0 \<le> j" using a n by (auto simp: j_def pos_imp_zdiv_nonneg_iff)
  have f: "rangeName (spTweakDustDir d) SPTweakFileSuffix ?n s a = spFileName p d a (a + ?n - 1)" by (simp add: rangeName_def spFileName_def s(3))
  have own: "spFileName p d a (a + ?n - 1) \<in> rangeFiles spRangeFiles p j" using d by (auto simp: rangeFiles_def spRangeFiles_def j(1))
  have dat: "map_of (disk s) (rangeName (spTweakDustDir d) SPTweakFileSuffix ?n s a) =
      (if a + ?n - 1 \<le> ?L then Some (tweakFile E B D tap net d a (a + ?n - 1)) else None)"
  proof (cases "a + ?n - 1 \<le> ?L")
    case True
    have "(spFileName p d a (a + ?n - 1), tweakFile E B D tap net d a (a + ?n - 1)) \<in> set (spExpected B D tap net E p a (a + ?n - 1))"
      using d by (simp add: spExpected_def)
    then have "map_of (disk p) (spFileName p d a (a + ?n - 1)) = Some (tweakFile E B D tap net d a (a + ?n - 1))"
      using R True j unfolding contentsRight_def by fastforce
    with True dsk [OF j(2) own] f show ?thesis by simp
  next
    case False
    with gone [OF j(2) _ own] dsk [OF j(2) own] f j(1) show ?thesis by simp
  qed
  have tail: "fst (serializeSPTweaks E (mem p) d a N) = tweakFile E B D tap net d a N \<and>
      spTweaksSize E (mem p) d a N = (int (length (tweakFile E B D tap net d a N)), True)" if "?L < a + ?n - 1"
  proof -
    have "?L < a" by (rule start_above [OF n(3) a(3) n(1) that])
    moreover have "dom (tweakData (mem p)) = {?L + 1..N}"
      using I(6) H cur by (simp add: spHealthy_def spHooks_def spCachedHash_def [abs_def])
    ultimately have "{a..N} \<subseteq> dom (tweakData (mem p))" by auto
    from tweaks_in_memory [OF H this] show ?thesis by simp
  qed
  have dust: "parseRequestParamInt64 (tweakRequest d a) ''dust'' = Inr (int d)"
    by (rule parse_param) (use d in \<open>auto simp: tweakRequest_def lookupStr_def spTweakDustLimits_def max64_def\<close>)
  have height: "parseRequestParamInt64 (tweakRequest d a) ''height'' = Inr a"
    by (rule parse_param) (use a I(5) cur in \<open>simp_all add: tweakRequest_def lookupStr_def max64_def heightBound_def\<close>)
  have lim: "nat (int d mod 18446744073709551616) = d" using d by (auto simp: spTweakDustLimits_def)
  have run: "spTweaksRequestHandler E (tweakRequest d a) (s, newWriter) = heightBasedRequestHandler E (tweakRequest d a) (spTweakDustDir d)
      SPTweakFileSuffix ?n (serializeSPTweaks E (mem p) d) (Some (spTweaksSize E (mem p) d)) (processorOf p) (s, newWriter)"
    using s(1,4) dust lim d by (simp add: spTweaksRequestHandler_def Let_def isValidSPTweakDustLimit_def)
  have first: "a \<in> dom (heightToHash (cache s))" if "?L < a + ?n - 1"
    by (rule subsetD [OF look(2)]) (use start_above [OF n(3) a(3) n(1) that] a(2) in simp)
  show ?thesis
    unfolding run
    by (rule content_answer [where content = "tweakFile E B D tap net d" and ser = "serializeSPTweaks E (mem p) d" and sz = "spTweaksSize E (mem p) d" and L = ?L, OF s(2) P(1) _ n(1,2) P(2) _ a height _ dat tail look(1) first])
      (use I(5) cur servesD(2) [OF sv] in \<open>auto simp: tweakRequest_def\<close>)
qed

subsection \<open>Custom filters and their headers\<close>

lemma configIndex_nth: "i < length customFilterConfigs \<Longrightarrow> customFilterConfigIndex (cfgName (customFilterConfigs ! i)) = Some i"
  by (auto simp: customFilterConfigIndex_def customFilterConfigs_def less_Suc_eq numeral_eq_Suc)

text \<open>
  What \<open>upToDate\<close> says of a custom filter producer whose disk the server shares, and which
  hashes the requests look up: those of the heights in memory, and that of the first height of the
  header range that is not complete, whose filters may be sealed already.
\<close>

definition customServed :: "blockEnv \<Rightarrow> 'h chainData \<Rightarrow> blockData \<Rightarrow> int \<Rightarrow> 'h env \<Rightarrow> int \<Rightarrow> 'h server \<Rightarrow> customFilterFiles \<Rightarrow> bool" where
  "customServed B C D hpf E N s p \<longleftrightarrow>
     upToDate (customHooks B E) customRangeFiles (customExpected B C D hpf E) N p \<and> customHealthy B C D hpf E N p \<and> 0 < reOrgSafeDepth p \<and>
     sCustomFilterFiles s = Some p \<and> \<not> lightMode s \<and> sBaseDir s = baseDir p \<and> sFiltersPerFile s = entriesPerFile p \<and> sHeadersPerFile s = hpf \<and>
     (\<forall>j f. 0 \<le> j \<and> f \<in> rangeFiles customRangeFiles p j \<longrightarrow> map_of (disk s) f = map_of (disk p) f \<and>
        (lastSealedHeight p < j * entriesPerFile p + entriesPerFile p - 1 \<longrightarrow> map_of (disk p) f = None)) \<and>
     \<not> writerWaits (cache s) \<and> {lastSealedHeight p + 1..N} \<subseteq> dom (heightToHash (cache s)) \<and>
     spanStart hpf (lastSealedHeight p) \<in> dom (heightToHash (cache s))"

lemma custom_filters_answered:
  assumes A: "customServed B C D hpf E N s p" and a: "0 \<le> a" "a \<le> N" "a mod entriesPerFile p = 0" and i: "i < length customFilterConfigs"
  shows "answeredWith (concat (map (\<lambda>h. WriteVarBytes E (filterAt B C D (customFilterConfigs ! i) h))
      [a..if a + entriesPerFile p - 1 \<le> lastSealedHeight p then a + entriesPerFile p - 1 else N]))
    (snd (customFiltersRequestHandler E (customRequest (cfgName (customFilterConfigs ! i)) a) (s, newWriter)))"
proof -
  let ?n = "entriesPerFile p" and ?L = "lastSealedHeight p" and ?cfg = "customFilterConfigs ! i"
  let ?f = "cuFilterFileName p (cfgName ?cfg) a (a + ?n - 1)" and ?e = "\<lambda>h. WriteVarBytes E (filterAt B C D ?cfg h)"
  note S = A [unfolded customServed_def]
  have H: "customHealthy B C D hpf E N p" and R: "contentsRight (customExpected B C D hpf E) p" and inv: "tailInv (customHooks B E) customRangeFiles p"
    and cur: "currentHeight p = N" and complete: "startupComplete p" and light: "\<not> lightMode s" using S by (simp_all add: upToDate_def)
  note I = cuf.tailInvD [OF inv]
  have n: "0 < ?n" "?n \<le> heightBound" "(?L + 1) mod ?n = 0" using I(1,2) by (simp_all add: confOK_def aligned_def)
  have sv: "serves E C N" and wire: "wire_codec E" using H by (simp_all add: customHealthy_def servesBlocks_def)
  have P: "bpStartupComplete (processorOf p)" "bpCurrentHeight (processorOf p) = N"
    by (simp_all add: processorOf_def isStartupComplete_def getCurrentHeight_def complete cur)
  define j where "j = a div ?n"
  have j: "a = j * ?n" "0 \<le> j" using a n by (auto simp: j_def pos_imp_zdiv_nonneg_iff)
  have cfg: "?cfg \<in> set customFilterConfigs" using i by simp
  have own: "?f \<in> rangeFiles customRangeFiles p j" using cfg by (auto simp: rangeFiles_def customRangeFiles_def j(1))
  have name: "rangeName (customFilterDir (cfgName ?cfg)) FilterFileSuffix ?n s a = ?f" using S by (simp add: rangeName_def cuFilterFileName_def)
  have dat: "map_of (disk s) (rangeName (customFilterDir (cfgName ?cfg)) FilterFileSuffix ?n s a) =
      (if a + ?n - 1 \<le> ?L then Some (concat (map ?e [a..a + ?n - 1])) else None)"
  proof (cases "a + ?n - 1 \<le> ?L")
    case True
    have "map_of (disk p) ?f = Some (concat (map ?e [a..a + ?n - 1]))"
      using files_of_range(1) [OF R j(2)] True cfg j(1) by (simp add: filterFilesOn_def)
    with True S j(2) own name show ?thesis by metis
  next
    case False
    then have "map_of (disk s) ?f = None" using S j own by (metis not_le)
    with False name show ?thesis by simp
  qed
  have tail: "fst (cuSerializeFilters E (mem p) i a N) = concat (map ?e [a..N]) \<and>
      cuFiltersSize E (mem p) i a N = (int (length (concat (map ?e [a..N]))), True)" if "?L < a + ?n - 1"
  proof -
    have "?L < a" by (rule start_above [OF n(3) a(3) n(1) that])
    moreover have "dom (cuFilters (mem p)) = {?L + 1..N}" using I(6) H cur by (simp add: customHealthy_def cu_cached)
    ultimately have sub: "{a..N} \<subseteq> dom (cuFilters (mem p))" by auto
    let ?m = "\<lambda>j. map_option (\<lambda>fs. fs ! i) (cuFilters (mem p) j)"
    have "map_option (WriteVarBytes E) (?m h) = Some (?e h)" if "h \<in> set [a..N]" for h
    proof -
      from that sub obtain fs where "cuFilters (mem p) h = Some fs" by auto
      moreover from this have "fs = filtersAt B C D h" using H unfolding customHealthy_def by blast
      ultimately show ?thesis using i by (simp add: filtersAt_def)
    qed
    note all = streamEach_entries [where put = WriteVarBytes and E = E and m = ?m and entry = ?e and js = "[a..N]", OF this]
    have "cuFiltersSize E (mem p) i a N = (int (length (concat (map ?e [a..N]))), True)"
      using filtersSizeLoop_eq [OF wire, of ?m "[a..N]" 0 "[]"] all by (simp add: cuFiltersSize_def)
    with cuSerialize_served(1) [OF H i sub] show ?thesis by simp
  qed
  have height: "parseRequestParamInt64 (customRequest (cfgName ?cfg) a) ''height'' = Inr a"
    by (rule parse_param) (use a I(5) cur in \<open>simp_all add: customRequest_def lookupStr_def max64_def heightBound_def\<close>)
  have "lookupStr (vars (customRequest (cfgName ?cfg) a)) ''filterType'' = cfgName ?cfg" by (simp add: customRequest_def lookupStr_def)
  then have run: "customFiltersRequestHandler E (customRequest (cfgName ?cfg) a) (s, newWriter) =
      heightBasedRequestHandler E (customRequest (cfgName ?cfg) a) (customFilterDir (cfgName ?cfg)) FilterFileSuffix ?n
        (cuSerializeFilters E (mem p) i) (Some (cuFiltersSize E (mem p) i)) (processorOf p) (s, newWriter)"
    using S configIndex_nth [OF i] by (simp add: customFiltersRequestHandler_def resolveCustomFilter_def Let_def)
  have look: "\<not> writerWaits (cache s)" "{?L + 1..N} \<subseteq> dom (heightToHash (cache s))" using S by blast+
  have first: "a \<in> dom (heightToHash (cache s))" if "?L < a + ?n - 1"
    by (rule subsetD [OF look(2)]) (use start_above [OF n(3) a(3) n(1) that] a(2) in simp)
  show ?thesis
    unfolding run
    by (rule content_answer [where content = "\<lambda>a b. concat (map ?e [a..b])" and ser = "cuSerializeFilters E (mem p) i" and
          sz = "cuFiltersSize E (mem p) i" and L = ?L, OF light P(1) _ n(1,2) P(2) _ a height _ dat tail look(1) first])
      (use I(5) cur servesD(2) [OF sv] in \<open>auto simp: customRequest_def\<close>)
qed

lemma custom_headers_answered:
  assumes A: "customServed B C D hpf E N s p" and a: "0 \<le> a" "a \<le> N" "a mod hpf = 0" and i: "i < length customFilterConfigs"
  shows "answeredWith (concat (map (headerAt E B C D (customFilterConfigs ! i)) [a..if a + hpf - 1 \<le> lastSealedHeight p then a + hpf - 1 else N]))
    (snd (customFilterHeadersRequestHandler E (customRequest (cfgName (customFilterConfigs ! i)) a) (s, newWriter)))"
proof -
  let ?n = "entriesPerFile p" and ?L = "lastSealedHeight p" and ?cfg = "customFilterConfigs ! i"
  let ?b = "a + hpf - 1" and ?f = "cuHeaderFileName p (cfgName (customFilterConfigs ! i)) a (a + hpf - 1)" and ?e = "headerAt E B C D (customFilterConfigs ! i)"
  note S = A [unfolded customServed_def]
  have H: "customHealthy B C D hpf E N p" and R: "contentsRight (customExpected B C D hpf E) p" and inv: "tailInv (customHooks B E) customRangeFiles p"
    and cur: "currentHeight p = N" "?L < N" and complete: "startupComplete p" and light: "\<not> lightMode s" using S by (simp_all add: upToDate_def)
  note I = cuf.tailInvD [OF inv]
  have n: "0 < ?n" "(?L + 1) mod ?n = 0" using I(1,2) by (simp_all add: confOK_def aligned_def)
  have hpf: "0 < hpf" "hpf \<le> heightBound" "hpf mod ?n = 0" "headersPerFile (mem p) = hpf" "N \<le> heightBound" "hash_codec E" and sv: "serves E C N"
    using H by (simp_all add: customHealthy_def)
  have P: "bpStartupComplete (processorOf p)" "bpCurrentHeight (processorOf p) = N"
    by (simp_all add: processorOf_def isStartupComplete_def getCurrentHeight_def complete cur)
  define u where "u = a div hpf"
  have u: "a = u * hpf" "0 \<le> u" using a hpf by (auto simp: u_def pos_imp_zdiv_nonneg_iff)
  have "0 < u + 1" using u(2) by simp
  from span_range [OF n(1) hpf(3,1) this] obtain j where j: "0 \<le> j" "j * ?n + ?n - 1 = (u + 1) * hpf - 1" .
  have "(u + 1) * hpf = a + hpf" unfolding u(1) by (simp add: algebra_simps)
  then have jb: "j * ?n + ?n - 1 = ?b" and m: "(?b + 1) mod hpf = 0" using j(2) a(3) by simp_all
  have big: "0 \<le> ?b" "?b \<le> 2147483646" using a hpf by (auto simp: heightBound_def)
  have cfg: "?cfg \<in> set customFilterConfigs" using i by simp
  have "add32 ?b 1 = a + hpf" "sub32 (a + hpf) hpf = a" using big a hpf by (simp_all add: add32_id sub32_id heightBound_def)
  then have own: "?f \<in> rangeFiles customRangeFiles p j" using cfg m hpf(4) by (auto simp: rangeFiles_def customRangeFiles_def jb)
  have name: "rangeName (customHeaderDir (cfgName ?cfg)) FilterHeaderFileSuffix hpf s a = ?f" using S by (simp add: rangeName_def cuHeaderFileName_def)
  have dat: "map_of (disk s) (rangeName (customHeaderDir (cfgName ?cfg)) FilterHeaderFileSuffix hpf s a) =
      (if ?b \<le> ?L then Some (concat (map ?e [a..?b])) else None)"
  proof (cases "?b \<le> ?L")
    case True
    then have "?b \<le> heightBound" using cur(2) hpf(5) by simp
    then have "map_of (disk p) ?f = Some (concat (map ?e [a..?b]))"
      using files_of_range(2) [OF R j(1) _ m jb [symmetric] hpf(1,2) big(1) _ cfg] True jb by simp
    with True S j(1) own name show ?thesis by metis
  next
    case False
    then have "map_of (disk s) ?f = None" using S j(1) own jb by (metis not_le)
    with False name show ?thesis by simp
  qed
  have span: "spanStart hpf ?L \<le> a" if L: "?L < ?b"
  proof -
    have "(?L + 1) div hpf * hpf < (u + 1) * hpf"
      using L \<open>(u + 1) * hpf = a + hpf\<close> spanStart_bounds(2) [OF hpf(1) I(3)] by (simp add: spanStart_def)
    then have "(?L + 1) div hpf < u + 1" using hpf(1) by (simp add: mult_less_cancel_right)
    then show ?thesis unfolding spanStart_def u(1) using hpf(1) by (intro mult_right_mono) simp_all
  qed
  have tail: "fst (cuSerializeFilterHeaders (mem p) i a N) = concat (map ?e [a..N]) \<and>
      cuFilterHeadersSize a N = (int (length (concat (map ?e [a..N]))), True)" if L: "?L < ?b"
  proof -
    have "N \<in> dom (cuHeightToHash (mem p))" using I(6) cur by (simp add: cu_cached)
    then have "{spanStart hpf ?L..N} \<subseteq> dom (cuFilterHeaders (mem p))" using H unfolding customHealthy_def headersKept_def by blast
    moreover have "{a..N} \<subseteq> {spanStart hpf ?L..N}" using span [OF L] by simp
    ultimately have sub: "{a..N} \<subseteq> dom (cuFilterHeaders (mem p))" by blast
    have "length (concat (map ?e hs)) = length hs * HashSize" for hs by (induction hs) (simp_all add: length_headerAt [OF hpf(6)])
    then have "cuFilterHeadersSize a N = (int (length (concat (map ?e [a..N]))), True)"
      using a hpf(5) by (simp add: cuFilterHeadersSize_def sub32_id add32_id heightBound_def)
    with cuSerialize_served(2) [OF H i sub] show ?thesis by simp
  qed
  have height: "parseRequestParamInt64 (customRequest (cfgName ?cfg) a) ''height'' = Inr a"
    by (rule parse_param) (use a I(5) cur in \<open>simp_all add: customRequest_def lookupStr_def max64_def heightBound_def\<close>)
  have "lookupStr (vars (customRequest (cfgName ?cfg) a)) ''filterType'' = cfgName ?cfg" by (simp add: customRequest_def lookupStr_def)
  then have run: "customFilterHeadersRequestHandler E (customRequest (cfgName ?cfg) a) (s, newWriter) =
      heightBasedRequestHandler E (customRequest (cfgName ?cfg) a) (customHeaderDir (cfgName ?cfg)) FilterHeaderFileSuffix hpf
        (cuSerializeFilterHeaders (mem p) i) (Some cuFilterHeadersSize) (processorOf p) (s, newWriter)"
    using S configIndex_nth [OF i] by (simp add: customFilterHeadersRequestHandler_def resolveCustomFilter_def Let_def)
  have look: "\<not> writerWaits (cache s)" "{?L + 1..N} \<subseteq> dom (heightToHash (cache s))" "spanStart hpf ?L \<in> dom (heightToHash (cache s))"
    using S by blast+
  have first: "a \<in> dom (heightToHash (cache s))" if "?L < ?b"
  proof (cases "?L < a")
    case True
    then show ?thesis by (intro subsetD [OF look(2)]) (use a(2) in simp)
  next
    case False
    then have "u * hpf < (?L + 1) div hpf * hpf + hpf" using spanStart_bounds(3) [OF hpf(1) I(3)] u(1) by (simp add: spanStart_def)
    moreover have "((?L + 1) div hpf + 1) * hpf = (?L + 1) div hpf * hpf + hpf" by (simp add: algebra_simps)
    ultimately have "u < (?L + 1) div hpf + 1" using hpf(1) mult_less_cancel_right [of u hpf "(?L + 1) div hpf + 1"] by simp
    then have "a \<le> spanStart hpf ?L" unfolding spanStart_def u(1) using hpf(1) by (intro mult_right_mono) simp_all
    with span [OF that] have "a = spanStart hpf ?L" by simp
    with look(3) show ?thesis by simp
  qed
  show ?thesis
    unfolding run
    by (rule content_answer [where content = "\<lambda>a b. concat (map ?e [a..b])" and ser = "cuSerializeFilterHeaders (mem p) i" and
          sz = "cuFilterHeadersSize" and L = ?L, OF light P(1) _ hpf(1,2) P(2) _ a height _ dat tail look(1) first])
      (use I(5) cur servesD(2) [OF sv] in \<open>auto simp: customRequest_def\<close>)
qed

subsection \<open>The catch-up of the two producers\<close>

definition nothingAfter :: "('m producer \<Rightarrow> int \<Rightarrow> int \<Rightarrow> string list) \<Rightarrow> int \<Rightarrow> 'm producer \<Rightarrow> bool" where
  "nothingAfter files k p \<longleftrightarrow> (\<forall>j f. k \<le> j \<and> f \<in> rangeFiles files p j \<longrightarrow> map_of (disk p) f = None)"

context faithful_producer
begin

lemma resumesRight_tick:
  assumes "resumesRight (H E) (expected E) N k p"
  shows "resumesRight (H E) (expected E) N k (p\<lparr>now := m\<rparr>)"
proof -
  let ?q = "p\<lparr>now := m, lastSealedHeight := k * entriesPerFile p - 1\<rparr>" and ?p = "p\<lparr>lastSealedHeight := k * entriesPerFile p - 1\<rparr>"
  have "contentsRight (expected E) ?q = contentsRight (expected E) ?p" by (rule contentsRight_cong) (simp_all add: conf_def)
  with assms show ?thesis by (simp add: resumesRight_def confOK_def)
qed

text \<open>The catch-up after the directories have been created; what was not on disk of a range that is not sealed is still not there.\<close>

lemma prepared_upToDate:
  assumes R: "resumesRight (H E) (expected E) N k p" and h: "healthy E N (p\<lparr>lastSealedHeight := k * entriesPerFile p - 1\<rparr>)"
    and main: "\<And>j. mainFile p j \<in> rangeFiles files p j" and clean: "nothingAfter files k p"
  obtains p' where "goBind (goForEach xs (\<lambda>_. goWrap msg [] (mkdirAll E))) (\<lambda>_. updateFiles E (H E) N 0) p = (Inr (), p')"
    "upToDate (H E) files (expected E) N p'" "conf p' = conf p" "healthy E N p'"
    "\<forall>f. map_of (disk p') f \<noteq> map_of (disk p) f \<longrightarrow> f \<in> ownFilesOf files p"
    "\<forall>j f. 0 \<le> j \<and> lastSealedHeight p' < j * entriesPerFile p + entriesPerFile p - 1 \<and> f \<in> rangeFiles files p j \<longrightarrow> map_of (disk p') f = None"
    "cacheStays p p'" "{lastSealedHeight p' + 1..N} \<subseteq> dom (heightToHash (cache p'))" "{k * entriesPerFile p..N} \<subseteq> dom (heightToHash (cache p'))"
    "k * entriesPerFile p - 1 \<le> lastSealedHeight p'"
proof -
  have io: "\<forall>t. ioFaults E t = None" using healthy_env [OF h] by blast
  obtain m where mk: "goForEach xs (\<lambda>_. goWrap msg [] (mkdirAll E)) p = (Inr (), p\<lparr>now := m\<rparr>)" by (rule mkdirs_ok [OF io])
  let ?q = "p\<lparr>now := m\<rparr>"
  have c: "conf ?q = conf p" "mem ?q = mem p" by (simp_all add: conf_def)
  have fs: "files ?q = files p" by (rule files_static [OF c(1) disjI1 [OF c(2)]])
  have rf: "rangeFiles files ?q = rangeFiles files p" by (rule rangeFiles_cong [OF c(1) fs])
  have hq: "healthy E N (?q\<lparr>lastSealedHeight := k * entriesPerFile ?q - 1\<rparr>)"
    by (rule healthy_cong [OF h]) (simp_all add: conf_def)
  have mq: "mainFile ?q j \<in> rangeFiles files ?q j" for j using main [of j] mainFile_conf [OF c(1)] rf by simp
  obtain p' where p': "startUp E (H E) N ?q = (Inr (), p')" "upToDate (H E) files (expected E) N p'" "conf p' = conf ?q" "healthy E N p'"
    "\<forall>f. map_of (disk p') f \<noteq> map_of (disk ?q) f \<longrightarrow> f \<in> ownFilesOf files ?q"
    "\<forall>j f. 0 \<le> j \<and> lastSealedHeight p' < j * entriesPerFile ?q + entriesPerFile ?q - 1 \<and> f \<in> rangeFiles files ?q j \<longrightarrow>
       map_of (disk p') f = map_of (disk ?q) f" "k * entriesPerFile ?q - 1 \<le> lastSealedHeight p'"
    "cacheStays ?q p'" "{lastSealedHeight p' + 1..N} \<subseteq> dom (heightToHash (cache p'))" "{k * entriesPerFile ?q..N} \<subseteq> dom (heightToHash (cache p'))"
    by (rule catchUp_upToDate [OF resumesRight_tick [OF R] hq mq])
  have gone: "map_of (disk p') f = None"
    if j: "0 \<le> j" "lastSealedHeight p' < j * entriesPerFile p + entriesPerFile p - 1" and f: "f \<in> rangeFiles files p j" for j f
  proof -
    have "0 < entriesPerFile p" using R by (simp add: resumesRight_def confOK_def)
    moreover have "k * entriesPerFile p < (j + 1) * entriesPerFile p" using j(2) p'(7) by (simp add: algebra_simps)
    ultimately have "k \<le> j" by (simp add: mult_less_cancel_right)
    with clean f have "map_of (disk p) f = None" unfolding nothingAfter_def by blast
    with p'(6) j f rf show ?thesis by simp
  qed
  have "\<forall>j f. 0 \<le> j \<and> lastSealedHeight p' < j * entriesPerFile p + entriesPerFile p - 1 \<and> f \<in> rangeFiles files p j \<longrightarrow> map_of (disk p') f = None"
    using gone by blast
  moreover have "ownFilesOf files ?q = ownFilesOf files p" using rf by (simp add: ownFilesOf_def)
  moreover have "cacheStays p p'" using p'(8) by (simp add: cacheStays_def)
  ultimately show thesis
    using p' mk by (intro that [of p']) (simp_all add: goBind_def updateFiles_none c(1))
qed

end

lemma sp_catchUp:
  fixes d :: "'h daemon"
  assumes p: "sSPTweakFiles d = Some p" and R: "resumesRight (spHooks B E) (spExpected B D tap net E) (bestBlock d) k (withShared d p)"
    and H: "spHealthy B C D tap net E (bestBlock d) (cache d) (mem p)" and clean: "nothingAfter spRangeFiles k (withShared d p)"
    and new: "taprootSupported (mem p)" "fileSuffix p = SPTweakFileSuffix" "subDir p = spTweakDustDir 0" "baseDir p = sBaseDir d"
  obtains p' where
    "taskTurn E B True SPTweakUpdate d = (Inr (), d\<lparr>now := now p', disk := disk p', cache := cache p', sSPTweakFiles := Some p'\<rparr>)"
    "upToDate (spHooks B E) spRangeFiles (spExpected B D tap net E) (bestBlock d) p'" "conf p' = conf p"
    "spHealthy B C D tap net E (bestBlock d) (cache p') (mem p')"
    "\<forall>f. map_of (disk p') f \<noteq> map_of (disk d) f \<longrightarrow> inTask (sBaseDir d) SPTweakUpdate f"
    "\<forall>j f. 0 \<le> j \<and> lastSealedHeight p' < j * entriesPerFile p + entriesPerFile p - 1 \<and> f \<in> rangeFiles spRangeFiles p' j \<longrightarrow> map_of (disk p') f = None"
    "cacheStays d p'" "{lastSealedHeight p' + 1..bestBlock d} \<subseteq> dom (heightToHash (cache p'))"
proof -
  let ?p = "withShared d p"
  have w: "fileSuffix ?p = SPTweakFileSuffix" "subDir ?p = spTweakDustDir 0" "baseDir ?p = sBaseDir d" "disk ?p = disk d" "mem ?p = mem p"
    "cache ?p = cache d" "entriesPerFile ?p = entriesPerFile p" using new by (simp_all add: withShared_def)
  have main: "mainFile ?p j \<in> rangeFiles spRangeFiles ?p j" for j
    using w(1,2) by (simp add: mainFile_def rangeFiles_def spRangeFiles_def spFileName_def spTweakDustLimits_def)
  have H': "spHealthy B C D tap net E (bestBlock d) (cache (?p\<lparr>lastSealedHeight := k * entriesPerFile ?p - 1\<rparr>)) (mem (?p\<lparr>lastSealedHeight := k * entriesPerFile ?p - 1\<rparr>))"
    using H w by simp
  obtain p' where p': "goBind (goForEach spTweakDustLimits (\<lambda>_. goWrap ''error creating directory'' [] (mkdirAll E))) (\<lambda>_. updateFiles E (spHooks B E) (bestBlock d) 0) ?p = (Inr (), p')"
    "upToDate (spHooks B E) spRangeFiles (spExpected B D tap net E) (bestBlock d) p'" "conf p' = conf ?p"
    "spHealthy B C D tap net E (bestBlock d) (cache p') (mem p')" "\<forall>f. map_of (disk p') f \<noteq> map_of (disk ?p) f \<longrightarrow> f \<in> ownFilesOf spRangeFiles ?p"
    "\<forall>j f. 0 \<le> j \<and> lastSealedHeight p' < j * entriesPerFile ?p + entriesPerFile ?p - 1 \<and> f \<in> rangeFiles spRangeFiles ?p j \<longrightarrow> map_of (disk p') f = None"
    "cacheStays ?p p'" "{lastSealedHeight p' + 1..bestBlock d} \<subseteq> dom (heightToHash (cache p'))"
    by (rule spf.prepared_upToDate [OF R H' main clean])
  have rf: "rangeFiles spRangeFiles p' = rangeFiles spRangeFiles ?p" using rangeFiles_cong [OF p'(3)] spFileName_cong [OF p'(3)] by simp
  have turn: "taskTurn E B True SPTweakUpdate d = (Inr (), d\<lparr>now := now p', disk := disk p', cache := cache p', sSPTweakFiles := Some p'\<rparr>)"
    using p new(1) p'(1) w(5) by (simp add: runProducer_def spUpdateFiles_def)
  have st: "cacheStays d p'" using p'(7) by (simp add: cacheStays_def withShared_def)
  show thesis
    by (rule that [OF turn _ _ _ _ _ st p'(8)]) (use p'(1-6) w own_sp [of ?p "sBaseDir d"] rf in \<open>auto simp: withShared_conf\<close>)
qed

lemma custom_catchUp:
  fixes d :: "'h daemon"
  assumes p: "sCustomFilterFiles d = Some p" and R: "resumesRight (customHooks B E) (customExpected B C D hpf E) (bestBlock d) k (withShared d p)"
    and H: "customHealthy B C D hpf E (bestBlock d) ((withShared d p)\<lparr>lastSealedHeight := k * entriesPerFile p - 1\<rparr>)"
    and clean: "nothingAfter customRangeFiles k (withShared d p)"
    and new: "fileSuffix p = FilterFileSuffix" "subDir p = customFilterDir ''segwit''" "baseDir p = sBaseDir d"
  obtains p' where
    "taskTurn E B True CustomFilterUpdate d = (Inr (), d\<lparr>now := now p', disk := disk p', cache := cache p', sCustomFilterFiles := Some p'\<rparr>)"
    "upToDate (customHooks B E) customRangeFiles (customExpected B C D hpf E) (bestBlock d) p'" "conf p' = conf p"
    "customHealthy B C D hpf E (bestBlock d) p'"
    "\<forall>f. map_of (disk p') f \<noteq> map_of (disk d) f \<longrightarrow> inTask (sBaseDir d) CustomFilterUpdate f"
    "\<forall>j f. 0 \<le> j \<and> lastSealedHeight p' < j * entriesPerFile p + entriesPerFile p - 1 \<and> f \<in> rangeFiles customRangeFiles p' j \<longrightarrow> map_of (disk p') f = None"
    "cacheStays d p'" "{lastSealedHeight p' + 1..bestBlock d} \<subseteq> dom (heightToHash (cache p'))" "{k * entriesPerFile p..bestBlock d} \<subseteq> dom (heightToHash (cache p'))"
    "k * entriesPerFile p - 1 \<le> lastSealedHeight p'"
proof -
  let ?p = "withShared d p"
  have w: "fileSuffix ?p = FilterFileSuffix" "subDir ?p = customFilterDir ''segwit''" "baseDir ?p = sBaseDir d" "disk ?p = disk d" "mem ?p = mem p"
    "entriesPerFile ?p = entriesPerFile p" using new by (simp_all add: withShared_def)
  have main: "mainFile ?p j \<in> rangeFiles customRangeFiles ?p j" for j
    using w(1,2) by (simp add: mainFile_def rangeFiles_def customRangeFiles_def cuFilterFileName_def customFilterConfigs_def)
  obtain p' where p': "goBind (goForEach (concat (map (\<lambda>cfg. [customFilterDir (cfgName cfg), customHeaderDir (cfgName cfg)]) customFilterConfigs))
        (\<lambda>_. goWrap ''error creating directory'' [] (mkdirAll E))) (\<lambda>_. updateFiles E (customHooks B E) (bestBlock d) 0) ?p = (Inr (), p')"
    "upToDate (customHooks B E) customRangeFiles (customExpected B C D hpf E) (bestBlock d) p'" "conf p' = conf ?p"
    "customHealthy B C D hpf E (bestBlock d) p'" "\<forall>f. map_of (disk p') f \<noteq> map_of (disk ?p) f \<longrightarrow> f \<in> ownFilesOf customRangeFiles ?p"
    "\<forall>j f. 0 \<le> j \<and> lastSealedHeight p' < j * entriesPerFile ?p + entriesPerFile ?p - 1 \<and> f \<in> rangeFiles customRangeFiles ?p j \<longrightarrow> map_of (disk p') f = None"
    "cacheStays ?p p'" "{lastSealedHeight p' + 1..bestBlock d} \<subseteq> dom (heightToHash (cache p'))" "{k * entriesPerFile ?p..bestBlock d} \<subseteq> dom (heightToHash (cache p'))"
    "k * entriesPerFile ?p - 1 \<le> lastSealedHeight p'"
    by (rule cuff.prepared_upToDate [OF R H [folded w(6)] main clean])
  have hpf: "headersPerFile (mem p) = hpf" "0 < hpf" "hpf mod entriesPerFile p = 0" "headersPerFile (mem p') = hpf"
    using H p'(4) w(5,6) by (simp_all add: customHealthy_def)
  have "rangeFiles customRangeFiles p' = rangeFiles customRangeFiles ?p"
    using rangeFiles_cong [OF p'(3)] customRangeFiles_cong [OF p'(3)] hpf w(5) by simp
  moreover have turn: "taskTurn E B True CustomFilterUpdate d = (Inr (), d\<lparr>now := now p', disk := disk p', cache := cache p', sCustomFilterFiles := Some p'\<rparr>)"
    using p hpf p'(1) w(5,6) by (simp add: runProducer_def customUpdateFiles_def)
  moreover have st: "cacheStays d p'" using p'(7) by (simp add: cacheStays_def withShared_def)
  ultimately show thesis
    by (intro that [OF turn _ _ _ _ _ st p'(8) p'(9) [unfolded w(6)]]) (use p'(1-6,10) w own_custom [of ?p "sBaseDir d"] in \<open>auto simp: withShared_conf\<close>)
qed

subsection \<open>From the start to the answers\<close>

lemma index_simps [simp]:
  fixes d :: "'h daemon"
  shows "sSPTweakFiles (taskPolls b d) = sSPTweakFiles d" "sCustomFilterFiles (taskPolls b d) = sCustomFilterFiles d"
    "sSPTweaksPerFile (taskPolls b d) = sSPTweaksPerFile d"
    "sSPTweakFiles (server.truncate d) = sSPTweakFiles d" "sCustomFilterFiles (server.truncate d) = sCustomFilterFiles d"
    "sSPTweaksPerFile (server.truncate d) = sSPTweaksPerFile d"
  by (cases d; simp add: taskPolls_def server.defs)+

lemma spRangeFiles_shared: "spRangeFiles (withShared d p) = spRangeFiles (withShared d' p)"
  by (simp add: spRangeFiles_def spFileName_def withShared_def fun_eq_iff)

lemma customRangeFiles_shared: "customRangeFiles (withShared d p) = customRangeFiles (withShared d' p)"
  by (simp add: customRangeFiles_def cuFilterFileName_def cuHeaderFileName_def withShared_def fun_eq_iff)

lemma nothingAfter_shared:
  assumes "nothingAfter files k (withShared d p)" "0 \<le> k" "files (withShared d' p) = files (withShared d p)"
    and "\<And>f. f \<in> ownFilesOf files (withShared d p) \<Longrightarrow> map_of (disk d') f = map_of (disk d) f"
  shows "nothingAfter files k (withShared d' p)"
proof -
  have "rangeFiles files (withShared d' p) = rangeFiles files (withShared d p)" by (rule rangeFiles_cong) (simp_all add: withShared_conf assms(3))
  moreover have "f \<in> ownFilesOf files (withShared d p)" if "k \<le> j" "f \<in> rangeFiles files (withShared d p) j" for j f
    unfolding ownFilesOf_def using that assms(2) by (intro CollectI exI [of _ j]) auto
  moreover have dd: "disk (withShared d' p) = disk d'" "disk (withShared d p) = disk d" by (simp_all add: withShared_def)
  ultimately show ?thesis using assms(1,4) unfolding nothingAfter_def dd by metis
qed

text \<open>Two steps of a running server: the Silent Payments producer catches up, then the custom filter producer.\<close>

lemma indexes_caught_up:
  fixes d :: "'h daemon"
  assumes tasks: "SPTweakUpdate \<in> set (catchingUp d)" "CustomFilterUpdate \<in> set (catchingUp d)"
    and chain: "serves E C (bestBlock d)" "servesBlocks E B C D (bestBlock d)" "tweakable B D tap (bestBlock d)" "filterable B C D (bestBlock d)"
      "hash_codec E" "bestBlock d \<le> heightBound" "cacheRight C (bestBlock d) (cache d)" "TaprootActivationHeights net = Some tap"
      "0 < hpf" "hpf \<le> heightBound" "hpf mod m = 0"
    and p0: "p0 = newSPTweakFiles n depth (sBaseDir d) net magic (newBlockPrefetcher True True) sh" and sp: "sSPTweakFiles d = Some p0"
    and q0: "q0 = newCustomFilterFiles m hpf depth (sBaseDir d) (newBlockPrefetcher True True) sh" and cu: "sCustomFilterFiles d = Some q0"
    and sR: "resumesRight (spHooks B E) (spExpected B D tap magic E) (bestBlock d) ks (withShared d p0)" "nothingAfter spRangeFiles ks (withShared d p0)"
    and cR: "resumesRight (customHooks B E) (customExpected B C D hpf E) (bestBlock d) kc (withShared d q0)" "nothingAfter customRangeFiles kc (withShared d q0)"
  obtains d' p q where "daemonReach E B W d d'" "sSPTweakFiles d' = Some p" "sCustomFilterFiles d' = Some q" "sBaseDir d' = sBaseDir d"
    "lightMode d' = lightMode d" "sSPTweaksPerFile d' = sSPTweaksPerFile d" "sFiltersPerFile d' = sFiltersPerFile d" "sHeadersPerFile d' = sHeadersPerFile d"
    "upToDate (spHooks B E) spRangeFiles (spExpected B D tap magic E) (bestBlock d) p" "spHealthy B C D tap magic E (bestBlock d) (cache p) (mem p)" "conf p = conf p0"
    "upToDate (customHooks B E) customRangeFiles (customExpected B C D hpf E) (bestBlock d) q" "customHealthy B C D hpf E (bestBlock d) q" "conf q = conf q0"
    "\<forall>f. inTask (sBaseDir d) SPTweakUpdate f \<longrightarrow> map_of (disk d') f = map_of (disk p) f" "disk d' = disk q"
    "\<forall>j f. 0 \<le> j \<and> lastSealedHeight p < j * n + n - 1 \<and> f \<in> rangeFiles spRangeFiles p j \<longrightarrow> map_of (disk p) f = None"
    "\<forall>j f. 0 \<le> j \<and> lastSealedHeight q < j * m + m - 1 \<and> f \<in> rangeFiles customRangeFiles q j \<longrightarrow> map_of (disk q) f = None"
    "cacheStays d d'" "{lastSealedHeight p + 1..bestBlock d} \<subseteq> dom (heightToHash (cache d'))"
    "{lastSealedHeight q + 1..bestBlock d} \<subseteq> dom (heightToHash (cache d'))" "{kc * m..bestBlock d} \<subseteq> dom (heightToHash (cache d'))"
    "kc * m - 1 \<le> lastSealedHeight q"
proof -
  have fr: "fetcherRight C D (bestBlock d) (newBlockPrefetcher True True)" by (simp add: fetcherRight_def newBlockPrefetcher_def)
  have sH: "spHealthy B C D tap magic E (bestBlock d) (cache d) (mem p0)"
    using chain fr by (simp add: spHealthy_def p0 newSPTweakFiles_def)
  obtain p where p: "taskTurn E B True SPTweakUpdate d = (Inr (), d\<lparr>now := now p, disk := disk p, cache := cache p, sSPTweakFiles := Some p\<rparr>)"
    "upToDate (spHooks B E) spRangeFiles (spExpected B D tap magic E) (bestBlock d) p" "conf p = conf p0"
    "spHealthy B C D tap magic E (bestBlock d) (cache p) (mem p)"
    "\<forall>f. map_of (disk p) f \<noteq> map_of (disk d) f \<longrightarrow> inTask (sBaseDir d) SPTweakUpdate f"
    "\<forall>j f. 0 \<le> j \<and> lastSealedHeight p < j * entriesPerFile p0 + entriesPerFile p0 - 1 \<and> f \<in> rangeFiles spRangeFiles p j \<longrightarrow> map_of (disk p) f = None"
    "cacheStays d p" "{lastSealedHeight p + 1..bestBlock d} \<subseteq> dom (heightToHash (cache p))"
    by (rule sp_catchUp [OF sp sR(1) sH sR(2)]) (use chain(8) in \<open>simp_all add: p0 newSPTweakFiles_def spTweakDustLimits_def\<close>)
  define d1 where "d1 = taskPolls SPTweakUpdate (d\<lparr>now := now p, disk := disk p, cache := cache p, sSPTweakFiles := Some p\<rparr>)"
  have s1: "daemonStep E B W d d1" unfolding d1_def by (rule caughtUp [OF tasks(1) p(1)])
  have f1: "sCustomFilterFiles d1 = Some q0" "bestBlock d1 = bestBlock d" "disk d1 = disk p" "cache d1 = cache p" "sBaseDir d1 = sBaseDir d"
    "sSPTweakFiles d1 = Some p" using cu by (simp_all add: d1_def)
  have base: "baseDir q0 = sBaseDir d" "subDir q0 = customFilterDir ''segwit''" "fileSuffix q0 = FilterFileSuffix"
    by (simp_all add: q0 newCustomFilterFiles_def customFilterConfigs_def)
  have keep: "map_of (disk d1) f = map_of (disk d) f" if "inTask (sBaseDir d) CustomFilterUpdate f" for f
    using p(5) inTask_unique [OF that] f1(3) by (metis background.distinct(11))
  have own: "map_of (disk d1) f = map_of (disk d) f" if "f \<in> ownFilesOf customRangeFiles (withShared d q0)" for f
    using keep own_custom [of "withShared d q0" "sBaseDir d"] that base(1) by (simp add: withShared_def)
  have c1: "cacheRight C (bestBlock d) (cache p)" using p(4) by (simp add: spHealthy_def)
  have cH: "customHealthy B C D hpf E (bestBlock d) ((withShared d1 q0)\<lparr>lastSealedHeight := L\<rparr>)" for L
    using chain fr c1 f1(4) by (simp add: customHealthy_def withShared_def q0 newCustomFilterFiles_def headersKept_def)
  have cH0: "customHealthy B C D hpf E (bestBlock d) (withShared d1 q0)"
    by (rule cuff.healthy_cong [OF cH [of "-1"]]) (simp_all add: conf_def withShared_def q0 newCustomFilterFiles_def)
  have cR1: "resumesRight (customHooks B E) (customExpected B C D hpf E) (bestBlock d1) kc (withShared d1 q0)"
    unfolding f1(2)
  proof (rule cuff.resumesRight_shared [OF cR(1) cH0])
    show "\<forall>f. inDir (joinPath (baseDir q0) (subDir q0)) f \<longrightarrow> map_of (disk d1) f = map_of (disk d) f"
      using keep by (simp add: base inTask_def customFilterConfigs_def)
  qed (use own in blast)
  have kc: "0 \<le> kc" using cR(1) by (simp add: resumesRight_def)
  have clean1: "nothingAfter customRangeFiles kc (withShared d1 q0)"
    by (rule nothingAfter_shared [OF cR(2) kc customRangeFiles_shared own])
  obtain q where q: "taskTurn E B True CustomFilterUpdate d1 = (Inr (), d1\<lparr>now := now q, disk := disk q, cache := cache q, sCustomFilterFiles := Some q\<rparr>)"
    "upToDate (customHooks B E) customRangeFiles (customExpected B C D hpf E) (bestBlock d1) q" "conf q = conf q0"
    "customHealthy B C D hpf E (bestBlock d1) q"
    "\<forall>f. map_of (disk q) f \<noteq> map_of (disk d1) f \<longrightarrow> inTask (sBaseDir d1) CustomFilterUpdate f"
    "\<forall>j f. 0 \<le> j \<and> lastSealedHeight q < j * entriesPerFile q0 + entriesPerFile q0 - 1 \<and> f \<in> rangeFiles customRangeFiles q j \<longrightarrow> map_of (disk q) f = None"
    "cacheStays d1 q" "{lastSealedHeight q + 1..bestBlock d1} \<subseteq> dom (heightToHash (cache q))"
    "{kc * entriesPerFile q0..bestBlock d1} \<subseteq> dom (heightToHash (cache q))" "kc * entriesPerFile q0 - 1 \<le> lastSealedHeight q"
    by (rule custom_catchUp [OF f1(1) cR1 _ clean1]) (use cH f1(2,5) base in simp_all)
  define d2 where "d2 = taskPolls CustomFilterUpdate (d1\<lparr>now := now q, disk := disk q, cache := cache q, sCustomFilterFiles := Some q\<rparr>)"
  have "CustomFilterUpdate \<in> set (catchingUp d1)" using tasks(2) by (simp add: d1_def)
  from caughtUp [OF this q(1)] have s2: "daemonStep E B W d1 d2" unfolding d2_def .
  have "map_of (disk q) f = map_of (disk p) f" if "inTask (sBaseDir d) SPTweakUpdate f" for f
    using q(5) inTask_unique [OF that] f1(3,5) by (metis background.distinct(11))
  moreover have "entriesPerFile p0 = n" "entriesPerFile q0 = m" by (simp_all add: p0 newSPTweakFiles_def q0 newCustomFilterFiles_def)
  moreover have pq: "cacheStays p q" using q(7) f1(4) by (simp add: cacheStays_def)
  moreover have "cacheStays d d2" using cacheStays_trans [OF p(7) pq] by (simp add: cacheStays_def d2_def)
  moreover have "{lastSealedHeight p + 1..bestBlock d} \<subseteq> dom (heightToHash (cache d2))"
    by (rule subset_trans [OF p(8)]) (use pq in \<open>simp add: cacheStays_def d2_def\<close>)
  moreover have "{lastSealedHeight q + 1..bestBlock d} \<subseteq> dom (heightToHash (cache d2))" using q(8) f1(2) by (simp add: d2_def)
  moreover have "{kc * m..bestBlock d} \<subseteq> dom (heightToHash (cache d2))" using q(9) f1(2) by (simp add: d2_def q0 newCustomFilterFiles_def)
  ultimately show thesis
    by (intro that [of d2 p q] reach_step [OF reach_step [OF reach_refl s1] s2])
      (use p(2-4,6) q(2-4,6,10) f1 in \<open>simp_all add: d2_def\<close>, (cases d; simp add: d1_def taskPolls_def)+)
qed

text \<open>
  A request for a single filter as a step of a server whose filter producer is still catching up:
  the hash is looked up without the lock and is in the cache afterwards.
\<close>

lemma single_filter_route:
  "route createRouter [''filters'', ''single'', decimal k] = Some (EFilterSingle, [(''height'', decimal k)])"
proof -
  have "decimal k \<noteq> [] \<and> list_all isDigit (decimal k)" using digits_decimal [of k] decimal_digit [of k] by simp
  then show ?thesis by (simp add: createRouter_def)
qed

lemma single_filter_step:
  fixes d :: "'h daemon"
  assumes chain: "serves E C N" "N \<le> heightBound" "cacheRight C N (cache d)" and h: "0 \<le> h" "h \<le> N"
    and d: "\<not> startupComplete (sCFilterFiles d)" "\<not> writerWaits (cache d)"
  obtains n c where "daemonStep E B W d (d\<lparr>now := n, cache := c\<rparr>)" "cacheRight C N c" "\<not> writerWaits c" "h \<in> dom (heightToHash c)"
proof -
  let ?s = "server.truncate d"
  have "cacheRight C N (cache ?s)" using chain(3) by simp
  from getBlockHash_served [OF chain(1) this h] obtain s1 where g: "getBlockHash E h ?s = (Inr (cHash C h), s1)" "cacheRight C N (cache s1)" .
  have s1: "s1 = ?s\<lparr>now := now s1, cache := cache s1\<rparr>" using getBlockHash_frame [OF g(1)] by blast
  have waits: "\<not> writerWaits (cache s1)" using getBlockHash_stays [OF g(1)] d(2) by (simp add: cacheStays_def)
  have found: "h \<in> dom (heightToHash (cache s1))"
    using g(1) by (auto simp: getBlockHash_def rpcCall_def Let_def split: option.splits sum.splits if_splits)
  obtain bf where bf: "GetBlockFilter (rpc E (now s1)) (cHash C h) = Inr bf" "hex_decode (bfFilter bf) = Some (cFilter C h)"
    using chain(1) h unfolding serves_def by blast
  have ih: "i32 h = h" using h chain(2) by (simp add: i32_id heightBound_def)
  let ?r = "(heightRequest h)\<lparr>vars := [(''height'', decimal (nat h))]\<rparr>"
  have parse: "parseRequestParamInt64 ?r ''height'' = Inr h"
    by (rule parse_param) (use h chain(2) in \<open>simp_all add: lookupStr_def max64_def heightBound_def\<close>)
  have "fst (filterFromBackend E h (?s, newWriter)) = s1\<lparr>now := Suc (now s1)\<rparr>"
    using g(1) bf d(2) ih by (simp add: filterFromBackend_def attemptLocked_def attempt_def rpcCall_def respond_def)
  then have "fst (handle E W EFilterSingle ?r (?s, newWriter)) = s1\<lparr>now := Suc (now s1)\<rparr>"
    using parse d(1) by (simp add: filterSingleRequestHandler_def isStartupComplete_def)
  also have "\<dots> = ?s\<lparr>now := Suc (now s1), cache := cache s1\<rparr>"
  proof -
    have upd: "(t\<lparr>now := a, cache := b\<rparr>)\<lparr>now := e\<rparr> = t\<lparr>now := e, cache := b\<rparr>" for t :: "'h server" and a b e by (cases t) simp
    show ?thesis using arg_cong [OF s1, of "\<lambda>s. s\<lparr>now := Suc (now s1)\<rparr>"] by (simp only: upd)
  qed
  finally have f: "fst (handle E W EFilterSingle ?r (?s, newWriter)) = ?s\<lparr>now := Suc (now s1), cache := cache s1\<rparr>" .
  have "serveHTTP E W [''filters'', ''single'', decimal (nat h)] (heightRequest h) ?s = handle E W EFilterSingle ?r (?s, newWriter)"
    unfolding serveHTTP_def single_filter_route by simp
  then have "serveHTTP E W [''filters'', ''single'', decimal (nat h)] (heightRequest h) ?s =
      (?s\<lparr>now := Suc (now s1), cache := cache s1\<rparr>, snd (handle E W EFilterSingle ?r (?s, newWriter)))"
    unfolding f [symmetric] by (simp only: prod.collapse)
  from request [OF this] have "daemonStep E B W d (d\<lparr>now := Suc (now s1), cache := cache s1\<rparr>)" unfolding request_update .
  then show thesis using g(2) waits found by (rule that)
qed

lemma daemonReach_trans: "daemonReach E B W d1 d2 \<Longrightarrow> daemonReach E B W d d1 \<Longrightarrow> daemonReach E B W d d2"
  by (induction rule: daemonReach.induct) (auto intro: reach_step)

text \<open>
  Where the first incomplete header range of a producer begins that has caught up from
  \<open>a\<close> on: at or above \<open>a\<close>, or where the incomplete range began before.
\<close>

lemma spanStart_cases:
  assumes "0 < hpf" "0 \<le> a" "a - 1 \<le> L"
  shows "a \<le> spanStart hpf L \<or> spanStart hpf L = spanStart hpf (a - 1)"
proof (cases "a \<le> spanStart hpf L")
  case False
  have b: "spanStart hpf L \<le> L + 1" "L + 1 < spanStart hpf L + hpf" "spanStart hpf (a - 1) \<le> a" "a < spanStart hpf (a - 1) + hpf"
    using spanStart_bounds(2,3) [OF assms(1), of L] spanStart_bounds(2,3) [OF assms(1), of "a - 1"] assms by simp_all
  have "a div hpf = (L + 1) div hpf"
  proof (rule antisym)
    show "a div hpf \<le> (L + 1) div hpf" using assms by (intro zdiv_mono1) simp_all
    have "(L + 1) div hpf * hpf < (a div hpf + 1) * hpf" using False b(4) by (simp add: spanStart_def algebra_simps)
    then show "(L + 1) div hpf \<le> a div hpf" using assms(1) by (simp add: mult_less_cancel_right)
  qed
  then show ?thesis by (simp add: spanStart_def)
qed simp

text \<open>
  Claim C6. The indexes are served as the chain prescribes: with both of them turned on, on a
  backend that serves a chain and its blocks up to height \<open>N\<close> and with the right files of
  the first ranges on disk or none at all, the server starts, and it can reach a state (a client
  asks for one single filter, then the tweak and the custom filter producer catch up) in which
  every request for the tweaks of a dust level, for the filters of a configuration or for their
  headers is answered completely: the handler returns, with status 200, the exact length, and, for each height of
  the range up to its end or up to \<open>N\<close>, what the block at that height prescribes. The
  single filter is one at the start of a header range some of whose filters were sealed before the
  start: a request for the headers of that range looks this hash up under the lock of the cache,
  the catch-up of the custom filters does not fetch it again, and without it the request hangs.
\<close>

theorem server_serves_indexes:
  fixes s :: shared and E :: "'h env"
  assumes chain: "serves E C N" "validChain E C N" "header_codec E" "hash_codec E" "N \<le> heightBound"
    and blocks: "servesBlocks E B C D N" "tweakable B D tap N" "filterable B C D N" "TaprootActivationHeights (cNetwork c) = Some tap"
    and X: "backendReady X B c N" "\<not> cLightMode c" "cIndexSPTweakData c" "cIndexCustomFilters c" "0 < cDepth c"
    and per: "0 < cHeadersPerFile c" "cHeadersPerFile c \<le> heightBound" "cHeadersPerFile c mod cFiltersPerFile c = 0"
    and st: "storedHeaders E (disk s) (joinPath (cBaseDir c) HeaderFileDir) (cHeadersPerFile c) kh (cHeader C)" "kh * cHeadersPerFile c \<le> N"
    and p: "p = newSPTweakFiles (cSPTweaksPerFile c) (cDepth c) (cBaseDir c) (cNetwork c) (pNet (cParams c)) (newBlockPrefetcher True True) s"
    and sR: "resumesRight (spHooks B E) (spExpected B D tap (pNet (cParams c)) E) N ks p" "nothingAfter spRangeFiles ks p"
    and q: "q = newCustomFilterFiles (cFiltersPerFile c) (cHeadersPerFile c) (cDepth c) (cBaseDir c) (newBlockPrefetcher True True) s"
    and cR: "resumesRight (customHooks B E) (customExpected B C D (cHeadersPerFile c) E) N kc q" "nothingAfter customRangeFiles kc q"
  shows "\<exists>(d :: 'h daemon) s' d' sp cu. start E B W X c s = (Inr d, s') \<and> daemonReach E B W d d' \<and>
    sSPTweakFiles d' = Some sp \<and> sCustomFilterFiles d' = Some cu \<and>
    (\<forall>a dust. 0 \<le> a \<and> a \<le> N \<and> a mod cSPTweaksPerFile c = 0 \<and> dust \<in> set spTweakDustLimits \<longrightarrow>
       answeredWith (tweakFile E B D tap (pNet (cParams c)) dust a
           (if a + cSPTweaksPerFile c - 1 \<le> lastSealedHeight sp then a + cSPTweaksPerFile c - 1 else N))
         (snd (spTweaksRequestHandler E (tweakRequest dust a) (server.truncate d', newWriter)))) \<and>
    (\<forall>a i. 0 \<le> a \<and> a \<le> N \<and> a mod cFiltersPerFile c = 0 \<and> i < length customFilterConfigs \<longrightarrow>
       answeredWith (concat (map (\<lambda>h. WriteVarBytes E (filterAt B C D (customFilterConfigs ! i) h))
           [a..if a + cFiltersPerFile c - 1 \<le> lastSealedHeight cu then a + cFiltersPerFile c - 1 else N]))
         (snd (customFiltersRequestHandler E (customRequest (cfgName (customFilterConfigs ! i)) a) (server.truncate d', newWriter)))) \<and>
    (\<forall>a i. 0 \<le> a \<and> a \<le> N \<and> a mod cHeadersPerFile c = 0 \<and> i < length customFilterConfigs \<longrightarrow>
       answeredWith (concat (map (headerAt E B C D (customFilterConfigs ! i))
           [a..if a + cHeadersPerFile c - 1 \<le> lastSealedHeight cu then a + cHeadersPerFile c - 1 else N]))
         (snd (customFilterHeadersRequestHandler E (customRequest (cfgName (customFilterConfigs ! i)) a) (server.truncate d', newWriter))))"
proof -
  let ?net = "pNet (cParams c)" and ?hpf = "cHeadersPerFile c" and ?m = "cFiltersPerFile c" and ?n = "cSPTweaksPerFile c"
  obtain f s' where s': "start E B W X c s = (Inr (runningServer W c f N s' :: 'h daemon), s')" "disk s' = disk s" "cacheRight C N (cache s')" "fetcherReady c f"
    "\<not> writerWaits (cache s')"
    by (rule started_on_chain [OF chain(1-3) X(1) st])
  then have f: "f = newBlockPrefetcher True True" using X(2,3) by (simp add: fetcherReady_def)
  define d0 where "d0 = (runningServer W c f N s' :: 'h daemon)"
  have k: "0 \<le> ks" "0 \<le> kc" "kc * ?m \<le> N" "0 < ?m"
    using sR(1) cR(1) by (simp_all add: resumesRight_def q newCustomFilterFiles_def confOK_def)
  have kc0: "0 \<le> kc * ?m" using k(2,4) by simp
  let ?first = "spanStart ?hpf (kc * ?m - 1)"
  have "0 \<le> ?first" "?first \<le> N" using spanStart_bounds(1,2) [OF per(1), of "kc * ?m - 1"] kc0 k(3) by simp_all
  moreover have "cacheRight C N (cache d0)" "\<not> startupComplete (sCFilterFiles d0)" "\<not> writerWaits (cache d0)"
    using s'(3,5) by (simp_all add: d0_def newCFilterFiles_def)
  ultimately obtain n0 c0 where step: "daemonStep E B W d0 (d0\<lparr>now := n0, cache := c0\<rparr>)" "cacheRight C N c0" "\<not> writerWaits c0"
    "?first \<in> dom (heightToHash c0)"
    using single_filter_step [OF chain(1,5)] by metis
  define d where "d = d0\<lparr>now := n0, cache := c0\<rparr>"
  have at0: "sBaseDir d = cBaseDir c" "catchingUp d = backgroundTasks c" "sSPTweakFiles d = sSPTweakFiles d0" "sCustomFilterFiles d = sCustomFilterFiles d0"
    "bestBlock d = N" "disk d = disk s'" "sSPTweaksPerFile d = ?n" "sFiltersPerFile d = ?m" "sHeadersPerFile d = ?hpf" "lightMode d = cLightMode c"
    by (simp_all add: d_def d0_def runningServer_def Let_def)
  define p0 where "p0 = newSPTweakFiles ?n (cDepth c) (sBaseDir d) (cNetwork c) ?net (newBlockPrefetcher True True) s'"
  define q0 where "q0 = newCustomFilterFiles ?m ?hpf (cDepth c) (sBaseDir d) (newBlockPrefetcher True True) s'"
  have tasks: "SPTweakUpdate \<in> set (catchingUp d)" "CustomFilterUpdate \<in> set (catchingUp d)" using X(2-4) by (simp_all add: at0 backgroundTasks_def)
  have at: "sSPTweakFiles d = Some p0" "sCustomFilterFiles d = Some q0" "bestBlock d = N" "cacheRight C N (cache d)"
    using tasks step(2) at0(1-5) by (simp_all add: p0_def q0_def f) (simp_all add: d0_def d_def f)
  have w: "withShared s p0 = p" "withShared s q0 = q" by (simp_all add: p q p0_def q0_def at0 withShared_def newSPTweakFiles_def newCustomFilterFiles_def)
  have fr: "fetcherRight C D N (newBlockPrefetcher True True)" by (simp add: fetcherRight_def newBlockPrefetcher_def)
  have pH: "spHealthy B C D tap ?net E N (cache (withShared d p0)) (mem (withShared d p0))"
    using chain blocks fr at(4) by (simp add: spHealthy_def withShared_def p0_def newSPTweakFiles_def)
  have qH: "customHealthy B C D ?hpf E N (withShared d q0)"
    using chain blocks per fr at(4) by (simp add: customHealthy_def withShared_def q0_def newCustomFilterFiles_def headersKept_def)
  have same: "disk d = disk s" using s'(2) at0(6) by simp
  have sR1: "resumesRight (spHooks B E) (spExpected B D tap ?net E) N ks (withShared d p0)"
    by (rule spf.resumesRight_shared [where d = s, OF _ pH]) (use sR(1) w same in simp_all)
  have cR1: "resumesRight (customHooks B E) (customExpected B C D ?hpf E) N kc (withShared d q0)"
    by (rule cuff.resumesRight_shared [where d = s, OF _ qH]) (use cR(1) w same in simp_all)
  have clean: "nothingAfter spRangeFiles ks (withShared d p0)" "nothingAfter customRangeFiles kc (withShared d q0)"
    by (rule nothingAfter_shared [where d = s and files = spRangeFiles, OF _ k(1) spRangeFiles_shared], simp_all only: w sR(2) same)
      (rule nothingAfter_shared [where d = s and files = customRangeFiles, OF _ k(2) customRangeFiles_shared], simp_all only: w cR(2) same)
  obtain d' sp cu where d': "daemonReach E B W d d'" "sSPTweakFiles d' = Some sp" "sCustomFilterFiles d' = Some cu" "sBaseDir d' = sBaseDir d"
    "lightMode d' = lightMode d" "sSPTweaksPerFile d' = sSPTweaksPerFile d" "sFiltersPerFile d' = sFiltersPerFile d" "sHeadersPerFile d' = sHeadersPerFile d"
    "upToDate (spHooks B E) spRangeFiles (spExpected B D tap ?net E) N sp" "spHealthy B C D tap ?net E N (cache sp) (mem sp)" "conf sp = conf p0"
    "upToDate (customHooks B E) customRangeFiles (customExpected B C D ?hpf E) N cu" "customHealthy B C D ?hpf E N cu" "conf cu = conf q0"
    "\<forall>f. inTask (sBaseDir d) SPTweakUpdate f \<longrightarrow> map_of (disk d') f = map_of (disk sp) f" "disk d' = disk cu"
    "\<forall>j f. 0 \<le> j \<and> lastSealedHeight sp < j * ?n + ?n - 1 \<and> f \<in> rangeFiles spRangeFiles sp j \<longrightarrow> map_of (disk sp) f = None"
    "\<forall>j f. 0 \<le> j \<and> lastSealedHeight cu < j * ?m + ?m - 1 \<and> f \<in> rangeFiles customRangeFiles cu j \<longrightarrow> map_of (disk cu) f = None"
    "cacheStays d d'" "{lastSealedHeight sp + 1..N} \<subseteq> dom (heightToHash (cache d'))"
    "{lastSealedHeight cu + 1..N} \<subseteq> dom (heightToHash (cache d'))" "{kc * ?m..N} \<subseteq> dom (heightToHash (cache d'))"
    "kc * ?m - 1 \<le> lastSealedHeight cu"
    by (rule indexes_caught_up [OF tasks, unfolded at(3), OF chain(1) blocks(1-3) chain(4,5) at(4) blocks(4) per p0_def at(1) q0_def at(2) sR1 clean(1) cR1 clean(2)])
  let ?s = "server.truncate d'"
  have sp: "entriesPerFile sp = ?n" "baseDir sp = sBaseDir d" using d'(11) by (simp_all add: conf_def p0_def newSPTweakFiles_def)
  have cu: "entriesPerFile cu = ?m" "baseDir cu = sBaseDir d" "reOrgSafeDepth cu = cDepth c" using d'(14) by (simp_all add: conf_def q0_def newCustomFilterFiles_def)
  have perf: "sSPTweaksPerFile d = ?n" "sFiltersPerFile d = ?m" "sHeadersPerFile d = ?hpf" "\<not> lightMode d"
    using X(2) at0 by simp_all
  have nw: "\<not> writerWaits (cache d')" and sub: "dom (heightToHash c0) \<subseteq> dom (heightToHash (cache d'))"
    using d'(19) step(3) by (simp_all add: cacheStays_def d_def)
  have below: "lastSealedHeight cu < N" using d'(12) cu X(5) by (simp add: upToDate_def)
  have L: "- 1 \<le> lastSealedHeight cu" using d'(23) kc0 by simp
  have first: "spanStart ?hpf (lastSealedHeight cu) \<in> dom (heightToHash (cache d'))"
  proof (cases "kc * ?m \<le> spanStart ?hpf (lastSealedHeight cu)")
    case True
    have "spanStart ?hpf (lastSealedHeight cu) \<le> N" using spanStart_bounds(2) [OF per(1) L] below by simp
    with True show ?thesis by (intro subsetD [OF d'(22)]) simp
  next
    case False
    then have "spanStart ?hpf (lastSealedHeight cu) = ?first" using spanStart_cases [OF per(1) kc0 d'(23)] by simp
    with subsetD [OF sub step(4)] show ?thesis by simp
  qed
  have own: "map_of (disk ?s) f = map_of (disk sp) f" if "0 \<le> j" "f \<in> rangeFiles spRangeFiles sp j" for j f
  proof -
    have "f \<in> ownFilesOf spRangeFiles sp" using that by (auto simp: ownFilesOf_def)
    with own_sp [OF sp(2)] d'(15) show ?thesis by simp
  qed
  have tweaks: "answeredWith (tweakFile E B D tap ?net dust a (if a + ?n - 1 \<le> lastSealedHeight sp then a + ?n - 1 else N))
      (snd (spTweaksRequestHandler E (tweakRequest dust a) (?s, newWriter)))"
    if "0 \<le> a" "a \<le> N" "a mod ?n = 0" "dust \<in> set spTweakDustLimits" for a dust
    by (rule tweaks_answered [OF d'(9,10), unfolded sp(1)]) (use that d'(2,4-8,17) d'(20) nw perf sp own in \<open>simp_all del: split_paired_All\<close>)
  have gone: "\<forall>j f. 0 \<le> j \<and> f \<in> rangeFiles customRangeFiles cu j \<longrightarrow> map_of (disk ?s) f = map_of (disk cu) f \<and>
      (lastSealedHeight cu < j * entriesPerFile cu + entriesPerFile cu - 1 \<longrightarrow> map_of (disk cu) f = None)"
    using d'(16,18) unfolding cu(1) truncate_simps by (simp, blast)
  have served: "customServed B C D ?hpf E N ?s cu"
    unfolding customServed_def using gone d'(3-8,12,13) perf cu X(5) nw d'(21) first by (intro conjI) simp_all
  have reach: "daemonReach E B W d0 d'" by (rule daemonReach_trans [OF d'(1)]) (use step(1) in \<open>simp add: d_def reach_step [OF reach_refl]\<close>)
  show ?thesis
    by (intro exI [of _ d0] exI [of _ s'] exI [of _ d'] exI [of _ sp] exI [of _ cu] conjI allI impI)
      (use s'(1) reach d'(2,3) tweaks custom_filters_answered [OF served, unfolded cu(1)] custom_headers_answered [OF served] in \<open>simp_all add: d0_def\<close>)
qed

subsection \<open>A concrete run\<close>

text \<open>
  The blocks of \<open>SPFaithful\<close> on an empty disk: two tweak heights, one filter and two headers
  per file, and a re-org-safe depth of one.
\<close>

definition indexBackend :: backendEnv where
  "indexBackend = \<lparr>NewClient = Inr (), GetNetworkInfo = (\<lambda>_. Inr 300000), GetBlockChainInfo = (\<lambda>_. Inr 1)\<rparr>"

definition indexConf :: serverConf where
  "indexConf = newServer False True True ''/d'' '':8080'' True ''b'' SigNet \<lparr>pNet = 77, pName = ''mini'', pGenesisHash = zeroHash\<rparr> 1 2 1 2 0 0"

lemma indexConf_simps [simp]:
  "cLightMode indexConf = False" "cIndexSPTweakData indexConf" "cIndexCustomFilters indexConf" "cBaseDir indexConf = ''/d''"
  "cNetwork indexConf = SigNet" "pNet (cParams indexConf) = 77" "cHeadersPerFile indexConf = 2" "cFiltersPerFile indexConf = 1"
  "cSPTweaksPerFile indexConf = 2" "cDepth indexConf = 1"
  by (simp_all add: indexConf_def newServer_def cDepth_def i32_id)

lemma indexBackend_ready: "backendReady indexBackend servedBlocks indexConf 1"
  by (simp add: backendReady_def indexBackend_def servedBlocks_def minPrevOutBackendVersion_def restProbePath_def)

lemma index_resumes:
  "resumesRight (spHooks servedBlocks (miniEnv 1)) (spExpected servedBlocks servedData 1 77 (miniEnv 1)) 1 0
     (newSPTweakFiles 2 1 ''/d'' SigNet 77 (newBlockPrefetcher True True) miniShared)"
  "resumesRight (customHooks servedBlocks (miniEnv 1)) (customExpected servedBlocks miniData servedData 2 (miniEnv 1)) 1 0
     (newCustomFilterFiles 1 2 1 ''/d'' (newBlockPrefetcher True True) miniShared)"
proof -
  have dir: "plainDir (joinPath ''/d'' (spTweakDustDir 0))" "plainDir (joinPath ''/d'' (customFilterDir ''segwit''))"
    by (simp_all add: plainDir_def joinPath_def spTweakDustDir_def SPTweakFileDir_def customFilterDir_def FilterFileDir_def upt_rec decimal.simps)
  show "resumesRight (spHooks servedBlocks (miniEnv 1)) (spExpected servedBlocks servedData 1 77 (miniEnv 1)) 1 0
     (newSPTweakFiles 2 1 ''/d'' SigNet 77 (newBlockPrefetcher True True) miniShared)"
    using dir(1) by (auto simp: resumesRight_def newSPTweakFiles_def sealedRanges_def miniShared_def confOK_def heightBound_def spTweakDustLimits_def
        spHooks_def spCachedHash_def contentsRight_def)
  show "resumesRight (customHooks servedBlocks (miniEnv 1)) (customExpected servedBlocks miniData servedData 2 (miniEnv 1)) 1 0
     (newCustomFilterFiles 1 2 1 ''/d'' (newBlockPrefetcher True True) miniShared)"
    using dir(2) by (auto simp: resumesRight_def newCustomFilterFiles_def sealedRanges_def miniShared_def confOK_def heightBound_def
        customFilterConfigs_def cu_cached contentsRight_def)
qed

lemma server_serves_indexes_witness:
  "\<exists>(d :: miniHeader daemon) s' d'. start (miniEnv 1) servedBlocks miniWeb indexBackend indexConf miniShared = (Inr d, s') \<and>
     daemonReach (miniEnv 1) servedBlocks miniWeb d d' \<and>
     answeredWith (writeSPTweakFileHeader 77 0 600 @ [0, 1] @ replicate 33 2)
       (snd (spTweaksRequestHandler (miniEnv 1) (tweakRequest 600 0) (server.truncate d', newWriter))) \<and>
     answeredWith [1, 81] (snd (customFiltersRequestHandler (miniEnv 1) (customRequest ''p2tr'' 1) (server.truncate d', newWriter)))"
proof -
  have st: "storedHeaders (miniEnv 1) (disk miniShared) (joinPath (cBaseDir indexConf) HeaderFileDir) (cHeadersPerFile indexConf) 0 (cHeader miniData)"
    by (simp add: storedHeaders_def sealedRanges_def miniShared_def)
  have clean: "nothingAfter spRangeFiles 0 (newSPTweakFiles 2 1 ''/d'' SigNet 77 (newBlockPrefetcher True True) miniShared)"
    "nothingAfter customRangeFiles 0 (newCustomFilterFiles 1 2 1 ''/d'' (newBlockPrefetcher True True) miniShared)"
    by (simp_all add: nothingAfter_def newSPTweakFiles_def newCustomFilterFiles_def miniShared_def)
  have b: "1 \<le> heightBound" "0 * cHeadersPerFile indexConf \<le> 1" by (simp_all add: heightBound_def)
  have conf: "\<not> cLightMode indexConf" "cIndexSPTweakData indexConf" "cIndexCustomFilters indexConf" "0 < cDepth indexConf"
    "0 < cHeadersPerFile indexConf" "cHeadersPerFile indexConf \<le> heightBound" "cHeadersPerFile indexConf mod cFiltersPerFile indexConf = 0"
    by (simp_all add: heightBound_def)
  have tap: "TaprootActivationHeights (cNetwork indexConf) = Some 1" by simp
  have p2tr: "customFilterConfigs ! 3 = \<lparr>cfgName = ''p2tr'', cfgTypes = scriptTypeP2TR\<rparr>" "3 < length customFilterConfigs"
    by (simp_all add: customFilterConfigs_def)
  have f: "tweakFile (miniEnv 1) servedBlocks servedData 1 77 600 0 1 = writeSPTweakFileHeader 77 0 600 @ [0, 1] @ replicate 33 2"
    by (simp add: tweakFile_def upto_01 served_tweaks blockTweaks_def keptTweaks_def miniEnv_def compactSize_def)
  have g: "WriteVarBytes (miniEnv 1) (filterAt servedBlocks miniData servedData \<lparr>cfgName = ''p2tr'', cfgTypes = scriptTypeP2TR\<rparr> 1) = [1, 81]"
    by (simp add: served_filter miniEnv_def compactSize_def)
  obtain d :: "miniHeader daemon" and s' d' sp cu where r: "start (miniEnv 1) servedBlocks miniWeb indexBackend indexConf miniShared = (Inr d, s')"
      "daemonReach (miniEnv 1) servedBlocks miniWeb d d'" "sSPTweakFiles d' = Some sp" "sCustomFilterFiles d' = Some cu"
    and tw: "\<forall>a dust. 0 \<le> a \<and> a \<le> 1 \<and> a mod 2 = 0 \<and> dust \<in> set spTweakDustLimits \<longrightarrow>
       answeredWith (tweakFile (miniEnv 1) servedBlocks servedData 1 77 dust a (if a + 2 - 1 \<le> lastSealedHeight sp then a + 2 - 1 else 1))
         (snd (spTweaksRequestHandler (miniEnv 1) (tweakRequest dust a) (server.truncate d', newWriter)))"
    and fi: "\<forall>a i. 0 \<le> a \<and> a \<le> 1 \<and> a mod 1 = 0 \<and> i < length customFilterConfigs \<longrightarrow>
       answeredWith (concat (map (\<lambda>h. WriteVarBytes (miniEnv 1) (filterAt servedBlocks miniData servedData (customFilterConfigs ! i) h))
           [a..if a + 1 - 1 \<le> lastSealedHeight cu then a + 1 - 1 else 1]))
         (snd (customFiltersRequestHandler (miniEnv 1) (customRequest (cfgName (customFilterConfigs ! i)) a) (server.truncate d', newWriter)))"
    using server_serves_indexes [OF conjunct1 [OF miniData_ok] conjunct2 [OF miniData_ok] mini_header_codec mini_hash_codec b(1) served_ok served_tweakable
        served_filterable tap indexBackend_ready conf st b(2) refl _ _ refl, unfolded indexConf_simps, OF index_resumes(1) clean(1) index_resumes(2) clean(2), of miniWeb]
    by blast
  have "answeredWith (writeSPTweakFileHeader 77 0 600 @ [0, 1] @ replicate 33 2)
       (snd (spTweaksRequestHandler (miniEnv 1) (tweakRequest 600 0) (server.truncate d', newWriter)))"
    using tw [rule_format, of 0 600] unfolding f [symmetric] by (simp add: spTweakDustLimits_def split: if_splits)
  moreover have "answeredWith [1, 81] (snd (customFiltersRequestHandler (miniEnv 1) (customRequest ''p2tr'' 1) (server.truncate d', newWriter)))"
    using fi [rule_format, of 1 3] p2tr g by (simp split: if_splits)
  ultimately show ?thesis using r by blast
qed

end
