(* ===== verification/Verify.thy ===== *)
theory Verify
  imports Endpoints Config
begin

text \<open>
  \<open>verify.go\<close>: the command that checks all sealed files against each other and the
  backend and, with \<open>--fix\<close>, rewrites the corrupt ones. It runs beside the server, on the
  same disk, and asks the server for what is not sealed yet. Its state is the record
  \<open>verifier\<close> (the cache of hashes in it is not used by this program). The answers of the
  running server and the random part of the names of temporary files are the record
  \<open>toolEnv\<close>. What is printed is not modelled.

  The two walks over the files end when a file is missing; a walk gets a budget of turns, and
  one turn more than there are files is enough.
\<close>

record toolEnv =
  httpGet :: "nat \<Rightarrow> string \<Rightarrow> err + int \<times> stream"
  randomName :: "nat \<Rightarrow> string"

record verifier = shared +
  vGenesisHash :: hash
  vBaseDir :: string
  vHeadersPerFile :: int
  vFiltersPerFile :: int
  vFix :: bool
  vReOrgSafeDepth :: int
  vServerURL :: string
  badFiles :: "string list"
  fixedFiles :: "string list"
  fHeaderCacheStart :: int
  fHeaderCache :: bytes
  fHeaderCacheFromMemory :: bool

definition memoryHeadersRoute :: string where "memoryHeadersRoute = ''headers''"
definition memoryFilterHeadersRoute :: string where "memoryFilterHeadersRoute = ''filter-headers''"

text \<open>The names of the files of a range.\<close>

definition vHeaderName :: "'z verifier_scheme \<Rightarrow> int \<Rightarrow> string" where
  "vHeaderName v start = blockFileName HeaderFileSuffix (joinPath (vBaseDir v) HeaderFileDir) start
     (sub32 (add32 start (vHeadersPerFile v)) 1)"

definition vFilterHeaderName :: "'z verifier_scheme \<Rightarrow> int \<Rightarrow> string" where
  "vFilterHeaderName v start = blockFileName FilterHeaderFileSuffix (joinPath (vBaseDir v) HeaderFileDir) start
     (sub32 (add32 start (vHeadersPerFile v)) 1)"

definition vFilterName :: "'z verifier_scheme \<Rightarrow> int \<Rightarrow> string" where
  "vFilterName v start = blockFileName FilterFileSuffix (joinPath (vBaseDir v) FilterFileDir) start
     (sub32 (add32 start (vFiltersPerFile v)) 1)"

definition reportBad :: "string \<Rightarrow> (verifier, unit) go" where
  "reportBad name = goModify (\<lambda>v. v\<lparr>badFiles := badFiles v @ [name]\<rparr>)"

subsection \<open>The backend and the running server\<close>

definition authFilterHeader :: "'h env \<Rightarrow> int \<Rightarrow> (verifier, hash) go" where
  "authFilterHeader E height =
     goBind (rpcCall E (\<lambda>V. GetBlockHash V height)) (\<lambda>hash.
     goBind (rpcCall E (\<lambda>V. GetBlockFilter V hash)) (\<lambda>bf.
       goLift (NewHashFromStr E (bfHeader bf))))"

definition fetchInMemory :: "toolEnv \<Rightarrow> string \<Rightarrow> int \<Rightarrow> (verifier, bytes) go" where
  "fetchInMemory T rt start v =
     (let url = vServerURL v @ ''/'' @ rt @ ''/'' @ intString start in
      (case httpGet T (now v) url of
         Inl e \<Rightarrow> Inl (Wrapf ''error fetching unsealed range'' [] e)
       | Inr (status, answer, fault) \<Rightarrow>
           (case fault of
              Some e \<Rightarrow> Inl (Wrapf ''error reading response'' [] e)
            | None \<Rightarrow> if status \<noteq> 200 then Inl (Errf ''unexpected status %d'' [status]) else Inr answer),
       v\<lparr>now := Suc (now v)\<rparr>))"

subsection \<open>Rewriting a file\<close>

text \<open>
  \<open>regenerate\<close> writes a temporary file in the directory of the file it replaces, renames it,
  and in any case removes the temporary name in the end. \<open>os.CreateTemp\<close> does not open a
  file that exists.
\<close>

definition pathDir :: "string \<Rightarrow> string" where
  "pathDir name = rev (tl (dropWhile (\<lambda>c. c \<noteq> CHR ''/'') (rev name)))"

definition tempName :: "toolEnv \<Rightarrow> string \<Rightarrow> nat \<Rightarrow> string" where
  "tempName T dir t = joinPath dir (''verify-fix-'' @ randomName T t)"

definition createTemp :: "'h env \<Rightarrow> toolEnv \<Rightarrow> string \<Rightarrow> (verifier, string) go" where
  "createTemp E T dir v =
     (let tmp = tempName T dir (now v); v1 = v\<lparr>now := Suc (now v)\<rparr> in
      if fileExists (disk v) tmp \<or> ioFaults E (now v) \<noteq> None then (Inl (Errf ''error creating temp file'' []), v1)
      else (Inr tmp, v1\<lparr>disk := AList.update tmp [] (disk v1)\<rparr>))"

definition appendFile :: "'h env \<Rightarrow> string \<Rightarrow> bytes \<Rightarrow> (verifier, unit) go" where
  "appendFile E name bs v =
     (let v1 = v\<lparr>now := Suc (now v)\<rparr>; old = the (map_of (disk v) name);
          put = (\<lambda>bs. v1\<lparr>disk := AList.update name (old @ bs) (disk v1)\<rparr>)
      in case ioFaults E (now v) of
           None \<Rightarrow> (Inr (), put bs)
         | Some (WriteFault k) \<Rightarrow> (Inl (Errf ''write error'' []), put (take k bs))
         | Some _ \<Rightarrow> (Inl (Errf ''write error'' []), v1))"

definition closeFile :: "'h env \<Rightarrow> (verifier, unit) go" where
  "closeFile E v = (if ioFaults E (now v) = None then Inr () else Inl (Errf ''error closing temp file'' []),
     v\<lparr>now := Suc (now v)\<rparr>)"

definition renameFile :: "'h env \<Rightarrow> string \<Rightarrow> string \<Rightarrow> (verifier, unit) go" where
  "renameFile E old new v =
     (let v1 = v\<lparr>now := Suc (now v)\<rparr> in
      case (map_of (disk v) old, ioFaults E (now v)) of
        (Some bs, None) \<Rightarrow> (Inr (), v1\<lparr>disk := AList.update new bs (AList.delete old (disk v1))\<rparr>)
      | _ \<Rightarrow> (Inl (Errf ''error replacing'' []), v1))"

definition removeFile :: "'h env \<Rightarrow> string \<Rightarrow> verifier \<Rightarrow> verifier" where
  "removeFile E name v =
     (let v1 = v\<lparr>now := Suc (now v)\<rparr> in
      if ioFaults E (now v) = None then v1\<lparr>disk := AList.delete name (disk v1)\<rparr> else v1)"

definition regenerate :: "'h env \<Rightarrow> toolEnv \<Rightarrow> string \<Rightarrow> int \<Rightarrow> int \<Rightarrow> (int \<Rightarrow> (verifier, bytes) go) \<Rightarrow> (verifier, unit) go" where
  "regenerate E T name start end record =
     goBind (createTemp E T (pathDir name)) (\<lambda>tmp v.
       case goBind (goForEach [start..end]
              (\<lambda>height. goWrap ''error writing height'' [height] (goBind (record height) (appendFile E tmp)))) (\<lambda>_.
            goBind (closeFile E) (\<lambda>_.
            goBind (renameFile E tmp name) (\<lambda>_.
              goModify (\<lambda>v. v\<lparr>fixedFiles := fixedFiles v @ [name]\<rparr>)))) v of
         (r, v1) \<Rightarrow> (r, removeFile E tmp v1))"

definition writeHeaderRecord :: "'h env \<Rightarrow> int \<Rightarrow> (verifier, bytes) go" where
  "writeHeaderRecord E height =
     goBind (rpcCall E (\<lambda>V. GetBlockHash V height)) (\<lambda>hash.
     goBind (rpcCall E (\<lambda>V. GetBlockHeader V hash)) (\<lambda>header. goRet (SerializeHeader E header)))"

definition writeFilterHeaderRecord :: "'h env \<Rightarrow> int \<Rightarrow> (verifier, bytes) go" where
  "writeFilterHeaderRecord E height = authFilterHeader E height"

definition writeFilterRecord :: "'h env \<Rightarrow> int \<Rightarrow> (verifier, bytes) go" where
  "writeFilterRecord E height =
     goBind (rpcCall E (\<lambda>V. GetBlockHash V height)) (\<lambda>hash.
     goBind (rpcCall E (\<lambda>V. GetBlockFilter V hash)) (\<lambda>bf.
       case hex_decode (bfFilter bf) of
         None \<Rightarrow> goFail (Errf ''encoding/hex: invalid byte'' [])
       | Some filterBytes \<Rightarrow> goRet (WriteVarBytes E filterBytes)))"

subsection \<open>Block headers\<close>

text \<open>The record of a height in the data of a range that starts at \<open>start\<close>.\<close>

definition recordAt :: "bytes \<Rightarrow> int \<Rightarrow> int \<Rightarrow> bytes" where
  "recordAt dat start height =
     take MaxBlockHeaderPayload (drop (nat (height - start) * MaxBlockHeaderPayload) dat)"

fun linkRecords :: "'h env \<Rightarrow> hash \<Rightarrow> bytes \<Rightarrow> int \<Rightarrow> int list \<Rightarrow> hash \<Rightarrow> err + hash" where
  "linkRecords E genesis dat start [] prev = Inr prev"
| "linkRecords E genesis dat start (height # heights) prev =
     (let record = recordAt dat start height; hash = DoubleHash E record in
      if height = 0
      then if hash \<noteq> genesis then Inl (Errf ''wrong genesis block'' []) else linkRecords E genesis dat start heights hash
      else if take 32 (drop 4 record) \<noteq> prev
      then Inl (Errf ''header at height %d does not link to its predecessor'' [height])
      else linkRecords E genesis dat start heights hash)"

text \<open>The closure \<open>verify\<close> of \<open>verifyOneHeaderFile\<close>: the new value of \<open>running\<close>, or why the file is bad.\<close>

definition checkHeaderFile :: "'h env \<Rightarrow> string \<Rightarrow> int \<Rightarrow> int \<Rightarrow> hash \<Rightarrow> (verifier, hash) go" where
  "checkHeaderFile E name start end running =
     goBind (goWrap ''error reading'' [] (readFile E name)) (\<lambda>dat.
     goBind (goGets (\<lambda>v. vHeadersPerFile v * int MaxBlockHeaderPayload)) (\<lambda>want.
       if int (length dat) \<noteq> want then goFail (Errf ''size %d, want %d'' [int (length dat), want])
       else goBind (goGets vGenesisHash) (\<lambda>genesis.
            goBind (goLift (linkRecords E genesis dat start [start..end] running)) (\<lambda>prev.
            goBind (goWrap ''error getting anchor'' [] (rpcCall E (\<lambda>V. GetBlockHash V end))) (\<lambda>anchor.
              if prev \<noteq> anchor then goFail (Errf ''last header does not match the backend's block at height %d'' [end])
              else goRet prev)))))"

definition verifyOneHeaderFile :: "'h env \<Rightarrow> toolEnv \<Rightarrow> string \<Rightarrow> int \<Rightarrow> int \<Rightarrow> hash \<Rightarrow> (verifier, hash) go" where
  "verifyOneHeaderFile E T name start end running v =
     (case checkHeaderFile E name start end running v of
        (Inr prev, v1) \<Rightarrow> (Inr prev, v1)
      | (Inl e, v1) \<Rightarrow>
          if \<not> vFix v1 then goBind (reportBad name) (\<lambda>_. goRet running) v1
          else goBind (regenerate E T name start end (writeHeaderRecord E)) (\<lambda>_.
                 goWrap ''still corrupt after fix'' [] (checkHeaderFile E name start end running)) v1)"

subsection \<open>Filter headers at file ends\<close>

definition checkFilterHeaderFile :: "'h env \<Rightarrow> string \<Rightarrow> int \<Rightarrow> (verifier, unit) go" where
  "checkFilterHeaderFile E name end =
     goBind (goWrap ''error reading'' [] (readFile E name)) (\<lambda>dat.
     goBind (goGets (\<lambda>v. vHeadersPerFile v * int HashSize)) (\<lambda>want.
       if int (length dat) \<noteq> want then goFail (Errf ''size %d, want %d'' [int (length dat), want])
       else goBind (authFilterHeader E end) (\<lambda>authority.
              if drop (length dat - HashSize) dat \<noteq> authority
              then goFail (Errf ''last filter header does not match the backend'' [])
              else goRet ())))"

definition verifyFilterHeaderAnchor :: "'h env \<Rightarrow> toolEnv \<Rightarrow> string \<Rightarrow> int \<Rightarrow> int \<Rightarrow> (verifier, unit) go" where
  "verifyFilterHeaderAnchor E T name start end v =
     (case checkFilterHeaderFile E name end v of
        (Inr u, v1) \<Rightarrow> (Inr u, v1)
      | (Inl e, v1) \<Rightarrow>
          if \<not> vFix v1 then reportBad name v1
          else goBind (regenerate E T name start end (writeFilterHeaderRecord E)) (\<lambda>_.
               goBind (goModify (\<lambda>v. v\<lparr>fHeaderCacheStart := -1\<rparr>)) (\<lambda>_.
                 goWrap ''still corrupt after fix'' [] (checkFilterHeaderFile E name end))) v1)"

subsection \<open>The unsealed tail\<close>

fun linkTail :: "'h env \<Rightarrow> hash \<Rightarrow> bytes \<Rightarrow> int \<Rightarrow> int \<Rightarrow> int list \<Rightarrow> hash \<Rightarrow> hash \<Rightarrow> err + hash" where
  "linkTail E genesis dat start anchorHeight [] prev anchorHash = Inr anchorHash"
| "linkTail E genesis dat start anchorHeight (height # heights) prev anchorHash =
     (let record = recordAt dat start height; hash = DoubleHash E record;
          anchorHash' = (if height = anchorHeight then hash else anchorHash) in
      if height = 0
      then if hash \<noteq> genesis then Inl (Errf ''wrong genesis block'' [])
           else linkTail E genesis dat start anchorHeight heights hash anchorHash'
      else if take 32 (drop 4 record) \<noteq> prev
      then Inl (Errf ''header at height %d does not link to its predecessor'' [height])
      else linkTail E genesis dat start anchorHeight heights hash anchorHash')"

definition checkMemoryHeaders :: "'h env \<Rightarrow> bytes \<Rightarrow> int \<Rightarrow> int \<Rightarrow> hash \<Rightarrow> (verifier, unit) go" where
  "checkMemoryHeaders E dat start end running =
     goBind (goGets (\<lambda>v. sub32 end (vReOrgSafeDepth v))) (\<lambda>anchorHeight.
     goBind (goGets vGenesisHash) (\<lambda>genesis.
     goBind (goLift (linkTail E genesis dat start anchorHeight [start..end] running zeroHash)) (\<lambda>anchorHash.
       if anchorHeight < start then goRet ()
       else goBind (goWrap ''error getting anchor'' [] (rpcCall E (\<lambda>V. GetBlockHash V anchorHeight))) (\<lambda>anchor.
              if anchorHash \<noteq> anchor
              then goFail (Errf ''header at height %d does not match the backend's block'' [anchorHeight])
              else goRet ()))))"

definition checkMemoryFilterHeaders :: "'h env \<Rightarrow> bytes \<Rightarrow> int \<Rightarrow> int \<Rightarrow> (verifier, unit) go" where
  "checkMemoryFilterHeaders E dat start end =
     goBind (goGets (\<lambda>v. sub32 end (vReOrgSafeDepth v))) (\<lambda>anchorHeight.
       if anchorHeight < start then goRet ()
       else goBind (authFilterHeader E anchorHeight) (\<lambda>authority.
              if take HashSize (drop (nat (anchorHeight - start) * HashSize) dat) \<noteq> authority
              then goFail (Errf ''filter header at height %d does not match the backend'' [anchorHeight])
              else goRet ()))"

text \<open>A failed check of the tail is reported like a bad file.\<close>

definition reportTail :: "string \<Rightarrow> int \<Rightarrow> int \<Rightarrow> (verifier, unit) go \<Rightarrow> (verifier, unit) go" where
  "reportTail what start end check v =
     (case check v of
        (Inr u, v1) \<Rightarrow> (Inr u, v1)
      | (Inl e, v1) \<Rightarrow> reportBad (sprintf (what @ '' %d-%d'') [start, end]) v1)"

definition verifyMemoryTail :: "'h env \<Rightarrow> toolEnv \<Rightarrow> int \<Rightarrow> hash \<Rightarrow> (verifier, unit) go" where
  "verifyMemoryTail E T start running =
     goBind (fetchInMemory T memoryHeadersRoute start) (\<lambda>headerData.
       if length headerData = 0 \<or> length headerData mod MaxBlockHeaderPayload \<noteq> 0
       then goFail (Errf ''in-memory headers response has invalid length %d'' [int (length headerData)])
       else let end = sub32 (add32 start (i32 (int (length headerData div MaxBlockHeaderPayload)))) 1 in
         goBind (reportTail ''in-memory headers'' start end (checkMemoryHeaders E headerData start end running)) (\<lambda>_.
         goBind (fetchInMemory T memoryFilterHeadersRoute start) (\<lambda>fhData.
           if length fhData = 0 \<or> length fhData mod HashSize \<noteq> 0
           then goFail (Errf ''in-memory filter headers response has invalid length %d'' [int (length fhData)])
           else let fhEnd = sub32 (add32 start (i32 (int (length fhData div HashSize)))) 1 in
             reportTail ''in-memory filter headers'' start fhEnd (checkMemoryFilterHeaders E fhData start fhEnd))))"

fun verifyHeaderFiles :: "nat \<Rightarrow> 'h env \<Rightarrow> toolEnv \<Rightarrow> int \<Rightarrow> hash \<Rightarrow> (verifier, unit) go" where
  "verifyHeaderFiles 0 E T start running = goFail ErrOutOfFuel"
| "verifyHeaderFiles (Suc turns) E T start running = (\<lambda>v.
     let end = sub32 (add32 start (vHeadersPerFile v)) 1; name = vHeaderName v start in
     case statFile E name v of
       (False, v1) \<Rightarrow> verifyMemoryTail E T start running v1
     | (True, v1) \<Rightarrow>
         goBind (verifyOneHeaderFile E T name start end running) (\<lambda>running1.
         goBind (verifyFilterHeaderAnchor E T (vFilterHeaderName v start) start end) (\<lambda>_.
           verifyHeaderFiles turns E T (add32 start (vHeadersPerFile v)) running1)) v1)"

subsection \<open>Filters\<close>

definition MaxBlockPayload :: nat where "MaxBlockPayload = 4000000"

fun readEntries :: "nat \<Rightarrow> 'h env \<Rightarrow> bytes \<Rightarrow> err + bytes list \<times> bytes" where
  "readEntries 0 E dat = Inr ([], dat)"
| "readEntries (Suc n) E dat =
     (case ReadVarBytes E MaxBlockPayload dat of
        Inl e \<Rightarrow> Inl (Wrapf ''entry'' [] e)
      | Inr (f, rest) \<Rightarrow>
          (case readEntries n E rest of Inl e \<Rightarrow> Inl e | Inr (fs, rest') \<Rightarrow> Inr (f # fs, rest')))"

definition vReadFilterFile :: "'h env \<Rightarrow> string \<Rightarrow> (verifier, bytes list) go" where
  "vReadFilterFile E name =
     goBind (goWrap ''error reading'' [] (readFile E name)) (\<lambda>dat.
     goBind (goGets (\<lambda>v. nat (vFiltersPerFile v))) (\<lambda>n.
     goBind (goLift (readEntries n E dat)) (\<lambda>entries.
       if length (snd entries) \<noteq> 0 then goFail (Errf ''%d trailing bytes'' [int (length (snd entries))])
       else goRet (fst entries))))"

definition storeFilterHeaders :: "int \<Rightarrow> bool \<Rightarrow> bytes \<Rightarrow> (verifier, unit) go" where
  "storeFilterHeaders fileStart fromMemory dat =
     goModify (\<lambda>v. v\<lparr>fHeaderCacheFromMemory := fromMemory, fHeaderCache := dat, fHeaderCacheStart := fileStart\<rparr>)"

definition loadFilterHeaders :: "'h env \<Rightarrow> toolEnv \<Rightarrow> int \<Rightarrow> (verifier, unit) go" where
  "loadFilterHeaders E T fileStart v =
     (let name = vFilterHeaderName v fileStart in
      case map_of (disk v) name of
        Some _ \<Rightarrow> goBind (readFile E name) (storeFilterHeaders fileStart False) v
      | None \<Rightarrow> goBind (fetchInMemory T memoryFilterHeadersRoute fileStart) (storeFilterHeaders fileStart True)
                  (v\<lparr>now := Suc (now v)\<rparr>))"

text \<open>One turn of the loop of \<open>storedFilterHeader\<close>; \<open>None\<close> when the data is too short.\<close>

definition storedAttempt :: "'h env \<Rightarrow> toolEnv \<Rightarrow> int \<Rightarrow> int \<Rightarrow> (verifier, hash option) go" where
  "storedAttempt E T fileStart height =
     goBind (goGets fHeaderCacheStart) (\<lambda>loaded.
     goBind (if loaded \<noteq> fileStart
             then goWrap ''error loading filter headers for height'' [height] (loadFilterHeaders E T fileStart)
             else goRet ()) (\<lambda>_.
       goGets (\<lambda>v. let offset = nat (height - fileStart) * HashSize in
         if offset + HashSize \<le> length (fHeaderCache v) then Some (take HashSize (drop offset (fHeaderCache v))) else None)))"

definition storedFilterHeader :: "'h env \<Rightarrow> toolEnv \<Rightarrow> int \<Rightarrow> (verifier, hash) go" where
  "storedFilterHeader E T height =
     goBind (goGets (\<lambda>v. height - height mod vHeadersPerFile v)) (\<lambda>fileStart.
     goBind (storedAttempt E T fileStart height) (\<lambda>r.
       case r of
         Some h \<Rightarrow> goRet h
       | None \<Rightarrow>
           goBind (goGets fHeaderCacheFromMemory) (\<lambda>fromMemory.
             if \<not> fromMemory then goFail (Errf ''filter header data for height %d is truncated'' [height])
             else goBind (goModify (\<lambda>v. v\<lparr>fHeaderCacheStart := -1\<rparr>)) (\<lambda>_.
                  goBind (storedAttempt E T fileStart height) (\<lambda>r.
                    case r of
                      Some h \<Rightarrow> goRet h
                    | None \<Rightarrow> goFail (Errf ''filter header data for height %d is truncated'' [height]))))))"

definition checkFilterChain :: "'h env \<Rightarrow> toolEnv \<Rightarrow> bytes list \<Rightarrow> int \<Rightarrow> int \<Rightarrow> (verifier, unit) go" where
  "checkFilterChain E T fs start end =
     goBind (if start > 0 then storedFilterHeader E T (start - 1) else goRet zeroHash) (\<lambda>prev.
     goBind (storedFilterHeader E T end) (\<lambda>want.
       if filterChain E prev fs \<noteq> want
       then goFail (Errf ''filter chain does not close against the stored filter headers'' []) else goRet ()))"

fun diagnoseLoop :: "'h env \<Rightarrow> toolEnv \<Rightarrow> bytes list \<Rightarrow> int \<Rightarrow> int list \<Rightarrow> bool \<Rightarrow> bool \<Rightarrow> (verifier, bool \<times> bool) go" where
  "diagnoseLoop E T fs start [] badFilters badFHeaders = goRet (badFilters, badFHeaders)"
| "diagnoseLoop E T fs start (height # heights) badFilters badFHeaders =
     goBind (rpcCall E (\<lambda>V. GetBlockHash V height)) (\<lambda>hash.
     goBind (rpcCall E (\<lambda>V. GetBlockFilter V hash)) (\<lambda>auth.
       case hex_decode (bfFilter auth) of
         None \<Rightarrow> goFail (Errf ''encoding/hex: invalid byte'' [])
       | Some authFilter \<Rightarrow>
           (let i = nat (height - start); bad = (i \<ge> length fs \<or> fs ! i \<noteq> authFilter) in
            goBind (goLift (NewHashFromStr E (bfHeader auth))) (\<lambda>authHeader.
            goBind (storedFilterHeader E T height) (\<lambda>stored.
              diagnoseLoop E T fs start heights (badFilters \<or> bad) (badFHeaders \<or> stored \<noteq> authHeader))))))"

definition diagnoseRange :: "'h env \<Rightarrow> toolEnv \<Rightarrow> bytes list \<Rightarrow> int \<Rightarrow> int \<Rightarrow> (verifier, bool \<times> bool) go" where
  "diagnoseRange E T fs start end = diagnoseLoop E T fs start [start..end] False False"

text \<open>\<open>readFilterFile\<close> followed by \<open>checkFilterChain\<close>; a file that cannot be parsed has no filters.\<close>

definition checkFilterFile :: "'h env \<Rightarrow> toolEnv \<Rightarrow> string \<Rightarrow> int \<Rightarrow> int \<Rightarrow> verifier \<Rightarrow> (bytes list \<times> (err + unit)) \<times> verifier" where
  "checkFilterFile E T name start end v =
     (case vReadFilterFile E name v of
        (Inl e, v1) \<Rightarrow> (([], Inl e), v1)
      | (Inr fs, v1) \<Rightarrow> (case checkFilterChain E T fs start end v1 of (r, v2) \<Rightarrow> ((fs, r), v2)))"

definition fixFilterHeaders :: "'h env \<Rightarrow> toolEnv \<Rightarrow> int \<Rightarrow> int \<Rightarrow> (verifier, unit) go" where
  "fixFilterHeaders E T start end v =
     (let fhStart = start - start mod vHeadersPerFile v; fhName = vFilterHeaderName v fhStart in
      case statFile E fhName v of
        (False, v1) \<Rightarrow> (Inl (Errf ''filter headers diverge from the backend but aren't sealed to disk yet'' [start, end]), v1)
      | (True, v1) \<Rightarrow>
          goBind (regenerate E T fhName fhStart (sub32 (add32 fhStart (vHeadersPerFile v)) 1) (writeFilterHeaderRecord E)) (\<lambda>_.
            goModify (\<lambda>v. v\<lparr>fHeaderCacheStart := -1\<rparr>)) v1)"

definition verifyOneFilterFile :: "'h env \<Rightarrow> toolEnv \<Rightarrow> string \<Rightarrow> int \<Rightarrow> int \<Rightarrow> (verifier, unit) go" where
  "verifyOneFilterFile E T name start end v =
     (case checkFilterFile E T name start end v of
        ((fs, Inr u), v1) \<Rightarrow> (Inr u, v1)
      | ((fs, Inl e), v1) \<Rightarrow>
          if \<not> vFix v1 then reportBad name v1
          else goBind (diagnoseRange E T fs start end) (\<lambda>(badFilters, badFHeaders).
               goBind (if badFilters then regenerate E T name start end (writeFilterRecord E) else goRet ()) (\<lambda>_.
               goBind (if badFHeaders then fixFilterHeaders E T start end else goRet ()) (\<lambda>_ v.
                 case checkFilterFile E T name start end v of
                   ((_, Inr u), v2) \<Rightarrow> (Inr u, v2)
                 | ((_, Inl e), v2) \<Rightarrow> (Inl (Wrapf ''still corrupt after fix'' [] e), v2)))) v1)"

fun verifyFilterFiles :: "nat \<Rightarrow> 'h env \<Rightarrow> toolEnv \<Rightarrow> int \<Rightarrow> (verifier, unit) go" where
  "verifyFilterFiles 0 E T start = goFail ErrOutOfFuel"
| "verifyFilterFiles (Suc turns) E T start = (\<lambda>v.
     let end = sub32 (add32 start (vFiltersPerFile v)) 1; name = vFilterName v start in
     case statFile E name v of
       (False, v1) \<Rightarrow> (Inr (), v1)
     | (True, v1) \<Rightarrow>
         goBind (verifyOneFilterFile E T name start end) (\<lambda>_.
           verifyFilterFiles turns E T (add32 start (vFiltersPerFile v))) v1)"

subsection \<open>The command\<close>

definition newVerifier :: "chainParams \<Rightarrow> mainCommand \<Rightarrow> int \<Rightarrow> int \<Rightarrow> bool \<Rightarrow> string \<Rightarrow> shared \<Rightarrow> verifier" where
  "newVerifier params cc nh nf fix url s =
     \<lparr>now = now s, disk = disk s, cache = cache s, vGenesisHash = pGenesisHash params, vBaseDir = mcBaseDir cc,
      vHeadersPerFile = nh, vFiltersPerFile = nf, vFix = fix, vReOrgSafeDepth = i32 (int (mcReOrgSafeDepth cc)),
      vServerURL = url, badFiles = [], fixedFiles = [], fHeaderCacheStart = -1, fHeaderCache = [],
      fHeaderCacheFromMemory = False\<rparr>"

definition verifyAll :: "nat \<Rightarrow> 'h env \<Rightarrow> toolEnv \<Rightarrow> (verifier, unit) go" where
  "verifyAll turns E T =
     goBind (verifyHeaderFiles turns E T 0 zeroHash) (\<lambda>_.
     goBind (verifyFilterFiles turns E T 0) (\<lambda>_ v.
       if badFiles v \<noteq> [] then (Inl (Errf ''%d corrupt file(s) found'' [int (length (badFiles v))]), v) else (Inr (), v)))"

end
