(* ===== verification/VerifyProofs.thy ===== *)
theory VerifyProofs
  imports Verify
begin

text \<open>
  What the command \<open>verify\<close> guarantees. Checking changes nothing on disk; a run without
  \<open>--fix\<close> that ends without an error has found every header and filter file to be that of
  the backend's chain; rewriting a file is atomic; a run with \<open>--fix\<close> leaves every header
  file as the chain prescribes it, whatever was in it. That a run over right files finds
  nothing is in \<open>VerifyAccepts\<close>, which builds on this theory.
\<close>

subsection \<open>What checking leaves alone\<close>

declare keeps_if [keeps_intros] keeps_case_option [keeps_intros]

definition vconf :: "verifier \<Rightarrow> hash \<times> string \<times> int \<times> int \<times> bool \<times> int \<times> string" where
  "vconf v = (vGenesisHash v, vBaseDir v, vHeadersPerFile v, vFiltersPerFile v, vFix v, vReOrgSafeDepth v, vServerURL v)"

text \<open>The filter headers kept in memory are those of the file they were read from.\<close>

definition fhInv :: "verifier \<Rightarrow> bool" where
  "fhInv v \<longleftrightarrow> (fHeaderCacheStart v \<noteq> -1 \<longrightarrow>
     (\<forall>bs. map_of (disk v) (vFilterHeaderName v (fHeaderCacheStart v)) = Some bs \<longrightarrow> fHeaderCache v = bs))"

definition checksOnly :: "verifier \<Rightarrow> verifier \<Rightarrow> bool" where
  "checksOnly v v' \<longleftrightarrow> now v \<le> now v' \<and> vconf v' = vconf v \<and> disk v' = disk v \<and> badFiles v' = badFiles v \<and>
     fixedFiles v' = fixedFiles v \<and> (fhInv v \<longrightarrow> fhInv v')"

lemma checksOnly_preorder: "reflp checksOnly" "transp checksOnly"
  by (auto simp: checksOnly_def intro!: reflpI transpI)

lemma checksOnly_tick [simp]: "checksOnly v (v\<lparr>now := Suc (now v)\<rparr>)"
  by (simp add: checksOnly_def vconf_def fhInv_def vFilterHeaderName_def)

lemma checksOnly_rpcCall [keeps_intros]: "keeps checksOnly (rpcCall E f)"
  by (simp add: keeps_def rpcCall_def)

lemma checksOnly_readFile [keeps_intros]: "keeps checksOnly (readFile E f)"
  by (simp add: keeps_def readFile_def)

lemma checksOnly_fetchInMemory [keeps_intros]: "keeps checksOnly (fetchInMemory T rt a)"
  by (simp add: keeps_def fetchInMemory_def Let_def)

lemma checksOnly_authFilterHeader [keeps_intros]: "keeps checksOnly (authFilterHeader E h)"
  unfolding authFilterHeader_def by (intro keeps_intros checksOnly_preorder)

lemma checksOnly_checkHeaderFile [keeps_intros]: "keeps checksOnly (checkHeaderFile E f a b x)"
  unfolding checkHeaderFile_def by (intro keeps_intros checksOnly_preorder)

lemma checksOnly_checkFilterHeaderFile [keeps_intros]: "keeps checksOnly (checkFilterHeaderFile E f b)"
  unfolding checkFilterHeaderFile_def by (intro keeps_intros checksOnly_preorder)

lemma checksOnly_checkMemoryHeaders [keeps_intros]: "keeps checksOnly (checkMemoryHeaders E dat a b x)"
  unfolding checkMemoryHeaders_def by (intro keeps_intros checksOnly_preorder)

lemma checksOnly_checkMemoryFilterHeaders [keeps_intros]: "keeps checksOnly (checkMemoryFilterHeaders E dat a b)"
  unfolding checkMemoryFilterHeaders_def by (intro keeps_intros checksOnly_preorder)

lemma checksOnly_vReadFilterFile [keeps_intros]: "keeps checksOnly (vReadFilterFile E f)"
  unfolding vReadFilterFile_def by (intro keeps_intros checksOnly_preorder)

lemma checksOnly_loadFilterHeaders [keeps_intros]: "keeps checksOnly (loadFilterHeaders E T a)"
proof (rule keepsI)
  fix v r v'
  assume "loadFilterHeaders E T a v = (r, v')"
  then show "checksOnly v v'"
    by (cases r) (auto simp: loadFilterHeaders_def Let_def storeFilterHeaders_def go_simps fetchInMemory_def readFile_def checksOnly_def
        vconf_def fhInv_def vFilterHeaderName_def split: option.splits sum.splits prod.splits if_splits)
qed

lemma checksOnly_forget [keeps_intros]: "keeps checksOnly (goModify (\<lambda>v. v\<lparr>fHeaderCacheStart := -1\<rparr>))"
  by (simp add: keeps_def goModify_def checksOnly_def vconf_def fhInv_def)

lemma checksOnly_storedAttempt [keeps_intros]: "keeps checksOnly (storedAttempt E T a h)"
  unfolding storedAttempt_def by (intro keeps_intros checksOnly_preorder)

lemma checksOnly_storedFilterHeader [keeps_intros]: "keeps checksOnly (storedFilterHeader E T h)"
  unfolding storedFilterHeader_def by (intro keeps_intros checksOnly_preorder)

lemma checksOnly_checkFilterChain [keeps_intros]: "keeps checksOnly (checkFilterChain E T fs a b)"
  unfolding checkFilterChain_def by (intro keeps_intros checksOnly_preorder)

lemma checksOnly_diagnoseLoop [keeps_intros]: "keeps checksOnly (diagnoseLoop E T fs a hs x y)"
  by (induction hs arbitrary: x y) (auto simp: Let_def intro!: keeps_intros checksOnly_preorder)

lemma checksOnly_checkFilterFile:
  "checkFilterFile E T f a b v = (r, v') \<Longrightarrow> checksOnly v v'"
  using checksOnly_preorder(2) checksOnly_vReadFilterFile checksOnly_checkFilterChain
  by (fastforce simp: checkFilterFile_def dest: keepsD transpD split: prod.splits sum.splits)

subsection \<open>Records\<close>

lemma concat_chunks: "length xs = k * w \<Longrightarrow> concat (map (\<lambda>i. take w (drop (i * w) xs)) [0..<k]) = xs"
proof (induction k arbitrary: xs)
  case (Suc k)
  have "[0..<Suc k] = 0 # map Suc [0..<k]" by (simp add: map_Suc_upt upt_conv_Cons del: upt_Suc)
  then have "concat (map (\<lambda>i. take w (drop (i * w) xs)) [0..<Suc k]) =
      take w xs @ concat (map (\<lambda>i. take w (drop (i * w) (drop w xs))) [0..<k])"
    by (simp add: comp_def add.commute del: upt_Suc)
  also have "concat (map (\<lambda>i. take w (drop (i * w) (drop w xs))) [0..<k]) = drop w xs" using Suc.prems by (intro Suc.IH) simp
  finally show ?case by simp
qed simp

lemma upto_offsets: "map (\<lambda>i. nat (i - a)) [a..b] = [0..<nat (b - a + 1)]"
  by (rule nth_equalityI) auto

lemma concat_recordAt:
  assumes "int (length dat) = (b - a + 1) * int w" "a \<le> b"
  shows "concat (map (\<lambda>i. take w (drop (nat (i - a) * w) dat)) [a..b]) = dat"
proof -
  have "length dat = nat (b - a + 1) * w"
    using assms by (metis nat_int nat_mult_distrib zero_le_mult_iff add_nonneg_nonneg diff_ge_0_iff_ge zero_le_one)
  moreover have "map (\<lambda>i. take w (drop (nat (i - a) * w) dat)) [a..b] =
      map (\<lambda>i. take w (drop (i * w) dat)) (map (\<lambda>i. nat (i - a)) [a..b])" by simp
  ultimately show ?thesis unfolding upto_offsets by (simp only: concat_chunks)
qed

lemma recordAt_concat:
  assumes "\<And>h. length (put h) = w" "a \<le> i" "i \<le> b"
  shows "take w (drop (nat (i - a) * w) (concat (map put [a..b]))) = put i"
proof -
  have len: "length (concat (map put xs)) = length xs * w" for xs
    using assms(1) by (induction xs) simp_all
  have "[a..b] = [a..i - 1] @ i # [i + 1..b]" using assms upto_split3 by blast
  then have "concat (map put [a..b]) = concat (map put [a..i - 1]) @ put i @ concat (map put [i + 1..b])" by simp
  moreover have "length (concat (map put [a..i - 1])) = nat (i - a) * w" using len by simp
  ultimately show ?thesis using assms(1) by simp
qed

text \<open>What linking says about the records.\<close>

lemma linkRecords_links:
  assumes "linkRecords E genesis dat start [a..b] prev = Inr h" "a \<le> b"
  shows "h = DoubleHash E (recordAt dat start b) \<and>
    (\<forall>i. a < i \<and> i \<le> b \<and> i \<noteq> 0 \<longrightarrow> take 32 (drop 4 (recordAt dat start i)) = DoubleHash E (recordAt dat start (i - 1)))"
  using assms
proof (induction "nat (b - a)" arbitrary: a prev)
  case 0
  then have "a = b" by simp
  with 0 show ?case by (auto simp: Let_def split: if_splits)
next
  case (Suc k)
  then have ab: "a < b" by simp
  let ?hash = "DoubleHash E (recordAt dat start a)"
  from Suc.prems ab have "linkRecords E genesis dat start [a + 1..b] ?hash = Inr h"
    by (simp add: upto_rec1 [of a b] Let_def split: if_splits)
  with Suc.hyps(1) [of "a + 1"] Suc.hyps(2) ab
  have IH: "h = DoubleHash E (recordAt dat start b)"
    "\<forall>i. a + 1 < i \<and> i \<le> b \<and> i \<noteq> 0 \<longrightarrow> take 32 (drop 4 (recordAt dat start i)) = DoubleHash E (recordAt dat start (i - 1))"
    by (meson Suc_inject order.strict_implies_order zless_imp_add1_zle nat_diff_distrib | simp)+
  have next1: "take 32 (drop 4 (recordAt dat start (a + 1))) = ?hash" if "a + 1 \<noteq> 0"
  proof -
    have "[a + 1..b] = (a + 1) # [a + 1 + 1..b]" using ab by (simp only: upto_rec1 [of "a + 1"])
    with \<open>linkRecords E genesis dat start [a + 1..b] ?hash = Inr h\<close> that show ?thesis by (simp add: Let_def split: if_splits)
  qed
  show ?case
  proof (intro conjI allI impI)
    fix i
    assume i: "a < i \<and> i \<le> b \<and> i \<noteq> 0"
    then show "take 32 (drop 4 (recordAt dat start i)) = DoubleHash E (recordAt dat start (i - 1))"
      using IH(2) next1 by (cases "i = a + 1") auto
  qed (rule IH(1))
qed

text \<open>
  A chain of records that ends in the block hash of the backend is the chain of the backend,
  unless two of the strings hashed collide.
\<close>

lemma anchored_records:
  assumes V: "validChain E C N" and codec: "header_codec E" and ab: "0 \<le> a" "a \<le> b" "b \<le> N"
    and run: "linkRecords E genesis dat start [a..b] prev = Inr (cHash C b)"
    and inj: "inj_on (DoubleHash E) ((\<lambda>i. recordAt dat start i) ` {a..b} \<union> (\<lambda>i. SerializeHeader E (cHeader C i)) ` {a..b})"
    and i: "a \<le> i" "i \<le> b"
  shows "recordAt dat start i = SerializeHeader E (cHeader C i)"
proof -
  note links = linkRecords_links [OF run ab(2)]
  have chain: "DoubleHash E (SerializeHeader E (cHeader C j)) = cHash C j" if "a \<le> j" "j \<le> b" for j
    using V codec ab that by (simp add: validChain_def header_codec_def)
  have same: "recordAt dat start j = SerializeHeader E (cHeader C j)"
    if "a \<le> j" "j \<le> b" "DoubleHash E (recordAt dat start j) = cHash C j" for j
    by (rule inj_onD [OF inj]) (use that chain in auto)
  have "a \<le> b - int m \<Longrightarrow> recordAt dat start (b - int m) = SerializeHeader E (cHeader C (b - int m))" for m
  proof (induction m)
    case 0
    show ?case using same [of b] links ab by simp
  next
    case (Suc m)
    let ?j = "b - int m"
    from Suc have j: "a < ?j" "?j \<le> b" "recordAt dat start ?j = SerializeHeader E (cHeader C ?j)" by simp_all
    then have "DoubleHash E (recordAt dat start (?j - 1)) = PrevBlock E (cHeader C ?j)"
      using links ab codec by (force simp: header_codec_def)
    also have "\<dots> = cHash C (?j - 1)" using V j ab by (simp add: validChain_def)
    finally show ?case using same [of "?j - 1"] j by (simp add: algebra_simps)
  qed
  from this [of "nat (b - i)"] i show ?thesis by simp
qed

lemma linkRecords_chain:
  assumes V: "validChain E C N" and codec: "header_codec E"
    and "0 \<le> a" "b \<le> N" "a \<le> b" "genesis = cHash C 0" "0 < a \<Longrightarrow> prev = cHash C (a - 1)"
    and dat: "\<And>i. a \<le> i \<Longrightarrow> i \<le> b \<Longrightarrow> recordAt dat start i = SerializeHeader E (cHeader C i)"
  shows "linkRecords E genesis dat start [a..b] prev = Inr (cHash C b)"
  using assms(3,5-)
proof (induction "nat (b - a)" arbitrary: a prev)
  case 0
  then have "a = b" by simp
  with 0 assms(4) V codec show ?case by (auto simp: Let_def validChain_def header_codec_def)
next
  case (Suc k)
  then have ab: "a < b" by simp
  have h: "DoubleHash E (SerializeHeader E (cHeader C a)) = cHash C a"
    and l: "0 < a \<Longrightarrow> take 32 (drop 4 (SerializeHeader E (cHeader C a))) = cHash C (a - 1)"
    using V codec Suc.prems ab assms(4) by (simp_all add: validChain_def header_codec_def)
  have "linkRecords E genesis dat start [a + 1..b] (cHash C a) = Inr (cHash C b)"
    by (rule Suc.hyps(1)) (use Suc ab in auto)
  then show ?case using Suc.prems ab h l by (auto simp: upto_rec1 [of a b] Let_def)
qed

subsection \<open>What a passed check of a header file says\<close>

text \<open>The backend may fail to answer, but what it answers is from one chain.\<close>

definition answersFrom :: "'h env \<Rightarrow> 'h chainData \<Rightarrow> int \<Rightarrow> bool" where
  "answersFrom E C N \<longleftrightarrow>
     (\<forall>n h. 0 \<le> h \<and> h \<le> N \<longrightarrow> (\<forall>x. GetBlockHash (rpc E n) h = Inr x \<longrightarrow> x = cHash C h) \<and>
        (\<forall>bf y. GetBlockFilter (rpc E n) (cHash C h) = Inr bf \<and> NewHashFromStr E (bfHeader bf) = Inr y \<longrightarrow>
           y = cFilterHeader C h))"

lemma serves_answersFrom:
  assumes "serves E C N"
  shows "answersFrom E C N"
  unfolding answersFrom_def
proof (intro allI impI conjI)
  fix n h x
  assume "0 \<le> h \<and> h \<le> N" "GetBlockHash (rpc E n) h = Inr x"
  then show "x = cHash C h" using servesD(3) [OF assms, of h n] by simp
next
  fix n h bf y
  assume "0 \<le> h \<and> h \<le> N" "GetBlockFilter (rpc E n) (cHash C h) = Inr bf \<and> NewHashFromStr E (bfHeader bf) = Inr y"
  then show "y = cFilterHeader C h" using servesD(5) [OF assms, of h n] by auto
qed

lemma authFilterHeader_right:
  assumes "answersFrom E C N" "0 \<le> h" "h \<le> N" "authFilterHeader E h v = (Inr y, v')"
  shows "y = cFilterHeader C h"
  using assms unfolding answersFrom_def by (auto simp: authFilterHeader_def go_simps)

lemma checkHeaderFile_ok:
  assumes "checkHeaderFile E f a b x v = (Inr h, v')"
  obtains dat t where "map_of (disk v) f = Some dat" "int (length dat) = vHeadersPerFile v * int MaxBlockHeaderPayload"
    "linkRecords E (vGenesisHash v) dat a [a..b] x = Inr h" "GetBlockHash (rpc E t) b = Inr h"
proof -
  from assms obtain dat v1 where r: "readFile E f v = (Inr dat, v1)"
    "int (length dat) = vHeadersPerFile v1 * int MaxBlockHeaderPayload"
    "linkRecords E (vGenesisHash v1) dat a [a..b] x = Inr h" "GetBlockHash (rpc E (now v1)) b = Inr h"
    by (auto simp: checkHeaderFile_def go_simps split: if_splits)
  moreover have "map_of (disk v) f = Some dat" "v1 = v\<lparr>now := Suc (now v)\<rparr>" using readFile_ok [OF r(1)] by auto
  ultimately show thesis using that [of dat "now v1"] by simp
qed

definition hashedHeaders :: "'h env \<Rightarrow> 'h chainData \<Rightarrow> verifier \<Rightarrow> int \<Rightarrow> bytes set" where
  "hashedHeaders E C v N =
     {recordAt dat (j * vHeadersPerFile v) i |dat j i. map_of (disk v) (vHeaderName v (j * vHeadersPerFile v)) = Some dat \<and>
        0 \<le> j \<and> j * vHeadersPerFile v \<le> i \<and> i \<le> j * vHeadersPerFile v + vHeadersPerFile v - 1 \<and> i \<le> N} \<union>
     {SerializeHeader E (cHeader C i) |i. 0 \<le> i \<and> i \<le> N}"

lemma checkHeaderFile_right:
  assumes run: "checkHeaderFile E (vHeaderName v a) a b x v = (Inr h, v')"
    and A: "answersFrom E C N" "validChain E C N" "header_codec E"
    and ab: "a = j * vHeadersPerFile v" "b = a + vHeadersPerFile v - 1" "0 \<le> j" "0 < vHeadersPerFile v" "b \<le> N"
    and inj: "inj_on (DoubleHash E) (hashedHeaders E C v N)"
  shows "map_of (disk v) (vHeaderName v a) = Some (headersOf E (cHeader C) a b) \<and> h = cHash C b"
proof -
  from run obtain dat t where d: "map_of (disk v) (vHeaderName v a) = Some dat"
    "int (length dat) = vHeadersPerFile v * int MaxBlockHeaderPayload"
    "linkRecords E (vGenesisHash v) dat a [a..b] x = Inr h" "GetBlockHash (rpc E t) b = Inr h"
    by (rule checkHeaderFile_ok)
  have le: "0 \<le> a" "a \<le> b" using ab by (simp_all add: zero_le_mult_iff)
  have h: "h = cHash C b" using A(1) d(4) le ab(5) unfolding answersFrom_def by force
  have "recordAt dat a i = SerializeHeader E (cHeader C i)" if "a \<le> i" "i \<le> b" for i
  proof (rule anchored_records [OF A(2,3) le ab(5) d(3) [unfolded h] _ that])
    have "(\<lambda>i. recordAt dat a i) ` {a..b} \<union> (\<lambda>i. SerializeHeader E (cHeader C i)) ` {a..b} \<subseteq> hashedHeaders E C v N"
    proof (intro Un_least image_subsetI)
      fix i
      assume i: "i \<in> {a..b}"
      show "recordAt dat a i \<in> hashedHeaders E C v N"
        unfolding hashedHeaders_def
        by (intro UnI1 CollectI exI [of _ dat] exI [of _ j] exI [of _ i]) (use i ab d(1) in auto)
      show "SerializeHeader E (cHeader C i) \<in> hashedHeaders E C v N"
        unfolding hashedHeaders_def by (rule UnI2) (use i le ab(5) in auto)
    qed
    then show "inj_on (DoubleHash E) ((\<lambda>i. recordAt dat a i) ` {a..b} \<union> (\<lambda>i. SerializeHeader E (cHeader C i)) ` {a..b})"
      using inj by (rule inj_on_subset [rotated])
  qed
  then have "concat (map (recordAt dat a) [a..b]) = headersOf E (cHeader C) a b"
    unfolding headersOf_def by (intro arg_cong [of _ _ concat] map_cong) auto
  moreover have "concat (map (recordAt dat a) [a..b]) = dat"
    unfolding recordAt_def by (rule concat_recordAt) (use d(2) ab(2) le in auto)
  ultimately show ?thesis using d(1) h by simp
qed

lemma checkFilterHeaderFile_ok:
  assumes "checkFilterHeaderFile E f b v = (Inr u, v')" "answersFrom E C N" "0 \<le> b" "b \<le> N"
  shows "\<exists>dat. map_of (disk v) f = Some dat \<and> int (length dat) = vHeadersPerFile v * int HashSize \<and>
    drop (length dat - HashSize) dat = cFilterHeader C b"
proof -
  from assms(1) obtain dat v1 v2 where r: "readFile E f v = (Inr dat, v1)"
    "int (length dat) = vHeadersPerFile v1 * int HashSize" "authFilterHeader E b v1 = (Inr (drop (length dat - HashSize) dat), v2)"
    by (auto simp: checkFilterHeaderFile_def go_simps split: if_splits)
  then show ?thesis using readFile_ok [OF r(1)] authFilterHeader_right [OF assms(2-4) r(3)] by auto
qed

subsection \<open>A run without \<open>--fix\<close>\<close>

definition reportsOnly :: "verifier \<Rightarrow> verifier \<Rightarrow> bool" where
  "reportsOnly v v' \<longleftrightarrow> (\<not> vFix v \<longrightarrow>
     vconf v' = vconf v \<and> disk v' = disk v \<and> (\<exists>bs. badFiles v' = badFiles v @ bs) \<and> (fhInv v \<longrightarrow> fhInv v'))"

lemma vconfD:
  assumes "vconf v' = vconf v"
  shows "vGenesisHash v' = vGenesisHash v" "vBaseDir v' = vBaseDir v" "vHeadersPerFile v' = vHeadersPerFile v"
    "vFiltersPerFile v' = vFiltersPerFile v" "vFix v' = vFix v" "vReOrgSafeDepth v' = vReOrgSafeDepth v"
    "vServerURL v' = vServerURL v" "vHeaderName v' = vHeaderName v" "vFilterHeaderName v' = vFilterHeaderName v"
    "vFilterName v' = vFilterName v"
  using assms by (auto simp: vconf_def vHeaderName_def [abs_def] vFilterHeaderName_def [abs_def] vFilterName_def [abs_def])

lemma reportsOnly_refl: "reportsOnly v v"
  by (simp add: reportsOnly_def)

lemma reportsOnly_trans: "reportsOnly u v \<Longrightarrow> reportsOnly v w \<Longrightarrow> reportsOnly u w"
  unfolding reportsOnly_def by (metis append_assoc vconfD(5))

lemma reportsOnly_preorder: "reflp reportsOnly" "transp reportsOnly"
  by (auto intro!: reflpI transpI reportsOnly_refl elim: reportsOnly_trans)

lemma reportsOnly_checks: "checksOnly v v' \<Longrightarrow> reportsOnly v v'"
  by (simp add: checksOnly_def reportsOnly_def)

lemma reportsOnly_keeps: "keeps checksOnly m \<Longrightarrow> keeps reportsOnly m"
  by (simp add: keeps_def reportsOnly_checks)

lemma reportsOnly_fix: "vFix v \<Longrightarrow> reportsOnly v v'"
  by (simp add: reportsOnly_def)

lemma reportsOnly_reportBad: "keeps reportsOnly (reportBad f)"
  by (simp add: keeps_def reportBad_def goModify_def reportsOnly_def vconf_def fhInv_def vFilterHeaderName_def)

lemma reportsOnly_bad: "reportsOnly v v' \<Longrightarrow> \<not> vFix v \<Longrightarrow> badFiles v' = [] \<Longrightarrow> badFiles v = []"
  by (auto simp: reportsOnly_def)

lemma statFile_checks: "statFile E f v = (x, v') \<Longrightarrow> checksOnly v v'"
  by (auto simp: statFile_def)

lemma checksOnly_fixed: "checksOnly v v' \<Longrightarrow> vFix v' = vFix v"
  by (auto simp: checksOnly_def dest: vconfD)

text \<open>The three ways a verification of a file goes without \<open>--fix\<close>: passed, or reported; with \<open>--fix\<close> anything.\<close>

lemma reportsOnly_branch:
  assumes "\<And>v r v'. run v = (r, v') \<Longrightarrow>
    \<exists>v1. checksOnly v v1 \<and> (v' = v1 \<or> vFix v \<or> v' = v1\<lparr>badFiles := badFiles v1 @ [f]\<rparr>)"
  shows "keeps reportsOnly run"
proof (rule keepsI)
  fix v r v'
  assume "run v = (r, v')"
  from assms [OF this] obtain v1 where 1: "checksOnly v v1"
    and "v' = v1 \<or> vFix v \<or> v' = v1\<lparr>badFiles := badFiles v1 @ [f]\<rparr>" by blast
  moreover have "reportsOnly v1 (v1\<lparr>badFiles := badFiles v1 @ [f]\<rparr>)"
    using keepsD [OF reportsOnly_reportBad] by (simp add: reportBad_def goModify_def)
  ultimately show "reportsOnly v v'"
    using reportsOnly_checks [OF 1] reportsOnly_trans reportsOnly_fix by blast
qed

lemmas report_simps = reportBad_def goBind_def goModify_def goRet_def

lemma verifyOneHeaderFile_reports: "keeps reportsOnly (verifyOneHeaderFile E T f a b x)"
proof (rule reportsOnly_branch)
  fix v r v'
  assume run: "verifyOneHeaderFile E T f a b x v = (r, v')"
  obtain q v1 where c: "checkHeaderFile E f a b x v = (q, v1)" by fastforce
  note 1 = keepsD [OF checksOnly_checkHeaderFile c]
  have "v' = v1 \<or> v' = v1\<lparr>badFiles := badFiles v1 @ [f]\<rparr>" if "\<not> vFix v"
    using run c checksOnly_fixed [OF 1] that by (cases q) (simp_all add: verifyOneHeaderFile_def report_simps)
  with 1 show "\<exists>v1. checksOnly v v1 \<and> (v' = v1 \<or> vFix v \<or> v' = v1\<lparr>badFiles := badFiles v1 @ [f]\<rparr>)" by blast
qed

lemma verifyOneHeaderFile_clean:
  assumes "verifyOneHeaderFile E T f a b x v = (Inr h, v')" "\<not> vFix v" "badFiles v' = []"
  shows "checkHeaderFile E f a b x v = (Inr h, v')"
proof -
  obtain q v1 where c: "checkHeaderFile E f a b x v = (q, v1)" by fastforce
  have "vFix v1 = vFix v" using checksOnly_fixed keepsD [OF checksOnly_checkHeaderFile c] by blast
  with assms c show ?thesis
    by (cases q) (auto simp: verifyOneHeaderFile_def reportBad_def goBind_def goModify_def goRet_def)
qed

lemma verifyFilterHeaderAnchor_reports: "keeps reportsOnly (verifyFilterHeaderAnchor E T f a b)"
proof (rule reportsOnly_branch)
  fix v r v'
  assume run: "verifyFilterHeaderAnchor E T f a b v = (r, v')"
  obtain q v1 where c: "checkFilterHeaderFile E f b v = (q, v1)" by fastforce
  note 1 = keepsD [OF checksOnly_checkFilterHeaderFile c]
  have "v' = v1 \<or> v' = v1\<lparr>badFiles := badFiles v1 @ [f]\<rparr>" if "\<not> vFix v"
    using run c checksOnly_fixed [OF 1] that by (cases q) (simp_all add: verifyFilterHeaderAnchor_def report_simps)
  with 1 show "\<exists>v1. checksOnly v v1 \<and> (v' = v1 \<or> vFix v \<or> v' = v1\<lparr>badFiles := badFiles v1 @ [f]\<rparr>)" by blast
qed

lemma verifyFilterHeaderAnchor_clean:
  assumes "verifyFilterHeaderAnchor E T f a b v = (Inr u, v')" "\<not> vFix v" "badFiles v' = []"
  shows "checkFilterHeaderFile E f b v = (Inr u, v')"
proof -
  obtain q v1 where c: "checkFilterHeaderFile E f b v = (q, v1)" by fastforce
  have "vFix v1 = vFix v" using checksOnly_fixed keepsD [OF checksOnly_checkFilterHeaderFile c] by blast
  with assms c show ?thesis
    by (cases q) (auto simp: verifyFilterHeaderAnchor_def reportBad_def goModify_def)
qed

lemma verifyOneFilterFile_reports: "keeps reportsOnly (verifyOneFilterFile E T f a b)"
proof (rule reportsOnly_branch)
  fix v r v'
  assume run: "verifyOneFilterFile E T f a b v = (r, v')"
  obtain fs q v1 where c: "checkFilterFile E T f a b v = ((fs, q), v1)" by (metis prod.exhaust)
  note 1 = checksOnly_checkFilterFile [OF c]
  have "v' = v1 \<or> v' = v1\<lparr>badFiles := badFiles v1 @ [f]\<rparr>" if "\<not> vFix v"
    using run c checksOnly_fixed [OF 1] that by (cases q) (simp_all add: verifyOneFilterFile_def report_simps)
  with 1 show "\<exists>v1. checksOnly v v1 \<and> (v' = v1 \<or> vFix v \<or> v' = v1\<lparr>badFiles := badFiles v1 @ [f]\<rparr>)" by blast
qed

lemma verifyOneFilterFile_clean:
  assumes "verifyOneFilterFile E T f a b v = (Inr u, v')" "\<not> vFix v" "badFiles v' = []"
  shows "\<exists>fs. checkFilterFile E T f a b v = ((fs, Inr u), v')"
proof -
  obtain fs q v1 where c: "checkFilterFile E T f a b v = ((fs, q), v1)" by (metis prod.exhaust)
  have "vFix v1 = vFix v" using checksOnly_fixed checksOnly_checkFilterFile [OF c] by blast
  with assms c show ?thesis
    by (cases q) (auto simp: verifyOneFilterFile_def reportBad_def goModify_def)
qed

lemma reportTail_reports: "keeps checksOnly m \<Longrightarrow> keeps reportsOnly (reportTail what a b m)"
proof (rule keepsI)
  fix v r v'
  assume m: "keeps checksOnly m" and run: "reportTail what a b m v = (r, v')"
  obtain q v1 where c: "m v = (q, v1)" by fastforce
  then have 1: "reportsOnly v v1" by (rule reportsOnly_checks [OF keepsD [OF m]])
  show "reportsOnly v v'"
    using run c 1 keepsD [OF reportsOnly_reportBad] by (cases q) (auto simp: reportTail_def intro: reportsOnly_trans)
qed

lemma verifyMemoryTail_reports: "keeps reportsOnly (verifyMemoryTail E T a x)"
  unfolding verifyMemoryTail_def Let_def
  by (intro keeps_intros reportsOnly_preorder reportTail_reports reportsOnly_keeps [OF checksOnly_fetchInMemory])

lemma statFile_exists: "fileExists (disk v) f \<Longrightarrow> statFile E f v = (True, v\<lparr>now := Suc (now v)\<rparr>)"
  by (simp add: statFile_def)

lemma statFile_cases:
  obtains (yes) v1 where "statFile E f v = (True, v1)" "checksOnly v v1"
  | (no) v1 where "statFile E f v = (False, v1)" "checksOnly v v1" "\<not> fileExists (disk v) f"
proof -
  have "checksOnly v (snd (statFile E f v))" by (simp add: statFile_def)
  then show thesis
    using yes [of "snd (statFile E f v)"] no [of "snd (statFile E f v)"]
    by (cases "fst (statFile E f v)"; cases "statFile E f v") (auto simp: statFile_def split: if_splits)
qed

lemma verifyHeaderFiles_reports: "keeps reportsOnly (verifyHeaderFiles turns E T a x)"
proof (induction turns arbitrary: a x)
  case (Suc turns)
  show ?case
  proof (rule keepsI)
    fix v r v'
    assume run: "verifyHeaderFiles (Suc turns) E T a x v = (r, v')"
    have rest: "keeps reportsOnly (goBind (verifyOneHeaderFile E T (vHeaderName v a) a b x) (\<lambda>y.
        goBind (verifyFilterHeaderAnchor E T (vFilterHeaderName v a) a b) (\<lambda>_. verifyHeaderFiles turns E T c y)))" for b c
      by (intro keeps_intros reportsOnly_preorder verifyOneHeaderFile_reports verifyFilterHeaderAnchor_reports Suc.IH)
    show "reportsOnly v v'"
    proof (cases rule: statFile_cases [of E "vHeaderName v a" v])
      case (yes v1)
      with run keepsD [OF rest] show ?thesis by (auto simp: Let_def intro: reportsOnly_trans [OF reportsOnly_checks])
    next
      case (no v1)
      with run have "verifyMemoryTail E T a x v1 = (r, v')" by (simp add: Let_def)
      with no show ?thesis using reportsOnly_trans [OF reportsOnly_checks] keepsD [OF verifyMemoryTail_reports] by blast
    qed
  qed
qed (simp add: keeps_goFail reportsOnly_preorder)

lemma verifyFilterFiles_reports: "keeps reportsOnly (verifyFilterFiles turns E T a)"
proof (induction turns arbitrary: a)
  case (Suc turns)
  show ?case
  proof (rule keepsI)
    fix v r v'
    assume run: "verifyFilterFiles (Suc turns) E T a v = (r, v')"
    have rest: "keeps reportsOnly (goBind (verifyOneFilterFile E T (vFilterName v a) a b) (\<lambda>_. verifyFilterFiles turns E T c))" for b c
      by (intro keeps_intros reportsOnly_preorder verifyOneFilterFile_reports Suc.IH)
    show "reportsOnly v v'"
    proof (cases rule: statFile_cases [of E "vFilterName v a" v])
      case (yes v1)
      with run keepsD [OF rest] show ?thesis by (auto simp: Let_def intro: reportsOnly_trans [OF reportsOnly_checks])
    next
      case (no v1)
      with run show ?thesis by (auto simp: Let_def reportsOnly_checks)
    qed
  qed
qed (simp add: keeps_goFail reportsOnly_preorder)

subsection \<open>What a clean run has checked\<close>

lemma header_walk:
  assumes "verifyHeaderFiles turns E T (j * n) x v = (Inr (), v')" "\<not> vFix v" "badFiles v' = []"
    and "n = vHeadersPerFile v" "0 < n" "0 \<le> j" "j \<le> i" "i < k" "k * n \<le> heightBound"
    and "\<forall>i. 0 \<le> i \<and> i < k \<longrightarrow> fileExists (disk v) (vHeaderName v (i * n))"
  shows "\<exists>y h v1 v2 v3 v4. checkHeaderFile E (vHeaderName v (i * n)) (i * n) (i * n + n - 1) y v1 = (Inr h, v2) \<and>
    checkFilterHeaderFile E (vFilterHeaderName v (i * n)) (i * n + n - 1) v3 = (Inr (), v4) \<and>
    vconf v1 = vconf v \<and> disk v1 = disk v \<and> vconf v3 = vconf v \<and> disk v3 = disk v"
  using assms
proof (induction turns arbitrary: j x v)
  case 0
  then show ?case by (simp add: goFail_def)
next
  case (Suc turns)
  let ?a = "j * n" and ?b = "j * n + n - 1"
  have "(j + 1) * n \<le> k * n" using Suc.prems(5,7,8) by (intro mult_right_mono) auto
  moreover have "(j + 1) * n = j * n + n" by (simp add: algebra_simps)
  moreover have "0 \<le> j * n" using Suc.prems by simp
  ultimately have ar: "add32 ?a n = (j + 1) * n" "sub32 (add32 ?a n) 1 = ?b"
    using Suc.prems(5,9) by (simp_all add: add32_id sub32_id heightBound_def)
  let ?v1 = "v\<lparr>now := Suc (now v)\<rparr>"
  have "statFile E (vHeaderName v ?a) v = (True, ?v1)" by (rule statFile_exists) (use Suc.prems in auto)
  with Suc.prems(1,4) ar obtain y v2 v3 where
    h: "verifyOneHeaderFile E T (vHeaderName v ?a) ?a ?b x ?v1 = (Inr y, v2)" and
    f: "verifyFilterHeaderAnchor E T (vFilterHeaderName v ?a) ?a ?b v2 = (Inr (), v3)" and
    rest: "verifyHeaderFiles turns E T ((j + 1) * n) y v3 = (Inr (), v')"
    by (auto simp: Let_def goBind_Inr)
  have r1: "reportsOnly v ?v1" by (simp add: reportsOnly_checks)
  note r2 = keepsD [OF verifyOneHeaderFile_reports h] and r3 = keepsD [OF verifyFilterHeaderAnchor_reports f]
    and r4 = keepsD [OF verifyHeaderFiles_reports rest]
  note to2 = reportsOnly_trans [OF r1 r2] note to3 = reportsOnly_trans [OF to2 r3]
  have c2: "vconf v2 = vconf v" "disk v2 = disk v" and c3: "vconf v3 = vconf v" "disk v3 = disk v"
    using to2 to3 Suc.prems(2) by (auto simp: reportsOnly_def)
  then have nf: "\<not> vFix v2" "\<not> vFix v3" using Suc.prems(2) vconfD(5) by metis+
  have b3: "badFiles v3 = []" by (rule reportsOnly_bad [OF r4 nf(2) Suc.prems(3)])
  have b2: "badFiles v2 = []" by (rule reportsOnly_bad [OF r3 nf(1) b3])
  show ?case
  proof (cases "i = j")
    case True
    have "checkHeaderFile E (vHeaderName v ?a) ?a ?b x ?v1 = (Inr y, v2)"
      by (rule verifyOneHeaderFile_clean [OF h _ b2]) (use Suc.prems(2) in simp)
    moreover have "checkFilterHeaderFile E (vFilterHeaderName v ?a) ?b v2 = (Inr (), v3)"
      by (rule verifyFilterHeaderAnchor_clean [OF f nf(1) b3])
    moreover have "vconf ?v1 = vconf v" "disk ?v1 = disk v" by (simp_all add: vconf_def)
    ultimately show ?thesis unfolding True using c2 by blast
  next
    case False
    note names = vconfD [OF c3(1)]
    show ?thesis
      using Suc.IH [OF rest nf(2) Suc.prems(3)] Suc.prems(4-) False names c3 by simp
  qed
qed

lemma storedAttempt_file:
  assumes "storedAttempt E T a h v = (Inr r, v')" "fhInv v" "0 \<le> a" "map_of (disk v) (vFilterHeaderName v a) = Some dat"
  shows "r = (if nat (h - a) * HashSize + HashSize \<le> length dat then Some (take HashSize (drop (nat (h - a) * HashSize) dat)) else None)"
proof -
  from assms(1) obtain v1 where load: "(if fHeaderCacheStart v \<noteq> a
      then goWrap ''error loading filter headers for height'' [h] (loadFilterHeaders E T a) else goRet ()) v = (Inr (), v1)"
    and r: "r = (let offset = nat (h - a) * HashSize in if offset + HashSize \<le> length (fHeaderCache v1)
      then Some (take HashSize (drop offset (fHeaderCache v1))) else None)"
    by (auto simp: storedAttempt_def goBind_Inr goGets_simps)
  have "fHeaderCache v1 = dat"
  proof (cases "fHeaderCacheStart v = a")
    case True
    with assms(2-) load show ?thesis by (simp add: fhInv_def goRet_simps)
  next
    case False
    with load assms(4) show ?thesis
      by (auto simp: goWrap_Inr loadFilterHeaders_def goBind_Inr readFile_def storeFilterHeaders_def goModify_simps split: if_splits)
  qed
  with r show ?thesis by (simp add: Let_def)
qed

definition storedAt :: "verifier \<Rightarrow> int \<Rightarrow> hash" where
  "storedAt v h = take HashSize (drop (nat (h mod vHeadersPerFile v) * HashSize)
     (the (map_of (disk v) (vFilterHeaderName v (h - h mod vHeadersPerFile v)))))"

lemma storedFilterHeader_file:
  assumes run: "storedFilterHeader E T h v = (Inr x, v')" and v: "fhInv v" "0 \<le> h" "0 < vHeadersPerFile v"
    and f: "fileExists (disk v) (vFilterHeaderName v (h - h mod vHeadersPerFile v))"
  shows "x = storedAt v h"
proof -
  let ?a = "h - h mod vHeadersPerFile v"
  have a: "0 \<le> ?a" "nat (h - ?a) = nat (h mod vHeadersPerFile v)"
    using v by (simp_all add: zmod_le_nonneg_dividend)
  from f obtain dat where dat: "map_of (disk v) (vFilterHeaderName v ?a) = Some dat" by (auto simp: fileExists_def)
  have found: "r = Some x \<Longrightarrow> x = storedAt v h"
    if "storedAttempt E T ?a h w = (Inr r, w')" "fhInv w" "map_of (disk w) (vFilterHeaderName w ?a) = Some dat" for r w w'
    using storedAttempt_file [OF that(1,2) a(1) that(3)] a(2) dat by (simp add: storedAt_def split: if_splits)
  from run obtain r w where r: "storedAttempt E T ?a h v = (Inr r, w)"
    and cont: "(case r of Some h \<Rightarrow> goRet h
       | None \<Rightarrow>
           goBind (goGets fHeaderCacheFromMemory) (\<lambda>fromMemory.
             if \<not> fromMemory then goFail (Errf ''filter header data for height %d is truncated'' [h])
             else goBind (goModify (\<lambda>v. v\<lparr>fHeaderCacheStart := -1\<rparr>)) (\<lambda>_.
                  goBind (storedAttempt E T ?a h) (\<lambda>r.
                    case r of
                      Some h \<Rightarrow> goRet h
                    | None \<Rightarrow> goFail (Errf ''filter header data for height %d is truncated'' [h]))))) w = (Inr x, v')"
    by (auto simp: storedFilterHeader_def goBind_Inr goGets_simps)
  show ?thesis
  proof (cases r)
    case (Some y)
    with cont have "r = Some x" by (simp add: goRet_simps)
    then show ?thesis by (rule found [OF r v(1) dat])
  next
    case None
    with cont obtain r' w' where r': "storedAttempt E T ?a h (w\<lparr>fHeaderCacheStart := -1\<rparr>) = (Inr r', w')" "r' = Some x"
      by (auto simp: goBind_Inr goGets_simps goModify_simps goFail_simps goRet_simps split: if_splits option.splits)
    have c: "checksOnly v (w\<lparr>fHeaderCacheStart := -1\<rparr>)"
      using keepsD [OF checksOnly_storedAttempt r] keepsD [OF checksOnly_forget, of w "Inr ()"] checksOnly_preorder(2)
      by (auto simp: goModify_def dest: transpD)
    then have "fhInv (w\<lparr>fHeaderCacheStart := -1\<rparr>)" "map_of (disk (w\<lparr>fHeaderCacheStart := -1\<rparr>)) (vFilterHeaderName (w\<lparr>fHeaderCacheStart := -1\<rparr>) ?a) = Some dat"
      using v(1) dat vconfD(9) [of "w\<lparr>fHeaderCacheStart := -1\<rparr>" v] by (simp_all add: checksOnly_def)
    from found [OF r'(1) this r'(2)] show ?thesis .
  qed
qed

lemma filter_walk:
  assumes "verifyFilterFiles turns E T (j * n) v = (Inr (), v')" "\<not> vFix v" "badFiles v' = []" "fhInv v"
    and "n = vFiltersPerFile v" "0 < n" "0 \<le> j" "j \<le> i" "i < k" "k * n \<le> heightBound"
    and "\<forall>i. 0 \<le> i \<and> i < k \<longrightarrow> fileExists (disk v) (vFilterName v (i * n))"
  shows "\<exists>fs v1 v2. checkFilterFile E T (vFilterName v (i * n)) (i * n) (i * n + n - 1) v1 = ((fs, Inr ()), v2) \<and>
    vconf v1 = vconf v \<and> disk v1 = disk v \<and> fhInv v1"
  using assms
proof (induction turns arbitrary: j v)
  case 0
  then show ?case by (simp add: goFail_def)
next
  case (Suc turns)
  let ?a = "j * n" and ?b = "j * n + n - 1"
  have "(j + 1) * n \<le> k * n" using Suc.prems(6,8,9) by (intro mult_right_mono) auto
  moreover have "(j + 1) * n = j * n + n" by (simp add: algebra_simps)
  moreover have "0 \<le> j * n" using Suc.prems by simp
  ultimately have ar: "add32 ?a n = (j + 1) * n" "sub32 (add32 ?a n) 1 = ?b"
    using Suc.prems(6,10) by (simp_all add: add32_id sub32_id heightBound_def)
  let ?v1 = "v\<lparr>now := Suc (now v)\<rparr>"
  have "statFile E (vFilterName v ?a) v = (True, ?v1)" by (rule statFile_exists) (use Suc.prems in auto)
  with Suc.prems(1,5) ar obtain v2 where
    h: "verifyOneFilterFile E T (vFilterName v ?a) ?a ?b ?v1 = (Inr (), v2)" and
    rest: "verifyFilterFiles turns E T ((j + 1) * n) v2 = (Inr (), v')"
    by (auto simp: Let_def goBind_Inr)
  have r1: "reportsOnly v ?v1" by (simp add: reportsOnly_checks)
  note r2 = keepsD [OF verifyOneFilterFile_reports h] and r3 = keepsD [OF verifyFilterFiles_reports rest]
  have c1: "vconf ?v1 = vconf v" "disk ?v1 = disk v" "fhInv ?v1"
    using r1 Suc.prems(2,4) by (auto simp: reportsOnly_def)
  have c2: "vconf v2 = vconf v" "disk v2 = disk v" "fhInv v2"
    using reportsOnly_trans [OF r1 r2] Suc.prems(2,4) by (auto simp: reportsOnly_def)
  then have nf: "\<not> vFix v2" using Suc.prems(2) vconfD(5) by metis
  have b2: "badFiles v2 = []" by (rule reportsOnly_bad [OF r3 nf Suc.prems(3)])
  show ?case
  proof (cases "i = j")
    case True
    have "\<exists>fs. checkFilterFile E T (vFilterName v ?a) ?a ?b ?v1 = ((fs, Inr ()), v2)"
      by (rule verifyOneFilterFile_clean [OF h _ b2]) (use Suc.prems(2) in simp)
    with c1 show ?thesis unfolding True by blast
  next
    case False
    note names = vconfD [OF c2(1)]
    show ?thesis using Suc.IH [OF rest nf Suc.prems(3) c2(3)] Suc.prems(5-) False names c2 by simp
  qed
qed

text \<open>A filter file that was accepted parses, and its chain closes against the stored filter headers.\<close>

lemma checkFilterFile_ok:
  assumes run: "checkFilterFile E T f a b v = ((fs, Inr ()), v')" and v: "fhInv v" "0 \<le> a" "a \<le> b" "0 < vHeadersPerFile v"
    and fh: "0 < a \<Longrightarrow> fileExists (disk v) (vFilterHeaderName v (a - 1 - (a - 1) mod vHeadersPerFile v))"
      "fileExists (disk v) (vFilterHeaderName v (b - b mod vHeadersPerFile v))"
  shows "\<exists>dat. map_of (disk v) f = Some dat \<and> readEntries (nat (vFiltersPerFile v)) E dat = Inr (fs, [])"
    and "filterChain E (if a = 0 then zeroHash else storedAt v (a - 1)) fs = storedAt v b"
proof -
  from run obtain v1 where r: "vReadFilterFile E f v = (Inr fs, v1)" and c: "checkFilterChain E T fs a b v1 = (Inr (), v')"
    by (auto simp: checkFilterFile_def split: prod.splits sum.splits)
  from r show "\<exists>dat. map_of (disk v) f = Some dat \<and> readEntries (nat (vFiltersPerFile v)) E dat = Inr (fs, [])"
    by (auto simp: vReadFilterFile_def goBind_Inr goWrap_Inr goGets_simps goLift_simps goRet_simps goFail_simps split: if_splits
        dest!: readFile_ok sym [of "Inr _" "readEntries _ _ _"])
  have c1: "checksOnly v v1" by (rule keepsD [OF checksOnly_vReadFilterFile r])
  from c obtain p w v2 v3 where p: "(if a > 0 then storedFilterHeader E T (a - 1) else goRet zeroHash) v1 = (Inr p, v2)"
    and w: "storedFilterHeader E T b v2 = (Inr w, v3)" and eq: "filterChain E p fs = w"
    by (auto simp: checkFilterChain_def goBind_Inr goRet_simps goFail_simps split: if_splits)
  have "keeps checksOnly (if a > 0 then storedFilterHeader E T (a - 1) else goRet zeroHash)"
    by (intro keeps_intros checksOnly_preorder)
  then have c2: "checksOnly v v2" using c1 keepsD p checksOnly_preorder(2) by (metis transpD)
  have same: "storedAt u h = storedAt v h" "vHeadersPerFile u = vHeadersPerFile v" "fhInv u" "disk u = disk v"
    "vFilterHeaderName u = vFilterHeaderName v" if "checksOnly v u" for u h
    using that vconfD [of u v] v(1) by (simp_all add: checksOnly_def storedAt_def)
  have "w = storedAt v2 b"
    by (rule storedFilterHeader_file [OF w]) (use same [OF c2] v fh in auto)
  moreover have "p = (if a = 0 then zeroHash else storedAt v (a - 1))"
  proof (cases "a = 0")
    case False
    with v(2) have a: "0 < a" by simp
    with p have "storedFilterHeader E T (a - 1) v1 = (Inr p, v2)" by simp
    then have "p = storedAt v1 (a - 1)"
      by (rule storedFilterHeader_file) (use same [OF c1] v fh a in auto)
    with False same [OF c1] show ?thesis by simp
  qed (use p in \<open>simp add: goRet_simps\<close>)
  ultimately show "filterChain E (if a = 0 then zeroHash else storedAt v (a - 1)) fs = storedAt v b"
    using eq same [OF c2] by simp
qed

lemma readEntries_length: "readEntries n E dat = Inr (fs, r) \<Longrightarrow> length fs = n"
  by (induction n arbitrary: dat fs) (auto split: sum.splits prod.splits)

definition hashedFilters :: "'h env \<Rightarrow> 'h chainData \<Rightarrow> verifier \<Rightarrow> int \<Rightarrow> bytes set" where
  "hashedFilters E C v N =
     {s. \<exists>i fs dat. 0 \<le> i \<and> map_of (disk v) (vFilterName v (i * vFiltersPerFile v)) = Some dat \<and>
        readEntries (nat (vFiltersPerFile v)) E dat = Inr (fs, []) \<and> i * vFiltersPerFile v + vFiltersPerFile v - 1 \<le> N \<and>
        s \<in> set (chainInputs E (if i = 0 then zeroHash else storedAt v (i * vFiltersPerFile v - 1)) fs)} \<union>
     {s. \<exists>h. 0 \<le> h \<and> h \<le> N \<and> (s = cFilter C h \<or> s = DoubleHash E (cFilter C h) @ chainStart C h)}"

lemma chainInputs_chain:
  assumes V: "validChain E C N" and "0 \<le> a" "a \<le> b + 1" "b \<le> N"
  shows "set (chainInputs E (chainStart C a) (map (cFilter C) [a..b])) \<subseteq>
      {s. \<exists>h. 0 \<le> h \<and> h \<le> N \<and> (s = cFilter C h \<or> s = DoubleHash E (cFilter C h) @ chainStart C h)}"
  using assms(2-3)
proof (induction "nat (b + 1 - a)" arbitrary: a)
  case (Suc k)
  then have ab: "a \<le> b" by auto
  have step: "DoubleHash E (DoubleHash E (cFilter C a) @ chainStart C a) = chainStart C (a + 1)"
    using V Suc.prems(1) ab assms(4) by (simp add: validChain_def chainStart_def)
  have "set (chainInputs E (chainStart C (a + 1)) (map (cFilter C) [a + 1..b])) \<subseteq>
      {s. \<exists>h. 0 \<le> h \<and> h \<le> N \<and> (s = cFilter C h \<or> s = DoubleHash E (cFilter C h) @ chainStart C h)}"
    using Suc by auto
  moreover have "a \<le> N" using ab assms(4) by simp
  ultimately show ?case using step Suc.prems(1) by (auto simp: upto_rec1 [OF ab])
qed simp

text \<open>From the end of a file backwards: a right filter header at its end, and all of it is right.\<close>

lemma filter_file_right:
  assumes V: "validChain E C N" "hash_codec E" and n: "n = vFiltersPerFile v" "0 < n" "0 \<le> i" "i * n + n - 1 \<le> N"
    and dat: "map_of (disk v) (vFilterName v (i * n)) = Some dat" "readEntries (nat n) E dat = Inr (fs, [])"
    and chain: "filterChain E (if i = 0 then zeroHash else storedAt v (i * n - 1)) fs = cFilterHeader C (i * n + n - 1)"
    and inj: "inj_on (DoubleHash E) (hashedFilters E C v N)"
  shows "fs = map (cFilter C) [i * n..i * n + n - 1]" and "0 < i \<Longrightarrow> storedAt v (i * n - 1) = cFilterHeader C (i * n - 1)"
proof -
  let ?a = "i * n" and ?b = "i * n + n - 1" and ?p = "if i = 0 then zeroHash else storedAt v (i * n - 1)"
  have a: "0 \<le> ?a" "?a \<le> ?b" "?a \<le> ?b + 1" using n by simp_all
  note C = filterChain_chain [OF V(1) a(1,2) n(4)] chainInputs_chain [OF V(1) a(1,3) n(4)]
  from chain C(1) have eq: "filterChain E ?p fs = filterChain E (chainStart C ?a) (map (cFilter C) [?a..?b])" by simp
  have sub: "set (chainInputs E ?p fs) \<subseteq> hashedFilters E C v N"
    unfolding hashedFilters_def
    by (intro subsetI UnI1 CollectI exI [of _ i] exI [of _ fs] exI [of _ dat]) (use n dat in auto)
  have "fs = map (cFilter C) [?a..?b] \<and> ?p = chainStart C ?a"
  proof (rule filterChain_inj [OF V(2) _ eq inj_on_subset [OF inj]])
    show "length fs = length (map (cFilter C) [?a..?b])" using readEntries_length [OF dat(2)] by simp
    show "set (chainInputs E ?p fs) \<union> set (chainInputs E (chainStart C ?a) (map (cFilter C) [?a..?b])) \<subseteq> hashedFilters E C v N"
      using sub C(2) unfolding hashedFilters_def by blast
  qed
  then show "fs = map (cFilter C) [?a..?b]" "0 < i \<Longrightarrow> storedAt v (i * n - 1) = cFilterHeader C (i * n - 1)"
    using n by (auto simp: chainStart_def split: if_splits)
qed

text \<open>The last filter header of a file.\<close>

lemma storedAt_end:
  assumes n: "0 < vHeadersPerFile v" and dat: "map_of (disk v) (vFilterHeaderName v ((k - 1) * vHeadersPerFile v)) = Some dat"
    "int (length dat) = vHeadersPerFile v * int HashSize"
  shows "storedAt v (k * vHeadersPerFile v - 1) = drop (length dat - HashSize) dat"
proof -
  let ?n = "vHeadersPerFile v"
  have "k * ?n - 1 = ?n - 1 + (k - 1) * ?n" by (simp add: algebra_simps)
  then have "(k * ?n - 1) mod ?n = (?n - 1) mod ?n" by (metis mod_mult_self1)
  also have "\<dots> = ?n - 1" by (rule mod_pos_pos_trivial) (use n in auto)
  finally have md: "(k * ?n - 1) mod ?n = ?n - 1" .
  have st: "k * ?n - 1 - (?n - 1) = (k - 1) * ?n" by (simp add: algebra_simps)
  have "int (nat (?n - 1) * HashSize) = int (length dat) - int HashSize"
    using dat(2) n by (simp add: int_distrib(4) left_diff_distrib)
  then have off: "nat (?n - 1) * HashSize = length dat - HashSize" by linarith
  have "storedAt v (k * ?n - 1) = take HashSize (drop (length dat - HashSize) dat)"
    unfolding storedAt_def md st off dat(1) option.sel ..
  then show ?thesis by simp
qed

lemma clean_headers:
  assumes h: "verifyHeaderFiles turns E T (0 * n) zeroHash v = (Inr (), v')" "\<not> vFix v" "badFiles v' = []"
    and A: "answersFrom E C N" "validChain E C N" "header_codec E"
    and n: "n = vHeadersPerFile v" "0 < n" "k * n \<le> N + 1" "N < heightBound"
    and files: "\<forall>i. 0 \<le> i \<and> i < k \<longrightarrow> fileExists (disk v) (vHeaderName v (i * n))"
    and inj: "inj_on (DoubleHash E) (hashedHeaders E C v N)" and i: "0 \<le> i" "i < k"
  shows "map_of (disk v) (vHeaderName v (i * n)) = Some (headersOf E (cHeader C) (i * n) (i * n + n - 1))"
    and "\<exists>dat. map_of (disk v) (vFilterHeaderName v (i * n)) = Some dat \<and> int (length dat) = n * int HashSize \<and>
      drop (length dat - HashSize) dat = cFilterHeader C (i * n + n - 1)"
proof -
  have kn: "k * n \<le> heightBound" using n by simp
  from header_walk [OF h n(1,2) order_refl i kn files] obtain y x w1 w2 w3 w4 where
    w: "checkHeaderFile E (vHeaderName v (i * n)) (i * n) (i * n + n - 1) y w1 = (Inr x, w2)"
    "checkFilterHeaderFile E (vFilterHeaderName v (i * n)) (i * n + n - 1) w3 = (Inr (), w4)"
    "vconf w1 = vconf v" "disk w1 = disk v" "vconf w3 = vconf v" "disk w3 = disk v" by blast
  have "(i + 1) * n \<le> k * n" using i n(2) by (intro mult_right_mono) auto
  moreover have "(i + 1) * n = i * n + n" by (simp add: algebra_simps)
  moreover have "0 \<le> i * n" using i n(2) by simp
  ultimately have e: "i * n + n - 1 \<le> N" "0 \<le> i * n + n - 1" using n by linarith+
  note names = vconfD [OF w(3)]
  have "map_of (disk w1) (vHeaderName w1 (i * n)) = Some (headersOf E (cHeader C) (i * n) (i * n + n - 1)) \<and> x = cHash C (i * n + n - 1)"
  proof (rule checkHeaderFile_right [OF _ A _ _ i(1) _ e(1)])
    show "inj_on (DoubleHash E) (hashedHeaders E C w1 N)" using inj names w(4) by (simp add: hashedHeaders_def)
  qed (use w(1) names n in simp_all)
  then show "map_of (disk v) (vHeaderName v (i * n)) = Some (headersOf E (cHeader C) (i * n) (i * n + n - 1))"
    using w(4) names by simp
  show "\<exists>dat. map_of (disk v) (vFilterHeaderName v (i * n)) = Some dat \<and> int (length dat) = n * int HashSize \<and>
      drop (length dat - HashSize) dat = cFilterHeader C (i * n + n - 1)"
    using checkFilterHeaderFile_ok [OF w(2) A(1) e(2,1)] w(6) vconfD(3) [OF w(5)] n(1) by simp
qed

lemma clean_filters:
  assumes f: "verifyFilterFiles turns E T (0 * m) v = (Inr (), v')" "\<not> vFix v" "badFiles v' = []" "fhInv v"
    and A: "validChain E C N" "hash_codec E" and m: "m = vFiltersPerFile v" "0 < m" "k * m \<le> N + 1" "N < heightBound"
    and files: "\<forall>i. 0 \<le> i \<and> i < k \<longrightarrow> fileExists (disk v) (vFilterName v (i * m))"
    and fh: "0 < vHeadersPerFile v" "\<forall>h. 0 \<le> h \<and> h < k * m \<longrightarrow> fileExists (disk v) (vFilterHeaderName v (h - h mod vHeadersPerFile v))"
    and last: "storedAt v (k * m - 1) = cFilterHeader C (k * m - 1)"
    and inj: "inj_on (DoubleHash E) (hashedFilters E C v N)" and i: "0 \<le> i" "i < k"
  shows "(\<exists>dat. map_of (disk v) (vFilterName v (i * m)) = Some dat \<and>
      readEntries (nat m) E dat = Inr (map (cFilter C) [i * m..i * m + m - 1], [])) \<and>
    storedAt v (i * m + m - 1) = cFilterHeader C (i * m + m - 1)"
proof -
  have km: "k * m \<le> heightBound" using m by simp
  have "(\<exists>dat. map_of (disk v) (vFilterName v (j * m)) = Some dat \<and>
      readEntries (nat m) E dat = Inr (map (cFilter C) [j * m..j * m + m - 1], [])) \<and>
      (0 < j \<longrightarrow> storedAt v (j * m - 1) = cFilterHeader C (j * m - 1))"
    if j: "0 \<le> j" "j < k" and right: "storedAt v (j * m + m - 1) = cFilterHeader C (j * m + m - 1)" for j
  proof -
    from filter_walk [OF f m(1,2) order_refl j km files] obtain fs w1 w2 where
      w: "checkFilterFile E T (vFilterName v (j * m)) (j * m) (j * m + m - 1) w1 = ((fs, Inr ()), w2)"
      "vconf w1 = vconf v" "disk w1 = disk v" "fhInv w1" by blast
    note names = vconfD [OF w(2)]
    have "(j + 1) * m \<le> k * m" using j m(2) by (intro mult_right_mono) auto
    moreover have "(j + 1) * m = j * m + m" by (simp add: algebra_simps)
    moreover have j0: "0 \<le> j * m" using j m(2) by simp
    ultimately have e: "j * m + m - 1 < k * m" "j * m + m - 1 \<le> N" using m by linarith+
    have j1: "j * m - 1 < k * m" "0 < j * m \<longleftrightarrow> 0 < j" using e m(2) by (linarith, simp add: zero_less_mult_iff)
    have ok: "(\<exists>dat. map_of (disk w1) (vFilterName v (j * m)) = Some dat \<and> readEntries (nat (vFiltersPerFile w1)) E dat = Inr (fs, [])) \<and>
        filterChain E (if j * m = 0 then zeroHash else storedAt w1 (j * m - 1)) fs = storedAt w1 (j * m + m - 1)"
      using checkFilterFile_ok [OF w(1,4) j0] fh e(1) j0 j1 m(2) names w(3) by simp
    have eqs: "storedAt w1 = storedAt v" "(j * m = 0) = (j = 0)" "vFiltersPerFile w1 = m" "disk w1 = disk v"
      using names w(3) m by (simp_all add: storedAt_def [abs_def])
    have "(\<exists>dat. map_of (disk v) (vFilterName v (j * m)) = Some dat \<and> readEntries (nat m) E dat = Inr (fs, [])) \<and>
        filterChain E (if j = 0 then zeroHash else storedAt v (j * m - 1)) fs = cFilterHeader C (j * m + m - 1)"
      using ok unfolding eqs right .
    then obtain dat where dat: "map_of (disk v) (vFilterName v (j * m)) = Some dat" "readEntries (nat m) E dat = Inr (fs, [])"
      "filterChain E (if j = 0 then zeroHash else storedAt v (j * m - 1)) fs = cFilterHeader C (j * m + m - 1)" by blast
    note right = filter_file_right [OF A m(1,2) j(1) e(2) dat inj]
    with dat show ?thesis by blast
  qed
  note one = this
  have "t < nat k \<Longrightarrow> storedAt v ((k - int t) * m - 1) = cFilterHeader C ((k - int t) * m - 1)" for t
  proof (induction t)
    case (Suc t)
    let ?j = "k - int (Suc t)"
    have "?j * m + m - 1 = (k - int t) * m - 1" by (simp add: algebra_simps)
    with one [of ?j] Suc show ?case by auto
  qed (use last in simp)
  from this [of "nat (k - 1 - i)"] have "storedAt v ((i + 1) * m - 1) = cFilterHeader C ((i + 1) * m - 1)" using i by (simp add: add.commute)
  moreover have "(i + 1) * m - 1 = i * m + m - 1" by (simp add: algebra_simps)
  ultimately show ?thesis using one [OF i] by simp
qed

subsection \<open>Rewriting is atomic\<close>

text \<open>What happens until the rename concerns the temporary file only.\<close>

definition touches :: "string \<Rightarrow> verifier \<Rightarrow> verifier \<Rightarrow> bool" where
  "touches tmp v v' \<longleftrightarrow> now v \<le> now v' \<and> vconf v' = vconf v \<and> badFiles v' = badFiles v \<and> fixedFiles v' = fixedFiles v \<and>
     (\<forall>f. f \<noteq> tmp \<longrightarrow> map_of (disk v') f = map_of (disk v) f)"

lemma touches_preorder: "reflp (touches tmp)" "transp (touches tmp)"
  by (auto simp: touches_def intro!: reflpI transpI)

lemma touches_checks: "keeps checksOnly m \<Longrightarrow> keeps (touches tmp) m"
  by (auto simp: keeps_def checksOnly_def touches_def)

lemma touches_appendFile: "keeps (touches tmp) (appendFile E tmp bs)"
  by (auto simp: keeps_def appendFile_def Let_def touches_def vconf_def update_conv' split: option.splits ioFault.splits)

lemma touches_closeFile: "keeps (touches tmp) (closeFile E)"
  by (auto simp: keeps_def closeFile_def touches_def vconf_def)

lemma touches_removeFile: "touches tmp v (removeFile E tmp v)"
  by (auto simp: removeFile_def Let_def touches_def vconf_def delete_conv' fun_upd_def)

lemma goBind_assoc: "goBind (goBind m k) l = goBind m (\<lambda>x. goBind (k x) l)"
  by (auto simp: goBind_def fun_eq_iff split: prod.splits sum.splits)

text \<open>The rename, the note that the file was fixed, and the removal of the temporary name.\<close>

lemma finish_rename:
  assumes run: "goBind (renameFile E tmp name) (\<lambda>_. goModify (\<lambda>v. v\<lparr>fixedFiles := fixedFiles v @ [name]\<rparr>)) v = (r, w)"
    and dat: "map_of (disk v) tmp = Some bs" "name \<noteq> tmp" and v': "v' = removeFile E tmp w"
  shows "(\<exists>e. r = Inl e \<and> touches tmp v v') \<or>
    (r = Inr () \<and> vconf v' = vconf v \<and> badFiles v' = badFiles v \<and> fixedFiles v' = fixedFiles v @ [name] \<and>
     map_of (disk v') = (map_of (disk v))(tmp := None, name \<mapsto> bs))"
proof (cases "ioFaults E (now v)")
  case None
  then have "r = Inr ()" "w = v\<lparr>now := Suc (now v), disk := AList.update name bs (AList.delete tmp (disk v)), fixedFiles := fixedFiles v @ [name]\<rparr>"
    using run dat by (auto simp: renameFile_def goBind_def goModify_def Let_def)
  then show ?thesis
    using dat(2) unfolding v' by (auto simp: removeFile_def Let_def vconf_def update_conv' delete_conv' fun_eq_iff)
next
  case (Some x)
  then have "\<exists>e. r = Inl e" "w = v\<lparr>now := Suc (now v)\<rparr>"
    using run dat by (auto simp: renameFile_def goBind_def goModify_def Let_def)
  moreover have "touches tmp v (v\<lparr>now := Suc (now v)\<rparr>)" by (simp add: touches_def vconf_def)
  ultimately show ?thesis
    unfolding v' using touches_removeFile touches_preorder(2) by (metis transpD)
qed

lemma writers_check:
  "keeps checksOnly (writeHeaderRecord E h)" "keeps checksOnly (writeFilterHeaderRecord E h)" "keeps checksOnly (writeFilterRecord E h)"
  unfolding writeHeaderRecord_def writeFilterHeaderRecord_def writeFilterRecord_def
  by (intro keeps_intros checksOnly_preorder)+

text \<open>The loop over the records appends what each of them gave.\<close>

definition gave :: "(int \<Rightarrow> (verifier, bytes) go) \<Rightarrow> int \<Rightarrow> bytes \<Rightarrow> bool" where
  "gave record h bs \<longleftrightarrow> (\<exists>v v'. record h v = (Inr bs, v'))"

lemma recordLoop_content:
  assumes "goForEach hs (\<lambda>h. goWrap msg [h] (goBind (record h) (appendFile E tmp))) v = (Inr (), v')"
    and "map_of (disk v) tmp = Some bs" and "\<And>h. keeps checksOnly (record h)"
  shows "\<exists>recs. list_all2 (gave record) hs recs \<and> map_of (disk v') tmp = Some (bs @ concat recs)"
  using assms(1,2)
proof (induction hs arbitrary: v bs)
  case (Cons h hs)
  from Cons.prems(1) obtain w rec u where w: "record h v = (Inr rec, w)" "appendFile E tmp rec w = (Inr (), u)"
    "goForEach hs (\<lambda>h. goWrap msg [h] (goBind (record h) (appendFile E tmp))) u = (Inr (), v')"
    by (auto simp: goBind_Inr goWrap_Inr)
  have "disk w = disk v" using keepsD [OF assms(3) w(1)] by (simp add: checksOnly_def)
  then have "map_of (disk u) tmp = Some (bs @ rec)"
    using w(2) Cons.prems(2) by (auto simp: appendFile_def Let_def update_conv' split: option.splits ioFault.splits)
  from Cons.IH [OF w(3) this] obtain recs where "list_all2 (gave record) hs recs" "map_of (disk v') tmp = Some ((bs @ rec) @ concat recs)"
    by blast
  moreover have "gave record h rec" using w(1) by (auto simp: gave_def)
  ultimately show ?case by (intro exI [of _ "rec # recs"]) simp
qed (auto simp: goRet_simps)

lemma regenerate_outcome:
  assumes run: "regenerate E T name a b record v = (r, v')"
    and rec: "record \<in> {writeHeaderRecord E, writeFilterHeaderRecord E, writeFilterRecord E}"
    and tmp: "tmp = tempName T (pathDir name) (now v)" "name \<noteq> tmp"
  shows "vconf v' = vconf v \<and> badFiles v' = badFiles v \<and>
    (\<forall>f. f \<noteq> name \<and> f \<noteq> tmp \<longrightarrow> map_of (disk v') f = map_of (disk v) f) \<and>
    (case r of
       Inl e \<Rightarrow> map_of (disk v') name = map_of (disk v) name \<and> fixedFiles v' = fixedFiles v
     | Inr u \<Rightarrow> (\<exists>recs. list_all2 (gave record) [a..b] recs \<and> map_of (disk v') name = Some (concat recs)) \<and>
         map_of (disk v') tmp = None \<and> fixedFiles v' = fixedFiles v @ [name])"
proof -
  have k: "keeps checksOnly (record h)" for h using rec writers_check by auto
  let ?loop = "goForEach [a..b] (\<lambda>h. goWrap ''error writing height'' [h] (goBind (record h) (appendFile E tmp)))"
  obtain q v1 where c: "createTemp E T (pathDir name) v = (q, v1)" by fastforce
  show ?thesis
  proof (cases q)
    case (Inl e)
    with run c show ?thesis by (auto simp: regenerate_def goBind_def createTemp_def Let_def vconf_def split: if_splits)
  next
    case (Inr t)
    with c tmp have t: "t = tmp" "map_of (disk v1) tmp = Some []" "touches tmp v v1"
      by (auto simp: createTemp_def Let_def touches_def vconf_def update_conv' split: if_splits)
    have body: "keeps (touches tmp) (goBind ?loop (\<lambda>_. closeFile E))"
      by (intro keeps_intros touches_preorder touches_closeFile touches_appendFile touches_checks [OF k])
    obtain r1 v2 where b: "goBind ?loop (\<lambda>_. closeFile E) v1 = (r1, v2)" by fastforce
    have "touches tmp v v2" using t(3) keepsD [OF body b] touches_preorder(2) [of tmp] by (blast dest: transpD)
    note before = this
    let ?rest = "goBind (renameFile E tmp name) (\<lambda>_. goModify (\<lambda>v. v\<lparr>fixedFiles := fixedFiles v @ [name]\<rparr>))"
    have all: "regenerate E T name a b record v =
        (case goBind (goBind ?loop (\<lambda>_. closeFile E)) (\<lambda>_. ?rest) v1 of (r, w) \<Rightarrow> (r, removeFile E tmp w))"
      using c Inr t(1) by (simp add: regenerate_def goBind_assoc) (simp add: goBind_def)
    show ?thesis
    proof (cases r1)
      case (Inl e)
      then have "r = Inl e" "v' = removeFile E tmp v2" using run all b by (simp_all add: goBind_def)
      moreover have "touches tmp v (removeFile E tmp v2)" using before touches_removeFile touches_preorder(2) by (metis transpD)
      ultimately show ?thesis using tmp(2) by (auto simp: touches_def)
    next
      case (Inr u)
      with b obtain w1 where l: "?loop v1 = (Inr (), w1)" and cl: "closeFile E w1 = (Inr u, v2)"
        by (auto simp: goBind_Inr)
      from recordLoop_content [OF l t(2) k] obtain recs where
        recs: "list_all2 (gave record) [a..b] recs" "map_of (disk w1) tmp = Some (concat recs)" by auto
      then have dat: "map_of (disk v2) tmp = Some (concat recs)" using cl by (auto simp: closeFile_def split: if_splits)
      obtain w where w: "?rest v2 = (r, w)" "v' = removeFile E tmp w"
        using run all b Inr by (auto simp: goBind_def split: prod.splits)
      from finish_rename [OF w(1) dat tmp(2) w(2)] show ?thesis
      proof
        assume "\<exists>e. r = Inl e \<and> touches tmp v2 v'"
        then show ?thesis using before tmp(2) by (auto simp: touches_def)
      next
        assume "r = Inr () \<and> vconf v' = vconf v2 \<and> badFiles v' = badFiles v2 \<and> fixedFiles v' = fixedFiles v2 @ [name] \<and>
          map_of (disk v') = (map_of (disk v2))(tmp := None, name \<mapsto> concat recs)"
        then show ?thesis using before tmp(2) recs(1) by (auto simp: touches_def)
      qed
    qed
  qed
qed

text \<open>
  Claim C23. Rewriting a file is atomic: whatever happens while a file is regenerated (the backend
  fails, the disk is full, the rename fails), the file has either its old contents and the
  call an error, or the call succeeded and the file has the records of all its heights, one
  after the other, and the temporary file is gone. No other file changes.
\<close>

theorem regenerate_atomic:
  assumes run: "regenerate E T name a b record v = (r, v')"
    and rec: "record \<in> {writeHeaderRecord E, writeFilterHeaderRecord E, writeFilterRecord E}"
    and tmp: "tmp = tempName T (pathDir name) (now v)" "name \<noteq> tmp"
  shows "vconf v' = vconf v \<and> badFiles v' = badFiles v \<and>
    (\<forall>f. f \<noteq> name \<and> f \<noteq> tmp \<longrightarrow> map_of (disk v') f = map_of (disk v) f) \<and>
    (case r of
       Inl e \<Rightarrow> map_of (disk v') name = map_of (disk v) name \<and> fixedFiles v' = fixedFiles v
     | Inr u \<Rightarrow> (\<exists>recs. list_all2 (gave record) [a..b] recs \<and> map_of (disk v') name = Some (concat recs)) \<and>
         map_of (disk v') tmp = None \<and> fixedFiles v' = fixedFiles v @ [name])"
  by (rule regenerate_outcome [OF assms])

subsection \<open>A run with \<open>--fix\<close>\<close>

text \<open>
  \<open>os.CreateTemp\<close> puts decimal digits in place of the star; no such file is left from an
  earlier run.
\<close>

definition freshTemp :: "toolEnv \<Rightarrow> disk \<Rightarrow> bool" where
  "freshTemp T d \<longleftrightarrow> (\<forall>t. list_all isDigit (randomName T t)) \<and>
     (\<forall>t dir. map_of d (tempName T dir t) = None)"

lemma temp_name_differs:
  assumes "list_all isDigit (randomName T t)" "sfx \<in> {HeaderFileSuffix, FilterHeaderFileSuffix, FilterFileSuffix}"
  shows "blockFileName sfx dir a b \<noteq> tempName T d t"
proof
  assume eq: "blockFileName sfx dir a b = tempName T d t"
  have "last (blockFileName sfx dir a b) = CHR ''r''"
    using assms(2) by (auto simp: blockFileName_def HeaderFileSuffix_def FilterHeaderFileSuffix_def FilterFileSuffix_def)
  moreover have "last (tempName T d t) \<noteq> CHR ''r''"
  proof (cases "randomName T t = []")
    case False
    then have "last (tempName T d t) = last (randomName T t)" by (simp add: tempName_def joinPath_def)
    moreover have "isDigit (last (randomName T t))" using assms(1) False by (auto simp: list_all_iff)
    ultimately show ?thesis by (auto simp: isDigit_def)
  qed (simp add: tempName_def joinPath_def)
  ultimately show False using eq by simp
qed

lemma recordLoop_runs:
  assumes "\<forall>t. ioFaults E t = None" "\<And>h v. h \<in> set hs \<Longrightarrow> \<exists>v'. record h v = (Inr (put h), v')"
  shows "\<exists>v'. goForEach hs (\<lambda>h. goWrap msg [h] (goBind (record h) (appendFile E tmp))) v = (Inr (), v')"
  using assms(2)
proof (induction hs arbitrary: v)
  case (Cons h hs)
  from Cons.prems [of h v] obtain v1 where "record h v = (Inr (put h), v1)" by auto
  moreover obtain v2 where "appendFile E tmp (put h) v1 = (Inr (), v2)" using assms(1) by (simp add: appendFile_def Let_def)
  moreover obtain v3 where "goForEach hs (\<lambda>h. goWrap msg [h] (goBind (record h) (appendFile E tmp))) v2 = (Inr (), v3)"
    using Cons by (meson list.set_intros(2))
  ultimately show ?case by (auto simp: goBind_Inr goWrap_Inr)
qed (simp add: goRet_def)

lemma regenerate_runs:
  assumes io: "\<forall>t. ioFaults E t = None" and fresh: "freshTemp T (disk v)"
    and rec: "record \<in> {writeHeaderRecord E, writeFilterHeaderRecord E, writeFilterRecord E}"
      "\<And>h v. a \<le> h \<Longrightarrow> h \<le> b \<Longrightarrow> \<exists>v'. record h v = (Inr (put h), v')"
    and name: "name = blockFileName sfx dir x y" "sfx \<in> {HeaderFileSuffix, FilterHeaderFileSuffix, FilterFileSuffix}"
  shows "\<exists>v'. regenerate E T name a b record v = (Inr (), v') \<and> vconf v' = vconf v \<and> badFiles v' = badFiles v \<and>
    map_of (disk v') = (map_of (disk v))(name \<mapsto> concat (map put [a..b])) \<and> freshTemp T (disk v')"
proof -
  define tmp where tmp: "tmp = tempName T (pathDir name) (now v)"
  have ne: "name \<noteq> tempName T d t" for d t
    unfolding name(1) by (rule temp_name_differs [OF _ name(2)]) (use fresh in \<open>simp add: freshTemp_def\<close>)
  have k: "keeps checksOnly (record h)" for h using rec(1) writers_check by auto
  have free: "map_of (disk v) tmp = None" using fresh by (simp add: freshTemp_def tmp)
  let ?loop = "goForEach [a..b] (\<lambda>h. goWrap ''error writing height'' [h] (goBind (record h) (appendFile E tmp)))"
  obtain v1 where c: "createTemp E T (pathDir name) v = (Inr tmp, v1)" "map_of (disk v1) tmp = Some []"
    using io free by (simp add: createTemp_def Let_def tmp fileExists_def update_conv')
  have "\<exists>v2. ?loop v1 = (Inr (), v2)" by (rule recordLoop_runs [OF io, where put = put]) (use rec(2) in auto)
  then obtain v2 where l: "?loop v1 = (Inr (), v2)" ..
  then obtain recs where "map_of (disk v2) tmp = Some (concat recs)" using recordLoop_content [OF l c(2) k] by auto
  then have "fst (regenerate E T name a b record v) = Inr ()"
    using c(1) l io by (simp add: regenerate_def goBind_def closeFile_def renameFile_def goModify_def Let_def)
  then obtain v' where run: "regenerate E T name a b record v = (Inr (), v')" by (metis prod.collapse)
  have nt: "name \<noteq> tmp" unfolding tmp by (rule ne)
  note out = regenerate_outcome [OF run rec(1) tmp nt]
  then obtain recs where recs: "list_all2 (gave record) [a..b] recs" "map_of (disk v') name = Some (concat recs)" by auto
  have "bs = put h" if h: "a \<le> h" "h \<le> b" and g: "gave record h bs" for h bs
  proof -
    from g obtain w w' where "record h w = (Inr bs, w')" by (auto simp: gave_def)
    with rec(2) [OF h, of w] show ?thesis by auto
  qed
  then have "list_all2 (\<lambda>h bs. bs = put h) [a..b] recs" using recs(1) by (rule list.rel_mono_strong [rotated]) auto
  then have "recs = map put [a..b]" by (auto simp: list_all2_conv_all_nth intro!: nth_equalityI)
  with recs(2) out free nt have disk: "map_of (disk v') = (map_of (disk v))(name \<mapsto> concat (map put [a..b]))"
    by (intro ext) auto
  then have "freshTemp T (disk v')" using fresh ne by (auto simp: freshTemp_def)
  with run out disk show ?thesis by auto
qed

text \<open>What the backend answers while it serves one chain.\<close>

lemma authFilterHeader_served:
  assumes "serves E C N" "0 \<le> h" "h \<le> N"
  shows "\<exists>v'. authFilterHeader E h v = (Inr (cFilterHeader C h), v')"
proof -
  obtain bf where "GetBlockFilter (rpc E (Suc (now v))) (cHash C h) = Inr bf" "NewHashFromStr E (bfHeader bf) = Inr (cFilterHeader C h)"
    using servesD(5) [OF assms] by blast
  then show ?thesis using servesD(3) [OF assms] by (auto simp: authFilterHeader_def goBind_def rpcCall_def goLift_def)
qed

lemma writeHeaderRecord_served:
  assumes "serves E C N" "0 \<le> h" "h \<le> N"
  shows "\<exists>v'. writeHeaderRecord E h v = (Inr (SerializeHeader E (cHeader C h)), v')"
  using servesD(3,4) [OF assms] by (auto simp: writeHeaderRecord_def goBind_def rpcCall_def goRet_def)

lemma writeFilterRecord_served:
  assumes "serves E C N" "0 \<le> h" "h \<le> N"
  shows "\<exists>v'. writeFilterRecord E h v = (Inr (WriteVarBytes E (cFilter C h)), v')"
proof -
  obtain bf where "GetBlockFilter (rpc E (Suc (now v))) (cHash C h) = Inr bf" "hex_decode (bfFilter bf) = Some (cFilter C h)"
    using servesD(5) [OF assms] by blast
  then show ?thesis using servesD(3) [OF assms] by (auto simp: writeFilterRecord_def goBind_def rpcCall_def goRet_def)
qed

text \<open>Right files pass the checks.\<close>

lemma length_headersOf:
  assumes "header_codec E" "a \<le> b + 1"
  shows "int (length (headersOf E hdrs a b)) = (b - a + 1) * int MaxBlockHeaderPayload"
proof -
  have "length (headersOf E hdrs a b) = length [a..b] * MaxBlockHeaderPayload"
    using assms(1) unfolding headersOf_def header_codec_def by (induction "[a..b]") (simp_all add: length_concat comp_def sum_list_triv)
  then show ?thesis using assms(2) by simp
qed

lemma checkHeaderFile_accepts:
  assumes S: "serves E C N" "validChain E C N" "header_codec E" and ab: "0 \<le> a" "a \<le> b" "b \<le> N"
    and v: "vHeadersPerFile v = b - a + 1" "vGenesisHash v = cHash C 0" "0 < a \<Longrightarrow> x = cHash C (a - 1)"
    and dat: "map_of (disk v) f = Some (headersOf E (cHeader C) a b)"
  shows "\<exists>v'. checkHeaderFile E f a b x v = (Inr (cHash C b), v')"
proof -
  have "recordAt (headersOf E (cHeader C) a b) a i = SerializeHeader E (cHeader C i)" if "a \<le> i" "i \<le> b" for i
    unfolding recordAt_def headersOf_def by (rule recordAt_concat) (use S(3) that in \<open>simp_all add: header_codec_def\<close>)
  then have "linkRecords E (vGenesisHash v) (headersOf E (cHeader C) a b) a [a..b] x = Inr (cHash C b)"
    by (intro linkRecords_chain [OF S(2,3)]) (use ab v in auto)
  then show ?thesis
    using servesD(2,3) [OF S(1)] ab dat length_headersOf [OF S(3), of a b "cHeader C"] v
    by (auto simp: checkHeaderFile_def goBind_def goWrap_def readFile_def goGets_def goLift_def rpcCall_def goRet_def)
qed

lemma checkFilterHeaderFile_accepts:
  assumes S: "serves E C N" and b: "0 \<le> b" "b \<le> N" and dat: "map_of (disk v) f = Some dat"
    "int (length dat) = vHeadersPerFile v * int HashSize" "drop (length dat - HashSize) dat = cFilterHeader C b"
  shows "\<exists>v'. checkFilterHeaderFile E f b v = (Inr (), v')"
proof -
  from authFilterHeader_served [OF S b, of "v\<lparr>now := Suc (now v)\<rparr>"] obtain v' where
    "authFilterHeader E b (v\<lparr>now := Suc (now v)\<rparr>) = (Inr (cFilterHeader C b), v')" ..
  then show ?thesis
    using servesD(2) [OF S] dat by (auto simp: checkFilterHeaderFile_def goBind_def goWrap_def readFile_def goGets_def goRet_def)
qed

lemma cFilterHeader_length:
  assumes "validChain E C N" "hash_codec E" "0 \<le> h" "h \<le> N"
  shows "length (cFilterHeader C h) = HashSize"
  using validChainD [OF assms(1,3,4)] assms(2) by (simp add: hash_codec_def)

lemma length_concat_const: "(\<And>x. x \<in> set xs \<Longrightarrow> length (put x) = w) \<Longrightarrow> length (concat (map put xs)) = length xs * w"
  by (induction xs) auto

lemma filterHeaders_end:
  assumes "validChain E C N" "hash_codec E" "0 \<le> a" "a \<le> b" "b \<le> N" and dat: "dat = concat (map (cFilterHeader C) [a..b])"
  shows "int (length dat) = (b - a + 1) * int HashSize" "drop (length dat - HashSize) dat = cFilterHeader C b"
proof -
  have len: "length (cFilterHeader C h) = HashSize" if "h \<in> set [a..b]" for h
    using cFilterHeader_length [OF assms(1,2)] that assms by auto
  then show "int (length dat) = (b - a + 1) * int HashSize"
    using length_concat_const [of "[a..b]" "cFilterHeader C" HashSize] assms(4) dat by simp
  have "[a..b] = [a..b - 1] @ [b]" using assms(4) by (rule upto_rec2)
  then have "dat = concat (map (cFilterHeader C) [a..b - 1]) @ cFilterHeader C b" by (simp add: dat)
  moreover have "length (cFilterHeader C b) = HashSize" using len assms by simp
  ultimately show "drop (length dat - HashSize) dat = cFilterHeader C b" by simp
qed

text \<open>One file of the walk with \<open>--fix\<close>: passed or rewritten, it is right afterwards.\<close>

lemma fix_header_file:
  assumes S: "serves E C N" "validChain E C N" "header_codec E" and v: "vFix v" "vGenesisHash v = cHash C 0" "freshTemp T (disk v)"
    and ab: "a = j * vHeadersPerFile v" "b = a + vHeadersPerFile v - 1" "0 \<le> j" "0 < vHeadersPerFile v" "b \<le> N"
    and x: "0 < a \<Longrightarrow> x = cHash C (a - 1)"
    and inj: "inj_on (DoubleHash E) (hashedHeaders E C v N)"
  shows "\<exists>v'. verifyOneHeaderFile E T (vHeaderName v a) a b x v = (Inr (cHash C b), v') \<and> vconf v' = vconf v \<and>
    badFiles v' = badFiles v \<and> freshTemp T (disk v') \<and>
    map_of (disk v') = (map_of (disk v))(vHeaderName v a \<mapsto> headersOf E (cHeader C) a b)"
proof -
  have le: "0 \<le> a" "a \<le> b" using ab by simp_all
  obtain q v1 where c: "checkHeaderFile E (vHeaderName v a) a b x v = (q, v1)" by fastforce
  have c1: "vconf v1 = vconf v" "disk v1 = disk v" "badFiles v1 = badFiles v"
    using keepsD [OF checksOnly_checkHeaderFile c] by (simp_all add: checksOnly_def)
  show ?thesis
  proof (cases q)
    case (Inr h)
    with checkHeaderFile_right [OF _ serves_answersFrom [OF S(1)] S(2,3) ab inj] c
    have "map_of (disk v) (vHeaderName v a) = Some (headersOf E (cHeader C) a b)" "h = cHash C b" by auto
    with c Inr c1 v(3) show ?thesis by (auto simp: verifyOneHeaderFile_def)
  next
    case (Inl e)
    have fix1: "vFix v1" using vconfD(5) [OF c1(1)] v(1) by simp
    have "\<exists>v2. regenerate E T (vHeaderName v a) a b (writeHeaderRecord E) v1 = (Inr (), v2) \<and> vconf v2 = vconf v1 \<and> badFiles v2 = badFiles v1 \<and>
        map_of (disk v2) = (map_of (disk v1))(vHeaderName v a \<mapsto> concat (map (\<lambda>h. SerializeHeader E (cHeader C h)) [a..b])) \<and> freshTemp T (disk v2)"
      unfolding vHeaderName_def
      by (rule regenerate_runs [OF _ _ _ _ refl]) (use servesD(2) [OF S(1)] c1(2) v(3) writeHeaderRecord_served [OF S(1)] le ab(5) in auto)
    then obtain v2 where r: "regenerate E T (vHeaderName v a) a b (writeHeaderRecord E) v1 = (Inr (), v2)" "vconf v2 = vconf v" "badFiles v2 = badFiles v"
      "map_of (disk v2) = (map_of (disk v))(vHeaderName v a \<mapsto> headersOf E (cHeader C) a b)" "freshTemp T (disk v2)"
      using c1 by (auto simp: headersOf_def)
    have "\<exists>v3. checkHeaderFile E (vHeaderName v a) a b x v2 = (Inr (cHash C b), v3)"
      by (rule checkHeaderFile_accepts [OF S le ab(5)]) (use vconfD [OF r(2)] r(4) v(2) ab(2) x in auto)
    then obtain v3 where k: "checkHeaderFile E (vHeaderName v a) a b x v2 = (Inr (cHash C b), v3)" ..
    have "vconf v3 = vconf v2" "disk v3 = disk v2" "badFiles v3 = badFiles v2"
      using keepsD [OF checksOnly_checkHeaderFile k] by (simp_all add: checksOnly_def)
    then show ?thesis using c Inl fix1 r k by (auto simp: verifyOneHeaderFile_def goBind_def goWrap_def)
  qed
qed

lemma fix_filter_header_file:
  assumes S: "serves E C N" "validChain E C N" "hash_codec E" and v: "vFix v" "freshTemp T (disk v)"
    and ab: "0 \<le> a" "b = a + vHeadersPerFile v - 1" "0 < vHeadersPerFile v" "b \<le> N"
  shows "\<exists>v' dat. verifyFilterHeaderAnchor E T (vFilterHeaderName v a) a b v = (Inr (), v') \<and> vconf v' = vconf v \<and>
    badFiles v' = badFiles v \<and> freshTemp T (disk v') \<and> map_of (disk v') = (map_of (disk v))(vFilterHeaderName v a \<mapsto> dat) \<and>
    int (length dat) = vHeadersPerFile v * int HashSize \<and> drop (length dat - HashSize) dat = cFilterHeader C b"
proof -
  have le: "a \<le> b" "0 \<le> b" using ab by simp_all
  obtain q v1 where c: "checkFilterHeaderFile E (vFilterHeaderName v a) b v = (q, v1)" by fastforce
  have c1: "vconf v1 = vconf v" "disk v1 = disk v" "badFiles v1 = badFiles v"
    using keepsD [OF checksOnly_checkFilterHeaderFile c] by (simp_all add: checksOnly_def)
  show ?thesis
  proof (cases q)
    case (Inr u)
    with checkFilterHeaderFile_ok [OF _ serves_answersFrom [OF S(1)] le(2) ab(4)] c obtain dat where
      "map_of (disk v) (vFilterHeaderName v a) = Some dat" "int (length dat) = vHeadersPerFile v * int HashSize"
      "drop (length dat - HashSize) dat = cFilterHeader C b" by blast
    with c Inr c1 v(2) show ?thesis
      by (intro exI [of _ v1] exI [of _ dat]) (auto simp: verifyFilterHeaderAnchor_def)
  next
    case (Inl e)
    have fix1: "vFix v1" using vconfD(5) [OF c1(1)] v(1) by simp
    let ?dat = "concat (map (cFilterHeader C) [a..b])"
    have "\<exists>v2. regenerate E T (vFilterHeaderName v a) a b (writeFilterHeaderRecord E) v1 = (Inr (), v2) \<and> vconf v2 = vconf v1 \<and> badFiles v2 = badFiles v1 \<and>
        map_of (disk v2) = (map_of (disk v1))(vFilterHeaderName v a \<mapsto> ?dat) \<and> freshTemp T (disk v2)"
      unfolding vFilterHeaderName_def
      by (rule regenerate_runs [OF _ _ _ _ refl])
        (use servesD(2) [OF S(1)] c1(2) v(2) authFilterHeader_served [OF S(1)] ab(1,4) in \<open>auto simp: writeFilterHeaderRecord_def\<close>)
    then obtain v2 where r: "regenerate E T (vFilterHeaderName v a) a b (writeFilterHeaderRecord E) v1 = (Inr (), v2)" "vconf v2 = vconf v" "badFiles v2 = badFiles v"
      "map_of (disk v2) = (map_of (disk v))(vFilterHeaderName v a \<mapsto> ?dat)" "freshTemp T (disk v2)" using c1 by auto
    let ?v2 = "v2\<lparr>fHeaderCacheStart := -1\<rparr>"
    note dat = filterHeaders_end [OF S(2,3) ab(1) le(1) ab(4) refl]
    have "\<exists>v3. checkFilterHeaderFile E (vFilterHeaderName v a) b ?v2 = (Inr (), v3)"
      by (rule checkFilterHeaderFile_accepts [OF S(1) le(2) ab(4)]) (use vconfD [OF r(2)] r(4) ab(2) dat in auto)
    then obtain v3 where k: "checkFilterHeaderFile E (vFilterHeaderName v a) b ?v2 = (Inr (), v3)" ..
    have "vconf v3 = vconf v2" "disk v3 = disk v2" "badFiles v3 = badFiles v2"
      using keepsD [OF checksOnly_checkFilterHeaderFile k] by (simp_all add: checksOnly_def vconf_def)
    then show ?thesis
      using c Inl fix1 r k dat ab(2)
      by (intro exI [of _ v3] exI [of _ ?dat]) (auto simp: verifyFilterHeaderAnchor_def goBind_def goWrap_def goModify_def)
  qed
qed

lemma range_name:
  assumes "n = vHeadersPerFile v" "0 < n" "0 \<le> i" "i \<le> k" "k * n \<le> heightBound" "n \<le> heightBound"
  shows "vHeaderName v (i * n) = blockFileName HeaderFileSuffix (joinPath (vBaseDir v) HeaderFileDir) (i * n) (i * n + n - 1)"
    and "vFilterHeaderName v (i * n) = blockFileName FilterHeaderFileSuffix (joinPath (vBaseDir v) HeaderFileDir) (i * n) (i * n + n - 1)"
    and "0 \<le> i * n" "sub32 (add32 (i * n) n) 1 = i * n + n - 1" "add32 (i * n) n = (i + 1) * n"
proof -
  have "i * n \<le> k * n" using assms by (intro mult_right_mono) auto
  moreover show i0: "0 \<le> i * n" using assms by simp
  ultimately have "-2147483648 \<le> i * n + n - 1" "i * n + n \<le> 2147483647" using assms unfolding heightBound_def by linarith+
  then have add: "add32 (i * n) n = i * n + n" "sub32 (i * n + n) 1 = i * n + n - 1" by (simp_all add: add32_id sub32_id)
  then show a: "sub32 (add32 (i * n) n) 1 = i * n + n - 1" by simp
  show "add32 (i * n) n = (i + 1) * n" using add(1) by (simp add: algebra_simps)
  show "vHeaderName v (i * n) = blockFileName HeaderFileSuffix (joinPath (vBaseDir v) HeaderFileDir) (i * n) (i * n + n - 1)"
    "vFilterHeaderName v (i * n) = blockFileName FilterHeaderFileSuffix (joinPath (vBaseDir v) HeaderFileDir) (i * n) (i * n + n - 1)"
    using a assms(1) by (simp_all add: vHeaderName_def vFilterHeaderName_def)
qed

lemma range_names_differ:
  assumes "n = vHeadersPerFile v" "0 < n" "k * n \<le> heightBound" "n \<le> heightBound" "0 \<le> i" "i \<le> k" "0 \<le> j" "j \<le> k"
  shows "vHeaderName v (i * n) = vHeaderName v (j * n) \<longleftrightarrow> i = j"
    and "vFilterHeaderName v (i * n) = vFilterHeaderName v (j * n) \<longleftrightarrow> i = j"
    and "vHeaderName v (i * n) \<noteq> vFilterHeaderName v (j * n)"
proof -
  note I = range_name [OF assms(1,2,5,6,3,4)] and J = range_name [OF assms(1,2,7,8,3,4)]
  have e: "0 \<le> i * n + n - 1" "0 \<le> j * n + n - 1" using I(3) J(3) assms(2) by linarith+
  note inj = blockFileName_inj [OF I(3) e(1) J(3) e(2)]
  show "vHeaderName v (i * n) = vHeaderName v (j * n) \<longleftrightarrow> i = j"
    using inj [OF okSuffix_known(1,1)] assms(2) unfolding I(1) J(1) by auto
  show "vFilterHeaderName v (i * n) = vFilterHeaderName v (j * n) \<longleftrightarrow> i = j"
    using inj [of FilterHeaderFileSuffix FilterHeaderFileSuffix] okSuffix_known assms(2) unfolding I(2) J(2) by auto
  show "vHeaderName v (i * n) \<noteq> vFilterHeaderName v (j * n)"
    using inj [of HeaderFileSuffix FilterHeaderFileSuffix] okSuffix_known unfolding I(1) J(2)
    by (auto simp: HeaderFileSuffix_def FilterHeaderFileSuffix_def)
qed

definition headerRight :: "'h env \<Rightarrow> 'h chainData \<Rightarrow> verifier \<Rightarrow> int \<Rightarrow> bool" where
  "headerRight E C v i \<longleftrightarrow> map_of (disk v) (vHeaderName v (i * vHeadersPerFile v)) =
     Some (headersOf E (cHeader C) (i * vHeadersPerFile v) (i * vHeadersPerFile v + vHeadersPerFile v - 1))"

definition filterHeaderEndRight :: "'h chainData \<Rightarrow> verifier \<Rightarrow> int \<Rightarrow> bool" where
  "filterHeaderEndRight C v i \<longleftrightarrow> (\<exists>dat. map_of (disk v) (vFilterHeaderName v (i * vHeadersPerFile v)) = Some dat \<and>
     int (length dat) = vHeadersPerFile v * int HashSize \<and>
     drop (length dat - HashSize) dat = cFilterHeader C (i * vHeadersPerFile v + vHeadersPerFile v - 1))"

text \<open>Where the walk with \<open>--fix\<close> stands before range \<open>j\<close>: the files of the ranges before it are right, the others as they were.\<close>

definition fixedTo :: "'h env \<Rightarrow> toolEnv \<Rightarrow> 'h chainData \<Rightarrow> int \<Rightarrow> int \<Rightarrow> verifier \<Rightarrow> verifier \<Rightarrow> bool" where
  "fixedTo E T C k j v0 v \<longleftrightarrow> vconf v = vconf v0 \<and> freshTemp T (disk v) \<and>
     (\<forall>i. 0 \<le> i \<and> i < j \<longrightarrow> headerRight E C v i \<and> filterHeaderEndRight C v i) \<and>
     (\<forall>i. j \<le> i \<and> i \<le> k \<longrightarrow> map_of (disk v) (vHeaderName v0 (i * vHeadersPerFile v0)) = map_of (disk v0) (vHeaderName v0 (i * vHeadersPerFile v0)))"

lemma fixedTo_hashed:
  assumes F: "fixedTo E T C k j v0 v" and n: "n = vHeadersPerFile v0" "0 < n" "N = k * n - 1" and j: "0 \<le> j" "j \<le> k" and codec: "header_codec E"
  shows "hashedHeaders E C v N \<subseteq> hashedHeaders E C v0 N"
proof
  fix s
  assume "s \<in> hashedHeaders E C v N"
  have conf: "vHeadersPerFile v = n" "vHeaderName v = vHeaderName v0" using F n(1) by (auto simp: fixedTo_def dest: vconfD)
  from \<open>s \<in> hashedHeaders E C v N\<close> consider (chain) "s \<in> {SerializeHeader E (cHeader C i) |i. 0 \<le> i \<and> i \<le> N}"
    | (disk) dat l i where "s = recordAt dat (l * n) i" "map_of (disk v) (vHeaderName v0 (l * n)) = Some dat" "0 \<le> l"
      "l * n \<le> i" "i \<le> l * n + n - 1" "i \<le> N"
    unfolding hashedHeaders_def conf by blast
  then show "s \<in> hashedHeaders E C v0 N"
  proof cases
    case chain
    then show ?thesis by (simp add: hashedHeaders_def)
  next
    case disk
    have "l * n < k * n" using disk(4,6) n(3) by linarith
    then have l: "l < k" using n(2) by (simp add: mult_less_cancel_right)
    show ?thesis
    proof (cases "l < j")
      case True
      then have "dat = headersOf E (cHeader C) (l * n) (l * n + n - 1)"
        using F disk(2,3) conf by (auto simp: fixedTo_def headerRight_def)
      then have "s = SerializeHeader E (cHeader C i)"
        unfolding disk(1) headersOf_def recordAt_def
        using recordAt_concat [of "\<lambda>h. SerializeHeader E (cHeader C h)" MaxBlockHeaderPayload "l * n" i "l * n + n - 1"] disk(4,5) codec
        by (simp add: header_codec_def)
      moreover have "0 \<le> i" using disk(3,4) n(2) by (meson mult_nonneg_nonneg order.trans order_less_imp_le)
      ultimately show ?thesis using disk(6) by (auto simp: hashedHeaders_def)
    next
      case False
      then have "map_of (disk v0) (vHeaderName v0 (l * n)) = Some dat" using F disk(2) l n(1) by (simp add: fixedTo_def)
      then show ?thesis using disk n(1) unfolding hashedHeaders_def by blast
    qed
  qed
qed

lemma fixedTo_step:
  assumes F: "fixedTo E T C k j v0 v" and S: "serves E C N" "validChain E C N" "header_codec E" "hash_codec E"
    and v0: "vFix v0" "vGenesisHash v0 = cHash C 0" and n: "n = vHeadersPerFile v0" "0 < n" "N = k * n - 1" "N < heightBound"
    and j: "0 \<le> j" "j < k" and x: "0 < j \<Longrightarrow> x = cHash C (j * n - 1)"
    and inj: "inj_on (DoubleHash E) (hashedHeaders E C v0 N)"
  obtains v1 v2 where "verifyOneHeaderFile E T (vHeaderName v (j * n)) (j * n) (j * n + n - 1) x v = (Inr (cHash C (j * n + n - 1)), v1)"
    "verifyFilterHeaderAnchor E T (vFilterHeaderName v (j * n)) (j * n) (j * n + n - 1) v1 = (Inr (), v2)"
    "fixedTo E T C k (j + 1) v0 v2"
proof -
  let ?a = "j * n" and ?b = "j * n + n - 1"
  have c: "vconf v = vconf v0" "freshTemp T (disk v)" using F by (simp_all add: fixedTo_def)
  note cv = vconfD [OF c(1)]
  have "(j + 1) * n \<le> k * n" using j n(2) by (intro mult_right_mono) auto
  then have b: "?b \<le> N" using n(3) by (simp add: algebra_simps)
  have a: "0 \<le> ?a" using j n(2) by simp
  have kn: "k * n \<le> heightBound" "n \<le> heightBound" using n a b by linarith+
  note differ = range_names_differ [OF n(1,2) kn]
  have "inj_on (DoubleHash E) (hashedHeaders E C v N)"
    using inj by (rule inj_on_subset) (rule fixedTo_hashed [OF F n(1-3) j(1) _ S(3)], use j in simp)
  then have "\<exists>v1. verifyOneHeaderFile E T (vHeaderName v ?a) ?a ?b x v = (Inr (cHash C ?b), v1) \<and> vconf v1 = vconf v \<and>
      badFiles v1 = badFiles v \<and> freshTemp T (disk v1) \<and> map_of (disk v1) = (map_of (disk v))(vHeaderName v ?a \<mapsto> headersOf E (cHeader C) ?a ?b)"
    by (intro fix_header_file [OF S(1-3), where j = j]) (use cv c v0 n j b x in \<open>auto simp: zero_less_mult_iff\<close>)
  then obtain v1 where v1: "verifyOneHeaderFile E T (vHeaderName v ?a) ?a ?b x v = (Inr (cHash C ?b), v1)" "vconf v1 = vconf v0" "freshTemp T (disk v1)"
    "map_of (disk v1) = (map_of (disk v))(vHeaderName v0 ?a \<mapsto> headersOf E (cHeader C) ?a ?b)" using c cv by auto
  note cv1 = vconfD [OF v1(2)]
  have "\<exists>v2 dat. verifyFilterHeaderAnchor E T (vFilterHeaderName v1 ?a) ?a ?b v1 = (Inr (), v2) \<and> vconf v2 = vconf v1 \<and>
      badFiles v2 = badFiles v1 \<and> freshTemp T (disk v2) \<and> map_of (disk v2) = (map_of (disk v1))(vFilterHeaderName v1 ?a \<mapsto> dat) \<and>
      int (length dat) = vHeadersPerFile v1 * int HashSize \<and> drop (length dat - HashSize) dat = cFilterHeader C ?b"
    by (intro fix_filter_header_file [OF S(1,2,4)]) (use cv1 v0 v1(3) n a b in auto)
  then obtain v2 dat where v2: "verifyFilterHeaderAnchor E T (vFilterHeaderName v ?a) ?a ?b v1 = (Inr (), v2)" "vconf v2 = vconf v0" "freshTemp T (disk v2)"
    "map_of (disk v2) = (map_of (disk v1))(vFilterHeaderName v0 ?a \<mapsto> dat)"
    "int (length dat) = n * int HashSize" "drop (length dat - HashSize) dat = cFilterHeader C ?b" using v1(2) cv1 cv n(1) by auto
  note cv2 = vconfD [OF v2(2)]
  have hdr: "map_of (disk v2) (vHeaderName v0 (i * n)) = (if i = j then Some (headersOf E (cHeader C) ?a ?b) else map_of (disk v) (vHeaderName v0 (i * n)))"
    if "0 \<le> i" "i \<le> k" for i
    using differ(1) [of i j] differ(3) [of i j] that j v1(4) v2(4) by auto
  have fhd: "map_of (disk v2) (vFilterHeaderName v0 (i * n)) = (if i = j then Some dat else map_of (disk v) (vFilterHeaderName v0 (i * n)))"
    if "0 \<le> i" "i \<le> k" for i
    using differ(2) [of i j] differ(3) [of j i] that j v1(4) v2(4) by auto
  have "headerRight E C v2 i \<and> filterHeaderEndRight C v2 i" if i: "0 \<le> i" "i < j + 1" for i
  proof (cases "i = j")
    case True
    then show ?thesis using hdr [of i] fhd [of i] i j cv2 n(1) v2(5,6) by (simp add: headerRight_def filterHeaderEndRight_def)
  next
    case False
    with i have "headerRight E C v i \<and> filterHeaderEndRight C v i" using F by (simp add: fixedTo_def)
    with False show ?thesis using hdr [of i] fhd [of i] i j cv cv2 n(1) by (simp add: headerRight_def filterHeaderEndRight_def)
  qed
  moreover have "map_of (disk v2) (vHeaderName v0 (i * n)) = map_of (disk v0) (vHeaderName v0 (i * n))" if "j + 1 \<le> i" "i \<le> k" for i
    using hdr [of i] that j F n(1) by (simp add: fixedTo_def)
  ultimately have "fixedTo E T C k (j + 1) v0 v2" using v2(2,3) n(1) by (simp add: fixedTo_def)
  then show thesis using that v1(1) v2(1) by blast
qed

lemma fixedTo_tick: "fixedTo E T C k j v0 v \<Longrightarrow> fixedTo E T C k j v0 (v\<lparr>now := t\<rparr>)"
  by (simp add: fixedTo_def headerRight_def filterHeaderEndRight_def vconf_def vHeaderName_def [abs_def] vFilterHeaderName_def [abs_def])
    (metis (no_types))

lemma fix_walk:
  assumes S: "serves E C N" "validChain E C N" "header_codec E" "hash_codec E"
    and v0: "vFix v0" "vGenesisHash v0 = cHash C 0" and n: "n = vHeadersPerFile v0" "0 < n" "N = k * n - 1" "N < heightBound" "0 < k"
    and files: "\<forall>i. 0 \<le> i \<and> i < k \<longrightarrow> fileExists (disk v0) (vHeaderName v0 (i * n))" "\<not> fileExists (disk v0) (vHeaderName v0 (k * n))"
    and inj: "inj_on (DoubleHash E) (hashedHeaders E C v0 N)"
    and F: "fixedTo E T C k j v0 v" and j: "0 \<le> j" "j \<le> k" "nat (k - j) < turns" and x: "0 < j \<Longrightarrow> x = cHash C (j * n - 1)"
    and run: "verifyHeaderFiles turns E T (j * n) x v = (r, v')"
  shows "\<exists>w. fixedTo E T C k k v0 w \<and> verifyMemoryTail E T (k * n) (cHash C (k * n - 1)) w = (r, v')"
  using F j x run
proof (induction turns arbitrary: j x v)
  case (Suc turns)
  let ?v = "v\<lparr>now := Suc (now v)\<rparr>"
  have F': "fixedTo E T C k j v0 ?v" by (rule fixedTo_tick) (rule Suc.prems(1))
  have c: "vHeaderName v = vHeaderName v0" "vFilterHeaderName v = vFilterHeaderName v0" "vHeadersPerFile v = n"
    "map_of (disk v) (vHeaderName v0 (j * n)) = map_of (disk v0) (vHeaderName v0 (j * n))"
    using Suc.prems(1,3) n(1) vconfD [of v v0] by (simp_all add: fixedTo_def)
  have "1 * n \<le> k * n" using n(2,5) by (intro mult_right_mono) auto
  then have kn: "k * n \<le> heightBound" "n \<le> heightBound" using n by linarith+
  note ar = range_name(4,5) [OF c(3) [symmetric] n(2) Suc.prems(2,3) kn]
  show ?case
  proof (cases "j = k")
    case True
    then have "statFile E (vHeaderName v (j * n)) v = (False, ?v)"
      using files(2) c servesD(2) [OF S(1)] by (simp add: statFile_def fileExists_def)
    then have "verifyMemoryTail E T (k * n) x ?v = (r, v')" using Suc.prems(6) True by (simp add: Let_def)
    then show ?thesis using F' True Suc.prems(5) n(5) by auto
  next
    case False
    with Suc.prems have jk: "j < k" by simp
    have "statFile E (vHeaderName v (j * n)) v = (True, ?v)"
      by (rule statFile_exists) (use files(1) Suc.prems(2) jk c in \<open>simp add: fileExists_def\<close>)
    moreover obtain v1 v2 where s: "verifyOneHeaderFile E T (vHeaderName ?v (j * n)) (j * n) (j * n + n - 1) x ?v = (Inr (cHash C (j * n + n - 1)), v1)"
      "verifyFilterHeaderAnchor E T (vFilterHeaderName ?v (j * n)) (j * n) (j * n + n - 1) v1 = (Inr (), v2)"
      and F2: "fixedTo E T C k (j + 1) v0 v2"
      by (rule fixedTo_step [OF F' S v0 n(1-4) Suc.prems(2) jk Suc.prems(5) inj])
    moreover have "vHeaderName ?v = vHeaderName v" "vFilterHeaderName ?v = vFilterHeaderName v"
      by (simp_all add: vHeaderName_def [abs_def] vFilterHeaderName_def [abs_def])
    ultimately have "verifyHeaderFiles turns E T ((j + 1) * n) (cHash C (j * n + n - 1)) v2 = (r, v')"
      using Suc.prems(6) c ar by (simp add: Let_def goBind_def)
    moreover have "j * n + n - 1 = (j + 1) * n - 1" by (simp add: algebra_simps)
    ultimately show ?thesis using Suc.IH [OF F2, of "cHash C (j * n + n - 1)"] Suc.prems(2,4) jk by simp
  qed
qed simp

lemma tail_keeps_disk: "keeps (\<lambda>v v'. vconf v' = vconf v \<and> disk v' = disk v) (verifyMemoryTail E T a x)"
proof -
  let ?R = "\<lambda>v v' :: verifier. vconf v' = vconf v \<and> disk v' = disk v"
  have p: "reflp ?R" "transp ?R" by (auto intro!: reflpI transpI)
  have c: "keeps checksOnly m \<Longrightarrow> keeps ?R m" for m :: "(verifier, 'b) go" by (simp add: keeps_def checksOnly_def)
  have t: "keeps ?R (reportTail what s e m)" if "keeps ?R m" for what s e m
  proof (rule keepsI)
    fix v r v'
    assume run: "reportTail what s e m v = (r, v')"
    obtain q v1 where m: "m v = (q, v1)" by fastforce
    with keepsD [OF that m] run show "?R v v'"
      by (cases q) (auto simp: reportTail_def reportBad_def goModify_def vconf_def)
  qed
  show ?thesis
    unfolding verifyMemoryTail_def Let_def
    by (intro keeps_intros p t c [OF checksOnly_fetchInMemory] c [OF checksOnly_checkMemoryHeaders] c [OF checksOnly_checkMemoryFilterHeaders])
qed

text \<open>
  Claim C22. A run with \<open>--fix\<close> repairs the headers: whatever the first \<open>k\<close> header files hold
  when it starts and whether or not their filter-header files are there, on a backend that
  serves a valid chain the walk over them meets no error, and ends with every header file
  holding exactly the headers of that chain and every filter-header file ending in the filter
  header of the chain. What it returns is what the check of the unsealed tail returns, which
  starts from the right block.
\<close>

theorem verify_fix_repairs:
  assumes "serves E C N" "validChain E C N" "header_codec E" "hash_codec E"
    and "vFix v" "vGenesisHash v = cHash C 0" "0 < vHeadersPerFile v" "N = k * vHeadersPerFile v - 1" "N < heightBound" "0 < k" "nat k < turns"
    and "\<forall>i. 0 \<le> i \<and> i < k \<longrightarrow> fileExists (disk v) (vHeaderName v (i * vHeadersPerFile v))"
    and "\<not> fileExists (disk v) (vHeaderName v (k * vHeadersPerFile v))"
    and "freshTemp T (disk v)" "inj_on (DoubleHash E) (hashedHeaders E C v N)"
    and "verifyHeaderFiles turns E T 0 zeroHash v = (r, v')"
  shows "(\<exists>w. verifyMemoryTail E T (k * vHeadersPerFile v) (cHash C (k * vHeadersPerFile v - 1)) w = (r, v')) \<and>
    (\<forall>i. 0 \<le> i \<and> i < k \<longrightarrow> headerRight E C v' i \<and> filterHeaderEndRight C v' i)"
proof -
  have F: "fixedTo E T C k 0 v v" using assms(14) by (auto simp: fixedTo_def)
  have "\<exists>w. fixedTo E T C k k v w \<and> verifyMemoryTail E T (k * vHeadersPerFile v) (cHash C (k * vHeadersPerFile v - 1)) w = (r, v')"
    by (rule fix_walk [OF assms(1-6) refl assms(7-10,12,13,15) F order_refl]) (use assms(10,11,16) in auto)
  then obtain w where w: "fixedTo E T C k k v w" "verifyMemoryTail E T (k * vHeadersPerFile v) (cHash C (k * vHeadersPerFile v - 1)) w = (r, v')" by blast
  have d: "vconf v' = vconf w" "disk v' = disk w" using keepsD [OF tail_keeps_disk w(2)] by auto
  have "headerRight E C v' i \<and> filterHeaderEndRight C v' i" if "0 \<le> i" "i < k" for i
    using w(1) that vconfD [OF d(1)] d(2) by (simp add: fixedTo_def headerRight_def filterHeaderEndRight_def)
  with w(2) show ?thesis by blast
qed

subsection \<open>Concrete runs\<close>

text \<open>
  Files of two entries in \<open>/d\<close>, a running server at \<open>s\<close> that has block 2 in memory, and
  the digit 7 for every temporary name.
\<close>

definition miniTool :: toolEnv where
  "miniTool = \<lparr>httpGet = (\<lambda>_ url. if url = ''s/headers/2'' then Inr (200, miniSerialize (2, 1), None)
       else if url = ''s/filter-headers/2'' then Inr (200, miniFilterHeader 2, None) else Inl (Errf ''connection refused'' [])),
     randomName = (\<lambda>_. ''7'')\<rparr>"

definition miniDisk :: "bytes \<Rightarrow> bytes \<Rightarrow> bytes \<Rightarrow> disk" where
  "miniDisk hs fhs fs =
    [(blockFileName HeaderFileSuffix (joinPath ''/d'' HeaderFileDir) 0 1, hs),
     (blockFileName FilterHeaderFileSuffix (joinPath ''/d'' HeaderFileDir) 0 1, fhs),
     (blockFileName FilterFileSuffix (joinPath ''/d'' FilterFileDir) 0 1, fs)]"

definition miniVerifier :: "bool \<Rightarrow> disk \<Rightarrow> verifier" where
  "miniVerifier fx d = \<lparr>now = 0, disk = d, cache = newH2HCache, vGenesisHash = miniBlockHash 0, vBaseDir = ''/d'',
      vHeadersPerFile = 2, vFiltersPerFile = 2, vFix = fx, vReOrgSafeDepth = 0, vServerURL = ''s'', badFiles = [], fixedFiles = [],
      fHeaderCacheStart = -1, fHeaderCache = [], fHeaderCacheFromMemory = False\<rparr>"

lemma miniVerifier_simps [simp]:
  "disk (miniVerifier fx d) = d" "vFix (miniVerifier fx d) = fx" "vHeadersPerFile (miniVerifier fx d) = 2" "now (miniVerifier fx d) = 0"
  "vFiltersPerFile (miniVerifier fx d) = 2" "vGenesisHash (miniVerifier fx d) = miniBlockHash 0" "vBaseDir (miniVerifier fx d) = ''/d''"
  "badFiles (miniVerifier fx d) = []" "fHeaderCacheStart (miniVerifier fx d) = -1" "vReOrgSafeDepth (miniVerifier fx d) = 0"
  "vServerURL (miniVerifier fx d) = ''s''" "fixedFiles (miniVerifier fx d) = []"
  by (simp_all add: miniVerifier_def)

lemma mini_names:
  "vHeaderName (miniVerifier fx d) 0 = blockFileName HeaderFileSuffix (joinPath ''/d'' HeaderFileDir) 0 1"
  "vFilterHeaderName (miniVerifier fx d) 0 = blockFileName FilterHeaderFileSuffix (joinPath ''/d'' HeaderFileDir) 0 1"
  "vFilterName (miniVerifier fx d) 0 = blockFileName FilterFileSuffix (joinPath ''/d'' FilterFileDir) 0 1"
  "vHeaderName (miniVerifier fx d) 2 = blockFileName HeaderFileSuffix (joinPath ''/d'' HeaderFileDir) 2 3"
  "vFilterName (miniVerifier fx d) 2 = blockFileName FilterFileSuffix (joinPath ''/d'' FilterFileDir) 2 3"
  by (simp_all add: vHeaderName_def vFilterHeaderName_def vFilterName_def add32_id sub32_id)

lemma suffix_distinct:
  "HeaderFileSuffix \<noteq> FilterFileSuffix" "HeaderFileSuffix \<noteq> FilterHeaderFileSuffix" "FilterHeaderFileSuffix \<noteq> FilterFileSuffix"
  by (simp_all add: HeaderFileSuffix_def FilterFileSuffix_def FilterHeaderFileSuffix_def)

lemma mini_lookup:
  "map_of (miniDisk hs fhs fs) (vHeaderName (miniVerifier fx d) 0) = Some hs"
  "map_of (miniDisk hs fhs fs) (vFilterHeaderName (miniVerifier fx d) 0) = Some fhs"
  "map_of (miniDisk hs fhs fs) (vFilterName (miniVerifier fx d) 0) = Some fs"
  "map_of (miniDisk hs fhs fs) (vHeaderName (miniVerifier fx d) 2) = None"
  "map_of (miniDisk hs fhs fs) (vFilterName (miniVerifier fx d) 2) = None"
  unfolding mini_names miniDisk_def
  by (simp_all add: blockFileName_eq_iff suffix_distinct suffix_distinct [symmetric])

lemma regenerate_atomic_witness:
  "let v = miniVerifier True (miniDisk [] [] []); f = vHeaderName v 0; v' = snd (regenerate (miniEnv 1) miniTool f 0 1 (writeHeaderRecord (miniEnv 1)) v)
   in badFiles v' = [] \<and> map_of (disk v') (vFilterName v 0) = Some []"
proof -
  let ?v = "miniVerifier True (miniDisk [] [] [])"
  let ?f = "vHeaderName ?v 0"
  have d: "list_all isDigit (randomName miniTool 0)" by (simp add: miniTool_def isDigit_def)
  have ne: "blockFileName sfx dir a b \<noteq> tempName miniTool (pathDir ?f) (now ?v)" if "sfx \<in> {HeaderFileSuffix, FilterHeaderFileSuffix, FilterFileSuffix}" for sfx dir a b
    using temp_name_differs [OF d that] by simp
  obtain r v' where run: "regenerate (miniEnv 1) miniTool ?f 0 1 (writeHeaderRecord (miniEnv 1)) ?v = (r, v')" by fastforce
  have "vFilterName ?v 0 \<noteq> ?f" unfolding mini_names by (simp add: blockFileName_eq_iff suffix_distinct [symmetric])
  then show ?thesis
    using regenerate_atomic [OF run _ refl] ne mini_lookup run unfolding mini_names Let_def by simp
qed

lemma mini_inj: "inj_on miniHash {replicate 80 9, miniSerialize (0, -1), miniSerialize (1, 0)}"
proof (rule inj_onI)
  fix x y
  assume xy: "x \<in> {replicate 80 9, miniSerialize (0, -1), miniSerialize (1, 0)}" "y \<in> {replicate 80 9, miniSerialize (0, -1), miniSerialize (1, 0)}"
    and "miniHash x = miniHash y"
  then have "hd (miniHash x) = hd (miniHash y)" by simp
  moreover have "hd (miniHash z) = hd (z @ [0])" for z by (simp add: miniHash_def)
  ultimately have "hd (x @ [0]) = hd (y @ [0])" by simp
  with xy show "x = y" by (auto simp: miniSerialize_def)
qed

lemma mini_fresh: "freshTemp miniTool (miniDisk hs fhs fs)"
proof -
  have d: "list_all isDigit (randomName miniTool t)" for t by (simp add: miniTool_def isDigit_def)
  have "tempName miniTool dir t \<noteq> blockFileName sfx dir' a b" if "sfx \<in> {HeaderFileSuffix, FilterHeaderFileSuffix, FilterFileSuffix}" for sfx dir dir' a b t
    using temp_name_differs [OF d that] by metis
  then show ?thesis using d by (simp add: freshTemp_def miniDisk_def)
qed

text \<open>The strings hashed when the one header file has contents with records from \<open>S\<close>.\<close>

lemma mini_hashed:
  assumes "recordAt hs 0 0 \<in> S" "recordAt hs 0 1 \<in> S" "miniSerialize (0, -1) \<in> S" "miniSerialize (1, 0) \<in> S"
  shows "hashedHeaders (miniEnv t) miniData (miniVerifier fx (miniDisk hs fhs fs)) 1 \<subseteq> S"
proof
  fix s
  assume "s \<in> hashedHeaders (miniEnv t) miniData (miniVerifier fx (miniDisk hs fhs fs)) 1"
  then consider i where "s = SerializeHeader (miniEnv t) (cHeader miniData i)" "0 \<le> i" "i \<le> 1"
    | dat j i where "s = recordAt dat (j * 2) i" "map_of (miniDisk hs fhs fs) (vHeaderName (miniVerifier fx (miniDisk hs fhs fs)) (j * 2)) = Some dat"
      "0 \<le> j" "j * 2 \<le> i" "i \<le> 1" unfolding hashedHeaders_def by auto
  then show "s \<in> S"
  proof cases
    case 1
    then have "i = 0 \<or> i = 1" by auto
    with 1 assms show ?thesis by (auto simp: miniEnv_def miniData_def)
  next
    case 2
    then have "j = 0" "i = 0 \<or> i = 1" by auto
    with 2 assms show ?thesis by (auto simp: mini_lookup)
  qed
qed

lemma verify_fix_repairs_witness:
  "headerRight (miniEnv 1) miniData (snd (verifyHeaderFiles 2 (miniEnv 1) miniTool 0 zeroHash (miniVerifier True (miniDisk (replicate 160 9) [] [])))) 0"
proof -
  let ?v = "miniVerifier True (miniDisk (replicate 160 9) [] [])"
  obtain r v' where run: "verifyHeaderFiles 2 (miniEnv 1) miniTool 0 zeroHash ?v = (r, v')" by fastforce
  have one: "0 \<le> i \<and> i < 1 \<longleftrightarrow> i = 0" for i :: int by auto
  have fresh: "freshTemp miniTool (disk ?v)" by (simp add: mini_fresh)
  have sub: "hashedHeaders (miniEnv 1) miniData ?v 1 \<subseteq> {replicate 80 9, miniSerialize (0, -1), miniSerialize (1, 0)}"
    by (rule mini_hashed) (auto simp: recordAt_def MaxBlockHeaderPayload_def)
  have inj: "inj_on (DoubleHash (miniEnv 1)) (hashedHeaders (miniEnv 1) miniData ?v 1)"
    using inj_on_subset [OF mini_inj sub] by (simp add: miniEnv_def)
  show ?thesis
    using verify_fix_repairs [OF conjunct1 [OF miniData_ok] conjunct2 [OF miniData_ok], of ?v 1 2 miniTool r v'] run fresh inj
    by (simp add: one mini_lookup fileExists_def heightBound_def miniData_def)
qed

end
