(* ===== verification/VerifyAccepts.thy ===== *)
theory VerifyAccepts
  imports VerifyProofs
begin

text \<open>
  The command \<open>verify\<close> over right files: it raises no false alarm and rewrites nothing. With
  this, that a clean run has seen right files (proved in \<open>VerifyProofs\<close>) is shown to be
  more than a statement about runs that never end well.
\<close>

subsection \<open>Checks that only ask\<close>

definition ticksOnly :: "verifier \<Rightarrow> verifier \<Rightarrow> bool" where
  "ticksOnly v v' \<longleftrightarrow> (\<exists>t. now v \<le> t \<and> v' = v\<lparr>now := t\<rparr>)"

lemma ticksOnly_refl: "ticksOnly v v"
  unfolding ticksOnly_def by (rule exI [of _ "now v"]) simp

lemma ticksOnly_trans: "ticksOnly u v \<Longrightarrow> ticksOnly v w \<Longrightarrow> ticksOnly u w"
  unfolding ticksOnly_def by (elim exE conjE, rule_tac x = ta in exI) simp

lemma ticksOnly_preorder: "reflp ticksOnly" "transp ticksOnly"
  by (auto intro!: reflpI transpI ticksOnly_refl elim: ticksOnly_trans)

lemma ticksOnly_tick [simp]: "ticksOnly v (v\<lparr>now := Suc (now v)\<rparr>)"
  by (auto simp: ticksOnly_def intro: exI [of _ "Suc (now v)"])

lemma ticksOnly_rpcCall [keeps_intros]: "keeps ticksOnly (rpcCall E f)"
  by (simp add: keeps_def rpcCall_def)

lemma ticksOnly_readFile [keeps_intros]: "keeps ticksOnly (readFile E f)"
  by (simp add: keeps_def readFile_def)

lemma ticksOnly_fetchInMemory [keeps_intros]: "keeps ticksOnly (fetchInMemory T rt a)"
  by (simp add: keeps_def fetchInMemory_def Let_def)

lemma ticksOnly_authFilterHeader [keeps_intros]: "keeps ticksOnly (authFilterHeader E h)"
  unfolding authFilterHeader_def by (intro keeps_intros ticksOnly_preorder)

lemma ticksOnly_checkHeaderFile [keeps_intros]: "keeps ticksOnly (checkHeaderFile E f a b x)"
  unfolding checkHeaderFile_def by (intro keeps_intros ticksOnly_preorder)

lemma ticksOnly_checkFilterHeaderFile [keeps_intros]: "keeps ticksOnly (checkFilterHeaderFile E f b)"
  unfolding checkFilterHeaderFile_def by (intro keeps_intros ticksOnly_preorder)

lemma ticksOnly_checkMemoryHeaders [keeps_intros]: "keeps ticksOnly (checkMemoryHeaders E dat a b x)"
  unfolding checkMemoryHeaders_def by (intro keeps_intros ticksOnly_preorder)

lemma ticksOnly_checkMemoryFilterHeaders [keeps_intros]: "keeps ticksOnly (checkMemoryFilterHeaders E dat a b)"
  unfolding checkMemoryFilterHeaders_def by (intro keeps_intros ticksOnly_preorder)

lemma ticksOnly_vReadFilterFile [keeps_intros]: "keeps ticksOnly (vReadFilterFile E f)"
  unfolding vReadFilterFile_def by (intro keeps_intros ticksOnly_preorder)

lemma ticksOnlyD:
  assumes "ticksOnly v v'"
  shows "vconf v' = vconf v" "disk v' = disk v" "badFiles v' = badFiles v" "fixedFiles v' = fixedFiles v"
    "fHeaderCacheStart v' = fHeaderCacheStart v" "fHeaderCache v' = fHeaderCache v"
  using assms by (auto simp: ticksOnly_def vconf_def)

lemma ticksOnly_checks: "ticksOnly v v' \<Longrightarrow> checksOnly v v'"
  by (auto simp: ticksOnly_def checksOnly_def vconf_def fhInv_def vFilterHeaderName_def)

subsection \<open>The unsealed tail\<close>

lemma linkTail_chain:
  assumes V: "validChain E C N" and codec: "header_codec E"
    and "0 \<le> a" "b \<le> N" "a \<le> b + 1" "genesis = cHash C 0" "0 < a \<Longrightarrow> prev = cHash C (a - 1)"
    and dat: "\<And>i. a \<le> i \<Longrightarrow> i \<le> b \<Longrightarrow> recordAt dat start i = SerializeHeader E (cHeader C i)"
  shows "linkTail E genesis dat start anchor [a..b] prev x = Inr (if a \<le> anchor \<and> anchor \<le> b then cHash C anchor else x)"
  using assms(3,5-)
proof (induction "nat (b + 1 - a)" arbitrary: a prev x)
  case 0
  then have "b + 1 = a" by simp
  then show ?case by auto
next
  case (Suc k)
  then have ab: "a \<le> b" by auto
  have h: "DoubleHash E (SerializeHeader E (cHeader C a)) = cHash C a"
    and l: "0 < a \<Longrightarrow> take 32 (drop 4 (SerializeHeader E (cHeader C a))) = cHash C (a - 1)"
    using V codec Suc.prems ab assms(4) by (simp_all add: validChain_def header_codec_def)
  have "linkTail E genesis dat start anchor [a + 1..b] (cHash C a) y =
      Inr (if a + 1 \<le> anchor \<and> anchor \<le> b then cHash C anchor else y)" for y
    by (rule Suc.hyps(1)) (use Suc ab in auto)
  then show ?case using Suc.prems ab h l by (auto simp: upto_rec1 [of a b] Let_def)
qed

lemma recordAt_concat_range:
  assumes "\<And>h. a \<le> h \<Longrightarrow> h \<le> b \<Longrightarrow> length (put h) = w" "a \<le> i" "i \<le> b"
  shows "take w (drop (nat (i - a) * w) (concat (map put [a..b]))) = put i"
proof -
  let ?put = "\<lambda>h. if a \<le> h \<and> h \<le> b then put h else replicate w undefined"
  have "map put [a..b] = map ?put [a..b]" by auto
  moreover have "take w (drop (nat (i - a) * w) (concat (map ?put [a..b]))) = ?put i"
    by (rule recordAt_concat) (use assms in auto)
  ultimately show ?thesis using assms(2,3) by (simp only: if_P)
qed

text \<open>The running server has the blocks \<open>a\<close> to \<open>M\<close> in memory and answers with them.\<close>

definition servesTail :: "'h env \<Rightarrow> toolEnv \<Rightarrow> 'h chainData \<Rightarrow> string \<Rightarrow> int \<Rightarrow> int \<Rightarrow> bool" where
  "servesTail E T C url a M \<longleftrightarrow> (\<forall>t.
     httpGet T t (url @ ''/'' @ memoryHeadersRoute @ ''/'' @ intString a) = Inr (200, headersOf E (cHeader C) a M, None) \<and>
     httpGet T t (url @ ''/'' @ memoryFilterHeadersRoute @ ''/'' @ intString a) =
       Inr (200, concat (map (cFilterHeader C) [a..M]), None))"

lemma fetchInMemory_served:
  assumes "servesTail E T C (vServerURL v) a M"
  shows "fetchInMemory T memoryHeadersRoute a v = (Inr (headersOf E (cHeader C) a M), v\<lparr>now := Suc (now v)\<rparr>)"
    and "fetchInMemory T memoryFilterHeadersRoute a v = (Inr (concat (map (cFilterHeader C) [a..M])), v\<lparr>now := Suc (now v)\<rparr>)"
  using assms by (simp_all add: fetchInMemory_def servesTail_def Let_def)

lemma checkMemoryHeaders_accepts:
  assumes S: "serves E C N" "validChain E C N" "header_codec E" and aM: "0 \<le> a" "a \<le> M" "M \<le> N" "N < heightBound"
    and v: "vGenesisHash v = cHash C 0" "0 < a \<Longrightarrow> x = cHash C (a - 1)" "0 \<le> vReOrgSafeDepth v" "vReOrgSafeDepth v < heightBound"
  shows "\<exists>v'. checkMemoryHeaders E (headersOf E (cHeader C) a M) a M x v = (Inr (), v')"
proof -
  have sub: "sub32 M (vReOrgSafeDepth v) = M - vReOrgSafeDepth v" (is "_ = ?h")
    using aM v by (intro sub32_id) (simp_all add: heightBound_def)
  have "recordAt (headersOf E (cHeader C) a M) a i = SerializeHeader E (cHeader C i)" if "a \<le> i" "i \<le> M" for i
    unfolding recordAt_def headersOf_def by (rule recordAt_concat) (use S(3) that in \<open>simp_all add: header_codec_def\<close>)
  then have link: "linkTail E (vGenesisHash v) (headersOf E (cHeader C) a M) a ?h [a..M] x zeroHash =
      Inr (if a \<le> ?h \<and> ?h \<le> M then cHash C ?h else zeroHash)"
    by (intro linkTail_chain [OF S(2,3)]) (use aM v in auto)
  show ?thesis
    using servesD(3) [OF S(1), of ?h] aM v(3)
    by (cases "?h < a") (simp_all add: checkMemoryHeaders_def goBind_def goGets_def sub goLift_def link goWrap_def rpcCall_def goRet_def)
qed

lemma checkMemoryFilterHeaders_accepts:
  assumes S: "serves E C N" "validChain E C N" "hash_codec E" and aM: "0 \<le> a" "a \<le> M" "M \<le> N" "N < heightBound"
    and v: "0 \<le> vReOrgSafeDepth v" "vReOrgSafeDepth v < heightBound"
  shows "\<exists>v'. checkMemoryFilterHeaders E (concat (map (cFilterHeader C) [a..M])) a M v = (Inr (), v')"
proof -
  have sub: "sub32 M (vReOrgSafeDepth v) = M - vReOrgSafeDepth v" (is "_ = ?h")
    using aM v by (intro sub32_id) (simp_all add: heightBound_def)
  show ?thesis
  proof (cases "?h < a")
    case False
    have "take HashSize (drop (nat (?h - a) * HashSize) (concat (map (cFilterHeader C) [a..M]))) = cFilterHeader C ?h"
      by (rule recordAt_concat_range) (use cFilterHeader_length [OF S(2,3)] aM v False in auto)
    moreover obtain v' where "authFilterHeader E ?h v = (Inr (cFilterHeader C ?h), v')"
      using authFilterHeader_served [OF S(1), of ?h v] aM v False by auto
    ultimately show ?thesis using False
      by (simp add: checkMemoryFilterHeaders_def goBind_def goGets_def sub goRet_def)
  qed (simp add: checkMemoryFilterHeaders_def goBind_def goGets_def sub goRet_def)
qed


lemma reportTail_accepts: "m v = (Inr (), v') \<Longrightarrow> reportTail what a b m v = (Inr (), v')"
  by (simp add: reportTail_def)

lemma verifyMemoryTail_accepts:
  assumes S: "serves E C N" "validChain E C N" "header_codec E" "hash_codec E"
    and T: "servesTail E T C (vServerURL v) a M" and aM: "0 \<le> a" "a \<le> M" "M \<le> N" "N < heightBound"
    and v: "vGenesisHash v = cHash C 0" "0 < a \<Longrightarrow> x = cHash C (a - 1)" "0 \<le> vReOrgSafeDepth v" "vReOrgSafeDepth v < heightBound"
  shows "\<exists>v'. verifyMemoryTail E T a x v = (Inr (), v') \<and> ticksOnly v v'"
proof -
  define hs fhs where hs: "hs = headersOf E (cHeader C) a M" and fhs: "fhs = concat (map (cFilterHeader C) [a..M])"
  define v1 where "v1 = v\<lparr>now := Suc (now v)\<rparr>"
  have cnt: "length hs = nat (M - a + 1) * MaxBlockHeaderPayload" "length fhs = nat (M - a + 1) * HashSize"
    using length_headersOf [OF S(3), of a M "cHeader C"] aM
      length_concat_const [of "[a..M]" "cFilterHeader C" HashSize] cFilterHeader_length [OF S(2,4)]
    by (simp_all add: hs fhs headersOf_def length_concat_const S(3) [unfolded header_codec_def])
  then have ok: "length hs \<noteq> 0" "length hs mod MaxBlockHeaderPayload = 0" "length hs div MaxBlockHeaderPayload = nat (M - a + 1)"
    "length fhs \<noteq> 0" "length fhs mod HashSize = 0" "length fhs div HashSize = nat (M - a + 1)"
    using aM by (simp_all add: MaxBlockHeaderPayload_def HashSize_def)
  have e: "sub32 (add32 a (i32 (int (nat (M - a + 1))))) 1 = M"
    using aM by (simp add: i32_id add32_id sub32_id heightBound_def)
  obtain v2 where h: "checkMemoryHeaders E hs a M x v1 = (Inr (), v2)"
    using checkMemoryHeaders_accepts [OF S(1-3) aM, of v1 x] v by (auto simp: v1_def hs)
  have t2: "ticksOnly v v2" using keepsD [OF ticksOnly_checkMemoryHeaders h] by (auto simp: v1_def elim: ticksOnly_trans [rotated])
  define v3 where "v3 = v2\<lparr>now := Suc (now v2)\<rparr>"
  have t3: "ticksOnly v v3" using t2 ticksOnly_trans by (auto simp: v3_def)
  note conf = vconfD [OF ticksOnlyD(1) [OF t2]] vconfD [OF ticksOnlyD(1) [OF t3]]
  obtain v4 where f: "checkMemoryFilterHeaders E fhs a M v3 = (Inr (), v4)"
    using checkMemoryFilterHeaders_accepts [OF S(1,2,4) aM, of v3] v conf by (auto simp: fhs)
  have t4: "ticksOnly v v4" using keepsD [OF ticksOnly_checkMemoryFilterHeaders f] t3 by (rule ticksOnly_trans [rotated])
  have T2: "servesTail E T C (vServerURL v2) a M" using T conf by simp
  have "verifyMemoryTail E T a x v = (Inr (), v4)"
    using fetchInMemory_served [OF T, folded hs fhs] fetchInMemory_served [OF T2, folded hs fhs] ok e
      reportTail_accepts [where m = "checkMemoryHeaders E hs a M x", OF h]
      reportTail_accepts [where m = "checkMemoryFilterHeaders E fhs a M", OF f]
    by (simp add: verifyMemoryTail_def goBind_def v1_def v3_def Let_def del: int_nat_eq)
  with t4 show ?thesis by blast
qed


subsection \<open>The walk over the header files\<close>

lemma header_walk_accepts:
  assumes S: "serves E C N" "validChain E C N" "header_codec E" "hash_codec E"
    and n: "n = vHeadersPerFile v" "0 < n" "k * n \<le> M" "M \<le> N" "N < heightBound" "n \<le> heightBound"
    and T: "servesTail E T C (vServerURL v) (k * n) M"
    and v: "vGenesisHash v = cHash C 0" "0 \<le> vReOrgSafeDepth v" "vReOrgSafeDepth v < heightBound"
    and files: "\<forall>i. 0 \<le> i \<and> i < k \<longrightarrow> headerRight E C v i \<and> filterHeaderEndRight C v i"
    and stop: "\<not> fileExists (disk v) (vHeaderName v (k * n))"
    and j: "0 \<le> j" "j \<le> k" "nat (k - j) < turns" "0 < j \<Longrightarrow> x = cHash C (j * n - 1)"
  shows "\<exists>v'. verifyHeaderFiles turns E T (j * n) x v = (Inr (), v') \<and> ticksOnly v v'"
  using assms(5,11-)
proof (induction turns arbitrary: j x v)
  case (Suc turns)
  note v = Suc.prems(3,4,5) and files = Suc.prems(6) and stop = Suc.prems(7) and j = Suc.prems(8,9,10,11)
  let ?a = "j * n" and ?b = "j * n + n - 1" and ?v = "v\<lparr>now := Suc (now v)\<rparr>"
  have kn: "k * n \<le> heightBound" using n by simp
  note ar = range_name(3-5) [OF Suc.prems(1) n(2) j(1,2) kn n(6)]
  have same: "vHeaderName ?v = vHeaderName v" "vFilterHeaderName ?v = vFilterHeaderName v"
    by (simp_all add: vHeaderName_def [abs_def] vFilterHeaderName_def [abs_def])
  show ?case
  proof (cases "j = k")
    case True
    then have "statFile E (vHeaderName v ?a) v = (False, ?v)"
      using stop servesD(2) [OF S(1)] by (simp add: statFile_def)
    moreover have "\<exists>v'. verifyMemoryTail E T ?a x ?v = (Inr (), v') \<and> ticksOnly ?v v'"
      by (rule verifyMemoryTail_accepts [OF S _ ar(1) _ n(4,5)])
        (use Suc.prems(2) v n(2,3) j(4) True in \<open>auto simp: zero_less_mult_iff\<close>)
    ultimately show ?thesis using ticksOnly_trans [OF ticksOnly_tick] by (force simp: Let_def)
  next
    case False
    with j have jk: "j < k" by simp
    have "(j + 1) * n \<le> k * n" using jk n(2) by (intro mult_right_mono) auto
    then have b: "?b \<le> N" "0 \<le> ?b" "?a \<le> ?b" using n ar(1) by (simp_all add: algebra_simps)
    have ok: "headerRight E C v j" "filterHeaderEndRight C v j" using files j(1) jk by auto
    then obtain dat where hdr: "map_of (disk v) (vHeaderName v ?a) = Some (headersOf E (cHeader C) ?a ?b)"
      and fhd: "map_of (disk v) (vFilterHeaderName v ?a) = Some dat" "int (length dat) = n * int HashSize"
        "drop (length dat - HashSize) dat = cFilterHeader C ?b"
      using Suc.prems(1) by (auto simp: headerRight_def filterHeaderEndRight_def)
    have st: "statFile E (vHeaderName v ?a) v = (True, ?v)" by (rule statFile_exists) (use hdr in \<open>simp add: fileExists_def\<close>)
    have "\<exists>v1. checkHeaderFile E (vHeaderName v ?a) ?a ?b x ?v = (Inr (cHash C ?b), v1)"
      by (rule checkHeaderFile_accepts [OF S(1-3) ar(1) b(3,1)]) (use Suc.prems(1) v hdr j n(2) in \<open>auto simp: zero_less_mult_iff\<close>)
    then obtain v1 where c1: "checkHeaderFile E (vHeaderName v ?a) ?a ?b x ?v = (Inr (cHash C ?b), v1)" ..
    note t1 = ticksOnly_trans [OF ticksOnly_tick keepsD [OF ticksOnly_checkHeaderFile c1]]
    have "\<exists>v2. checkFilterHeaderFile E (vFilterHeaderName v ?a) ?b v1 = (Inr (), v2)"
      by (rule checkFilterHeaderFile_accepts [OF S(1) b(2,1)]) (use ticksOnlyD [OF t1] vconfD [of v1 v] Suc.prems(1) fhd in auto)
    then obtain v2 where c2: "checkFilterHeaderFile E (vFilterHeaderName v ?a) ?b v1 = (Inr (), v2)" ..
    note t2 = ticksOnly_trans [OF t1 keepsD [OF ticksOnly_checkFilterHeaderFile c2]]
    note conf = vconfD [OF ticksOnlyD(1) [OF t2]] ticksOnlyD(2) [OF t2]
    have e: "?b = (j + 1) * n - 1" by (simp add: algebra_simps)
    have "\<exists>v'. verifyHeaderFiles turns E T ((j + 1) * n) (cHash C ?b) v2 = (Inr (), v') \<and> ticksOnly v2 v'"
      by (rule Suc.IH) (use Suc.prems(1,2) v files stop conf j jk e in \<open>auto simp: headerRight_def filterHeaderEndRight_def\<close>)
    then obtain v' where "verifyHeaderFiles turns E T ((j + 1) * n) (cHash C ?b) v2 = (Inr (), v')" "ticksOnly v2 v'" by blast
    moreover have "vHeadersPerFile v = n" using Suc.prems(1) by simp
    ultimately show ?thesis
      using st c1 c2 ar ticksOnly_trans [OF t2]
      by (auto simp: Let_def goBind_def verifyOneHeaderFile_def verifyFilterHeaderAnchor_def)
  qed
qed simp


subsection \<open>The walk over the filter files\<close>

text \<open>
  The filter headers of a range, on disk or with the running server, and what the command
  remembers of them.
\<close>

definition fhData :: "verifier \<Rightarrow> bytes \<Rightarrow> int \<Rightarrow> bytes" where
  "fhData v tail a = (case map_of (disk v) (vFilterHeaderName v a) of Some dat \<Rightarrow> dat | None \<Rightarrow> tail)"

definition fhMemo :: "verifier \<Rightarrow> bytes \<Rightarrow> bool" where
  "fhMemo v tail \<longleftrightarrow> (fHeaderCacheStart v \<noteq> -1 \<longrightarrow> fHeaderCache v = fhData v tail (fHeaderCacheStart v))"

lemma fhData_cong: "checksOnly v v' \<Longrightarrow> fhData v' tail a = fhData v tail a"
  using vconfD(9) [of v' v] by (simp add: checksOnly_def fhData_def)

lemma loadFilterHeaders_runs:
  assumes io: "\<forall>t. ioFaults E t = None" and a: "a \<noteq> -1"
    and T: "map_of (disk v) (vFilterHeaderName v a) = None \<Longrightarrow> servesTail E T C (vServerURL v) a M"
  shows "\<exists>v'. loadFilterHeaders E T a v = (Inr (), v') \<and> fHeaderCacheStart v' = a \<and>
    fHeaderCache v' = fhData v (concat (map (cFilterHeader C) [a..M])) a"
proof (cases "map_of (disk v) (vFilterHeaderName v a)")
  case None
  let ?v = "v\<lparr>now := Suc (now v)\<rparr>"
  have "servesTail E T C (vServerURL ?v) a M" using T [OF None] by simp
  from fetchInMemory_served(2) [OF this] None show ?thesis
    by (simp add: loadFilterHeaders_def goBind_def storeFilterHeaders_def goModify_def fhData_def)
next
  case (Some dat)
  then show ?thesis
    using io by (simp add: loadFilterHeaders_def goBind_def storeFilterHeaders_def goModify_def fhData_def readFile_def)
qed

lemma storedFilterHeader_runs:
  assumes io: "\<forall>t. ioFaults E t = None" and h: "0 \<le> h" "0 < vHeadersPerFile v" and a: "a = h - h mod vHeadersPerFile v"
    and T: "map_of (disk v) (vFilterHeaderName v a) = None \<Longrightarrow> a = s \<and> servesTail E T C (vServerURL v) s M"
    and tail: "tail = concat (map (cFilterHeader C) [s..M])" and memo: "fhMemo v tail"
    and x: "nat (h - a) * HashSize + HashSize \<le> length (fhData v tail a)" "take HashSize (drop (nat (h - a) * HashSize) (fhData v tail a)) = x"
  shows "\<exists>v'. storedFilterHeader E T h v = (Inr x, v') \<and> checksOnly v v' \<and> fhMemo v' tail"
proof -
  have a0: "0 \<le> a" using h a by (simp add: zmod_le_nonneg_dividend)
  let ?load = "if fHeaderCacheStart v \<noteq> a then goWrap ''error loading filter headers for height'' [h] (loadFilterHeaders E T a) else goRet ()"
  have "\<exists>v'. ?load v = (Inr (), v') \<and> fHeaderCacheStart v' = a \<and> fHeaderCache v' = fhData v tail a"
  proof (cases "fHeaderCacheStart v = a")
    case True
    with memo a0 show ?thesis by (simp add: fhMemo_def goRet_def)
  next
    case False
    have "\<exists>v'. loadFilterHeaders E T a v = (Inr (), v') \<and> fHeaderCacheStart v' = a \<and>
        fHeaderCache v' = fhData v (concat (map (cFilterHeader C) [a..M])) a"
      by (rule loadFilterHeaders_runs) (use io a0 T in auto)
    moreover have "fhData v (concat (map (cFilterHeader C) [a..M])) a = fhData v tail a"
      using T tail by (cases "map_of (disk v) (vFilterHeaderName v a)") (simp_all add: fhData_def)
    ultimately show ?thesis using False by (auto simp: goWrap_def)
  qed
  then obtain v' where v': "?load v = (Inr (), v')" "fHeaderCacheStart v' = a" "fHeaderCache v' = fhData v tail a" by blast
  then have at: "storedAttempt E T a h v = (Inr (Some x), v')"
    using x by (simp add: storedAttempt_def goBind_def goGets_def Let_def)
  note c = keepsD [OF checksOnly_storedAttempt at]
  have "storedFilterHeader E T h v = (Inr x, v')"
    using at a by (simp add: storedFilterHeader_def goBind_def goGets_def goRet_def)
  moreover have "fhMemo v' tail" using v'(2,3) fhData_cong [OF c] by (simp add: fhMemo_def)
  ultimately show ?thesis using c by blast
qed


text \<open>The filter header stored for a height is the one of the chain, and the command can get it.\<close>

definition fhStored :: "'h env \<Rightarrow> toolEnv \<Rightarrow> 'h chainData \<Rightarrow> verifier \<Rightarrow> int \<Rightarrow> int \<Rightarrow> int \<Rightarrow> bool" where
  "fhStored E T C v s M h \<longleftrightarrow>
     (let a = h - h mod vHeadersPerFile v; dat = fhData v (concat (map (cFilterHeader C) [s..M])) a in
      (fileExists (disk v) (vFilterHeaderName v a) \<or> a = s \<and> servesTail E T C (vServerURL v) s M) \<and>
      nat (h - a) * HashSize + HashSize \<le> length dat \<and> take HashSize (drop (nat (h - a) * HashSize) dat) = cFilterHeader C h)"

lemma storedFilterHeader_served:
  assumes io: "\<forall>t. ioFaults E t = None" and "0 \<le> h" "0 < vHeadersPerFile v" "fhStored E T C v s M h"
    and tail: "tail = concat (map (cFilterHeader C) [s..M])" "fhMemo v tail"
  shows "\<exists>v'. storedFilterHeader E T h v = (Inr (cFilterHeader C h), v') \<and> checksOnly v v' \<and> fhMemo v' tail"
  by (rule storedFilterHeader_runs [where s = s and C = C and M = M, OF io assms(2,3) refl _ tail])
    (use assms(4) tail(1) in \<open>auto simp: fhStored_def Let_def fileExists_def\<close>)

lemma fhStored_cong: "checksOnly v v' \<Longrightarrow> fhStored E T C v' s M h = fhStored E T C v s M h"
  using vconfD [of v' v] fhData_cong [of v v'] by (simp add: fhStored_def checksOnly_def)

text \<open>A filter file as the producer writes it parses back.\<close>

lemma readEntries_concat:
  assumes "wire_codec E" "\<forall>f \<in> set fs. length f \<le> MaxBlockPayload"
  shows "readEntries (length fs) E (concat (map (WriteVarBytes E) fs) @ rest) = Inr (fs, rest)"
  using assms(2)
proof (induction fs)
  case (Cons f fs)
  have "ReadVarBytes E MaxBlockPayload (WriteVarBytes E f @ r) = Inr (f, r)" for r
    using assms(1) Cons.prems unfolding wire_codec_def MaxBlockPayload_def by (auto simp del: append_assoc)
  with Cons show ?case by simp
qed simp

definition filterRight :: "'h env \<Rightarrow> 'h chainData \<Rightarrow> verifier \<Rightarrow> int \<Rightarrow> bool" where
  "filterRight E C v i \<longleftrightarrow> (\<exists>dat. map_of (disk v) (vFilterName v (i * vFiltersPerFile v)) = Some dat \<and>
     readEntries (nat (vFiltersPerFile v)) E dat =
       Inr (map (cFilter C) [i * vFiltersPerFile v..i * vFiltersPerFile v + vFiltersPerFile v - 1], []))"

lemma checkFilterFile_accepts:
  assumes S: "serves E C N" "validChain E C N" and m: "m = vFiltersPerFile v" "0 < m" "0 < vHeadersPerFile v" "0 \<le> i" "i * m + m - 1 \<le> N"
    and right: "filterRight E C v i" "0 < i \<Longrightarrow> fhStored E T C v s M (i * m - 1)" "fhStored E T C v s M (i * m + m - 1)"
    and tail: "tail = concat (map (cFilterHeader C) [s..M])" "fhMemo v tail"
  shows "\<exists>fs v'. checkFilterFile E T (vFilterName v (i * m)) (i * m) (i * m + m - 1) v = ((fs, Inr ()), v') \<and> checksOnly v v' \<and> fhMemo v' tail"
proof -
  let ?a = "i * m" and ?b = "i * m + m - 1" and ?fs = "map (cFilter C) [i * m..i * m + m - 1]" and ?v = "v\<lparr>now := Suc (now v)\<rparr>"
  have io: "\<forall>t. ioFaults E t = None" using servesD(2) [OF S(1)] by blast
  have "0 \<le> ?a" using m(2,4) by simp
  then have ab: "0 \<le> ?a" "?a \<le> ?b" "0 \<le> ?b" "0 < ?a \<longleftrightarrow> 0 < i" "?a = 0 \<longleftrightarrow> i = 0"
    using m(2) by (simp_all add: zero_less_mult_iff)
  have read: "vReadFilterFile E (vFilterName v ?a) v = (Inr ?fs, ?v)"
    using right(1) m(1) io
    by (auto simp: filterRight_def vReadFilterFile_def goBind_def goWrap_def readFile_def goGets_def goLift_def goRet_def)
  have c1: "checksOnly v ?v" "fhMemo ?v tail" using tail(2) by (simp_all add: fhMemo_def fhData_def vFilterHeaderName_def)
  have "\<exists>v2. (if ?a > 0 then storedFilterHeader E T (?a - 1) else goRet zeroHash) ?v = (Inr (chainStart C ?a), v2) \<and> checksOnly ?v v2 \<and> fhMemo v2 tail"
  proof (cases "0 < i")
    case True
    have "\<exists>v2. storedFilterHeader E T (?a - 1) ?v = (Inr (cFilterHeader C (?a - 1)), v2) \<and> checksOnly ?v v2 \<and> fhMemo v2 tail"
      by (rule storedFilterHeader_served [OF io _ _ _ tail(1) c1(2)]) (use True ab m right(2) in \<open>auto simp: fhStored_cong [OF c1(1)]\<close>)
    with True ab show ?thesis by (auto simp: chainStart_def)
  next
    case False
    with m(4) have "i = 0" by simp
    with c1 show ?thesis using checksOnly_preorder(1) by (auto simp: goRet_def chainStart_def dest: reflpD)
  qed
  then obtain v2 where v2: "(if ?a > 0 then storedFilterHeader E T (?a - 1) else goRet zeroHash) ?v = (Inr (chainStart C ?a), v2)"
    "checksOnly ?v v2" "fhMemo v2 tail" by blast
  note c2 = transpD [OF checksOnly_preorder(2) c1(1) v2(2)]
  have "\<exists>v3. storedFilterHeader E T ?b v2 = (Inr (cFilterHeader C ?b), v3) \<and> checksOnly v2 v3 \<and> fhMemo v3 tail"
    by (rule storedFilterHeader_served [OF io ab(3) _ _ tail(1) v2(3)])
      (use m right(3) vconfD [of v2 v] c2 in \<open>auto simp: checksOnly_def fhStored_cong [OF c2]\<close>)
  then obtain v3 where v3: "storedFilterHeader E T ?b v2 = (Inr (cFilterHeader C ?b), v3)" "checksOnly v2 v3" "fhMemo v3 tail" by blast
  have "checkFilterChain E T ?fs ?a ?b ?v = (Inr (), v3)"
    unfolding checkFilterChain_def goBind_def [of "if _ then _ else _"] v2(1)
    using v3(1) filterChain_chain [OF S(2) ab(1,2) m(5)] by (simp add: goBind_def goRet_def)
  then have "checkFilterFile E T (vFilterName v ?a) ?a ?b v = ((?fs, Inr ()), v3)"
    using read by (simp add: checkFilterFile_def)
  then show ?thesis using transpD [OF checksOnly_preorder(2) c2 v3(2)] v3(3) by blast
qed

lemma filter_walk_accepts:
  assumes S: "serves E C N" "validChain E C N"
    and m: "m = vFiltersPerFile v" "0 < m" "0 < vHeadersPerFile v" "k * m \<le> N + 1" "N < heightBound" "m \<le> heightBound"
    and right: "\<forall>i. 0 \<le> i \<and> i < k \<longrightarrow> filterRight E C v i \<and> fhStored E T C v s M (i * m + m - 1)"
    and tail: "tail = concat (map (cFilterHeader C) [s..M])" "fhMemo v tail"
    and stop: "\<not> fileExists (disk v) (vFilterName v (k * m))"
    and j: "0 \<le> j" "j \<le> k" "nat (k - j) < turns"
  shows "\<exists>v'. verifyFilterFiles turns E T (j * m) v = (Inr (), v') \<and> checksOnly v v'"
  using m(1,3) right tail(2) stop j
proof (induction turns arbitrary: j v)
  case (Suc turns)
  let ?a = "j * m" and ?b = "j * m + m - 1" and ?v = "v\<lparr>now := Suc (now v)\<rparr>"
  have c0: "checksOnly v ?v" "fhMemo ?v tail" using Suc.prems(4) by (simp_all add: fhMemo_def fhData_def vFilterHeaderName_def)
  have "j * m \<le> k * m" using Suc.prems(7) m(2) by (intro mult_right_mono) auto
  moreover have "0 \<le> j * m" using Suc.prems(6) m(2) by simp
  ultimately have "0 \<le> ?a + m - 1" "?a + m \<le> 2147483647" using m(2,4-6) unfolding heightBound_def by linarith+
  then have ar: "add32 ?a m = (j + 1) * m" "sub32 (add32 ?a m) 1 = ?b"
    by (simp_all add: add32_id sub32_id algebra_simps)
  show ?case
  proof (cases "j = k")
    case True
    then have "statFile E (vFilterName v ?a) v = (False, ?v)"
      using Suc.prems(5) servesD(2) [OF S(1)] by (simp add: statFile_def)
    then show ?thesis using c0 by (simp add: Let_def)
  next
    case False
    with Suc.prems have jk: "j < k" by simp
    have "(j + 1) * m \<le> k * m" using jk m(2) by (intro mult_right_mono) auto
    then have b: "?b \<le> N" using m(4) by (simp add: algebra_simps)
    have fr: "filterRight E C v j" using Suc.prems(3,6) jk by blast
    then have st: "statFile E (vFilterName v ?a) v = (True, ?v)"
      using Suc.prems(1) by (intro statFile_exists) (auto simp: filterRight_def fileExists_def)
    have pe: "?a - 1 = (j - 1) * m + m - 1" by (simp add: algebra_simps)
    have "\<exists>fs v'. checkFilterFile E T (vFilterName ?v ?a) ?a ?b ?v = ((fs, Inr ()), v') \<and> checksOnly ?v v' \<and> fhMemo v' tail"
    proof (rule checkFilterFile_accepts [OF S _ m(2) _ Suc.prems(6) b _ _ _ tail(1) c0(2)])
      show "filterRight E C ?v j" using fr by (simp add: filterRight_def vFilterName_def)
      show "fhStored E T C ?v s M (?a - 1)" if "0 < j" unfolding fhStored_cong [OF c0(1)] pe using Suc.prems(3) that jk by simp
      show "fhStored E T C ?v s M ?b" unfolding fhStored_cong [OF c0(1)] using Suc.prems(3,6) jk by simp
    qed (use Suc.prems in auto)
    moreover have "vFilterName ?v ?a = vFilterName v ?a" by (simp add: vFilterName_def)
    ultimately obtain fs v1 where v1: "checkFilterFile E T (vFilterName v ?a) ?a ?b ?v = ((fs, Inr ()), v1)" "checksOnly ?v v1" "fhMemo v1 tail" by auto
    note c1 = transpD [OF checksOnly_preorder(2) c0(1) v1(2)]
    have conf: "vconf v1 = vconf v" "disk v1 = disk v" using c1 by (auto simp: checksOnly_def)
    have "\<exists>v'. verifyFilterFiles turns E T ((j + 1) * m) v1 = (Inr (), v') \<and> checksOnly v1 v'"
      by (rule Suc.IH) (use Suc.prems vconfD [OF conf(1)] conf(2) v1(3) jk in \<open>auto simp: filterRight_def fhStored_cong [OF c1]\<close>)
    then obtain v' where "verifyFilterFiles turns E T ((j + 1) * m) v1 = (Inr (), v')" "checksOnly v1 v'" by blast
    then show ?thesis
      using st v1(1) ar Suc.prems(1) transpD [OF checksOnly_preorder(2) c1]
      by (auto simp: Let_def goBind_def verifyOneFilterFile_def)
  qed
qed simp


lemma fhStored_files:
  assumes V: "validChain E C N" "hash_codec E" and n: "n = vHeadersPerFile v" "0 < n" "0 \<le> k" "k * n \<le> M" "M \<le> N"
    and T: "servesTail E T C (vServerURL v) (k * n) M" and none: "\<not> fileExists (disk v) (vFilterHeaderName v (k * n))"
    and files: "\<forall>i. 0 \<le> i \<and> i < k \<longrightarrow> filterHeaderEndRight C v i"
    and h: "0 \<le> h" "h \<le> M" "h < k * n + n" "h < k * n \<Longrightarrow> storedAt v h = cFilterHeader C h"
  shows "fhStored E T C v (k * n) M h"
proof -
  let ?a = "h - h mod n" and ?i = "h div n"
  have a: "?a = ?i * n" "nat (h - ?a) = nat (h mod n)" "0 \<le> ?i"
    using h(1) n(2) by (simp add: minus_mod_eq_div_mult, simp, simp add: pos_imp_zdiv_nonneg_iff)
  have md: "0 \<le> h mod n" "h mod n < n" using n(2) by simp_all
  have lohi: "?i * n \<le> h" "h < (?i + 1) * n" using a(1) md unfolding distrib_right by linarith+
  show ?thesis
  proof (cases "h < k * n")
    case True
    then have "?i * n < k * n" using lohi(1) by linarith
    then have ik: "?i < k" using n(2) by simp
    then obtain dat where dat: "map_of (disk v) (vFilterHeaderName v ?a) = Some dat" "int (length dat) = n * int HashSize"
      using files a n(1) by (auto simp: filterHeaderEndRight_def)
    have "(h mod n + 1) * int HashSize \<le> n * int HashSize" using md by (intro mult_right_mono) auto
    then have "int (nat (h mod n) * HashSize + HashSize) \<le> int (length dat)" using dat(2) md(1) by (simp add: algebra_simps)
    then have "nat (h mod n) * HashSize + HashSize \<le> length dat" by (simp only: of_nat_le_iff)
    with dat(1) h(4) [OF True] a(2) n(1) show ?thesis by (simp add: fhStored_def fhData_def fileExists_def storedAt_def Let_def)
  next
    case False
    then have "k * n < (?i + 1) * n" "?i * n < (k + 1) * n" using lohi h(3) by (linarith, simp add: algebra_simps)
    then have "k < ?i + 1" "?i < k + 1" using n(2) by simp_all
    then have i: "?a = k * n" using a(1) by simp
    have len: "length (cFilterHeader C x) = HashSize" if "k * n \<le> x" "x \<le> M" for x
    proof -
      have "0 \<le> k * n" using n(2,3) by simp
      then show ?thesis using that cFilterHeader_length [OF V, of x] n(5) by linarith
    qed
    have "take HashSize (drop (nat (h - k * n) * HashSize) (concat (map (cFilterHeader C) [k * n..M]))) = cFilterHeader C h"
      by (rule recordAt_concat_range) (use len False h in auto)
    moreover have "nat (h - k * n) * HashSize + HashSize \<le> length (concat (map (cFilterHeader C) [k * n..M]))"
    proof -
      have "(nat (h - k * n) + 1) * HashSize \<le> length [k * n..M] * HashSize" using False h by (intro mult_le_mono1) auto
      then show ?thesis using length_concat_const [of "[k * n..M]" "cFilterHeader C" HashSize] len by simp
    qed
    ultimately show ?thesis using i none T n(1) by (simp add: fhStored_def fhData_def fileExists_def Let_def)
  qed
qed

lemma clean_run:
  assumes "serves E C N" "validChain E C N" "header_codec E" "hash_codec E" "M \<le> N" "N < heightBound"
    and "0 < vHeadersPerFile v" "0 < vFiltersPerFile v" "vHeadersPerFile v \<le> heightBound" "vFiltersPerFile v \<le> heightBound"
    and "0 \<le> k" "k * vHeadersPerFile v \<le> M" "0 \<le> l" "l * vFiltersPerFile v \<le> M + 1" "l * vFiltersPerFile v \<le> k * vHeadersPerFile v + vHeadersPerFile v"
    and "vGenesisHash v = cHash C 0" "0 \<le> vReOrgSafeDepth v" "vReOrgSafeDepth v < heightBound" "badFiles v = []" "fHeaderCacheStart v = -1"
    and "\<forall>i. 0 \<le> i \<and> i < k \<longrightarrow> headerRight E C v i \<and> filterHeaderEndRight C v i"
    and "\<forall>i. 0 \<le> i \<and> i < l \<longrightarrow> filterRight E C v i \<and>
      (i * vFiltersPerFile v + vFiltersPerFile v \<le> k * vHeadersPerFile v \<longrightarrow>
         storedAt v (i * vFiltersPerFile v + vFiltersPerFile v - 1) = cFilterHeader C (i * vFiltersPerFile v + vFiltersPerFile v - 1))"
    and "\<not> fileExists (disk v) (vHeaderName v (k * vHeadersPerFile v))" "\<not> fileExists (disk v) (vFilterHeaderName v (k * vHeadersPerFile v))"
      "\<not> fileExists (disk v) (vFilterName v (l * vFiltersPerFile v))"
    and "servesTail E T C (vServerURL v) (k * vHeadersPerFile v) M" "nat k < turns" "nat l < turns"
  shows "\<exists>v'. verifyAll turns E T v = (Inr (), v') \<and> disk v' = disk v \<and> badFiles v' = [] \<and> fixedFiles v' = fixedFiles v"
proof -
  let ?n = "vHeadersPerFile v" and ?m = "vFiltersPerFile v"
  have "\<exists>v1. verifyHeaderFiles turns E T (0 * ?n) zeroHash v = (Inr (), v1) \<and> ticksOnly v v1"
    by (rule header_walk_accepts [OF assms(1-4) refl assms(7,12,5,6,9,26,16,17,18,21,23) order_refl assms(11)]) (use assms(27) in auto)
  then obtain v1 where v1: "verifyHeaderFiles turns E T 0 zeroHash v = (Inr (), v1)" "ticksOnly v v1" by auto
  note t1 = ticksOnlyD [OF v1(2)] note conf = vconfD [OF t1(1)]
  have c1: "checksOnly v v1" by (rule ticksOnly_checks [OF v1(2)])
  have "fhStored E T C v (k * ?n) M (i * ?m + ?m - 1)" if i: "0 \<le> i" "i < l" for i
  proof -
    have "(i + 1) * ?m \<le> l * ?m" using i assms(8) by (intro mult_right_mono) auto
    moreover have "(i + 1) * ?m = i * ?m + ?m" by (simp add: algebra_simps)
    moreover have "0 \<le> i * ?m" using i assms(8) by simp
    ultimately have b: "0 \<le> i * ?m + ?m - 1" "i * ?m + ?m - 1 \<le> M" "i * ?m + ?m - 1 < k * ?n + ?n"
      using assms(8,14,15) by linarith+
    show ?thesis
      by (rule fhStored_files [OF assms(2,4) refl assms(7,11,12,5,26,24) _ b]) (use assms(21,22) i in auto)
  qed
  then have "\<exists>v2. verifyFilterFiles turns E T (0 * ?m) v1 = (Inr (), v2) \<and> checksOnly v1 v2"
    by (intro filter_walk_accepts [OF assms(1,2), where s = "k * ?n" and M = M and k = l])
      (use assms conf t1 in \<open>auto simp: fhMemo_def filterRight_def fhStored_cong [OF c1]\<close>)
  then obtain v2 where v2: "verifyFilterFiles turns E T 0 v1 = (Inr (), v2)" "checksOnly v1 v2" by auto
  have c2: "disk v2 = disk v" "badFiles v2 = []" "fixedFiles v2 = fixedFiles v" using v2(2) t1 assms(19) by (auto simp: checksOnly_def)
  then show ?thesis using v1(1) v2(1) by (simp add: verifyAll_def goBind_def)
qed


text \<open>
  Claim C21. The command raises no false alarm: over files that agree with the chain the backend
  serves, and with a running server that answers with the blocks not sealed yet, the run ends
  without an error, with or without \<open>--fix\<close>; it reports nothing and rewrites nothing. Of the
  filter-header files only the size, the last entry and the entries at the ends of filter
  files need to be right.
\<close>

theorem verify_accepts_right_files:
  assumes "serves E C N" "validChain E C N" "header_codec E" "hash_codec E" "M \<le> N" "N < heightBound"
    and "0 < vHeadersPerFile v" "0 < vFiltersPerFile v" "vHeadersPerFile v \<le> heightBound" "vFiltersPerFile v \<le> heightBound"
    and "0 \<le> k" "k * vHeadersPerFile v \<le> M" "0 \<le> l" "l * vFiltersPerFile v \<le> M + 1" "l * vFiltersPerFile v \<le> k * vHeadersPerFile v + vHeadersPerFile v"
    and "vGenesisHash v = cHash C 0" "0 \<le> vReOrgSafeDepth v" "vReOrgSafeDepth v < heightBound" "badFiles v = []" "fHeaderCacheStart v = -1"
    and "\<forall>i. 0 \<le> i \<and> i < k \<longrightarrow> headerRight E C v i \<and> filterHeaderEndRight C v i"
    and "\<forall>i. 0 \<le> i \<and> i < l \<longrightarrow> filterRight E C v i \<and>
      (i * vFiltersPerFile v + vFiltersPerFile v \<le> k * vHeadersPerFile v \<longrightarrow>
         storedAt v (i * vFiltersPerFile v + vFiltersPerFile v - 1) = cFilterHeader C (i * vFiltersPerFile v + vFiltersPerFile v - 1))"
    and "\<not> fileExists (disk v) (vHeaderName v (k * vHeadersPerFile v))" "\<not> fileExists (disk v) (vFilterHeaderName v (k * vHeadersPerFile v))"
      "\<not> fileExists (disk v) (vFilterName v (l * vFiltersPerFile v))"
    and "servesTail E T C (vServerURL v) (k * vHeadersPerFile v) M" "nat k < turns" "nat l < turns"
  shows "\<exists>v'. verifyAll turns E T v = (Inr (), v') \<and> disk v' = disk v \<and> badFiles v' = [] \<and> fixedFiles v' = fixedFiles v"
  by (rule clean_run [OF assms])

subsection \<open>Detection\<close>

text \<open>
  Claim C20. The command detects every corruption of the block header files and of the filter
  files: when a run without \<open>--fix\<close> ends without an error, on a backend whose answers come
  from one chain, then every header file it covers holds exactly the headers of that chain, every
  filter file parses to exactly its filters, every filter-header file has the right length, and the
  filter header stored for the end of every filter file is the one of the chain (unless two of the
  strings hashed collide). The disk is as it was. The files must all be there: header files for
  \<open>k\<close> ranges and filter files for the same heights. The other entries of a filter-header
  file are not claimed: the command compares them with nothing, and a run over a file in which one
  of them is wrong ends well too (\<open>interior_filter_header_unchecked\<close>).
\<close>

theorem verify_detects_corruption:
  assumes run: "verifyAll turns E T v = (Inr (), v')" and v: "\<not> vFix v" "fHeaderCacheStart v = -1"
    and A: "answersFrom E C N" "validChain E C N" "header_codec E" "hash_codec E"
    and n: "0 < vFiltersPerFile v" "vHeadersPerFile v = q * vFiltersPerFile v" "0 < q"
    and k: "0 < k" "k * vHeadersPerFile v \<le> N + 1" "N < heightBound"
    and files: "\<forall>i. 0 \<le> i \<and> i < k \<longrightarrow> fileExists (disk v) (vHeaderName v (i * vHeadersPerFile v))"
      "\<forall>i. 0 \<le> i \<and> i < k * q \<longrightarrow> fileExists (disk v) (vFilterName v (i * vFiltersPerFile v))"
    and inj: "inj_on (DoubleHash E) (hashedHeaders E C v N)" "inj_on (DoubleHash E) (hashedFilters E C v N)"
  shows "disk v' = disk v \<and>
    (\<forall>i. 0 \<le> i \<and> i < k \<longrightarrow> map_of (disk v) (vHeaderName v (i * vHeadersPerFile v)) =
       Some (headersOf E (cHeader C) (i * vHeadersPerFile v) (i * vHeadersPerFile v + vHeadersPerFile v - 1))) \<and>
    (\<forall>i. 0 \<le> i \<and> i < k \<longrightarrow> (\<exists>dat. map_of (disk v) (vFilterHeaderName v (i * vHeadersPerFile v)) = Some dat \<and>
       int (length dat) = vHeadersPerFile v * int HashSize)) \<and>
    (\<forall>i. 0 \<le> i \<and> i < k * q \<longrightarrow>
       (\<exists>dat. map_of (disk v) (vFilterName v (i * vFiltersPerFile v)) = Some dat \<and>
          readEntries (nat (vFiltersPerFile v)) E dat =
            Inr (map (cFilter C) [i * vFiltersPerFile v..i * vFiltersPerFile v + vFiltersPerFile v - 1], [])) \<and>
       storedAt v (i * vFiltersPerFile v + vFiltersPerFile v - 1) = cFilterHeader C (i * vFiltersPerFile v + vFiltersPerFile v - 1))"
proof -
  let ?n = "vHeadersPerFile v" and ?m = "vFiltersPerFile v"
  have n0: "0 < ?n" using n by simp
  have km: "k * q * ?m = k * ?n" using n(2) by simp
  from run obtain v1 where h: "verifyHeaderFiles turns E T (0 * ?n) zeroHash v = (Inr (), v1)"
    and f: "verifyFilterFiles turns E T (0 * ?m) v1 = (Inr (), v')" and b: "badFiles v' = []"
    by (auto simp: verifyAll_def goBind_Inr split: if_splits)
  have inv: "fhInv v" using v(2) by (simp add: fhInv_def)
  note r1 = keepsD [OF verifyHeaderFiles_reports h] and r2 = keepsD [OF verifyFilterFiles_reports f]
  have c1: "vconf v1 = vconf v" "disk v1 = disk v" "fhInv v1" using r1 v(1) inv by (auto simp: reportsOnly_def)
  note same1 = vconfD [OF c1(1)]
  have nf: "\<not> vFix v1" using same1 v(1) by simp
  have b1: "badFiles v1 = []" by (rule reportsOnly_bad [OF r2 nf b])
  have d: "disk v' = disk v" using r2 nf c1 by (auto simp: reportsOnly_def)
  note hdr = clean_headers [OF h v(1) b1 A(1-3) refl n0 k(2,3) files(1) inj(1)]
  have st: "storedAt v1 = storedAt v" "hashedFilters E C v1 N = hashedFilters E C v N"
    using same1 c1(2) by (simp_all add: storedAt_def [abs_def] hashedFilters_def)
  have fh: "fileExists (disk v1) (vFilterHeaderName v1 (h - h mod vHeadersPerFile v1))" if "0 \<le> h" "h < k * ?n" for h
  proof -
    have "h - h mod ?n = (h div ?n) * ?n" by (simp add: minus_mod_eq_div_mult)
    moreover have "0 \<le> h div ?n" using that n0 by (simp add: pos_imp_zdiv_nonneg_iff)
    moreover have "h div ?n < k"
    proof -
      have "0 \<le> h mod ?n" using n0 by simp
      then have "h div ?n * ?n < k * ?n" using that div_mult_mod_eq [of h ?n] by linarith
      then show ?thesis using n0 by (simp add: mult_less_cancel_right)
    qed
    ultimately show ?thesis using hdr(2) [of "h div ?n"] same1 c1(2) by (auto simp: fileExists_def)
  qed
  obtain dat where dat: "map_of (disk v) (vFilterHeaderName v ((k - 1) * ?n)) = Some dat" "int (length dat) = ?n * int HashSize"
    "drop (length dat - HashSize) dat = cFilterHeader C ((k - 1) * ?n + ?n - 1)" using hdr(2) [of "k - 1"] k(1) by auto
  have kn: "(k - 1) * ?n + ?n - 1 = k * ?n - 1" by (simp add: algebra_simps)
  have last: "storedAt v (k * ?n - 1) = cFilterHeader C (k * ?n - 1)"
    using storedAt_end [OF n0 dat(1,2)] dat(3) kn by simp
  have flt: "(\<exists>dat. map_of (disk v1) (vFilterName v1 (i * ?m)) = Some dat \<and>
      readEntries (nat ?m) E dat = Inr (map (cFilter C) [i * ?m..i * ?m + ?m - 1], [])) \<and>
      storedAt v1 (i * ?m + ?m - 1) = cFilterHeader C (i * ?m + ?m - 1)" if "0 \<le> i" "i < k * q" for i
    by (rule clean_filters [OF f nf b c1(3) A(2,4) _ n(1) _ k(3) _ _ _ _ _ that])
      (use same1 c1(2) files(2) k(2) n0 fh last st inj(2) in \<open>simp_all add: km\<close>)
  have len: "\<forall>i. 0 \<le> i \<and> i < k \<longrightarrow> (\<exists>dat. map_of (disk v) (vFilterHeaderName v (i * ?n)) = Some dat \<and> int (length dat) = ?n * int HashSize)"
    using hdr(2) by blast
  show ?thesis using d hdr(1) flt c1(2) same1 st(1) len by simp
qed

subsection \<open>Concrete runs\<close>

text \<open>The first three blocks of the miniature chain; block 2 is with the running server.\<close>

lemma miniData_three: "serves (miniEnv 2) miniData 2 \<and> validChain (miniEnv 2) miniData 2"
proof -
  have three: "(0 \<le> h \<and> h \<le> 2) = (h = 0 \<or> h = 1 \<or> h = 2)" for h :: int by auto
  have "serves (miniEnv 2) miniData 2"
    unfolding serves_def three
    by (auto simp: miniEnv_def miniChain_def miniData_def miniBlockHash_def miniFilterHeader_def hex_digit_def)
  moreover have "validChain (miniEnv 2) miniData 2"
    unfolding validChain_def three
    by (auto simp: miniEnv_def miniData_def miniBlockHash_def miniFilterHeader_def miniHash_def zeroHash_def)
  ultimately show ?thesis ..
qed

definition miniHeaders :: bytes where "miniHeaders = miniSerialize (0, -1) @ miniSerialize (1, 0)"
definition miniFilters :: bytes where "miniFilters = [1, 0, 1, 1]"

lemma mini_headersOf: "headersOf (miniEnv t) (cHeader miniData) 0 1 = miniHeaders" "headersOf (miniEnv t) (cHeader miniData) 2 2 = miniSerialize (2, 1)"
  by (simp_all add: headersOf_def miniHeaders_def miniEnv_def miniData_def upto_01)

lemma mini_tail: "servesTail (miniEnv t) miniTool miniData ''s'' 2 2"
proof -
  have "intString 2 = ''2''" by code_simp
  then show ?thesis
    by (simp add: servesTail_def miniTool_def memoryHeadersRoute_def memoryFilterHeadersRoute_def mini_headersOf) (simp add: miniData_def)
qed

lemma mini_entries: "readEntries 2 (miniEnv t) miniFilters = Inr ([[0], [1]], [])"
proof -
  have d: "miniFilters = concat (map (WriteVarBytes (miniEnv t)) [[0], [1]]) @ []"
    by (simp add: miniFilters_def miniEnv_def compactSize_def)
  have l: "length [[0], [1 :: byte]] = 2" by simp
  have "readEntries (length [[0], [1 :: byte]]) (miniEnv t) (concat (map (WriteVarBytes (miniEnv t)) [[0], [1]]) @ []) = Inr ([[0], [1]], [])"
    by (rule readEntries_concat) (auto simp: MaxBlockPayload_def)
  then show ?thesis unfolding d [symmetric] l .
qed

lemma mini_filterRight:
  "filterRight (miniEnv t) miniData (miniVerifier fx (miniDisk hs fhs miniFilters)) 0"
  using mini_entries [of t] by (simp add: filterRight_def mini_lookup miniData_def upto_01)

text \<open>Whatever the first entry of the filter-header file is, a run over an otherwise right disk is clean.\<close>

lemma mini_clean:
  fixes junk :: bytes and fx :: bool
  defines "v \<equiv> miniVerifier fx (miniDisk miniHeaders (junk @ miniFilterHeader 1) miniFilters)"
  assumes "length junk = 32"
  shows "headerRight (miniEnv 2) miniData v 0" "filterHeaderEndRight miniData v 0" "storedAt v 1 = miniFilterHeader 1"
    "\<not> fileExists (disk v) (vHeaderName v 2)" "\<not> fileExists (disk v) (vFilterHeaderName v 2)" "\<not> fileExists (disk v) (vFilterName v 2)"
proof -
  have l: "length (miniFilterHeader 1) = 32" by (simp add: miniFilterHeader_def)
  show "headerRight (miniEnv 2) miniData v 0" by (simp add: headerRight_def v_def mini_lookup mini_headersOf)
  show "filterHeaderEndRight miniData v 0"
    using assms(2) l by (simp add: filterHeaderEndRight_def v_def mini_lookup HashSize_def miniData_def)
  show "storedAt v 1 = miniFilterHeader 1"
    using assms(2) l by (simp add: storedAt_def v_def mini_lookup HashSize_def)
  have "vFilterHeaderName v 2 = blockFileName FilterHeaderFileSuffix (joinPath ''/d'' HeaderFileDir) 2 3"
    by (simp add: v_def vFilterHeaderName_def add32_id sub32_id)
  then have "map_of (disk v) (vFilterHeaderName v 2) = None"
    by (simp add: v_def miniDisk_def blockFileName_eq_iff suffix_distinct suffix_distinct [symmetric])
  then show "\<not> fileExists (disk v) (vFilterHeaderName v 2)" by (simp add: fileExists_def)
  show "\<not> fileExists (disk v) (vHeaderName v 2)" "\<not> fileExists (disk v) (vFilterName v 2)"
    by (simp_all add: v_def fileExists_def mini_lookup)
qed

lemma verify_accepts_right_files_witness:
  "fst (verifyAll 2 (miniEnv 2) miniTool (miniVerifier False (miniDisk miniHeaders (miniFilterHeader 0 @ miniFilterHeader 1) miniFilters))) = Inr ()"
proof -
  let ?v = "miniVerifier False (miniDisk miniHeaders (miniFilterHeader 0 @ miniFilterHeader 1) miniFilters)"
  have "length (miniFilterHeader 0) = 32" by (simp add: miniFilterHeader_def)
  note clean = mini_clean [OF this, of False]
  have one: "0 \<le> i \<and> i < 1 \<longleftrightarrow> i = 0" for i :: int by auto
  show ?thesis
    using verify_accepts_right_files [OF conjunct1 [OF miniData_three] conjunct2 [OF miniData_three], of 2 ?v 1 1 miniTool 2]
      clean mini_tail [of 2] mini_filterRight [of 2 False]
    by (auto simp: one heightBound_def miniData_def)
qed


text \<open>
  An entry of a filter-header file that is not the last of its file and not at the end of a
  filter file is compared with nothing: here the filter header of block 0 is wrong, and the
  run is clean.
\<close>

lemma interior_filter_header_unchecked:
  "fst (verifyAll 2 (miniEnv 2) miniTool (miniVerifier False (miniDisk miniHeaders (miniFilterHeader 77 @ miniFilterHeader 1) miniFilters))) = Inr () \<and>
   miniFilterHeader 77 \<noteq> cFilterHeader miniData 0"
proof -
  let ?v = "miniVerifier False (miniDisk miniHeaders (miniFilterHeader 77 @ miniFilterHeader 1) miniFilters)"
  have "length (miniFilterHeader 77) = 32" by (simp add: miniFilterHeader_def)
  note clean = mini_clean [OF this, of False]
  have one: "0 \<le> i \<and> i < 1 \<longleftrightarrow> i = 0" for i :: int by auto
  have "fst (verifyAll 2 (miniEnv 2) miniTool ?v) = Inr ()"
    using clean_run [OF conjunct1 [OF miniData_three] conjunct2 [OF miniData_three], of 2 ?v 1 1 miniTool 2]
      clean mini_tail [of 2] mini_filterRight [of 2 False]
    by (auto simp: one heightBound_def miniData_def)
  then show ?thesis by (simp add: miniData_def miniFilterHeader_def)
qed

lemma answersFrom_mono: "answersFrom E C N \<Longrightarrow> N' \<le> N \<Longrightarrow> answersFrom E C N'"
  by (simp add: answersFrom_def)

lemma mini_hashedFilters:
  "hashedFilters (miniEnv t) miniData (miniVerifier fx (miniDisk hs fhs miniFilters)) 1 \<subseteq>
     {[0], [1], miniHash [0] @ zeroHash, miniHash [1] @ miniFilterHeader 0}"
proof
  fix s
  assume "s \<in> hashedFilters (miniEnv t) miniData (miniVerifier fx (miniDisk hs fhs miniFilters)) 1"
  then consider (chain) h where "0 \<le> h" "h \<le> 1" "s = cFilter miniData h \<or> s = miniHash (cFilter miniData h) @ chainStart miniData h"
    | (entry) i fs dat where "0 \<le> i" "map_of (miniDisk hs fhs miniFilters) (vFilterName (miniVerifier fx (miniDisk hs fhs miniFilters)) (i * 2)) = Some dat"
      "readEntries 2 (miniEnv t) dat = Inr (fs, [])" "i * 2 + 2 - 1 \<le> 1"
      "s \<in> set (chainInputs (miniEnv t) (if i = 0 then zeroHash else storedAt (miniVerifier fx (miniDisk hs fhs miniFilters)) (i * 2 - 1)) fs)"
    unfolding hashedFilters_def by (auto simp: miniEnv_def)
  then show "s \<in> {[0], [1], miniHash [0] @ zeroHash, miniHash [1] @ miniFilterHeader 0}"
  proof cases
    case chain
    then have "h = 0 \<or> h = 1" by auto
    with chain show ?thesis by (auto simp: miniData_def chainStart_def)
  next
    case entry
    then have "i = 0" by simp
    with entry(2) have "dat = miniFilters" by (simp add: mini_lookup)
    then have "fs = [[0], [1]]" using entry(3) mini_entries [of t] by simp
    with \<open>i = 0\<close> entry(5) show ?thesis by (auto simp: miniEnv_def miniHash_def miniFilterHeader_def zeroHash_def)
  qed
qed

lemma mini_inj_filters: "inj_on miniHash {[0], [1], miniHash [0] @ zeroHash, miniHash [1] @ miniFilterHeader 0}" (is "inj_on _ ?S")
proof (rule inj_onI)
  fix x y
  assume xy: "x \<in> ?S" "y \<in> ?S" and eq: "miniHash x = miniHash y"
  have "hd (miniHash x) = hd (miniHash y)" "last (miniHash x) = last (miniHash y)" by (simp_all add: eq)
  then show "x = y" using xy by (auto simp: miniHash_def zeroHash_def miniFilterHeader_def)
qed

lemma verify_detects_corruption_witness:
  "storedAt (miniVerifier False (miniDisk miniHeaders (miniFilterHeader 0 @ miniFilterHeader 1) miniFilters)) 1 = miniFilterHeader 1"
proof -
  let ?v = "miniVerifier False (miniDisk miniHeaders (miniFilterHeader 0 @ miniFilterHeader 1) miniFilters)"
  have "length (miniFilterHeader 0) = 32" by (simp add: miniFilterHeader_def)
  note clean = mini_clean [OF this, of False]
  have one: "0 \<le> i \<and> i < 1 \<longleftrightarrow> i = 0" for i :: int by auto
  have run: "\<exists>v'. verifyAll 2 (miniEnv 2) miniTool ?v = (Inr (), v')"
    using clean_run [OF conjunct1 [OF miniData_three] conjunct2 [OF miniData_three], of 2 ?v 1 1 miniTool 2]
      clean mini_tail [of 2] mini_filterRight [of 2 False]
    by (auto simp: one heightBound_def miniData_def)
  have A: "answersFrom (miniEnv 2) miniData 1" "validChain (miniEnv 2) miniData 1"
    using serves_answersFrom [OF conjunct1 [OF miniData_three]] answersFrom_mono [of "miniEnv 2" miniData 2 1] conjunct2 [OF miniData_three]
    by (auto simp: validChain_def)
  have H: "inj_on (DoubleHash (miniEnv 2)) (hashedHeaders (miniEnv 2) miniData ?v 1)"
  proof (rule inj_on_subset)
    show "inj_on (DoubleHash (miniEnv 2)) {replicate 80 9, miniSerialize (0, -1), miniSerialize (1, 0)}" using mini_inj by (simp add: miniEnv_def)
    show "hashedHeaders (miniEnv 2) miniData ?v 1 \<subseteq> {replicate 80 9, miniSerialize (0, -1), miniSerialize (1, 0)}"
      by (rule mini_hashed) (simp_all add: recordAt_def miniHeaders_def MaxBlockHeaderPayload_def miniSerialize_def)
  qed
  have F: "inj_on (DoubleHash (miniEnv 2)) (hashedFilters (miniEnv 2) miniData ?v 1)"
    by (rule inj_on_subset [OF _ mini_hashedFilters]) (use mini_inj_filters in \<open>simp add: miniEnv_def\<close>)
  obtain v' where "verifyAll 2 (miniEnv 2) miniTool ?v = (Inr (), v')" using run ..
  from verify_detects_corruption [OF this _ _ A, of 1 1] H F clean show ?thesis
    by (simp add: one heightBound_def miniData_def fileExists_def mini_lookup)
qed

end
