(* ===== verification/CacheLock.thy ===== *)
theory CacheLock
  imports Prelude
begin

text \<open>
  The lock of \<open>height-to-hash-cache.go\<close>, a \<open>sync.RWMutex\<close>, on its own: the other
  theories take a turn of a task or a request as one step, and keep of the lock only whether a
  request has been left waiting for it for good (\<open>writerWaits\<close>, \<open>Handlers.getBlockHashHolding\<close>);
  this one looks at the order in which goroutines ask for the lock. A goroutine is the list of the lock operations it has
  still to do. As the documentation of \<open>sync.RWMutex\<close> says, \<open>Lock\<close> first announces
  itself, which keeps new readers out, and then waits for the readers that hold the lock; a
  goroutine that holds a read lock gets no privilege from that.

  The operations of the cache alone cannot block each other for good. The handlers that take
  the read lock themselves and then call \<open>getBlockHash\<close>, which takes it again, can.
\<close>

subsection \<open>The lock\<close>

datatype lockOp = RLock | RUnlock | LockAnnounce | LockAcquire | Unlock

record rwLock =
  holders :: "nat list"
  waiting :: "nat option"
  writer :: "nat option"

fun lockDo :: "nat \<Rightarrow> lockOp \<Rightarrow> rwLock \<Rightarrow> rwLock option" where
  "lockDo t RLock L = (if waiting L = None \<and> writer L = None then Some (L\<lparr>holders := t # holders L\<rparr>) else None)"
| "lockDo t RUnlock L = Some (L\<lparr>holders := remove1 t (holders L)\<rparr>)"
| "lockDo t LockAnnounce L = (if waiting L = None \<and> writer L = None then Some (L\<lparr>waiting := Some t\<rparr>) else None)"
| "lockDo t LockAcquire L = (if holders L = [] then Some (L\<lparr>waiting := None, writer := Some t\<rparr>) else None)"
| "lockDo t Unlock L = Some (L\<lparr>writer := None\<rparr>)"

definition freeLock :: rwLock where "freeLock = \<lparr>holders = [], waiting = None, writer = None\<rparr>"

type_synonym lockSystem = "rwLock \<times> (nat \<Rightarrow> lockOp list)"

inductive lockStep :: "lockSystem \<Rightarrow> lockSystem \<Rightarrow> bool" where
  lock_step: "prog t = op # ops \<Longrightarrow> lockDo t op L = Some L' \<Longrightarrow> lockStep (L, prog) (L', prog(t := ops))"

inductive lockReach :: "lockSystem \<Rightarrow> lockSystem \<Rightarrow> bool" where
  lock_refl: "lockReach C C"
| lock_more: "lockReach C C1 \<Longrightarrow> lockStep C1 C2 \<Longrightarrow> lockReach C C2"

inductive_cases lockStepE: "lockStep (L, prog) C"

subsection \<open>What the code asks for\<close>

text \<open>\<open>getBlockHash\<close> on a hit (or when the backend fails) and on a miss, and \<open>invalidate\<close>.\<close>

definition getBlockHashLocks :: "bool \<Rightarrow> lockOp list" where
  "getBlockHashLocks miss = [RLock] @ (if miss then [RUnlock, LockAnnounce, LockAcquire, Unlock, RLock] else []) @ [RUnlock]"

definition invalidateLocks :: "lockOp list" where
  "invalidateLocks = [LockAnnounce, LockAcquire, Unlock]"

text \<open>The handlers that look up a hash with the read lock already taken.\<close>

definition statusRequestLocks :: "bool \<Rightarrow> lockOp list" where
  "statusRequestLocks miss = [RLock] @ getBlockHashLocks miss @ [RUnlock]"

subsection \<open>The operations of the cache alone\<close>

text \<open>Programs that never ask for the lock while they have it.\<close>

fun unnested :: "lockOp list \<Rightarrow> bool" where
  "unnested [] \<longleftrightarrow> True"
| "unnested (RLock # RUnlock # ops) \<longleftrightarrow> unnested ops"
| "unnested (LockAnnounce # LockAcquire # Unlock # ops) \<longleftrightarrow> unnested ops"
| "unnested _ \<longleftrightarrow> False"

lemma unnested_Cons:
  "unnested (op # ops) \<longleftrightarrow> op = RLock \<and> (\<exists>r. ops = RUnlock # r \<and> unnested r) \<or>
     op = LockAnnounce \<and> (\<exists>r. ops = LockAcquire # Unlock # r \<and> unnested r)"
  by (cases "op # ops" rule: unnested.cases) auto

lemma unnested_append: "unnested xs \<Longrightarrow> unnested (xs @ ys) = unnested ys"
  by (induction xs rule: unnested.induct) simp_all

text \<open>A goroutine that does any number of operations of the cache.\<close>

definition cacheUser :: "lockOp list \<Rightarrow> bool" where
  "cacheUser ops \<longleftrightarrow> (\<exists>calls. set calls \<subseteq> {getBlockHashLocks False, getBlockHashLocks True, invalidateLocks} \<and> ops = concat calls)"

lemma cacheUser_unnested:
  assumes "cacheUser ops"
  shows "unnested ops"
proof -
  have "unnested (concat calls)" if "set calls \<subseteq> {getBlockHashLocks False, getBlockHashLocks True, invalidateLocks}" for calls
    using that
  proof (induction calls)
    case (Cons x xs)
    then have "unnested x" by (auto simp: getBlockHashLocks_def invalidateLocks_def)
    with Cons show ?case by (simp add: unnested_append)
  qed simp
  with assms show ?thesis by (auto simp: cacheUser_def)
qed

text \<open>Where a goroutine is, and what the lock then knows of it.\<close>

definition lockPhase :: "rwLock \<Rightarrow> nat \<Rightarrow> lockOp list \<Rightarrow> bool" where
  "lockPhase L t ops \<longleftrightarrow>
     unnested ops \<and> count_list (holders L) t = 0 \<and> waiting L \<noteq> Some t \<and> writer L \<noteq> Some t \<or>
     (\<exists>r. ops = RUnlock # r \<and> unnested r) \<and> count_list (holders L) t = 1 \<and> waiting L \<noteq> Some t \<and> writer L \<noteq> Some t \<or>
     (\<exists>r. ops = LockAcquire # Unlock # r \<and> unnested r) \<and> count_list (holders L) t = 0 \<and> waiting L = Some t \<and> writer L = None \<or>
     (\<exists>r. ops = Unlock # r \<and> unnested r) \<and> count_list (holders L) t = 0 \<and> waiting L = None \<and> writer L = Some t"

lemma count_list_remove1: "count_list (remove1 x xs) y = (if x = y then count_list xs y - 1 else count_list xs y)"
  by (induction xs) (auto simp: count_list_0_iff)

lemma phase_step:
  assumes "\<forall>t. lockPhase L t (prog t)" "lockStep (L, prog) (L', prog')"
  shows "\<forall>t. lockPhase L' t (prog' t)"
  using assms(2)
proof (rule lockStepE)
  fix t op ops L1
  assume C: "(L', prog') = (L1, prog(t := ops))" and p: "prog t = op # ops" and d: "lockDo t op L = Some L1"
  have me: "lockPhase L t (op # ops)" using assms(1) p by metis
  have "lockPhase L1 t ops"
    using me d by (cases op) (auto simp: lockPhase_def unnested_Cons count_list_remove1 split: if_splits)
  moreover have "lockPhase L1 u (prog u)" if "u \<noteq> t" for u
  proof -
    have ph: "lockPhase L u (prog u)" using assms(1) by blast
    have same: "count_list (holders L1) u = count_list (holders L) u"
      using d that by (cases op) (auto simp: count_list_remove1 split: if_splits)
    have "waiting L1 = waiting L \<and> writer L1 = writer L \<or>
        waiting L \<in> {None, Some t} \<and> writer L \<in> {None, Some t} \<and> waiting L1 \<in> {None, Some t} \<and> writer L1 \<in> {None, Some t}"
      using me d by (cases op) (auto simp: lockPhase_def unnested_Cons split: if_splits)
    then show ?thesis
    proof
      assume "waiting L1 = waiting L \<and> writer L1 = writer L"
      with ph same show ?thesis by (simp add: lockPhase_def)
    next
      assume w: "waiting L \<in> {None, Some t} \<and> writer L \<in> {None, Some t} \<and> waiting L1 \<in> {None, Some t} \<and> writer L1 \<in> {None, Some t}"
      then have "waiting L \<noteq> Some u" "writer L \<noteq> Some u" "waiting L1 \<noteq> Some u" "writer L1 \<noteq> Some u" using that by auto
      with ph same show ?thesis by (simp add: lockPhase_def)
    qed
  qed
  ultimately show ?thesis using C by auto
qed

lemma phase_reach:
  assumes "lockReach C C'" "\<forall>t. lockPhase (fst C) t (snd C t)"
  shows "\<forall>t. lockPhase (fst C') t (snd C' t)"
  using assms
proof (induction rule: lockReach.induct)
  case (lock_more C C1 C2)
  then show ?case using phase_step [of "fst C1" "snd C1" "fst C2" "snd C2"] by simp
qed simp

text \<open>Somebody can always go on.\<close>

lemma phase_progress:
  assumes P: "\<forall>t. lockPhase L t (prog t)" and todo: "prog u \<noteq> []"
  shows "\<exists>C. lockStep (L, prog) C"
proof -
  have go: "\<exists>C. lockStep (L, prog) C" if "prog t = op # ops" "lockDo t op L = Some L'" for t op ops L'
    using lock_step [of prog t op ops L L'] that by blast
  show ?thesis
  proof (cases "writer L")
    case (Some t)
    then obtain r where "prog t = Unlock # r" using P [rule_format, of t] by (auto simp: lockPhase_def)
    then show ?thesis by (rule go) simp
  next
    case free: None
    show ?thesis
    proof (cases "holders L")
      case (Cons t ts)
      then obtain r where "prog t = RUnlock # r" using P [rule_format, of t] by (auto simp: lockPhase_def)
      then show ?thesis by (rule go) simp
    next
      case none: Nil
      show ?thesis
      proof (cases "waiting L")
        case (Some t)
        then obtain r where "prog t = LockAcquire # r" using P [rule_format, of t] by (auto simp: lockPhase_def)
        then show ?thesis by (rule go) (use none in simp)
      next
        case None
        obtain op ops where p: "prog u = op # ops" using todo by (cases "prog u") auto
        then have "op = RLock \<or> op = LockAnnounce" using P [rule_format, of u] free none None by (auto simp: lockPhase_def unnested_Cons)
        then show ?thesis using go [OF p] free None by auto
      qed
    qed
  qed
qed

text \<open>
  Claim C39. The operations of the cache never block each other for good: with any number of
  goroutines that each do any sequence of lookups, hits and misses, and invalidations, in
  whatever way they interleave, there is always one that can go on until all are done.
\<close>

theorem cache_lock_deadlock_free:
  assumes "\<forall>t. cacheUser (prog t)" "lockReach (freeLock, prog) (L, prog')" "prog' u \<noteq> []"
  shows "\<exists>C. lockStep (L, prog') C"
proof (rule phase_progress)
  have "\<forall>t. lockPhase freeLock t (prog t)"
    using assms(1) cacheUser_unnested by (auto simp: lockPhase_def freeLock_def)
  then show "\<forall>t. lockPhase L t (prog' t)" using phase_reach [OF assms(2)] by simp
  show "prog' u \<noteq> []" by (rule assms(3))
qed

lemma cache_lock_deadlock_free_witness:
  "\<exists>C. lockStep (freeLock\<lparr>holders := [1]\<rparr>, (\<lambda>t. if t = 1 then [RUnlock] else if t = 2 then getBlockHashLocks True else [])) C"
proof -
  let ?p = "\<lambda>t :: nat. if t = 1 then getBlockHashLocks False else if t = 2 then getBlockHashLocks True else []"
  have "cacheUser []" "cacheUser (getBlockHashLocks m)" for m
    unfolding cacheUser_def by (rule exI [of _ "[]"], simp) (rule exI [of _ "[getBlockHashLocks m]"], cases m, simp_all)
  then have u: "\<forall>t. cacheUser (?p t)" by simp
  have "lockStep (freeLock, ?p) (freeLock\<lparr>holders := [1]\<rparr>, ?p(1 := [RUnlock]))"
    by (rule lock_step [where op = RLock]) (simp_all add: getBlockHashLocks_def freeLock_def)
  from lock_more [OF lock_refl this] have "lockReach (freeLock, ?p) (freeLock\<lparr>holders := [1]\<rparr>, ?p(1 := [RUnlock]))" .
  moreover have "?p(1 := [RUnlock]) = (\<lambda>t. if t = 1 then [RUnlock] else if t = 2 then getBlockHashLocks True else [])" by auto
  ultimately show ?thesis using cache_lock_deadlock_free [OF u, of _ _ 1] by simp
qed

subsection \<open>The handlers that take the lock twice\<close>

text \<open>
  Claim C40. A handler that looks up a hash that is not in the cache, with the read lock taken, waits for
  the end of its own read: whatever the others do, it never answers.
\<close>

theorem nested_miss_never_answers:
  assumes "lockReach C C'" "snd C t = statusRequestLocks True" "count_list (holders (fst C)) t = 0"
  shows "snd C' t \<noteq> []"
proof -
  let ?rest = "[LockAnnounce, LockAcquire, Unlock, RLock, RUnlock, RUnlock]"
  have "(snd C' t, count_list (holders (fst C')) t) \<in>
      {(RLock # RLock # RUnlock # ?rest, 0), (RLock # RUnlock # ?rest, 1), (RUnlock # ?rest, 2), (?rest, 1), (tl ?rest, 1)}"
    using assms
  proof (induction rule: lockReach.induct)
    case (lock_refl C)
    then show ?case by (simp add: statusRequestLocks_def getBlockHashLocks_def)
  next
    case (lock_more C C1 C2)
    from lock_more.hyps(2) obtain prog L L' u op ops where s: "C1 = (L, prog)" "prog u = op # ops" "lockDo u op L = Some L'" "C2 = (L', prog(u := ops))"
      by (auto elim: lockStep.cases)
    have IH: "(prog t, count_list (holders L) t) \<in>
        {(RLock # RLock # RUnlock # ?rest, 0), (RLock # RUnlock # ?rest, 1), (RUnlock # ?rest, 2), (?rest, 1), (tl ?rest, 1)}"
      using lock_more.IH [OF lock_more.prems] s(1) by simp
    show ?case
    proof (cases "u = t")
      case True
      have "op = LockAcquire \<Longrightarrow> count_list (holders L) t = 0" using s(3) by (auto split: if_splits)
      moreover have "count_list (holders L') t = (if op = RLock then count_list (holders L) t + 1
          else if op = RUnlock then count_list (holders L) t - 1 else count_list (holders L) t)"
        using s(3) True by (cases op) (auto simp: count_list_remove1 split: if_splits)
      ultimately show ?thesis using IH s(2,4) True by (elim insertE emptyE) simp_all
    next
      case False
      have "count_list (holders L') t = count_list (holders L) t" using s(3) False by (cases op) (auto simp: count_list_remove1 split: if_splits)
      with IH s False show ?thesis by simp
    qed
  qed
  then show ?thesis by auto
qed

lemma nested_miss_never_answers_witness:
  "snd (freeLock\<lparr>holders := [0]\<rparr>, (\<lambda>t :: nat. getBlockHashLocks True)(0 := getBlockHashLocks True @ [RUnlock])) 0 \<noteq> []"
proof -
  let ?p = "(\<lambda>t :: nat. getBlockHashLocks True)(0 := statusRequestLocks True)"
  have "lockStep (freeLock, ?p) (freeLock\<lparr>holders := [0]\<rparr>, ?p(0 := getBlockHashLocks True @ [RUnlock]))"
    by (rule lock_step [where op = RLock]) (simp_all add: statusRequestLocks_def freeLock_def)
  from nested_miss_never_answers [OF lock_more [OF lock_refl this], of 0] show ?thesis by (simp add: freeLock_def)
qed

text \<open>
  Even on a hit: when a producer that has a hash to store announces itself between the two
  read locks of a handler, both wait for the other, and everybody else for them.
\<close>

lemma nested_read_lock_deadlocks:
  assumes "prog 0 = statusRequestLocks False" "prog 1 = getBlockHashLocks True"
  obtains L prog' where "lockReach (freeLock, prog) (L, prog')" "prog' 0 \<noteq> []" "prog' 1 \<noteq> []" "lockDo 0 (hd (prog' 0)) L = None"
    "lockDo 1 (hd (prog' 1)) L = None" "\<And>t. lockDo t RLock L = None"
proof -
  let ?w = "[LockAcquire, Unlock, RLock, RUnlock]" and ?r = "[RLock, RUnlock, RUnlock]"
  have p: "prog 1 = RLock # RUnlock # LockAnnounce # ?w" "prog 0 = RLock # ?r"
    using assms by (simp_all add: statusRequestLocks_def getBlockHashLocks_def)
  let ?p1 = "prog(1 := RUnlock # LockAnnounce # ?w)"
  let ?p2 = "?p1(1 := LockAnnounce # ?w)"
  let ?p3 = "?p2(0 := ?r)"
  let ?L = "\<lambda>hs w. \<lparr>holders = hs, waiting = w, writer = None\<rparr>"
  have "lockStep (freeLock, prog) (?L [1] None, ?p1)" by (rule lock_step [where op = RLock]) (use p in \<open>simp_all add: freeLock_def\<close>)
  moreover have "lockStep (?L [1] None, ?p1) (?L [] None, ?p2)" by (rule lock_step [where op = RUnlock]) simp_all
  moreover have "lockStep (?L [] None, ?p2) (?L [0] None, ?p3)" by (rule lock_step [where op = RLock]) (use p in simp_all)
  moreover have "lockStep (?L [0] None, ?p3) (?L [0] (Some 1), ?p3(1 := ?w))" by (rule lock_step [where op = LockAnnounce]) simp_all
  ultimately have "lockReach (freeLock, prog) (?L [0] (Some 1), ?p3(1 := ?w))" by (meson lock_refl lock_more)
  then show thesis by (rule that) simp_all
qed

end
