(* ===== verification/CommandLine.thy ===== *)
theory CommandLine
  imports Server
begin

text \<open>
  The settings before the command runs (\<open>main\<close> of \<open>main.go\<close>): the value \<open>main\<close>
  creates and the flags it declares. A flag of \<open>pflag\<close> is bound to a variable, which it sets
  to the default of the flag when it is declared and to the given value when it is on the command
  line; how the command line is split and its values are read is \<open>pflag\<close>'s. Here the variable is
  a field of \<open>mainCommand\<close>, given by its selector and its update.

  The lemmas show that each setting is controlled by its own flag and by no other, and what the
  command does when it is given none.
\<close>

subsection \<open>Flags and their variables\<close>

datatype flagValue = BoolValue bool | StringValue string | Uint16Value nat | Uint32Value nat | DurationValue int

fun sameKind :: "flagValue \<Rightarrow> flagValue \<Rightarrow> bool" where
  "sameKind (BoolValue _) (BoolValue _) = True"
| "sameKind (StringValue _) (StringValue _) = True"
| "sameKind (Uint16Value _) (Uint16Value _) = True"
| "sameKind (Uint32Value _) (Uint32Value _) = True"
| "sameKind (DurationValue _) (DurationValue _) = True"
| "sameKind _ _ = False"

record flag =
  flagName :: string
  flagDefault :: flagValue
  loadVar :: "mainCommand \<Rightarrow> flagValue"
  storeVar :: "flagValue \<Rightarrow> mainCommand \<Rightarrow> mainCommand"

definition BoolVar :: "(mainCommand \<Rightarrow> bool) \<Rightarrow> ((bool \<Rightarrow> bool) \<Rightarrow> mainCommand \<Rightarrow> mainCommand) \<Rightarrow> string \<Rightarrow> bool \<Rightarrow> flag" where
  "BoolVar sel upd name v = \<lparr>flagName = name, flagDefault = BoolValue v, loadVar = (\<lambda>cc. BoolValue (sel cc)),
     storeVar = (\<lambda>x cc. case x of BoolValue b \<Rightarrow> upd (\<lambda>_. b) cc | _ \<Rightarrow> cc)\<rparr>"

definition StringVar :: "(mainCommand \<Rightarrow> string) \<Rightarrow> ((string \<Rightarrow> string) \<Rightarrow> mainCommand \<Rightarrow> mainCommand) \<Rightarrow> string \<Rightarrow> string \<Rightarrow> flag" where
  "StringVar sel upd name v = \<lparr>flagName = name, flagDefault = StringValue v, loadVar = (\<lambda>cc. StringValue (sel cc)),
     storeVar = (\<lambda>x cc. case x of StringValue b \<Rightarrow> upd (\<lambda>_. b) cc | _ \<Rightarrow> cc)\<rparr>"

definition Uint16Var :: "(mainCommand \<Rightarrow> nat) \<Rightarrow> ((nat \<Rightarrow> nat) \<Rightarrow> mainCommand \<Rightarrow> mainCommand) \<Rightarrow> string \<Rightarrow> nat \<Rightarrow> flag" where
  "Uint16Var sel upd name v = \<lparr>flagName = name, flagDefault = Uint16Value v, loadVar = (\<lambda>cc. Uint16Value (sel cc)),
     storeVar = (\<lambda>x cc. case x of Uint16Value b \<Rightarrow> upd (\<lambda>_. b) cc | _ \<Rightarrow> cc)\<rparr>"

definition Uint32Var :: "(mainCommand \<Rightarrow> nat) \<Rightarrow> ((nat \<Rightarrow> nat) \<Rightarrow> mainCommand \<Rightarrow> mainCommand) \<Rightarrow> string \<Rightarrow> nat \<Rightarrow> flag" where
  "Uint32Var sel upd name v = \<lparr>flagName = name, flagDefault = Uint32Value v, loadVar = (\<lambda>cc. Uint32Value (sel cc)),
     storeVar = (\<lambda>x cc. case x of Uint32Value b \<Rightarrow> upd (\<lambda>_. b) cc | _ \<Rightarrow> cc)\<rparr>"

definition DurationVar :: "(mainCommand \<Rightarrow> int) \<Rightarrow> ((int \<Rightarrow> int) \<Rightarrow> mainCommand \<Rightarrow> mainCommand) \<Rightarrow> string \<Rightarrow> int \<Rightarrow> flag" where
  "DurationVar sel upd name v = \<lparr>flagName = name, flagDefault = DurationValue v, loadVar = (\<lambda>cc. DurationValue (sel cc)),
     storeVar = (\<lambda>x cc. case x of DurationValue b \<Rightarrow> upd (\<lambda>_. b) cc | _ \<Rightarrow> cc)\<rparr>"

subsection \<open>The command of \<open>main\<close>\<close>

definition initialCommand :: mainCommand where
  "initialCommand =
     \<lparr>testnet = False, testnet4 = False, regtest = False, signet = False, mcLightMode = False, mcIndexSPTweakData = False,
      mcIndexCustomFilters = False, mcPrevOutCacheSizeMiB = 0, mcBaseDir = '''', mcLogDir = '''', mcLogLevel = '''', mcIndexPage = '''',
      mcListenAddr = ''localhost:'' @ decimal defaultListenPort, mcReOrgSafeDepth = 0, mcReadTimeout = 0, mcWriteTimeout = 0,
      mcDisableTLS = True, mcHTTPPostMode = True, mcBackendHost = '''', mcBackendUser = '''', mcBackendPass = ''''\<rparr>"

definition persistentFlags :: "string \<Rightarrow> mainCommand \<Rightarrow> flag list" where
  "persistentFlags workDir cc =
     [BoolVar testnet testnet_update ''testnet'' False,
      BoolVar testnet4 testnet4_update ''testnet4'' False,
      BoolVar regtest regtest_update ''regtest'' False,
      BoolVar signet signet_update ''signet'' False,
      BoolVar mcLightMode mcLightMode_update ''light-mode'' False,
      BoolVar mcIndexSPTweakData mcIndexSPTweakData_update ''index-sp-tweak-data'' False,
      BoolVar mcIndexCustomFilters mcIndexCustomFilters_update ''index-custom-filters'' False,
      Uint16Var mcPrevOutCacheSizeMiB mcPrevOutCacheSizeMiB_update ''prev-out-cache-size-mib'' 1024,
      StringVar mcBaseDir mcBaseDir_update ''base-dir'' '''',
      StringVar mcLogDir mcLogDir_update ''log-dir'' workDir,
      StringVar mcLogLevel mcLogLevel_update ''log-level'' ''info'',
      StringVar mcIndexPage mcIndexPage_update ''index-page'' '''',
      StringVar mcListenAddr mcListenAddr_update ''listen-addr'' (mcListenAddr cc),
      StringVar mcBackendHost mcBackendHost_update ''bitcoind-host'' ''localhost:8332'',
      StringVar mcBackendUser mcBackendUser_update ''bitcoind-user'' '''',
      StringVar mcBackendPass mcBackendPass_update ''bitcoind-pass'' '''',
      Uint32Var mcReOrgSafeDepth mcReOrgSafeDepth_update ''reorg-safe-depth'' defaultMainnetReOrgSafeDepth,
      DurationVar mcReadTimeout mcReadTimeout_update ''read-timeout'' defaultReadTimeout,
      DurationVar mcWriteTimeout mcWriteTimeout_update ''write-timeout'' defaultWriteTimeout]"

text \<open>The flags of \<open>main\<close>, and the settings once those of the command line have been stored, in its order.\<close>

definition mainFlags :: "string \<Rightarrow> flag list" where "mainFlags workDir = persistentFlags workDir initialCommand"

definition declared :: "string \<Rightarrow> mainCommand" where
  "declared workDir = fold (\<lambda>f. storeVar f (flagDefault f)) (mainFlags workDir) initialCommand"

definition settings :: "string \<Rightarrow> (flag \<times> flagValue) list \<Rightarrow> mainCommand" where
  "settings workDir given = fold (\<lambda>(f, v). storeVar f v) given (declared workDir)"

subsection \<open>Every setting has its own flag\<close>

lemmas flag_kinds = BoolVar_def StringVar_def Uint16Var_def Uint32Var_def DurationVar_def

lemma names_distinct: "distinct (map flagName (mainFlags wd))"
  by (simp add: mainFlags_def persistentFlags_def flag_kinds)

lemma sameKind_iff:
  "sameKind (BoolValue a) v \<longleftrightarrow> (\<exists>b. v = BoolValue b)" "sameKind (StringValue s) v \<longleftrightarrow> (\<exists>t. v = StringValue t)"
  "sameKind (Uint16Value n) v \<longleftrightarrow> (\<exists>m. v = Uint16Value m)" "sameKind (Uint32Value n) v \<longleftrightarrow> (\<exists>m. v = Uint32Value m)"
  "sameKind (DurationValue i) v \<longleftrightarrow> (\<exists>j. v = DurationValue j)"
  by (cases v; simp)+

lemma sameKind_refl [simp]: "sameKind v v"
  by (cases v) simp_all

lemma load_store:
  assumes "f \<in> set (mainFlags wd)" "sameKind (flagDefault f) v"
  shows "loadVar f (storeVar f v cc) = v"
  using assms by (auto simp: mainFlags_def persistentFlags_def flag_kinds sameKind_iff)

text \<open>Two flags do not disturb each other; the order in which they are declared does not matter for that.\<close>

definition apart :: "flag \<Rightarrow> flag \<Rightarrow> bool" where
  "apart f g \<longleftrightarrow> (\<forall>v cc. loadVar f (storeVar g v cc) = loadVar f cc \<and> loadVar g (storeVar f v cc) = loadVar g cc)"

lemma flags_apart: "sorted_wrt apart (mainFlags wd)"
  unfolding mainFlags_def persistentFlags_def
  by (simp add: flag_kinds apart_def split: flagValue.split)

lemma store_other:
  assumes "f \<in> set (mainFlags wd)" "g \<in> set (mainFlags wd)" "flagName f \<noteq> flagName g"
  shows "loadVar f (storeVar g v cc) = loadVar f cc"
proof -
  obtain i j where ij: "i < length (mainFlags wd)" "f = mainFlags wd ! i" "j < length (mainFlags wd)" "g = mainFlags wd ! j"
    using assms(1,2) by (metis in_set_conv_nth)
  then have "i < j \<or> j < i" using assms(3) by (metis linorder_neqE_nat)
  then show ?thesis using flags_apart [of wd] ij by (auto simp: sorted_wrt_iff_nth_less apart_def)
qed

lemma name_inj:
  assumes "f \<in> set (mainFlags wd)" "g \<in> set (mainFlags wd)" "flagName f = flagName g"
  shows "f = g"
  using names_distinct [of wd] assms by (auto simp: distinct_map dest: inj_onD)

lemma fold_stores:
  assumes "f \<in> set (mainFlags wd)" and "\<forall>(g, v) \<in> set given. g \<in> set (mainFlags wd) \<and> sameKind (flagDefault g) v"
  shows "loadVar f (fold (\<lambda>(g, v). storeVar g v) given cc) =
    (case map_of (rev (map (map_prod flagName id) given)) (flagName f) of None \<Rightarrow> loadVar f cc | Some v \<Rightarrow> v)"
  using assms(2)
proof (induction given rule: rev_induct)
  case (snoc gv given)
  obtain g v where [simp]: "gv = (g, v)" by fastforce
  from snoc.prems have g: "g \<in> set (mainFlags wd)" "sameKind (flagDefault g) v" by simp_all
  show ?case
  proof (cases "flagName g = flagName f")
    case True
    then have "g = f" by (rule name_inj [OF g(1) assms(1)])
    with g show ?thesis by (simp add: load_store)
  next
    case False
    with snoc store_other [OF assms(1) g(1)] show ?thesis by simp
  qed
qed simp

text \<open>The last value given for the flag with a name, or what the flag has without.\<close>

definition givenOr :: "(flag \<times> flagValue) list \<Rightarrow> string \<Rightarrow> flagValue \<Rightarrow> flagValue" where
  "givenOr given name d = (case map_of (rev (map (map_prod flagName id) given)) name of None \<Rightarrow> d | Some v \<Rightarrow> v)"

lemma setting_of_flag:
  assumes "f \<in> set (mainFlags wd)" and "\<forall>(g, v) \<in> set given. g \<in> set (mainFlags wd) \<and> sameKind (flagDefault g) v"
  shows "loadVar f (settings wd given) = givenOr given (flagName f) (flagDefault f)"
proof -
  let ?defaults = "map (\<lambda>f. (f, flagDefault f)) (mainFlags wd)"
  have "declared wd = fold (\<lambda>(g, v). storeVar g v) ?defaults initialCommand" by (simp add: declared_def fold_map comp_def)
  moreover have "map_of (rev (map (map_prod flagName id) ?defaults)) (flagName f) = Some (flagDefault f)"
    using assms(1) names_distinct [of wd] by (intro map_of_is_SomeI) (auto simp: comp_def rev_map [symmetric])
  ultimately have "loadVar f (declared wd) = flagDefault f"
    using fold_stores [OF assms(1), of ?defaults initialCommand] by auto
  with fold_stores [OF assms, of "declared wd"] show ?thesis by (simp add: settings_def givenOr_def split: option.split)
qed

lemma fixed_settings:
  assumes "\<forall>(g, v) \<in> set given. g \<in> set (mainFlags wd)"
  shows "mcDisableTLS (settings wd given) \<and> mcHTTPPostMode (settings wd given)"
proof -
  have keep: "mcDisableTLS (storeVar g v cc) = mcDisableTLS cc \<and> mcHTTPPostMode (storeVar g v cc) = mcHTTPPostMode cc"
    if "g \<in> set (mainFlags wd)" for g v cc
    using that by (cases v) (auto simp: mainFlags_def persistentFlags_def flag_kinds)
  have all: "mcDisableTLS (fold (\<lambda>(g, v). storeVar g v) xs cc) = mcDisableTLS cc \<and> mcHTTPPostMode (fold (\<lambda>(g, v). storeVar g v) xs cc) = mcHTTPPostMode cc"
    if "\<forall>(g, v) \<in> set xs. g \<in> set (mainFlags wd)" for xs cc
    using that by (induction xs arbitrary: cc) (auto simp: keep)
  have "declared wd = fold (\<lambda>(g, v). storeVar g v) (map (\<lambda>f. (f, flagDefault f)) (mainFlags wd)) initialCommand"
    by (simp add: declared_def fold_map comp_def)
  with all [of "map (\<lambda>f. (f, flagDefault f)) (mainFlags wd)"] have "mcDisableTLS (declared wd) \<and> mcHTTPPostMode (declared wd)"
    by (auto simp: initialCommand_def)
  with all [OF assms] show ?thesis by (simp add: settings_def)
qed

text \<open>
  Claim C38. Which flag controls which setting, and what it is without: each of the settings of the
  command is the last value given for the flag of this name on the command line, whatever
  other flags are given with it, and the value named here when the flag is not given (durations in
  nanoseconds; the directory of the log is the working directory). The two settings of the
  backend's connection that have no flag are on.
\<close>

theorem flags_set_settings:
  assumes "\<forall>(g, v) \<in> set given. g \<in> set (mainFlags wd) \<and> sameKind (flagDefault g) v"
  shows "BoolValue (testnet (settings wd given)) = givenOr given ''testnet'' (BoolValue False) \<and>
    BoolValue (testnet4 (settings wd given)) = givenOr given ''testnet4'' (BoolValue False) \<and>
    BoolValue (regtest (settings wd given)) = givenOr given ''regtest'' (BoolValue False) \<and>
    BoolValue (signet (settings wd given)) = givenOr given ''signet'' (BoolValue False) \<and>
    BoolValue (mcLightMode (settings wd given)) = givenOr given ''light-mode'' (BoolValue False) \<and>
    BoolValue (mcIndexSPTweakData (settings wd given)) = givenOr given ''index-sp-tweak-data'' (BoolValue False) \<and>
    BoolValue (mcIndexCustomFilters (settings wd given)) = givenOr given ''index-custom-filters'' (BoolValue False) \<and>
    Uint16Value (mcPrevOutCacheSizeMiB (settings wd given)) = givenOr given ''prev-out-cache-size-mib'' (Uint16Value 1024) \<and>
    StringValue (mcBaseDir (settings wd given)) = givenOr given ''base-dir'' (StringValue '''') \<and>
    StringValue (mcLogDir (settings wd given)) = givenOr given ''log-dir'' (StringValue wd) \<and>
    StringValue (mcLogLevel (settings wd given)) = givenOr given ''log-level'' (StringValue ''info'') \<and>
    StringValue (mcIndexPage (settings wd given)) = givenOr given ''index-page'' (StringValue '''') \<and>
    StringValue (mcListenAddr (settings wd given)) = givenOr given ''listen-addr'' (StringValue ''localhost:8080'') \<and>
    StringValue (mcBackendHost (settings wd given)) = givenOr given ''bitcoind-host'' (StringValue ''localhost:8332'') \<and>
    StringValue (mcBackendUser (settings wd given)) = givenOr given ''bitcoind-user'' (StringValue '''') \<and>
    StringValue (mcBackendPass (settings wd given)) = givenOr given ''bitcoind-pass'' (StringValue '''') \<and>
    Uint32Value (mcReOrgSafeDepth (settings wd given)) = givenOr given ''reorg-safe-depth'' (Uint32Value 6) \<and>
    DurationValue (mcReadTimeout (settings wd given)) = givenOr given ''read-timeout'' (DurationValue 5000000000) \<and>
    DurationValue (mcWriteTimeout (settings wd given)) = givenOr given ''write-timeout'' (DurationValue 300000000000) \<and>
    mcDisableTLS (settings wd given) \<and> mcHTTPPostMode (settings wd given)"
proof -
  note law = setting_of_flag [OF _ assms]
  have "(of_char (digitChar 8) :: nat) = of_char (CHR ''8'')" "(of_char (digitChar 0) :: nat) = of_char (CHR ''0'')" by simp_all
  then have "digitChar 8 = CHR ''8''" "digitChar 0 = CHR ''0''" by (simp_all only: of_char_eq_iff)
  then have port: "decimal 8080 = ''8080''" by (simp add: decimal.simps)
  have fixed: "mcDisableTLS (settings wd given) \<and> mcHTTPPostMode (settings wd given)" by (rule fixed_settings) (use assms in auto)
  have "list_all (\<lambda>f. loadVar f (settings wd given) = givenOr given (flagName f) (flagDefault f)) (mainFlags wd)"
    using law by (simp add: list_all_iff)
  with fixed show ?thesis
    by (simp add: mainFlags_def persistentFlags_def flag_kinds initialCommand_def defaultListenPort_def port
        defaultMainnetReOrgSafeDepth_def defaultReadTimeout_def defaultWriteTimeout_def)
qed

lemma flags_set_settings_witness:
  "mcBaseDir (settings ''/w'' [(mainFlags ''/w'' ! 8, StringValue ''/a''), (mainFlags ''/w'' ! 3, BoolValue True), (mainFlags ''/w'' ! 8, StringValue ''/b'')]) = ''/b'' \<and>
   signet (settings ''/w'' [(mainFlags ''/w'' ! 8, StringValue ''/a''), (mainFlags ''/w'' ! 3, BoolValue True), (mainFlags ''/w'' ! 8, StringValue ''/b'')]) \<and>
   mcReadTimeout (settings ''/w'' [(mainFlags ''/w'' ! 8, StringValue ''/a''), (mainFlags ''/w'' ! 3, BoolValue True), (mainFlags ''/w'' ! 8, StringValue ''/b'')]) = 5000000000"
proof -
  let ?g = "[(mainFlags ''/w'' ! 8, StringValue ''/a''), (mainFlags ''/w'' ! 3, BoolValue True), (mainFlags ''/w'' ! 8, StringValue ''/b'')]"
  have f: "mainFlags ''/w'' ! 8 = StringVar mcBaseDir mcBaseDir_update ''base-dir'' ''''" "mainFlags ''/w'' ! 3 = BoolVar signet signet_update ''signet'' False"
    by (simp_all add: mainFlags_def persistentFlags_def)
  have n: "length (mainFlags ''/w'') = 19" by (simp add: mainFlags_def persistentFlags_def)
  have m: "mainFlags ''/w'' ! 8 \<in> set (mainFlags ''/w'')" "mainFlags ''/w'' ! 3 \<in> set (mainFlags ''/w'')" by (simp_all add: n)
  have k: "\<forall>(g, v) \<in> set ?g. g \<in> set (mainFlags ''/w'') \<and> sameKind (flagDefault g) v"
    using m f by (simp add: StringVar_def BoolVar_def)
  have "StringValue (mcBaseDir (settings ''/w'' ?g)) = givenOr ?g ''base-dir'' (StringValue '''')"
    "BoolValue (signet (settings ''/w'' ?g)) = givenOr ?g ''signet'' (BoolValue False)"
    "DurationValue (mcReadTimeout (settings ''/w'' ?g)) = givenOr ?g ''read-timeout'' (DurationValue 5000000000)"
    using flags_set_settings [OF k] by blast+
  then show ?thesis by (simp add: givenOr_def f StringVar_def BoolVar_def)
qed

text \<open>Without a flag, the command asks for the base directory and does nothing.\<close>

lemma no_flags_refused: "run E B W X paramsOf (settings wd []) s = (Inl (Errf ''Base directory must be set if not running in light mode'' []), s)"
proof -
  have "mcBaseDir (declared wd) = ''''" "\<not> mcLightMode (declared wd)" "\<not> testnet (declared wd)" "\<not> testnet4 (declared wd)"
    "\<not> signet (declared wd)" "\<not> regtest (declared wd)"
    by (simp_all add: declared_def mainFlags_def persistentFlags_def flag_kinds)
  then show ?thesis by (simp add: settings_def run_def resolveNetwork_def Let_def goFail_def)
qed

end
