(* ===== verification/Spec2Isabelle.thy ===== *)
theory Spec2Isabelle
  imports IndexServer VerifyAccepts CacheLock CommandLine
begin

text \<open>
  A verification of \<^bold>\<open>block-dn\<close>, a server that turns the block chain of a bitcoind node
  into static files (block headers, filter headers, BIP157 filters, Silent Payments tweaks,
  custom filters) and serves them over HTTP, and of its command \<open>verify\<close>, which checks
  and repairs those files.

  \<^bold>\<open>The program.\<close> Four \<^emph>\<open>producers\<close> follow the backend's chain. Each keeps the
  newest blocks in memory and, once a whole range of heights is deeper than the re-org-safe
  depth, writes (\<^emph>\<open>seals\<close>) it to files that never change again; a re-org is rolled back
  in memory, one that reaches a sealed file is refused. All share the cache of block hashes.
  The HTTP handlers answer a request from the sealed file, or from memory for the heights
  above. The server starts the producers as background tasks beside the web server.

  \<^bold>\<open>What the program is given.\<close> Everything outside \<open>src/\<close> is an argument: the backend
  (a view of the chain per moment, so it may fail, move on or re-organize between any two
  calls), a fault per file operation, the hash function and the codecs of btcd, the REST
  interface, the services behind the handlers (records \<open>env\<close>, \<open>blockEnv\<close>,
  \<open>webEnv\<close>, \<open>toolEnv\<close>, \<open>backendEnv\<close>). What properties need of it are named
  predicates: \<open>header_codec\<close>, \<open>wire_codec\<close>, \<open>hash_codec\<close> (reading inverts
  writing, sizes are right), \<open>header_by_hash\<close>, \<open>boundedBackend\<close>, \<open>serves\<close>
  (the backend serves one chain and nothing fails), \<open>servesBlocks\<close> (and its blocks over
  REST), \<open>validChain\<close>, \<open>tweakable\<close> and \<open>filterable\<close> (the libraries for tweaks and
  filters accept these blocks); that hashes do not
  collide is \<open>inj_on\<close> on the set of strings at hand. \<open>Demo\<close> has one instance in
  which they hold together, with Bitcoin's variable-length integers and a miniature chain.

  \<^bold>\<open>The theories\<close>, in the order of the code:
  \<^item> \<open>Prelude\<close>: \<open>int32\<close>/\<open>int64\<close> arithmetic with its wrap-around, errors as values,
    the state-and-error monad \<open>go\<close>, and \<open>keeps\<close>, by which frames are proved for a
    whole method at once. \<open>FileNames\<close>: the names of sealed files and how a restart reads
    them back (\<open>cfilter-files.go\<close>). \<open>Backend\<close>: the environment, the disk and its
    operations.
  \<^item> \<open>H2HCache\<close> (\<open>height-to-hash-cache.go\<close>): the cache, its loading, lookup and
    invalidation. \<open>CacheLock\<close>: its lock, operation by operation; the operations of the
    cache cannot deadlock, the handlers that take the lock around them can.
  \<^item> \<open>FileProducer\<close> (\<open>file-producer.go\<close>): the life cycle of a producer over its
    hooks. The locale \<open>file_producer\<close> states what a producer's hooks promise; in it are
    proved the invariant of the in-memory tail, that sealed files stay, sealing, re-orgs,
    following the backend and resuming. \<open>HeaderFiles\<close>, \<open>CFilterFiles\<close>,
    \<open>SilentPayments\<close>, \<open>CustomFilters\<close> (the files of the same names) are the four
    producers; each interprets the locale and has the properties of its own formats and
    checks. \<open>BlockPrevouts\<close> (\<open>block-prevouts.go\<close>): fetching blocks with the outputs
    they spend, and the prefetcher. \<open>Producers\<close> has the laws for all four.
  \<^item> \<open>Faithful\<close>: the abstract specification. The locale \<open>faithful_producer\<close> adds to
    the interface that sealing writes what the chain prescribes; header and filter producer
    refine the chain. \<open>ServedBlocks\<close>: the same for whole blocks, fetched over REST through
    the prefetcher; on it \<open>SPFaithful\<close> and \<open>CustomFaithful\<close> show that the tweak
    producer and the custom filter producer refine the chain too.
  \<^item> \<open>Http\<close>, \<open>Handlers\<close> (\<open>handlers.go\<close>, \<open>models.go\<close>): requests, responses and
    every route. \<open>Endpoints\<close>: the locale \<open>batch_endpoint\<close> for the endpoints that
    answer by height; downloads, imports, range requests, errors, and places where the code
    falls short. Three handlers look a hash up with the read lock of the cache taken; when it
    is not cached and the backend knows it they wait for themselves and never return. In
    \<open>Handlers\<close> such a request leaves its writer \<open>hung\<close> and the cache with
    \<open>writerWaits\<close>, after which every lookup of a handler hangs. The properties that say a request is
    answered say that it returns, and ask for the hashes of the tail to be cached
    (\<open>Endpoints.ready\<close>); catching up after a start puts them there
    (\<open>Faithful.startUp_faithful\<close>).
  \<^item> \<open>Verify\<close> (\<open>verify.go\<close>); \<open>VerifyProofs\<close>, \<open>VerifyAccepts\<close>: after a
    clean run the header files and the contents of the filter files are right, and of the filter headers those
    at the ends of filter files; right files give a clean run, repairs are atomic and right.
  \<^item> \<open>Config\<close>, \<open>CommandLine\<close> (\<open>main.go\<close>): the settings, the flags that set them and
    the choice of the network. \<open>Server\<close> (\<open>server.go\<close> and the command of
    \<open>main.go\<close>): start, the background tasks as steps of the record \<open>daemon\<close>, the
    wait for a signal or an error, stop. \<open>System\<close>: however the tasks and requests
    interleave, nobody disturbs the other's files. \<open>Startup\<close>: what a start establishes.
    \<open>EndToEnd\<close>: from the start to the download of the whole chain. \<open>IndexServer\<close>: from
    the start to the answers for tweaks, custom filters and their headers.

  \<^bold>\<open>State and time.\<close> A Go method is a function on an explicit state that returns a value or
  an error together with the new state. Every backend call and every file operation advances
  the clock \<open>now\<close>, which selects the answer or the fault; so \<^emph>\<open>for every environment\<close>
  means for every sequence of answers and faults. The disk is an association list; a failed
  write leaves what it has written. A step of the running server is a whole turn of one task
  (its catch-up, or one turn of its poll loop) or one request, whether it returns or hangs.

  \<^bold>\<open>Bounds and fuel.\<close> Heights are assumed at most \<open>heightBound\<close>, 1000000000, less than half of the largest
  \<open>int32\<close>, where the code's additions cannot wrap; heights in file names are below ten
  million, because the pattern that reads them back has seven digits. Loops over heights are
  iterations over a list; the other loops take a budget, and running out of it is an error
  value of its own (\<open>ErrOutOfFuel\<close>). The budgets are computed from the state and proved
  to be enough: the number of heights up to the safe tip for sealing, the length of the input
  for parsers, the number of files for walks over a directory. The poll loop, which ends
  only with the program, is unrolled any number of times.

  \<^bold>\<open>Not modelled.\<close> Log output, throughput statistics and the warning about legacy files;
  in \<open>main.go\<close> the set-up of logging, and with it the panic when the log file cannot be
  written, and the parsing of the command line, which is \<open>pflag\<close>'s; what \<open>verify\<close> prints; a response that cannot be written to its
  client; the moments inside a turn of a task at which a request could look, except for the
  import in \<open>Endpoints.import_race\<close> and for the lock operations in \<open>CacheLock\<close>; that a
  task blocks once a request that hangs has left the lock of the cache asked for; the locks other than that of the cache; the
  contents of \<open>index.html\<close>, and the transport settings of HTTP clients.
\<close>

end
